(* ===== verification/Prelude.thy ===== *)
theory Prelude
  imports Main "HOL-Library.Word"
begin

text \<open>
  Generic material the components share: the result of a C function that may leave by a
  non-local jump or run into undefined behaviour, the way such calls are sequenced, and
  lemmas on lists and results.

  A C function that touches the machine state of type \<open>'s\<close> is modelled as a function into
  \<open>('a, 's) res\<close>:
  \<^item> \<open>Ok x s\<close>: it returned \<open>x\<close> and left the state \<open>s\<close>;
  \<^item> \<open>Throw s\<close>: it left by \<open>longjmp\<close> to the installed error handler (the error message is in \<open>s\<close>);
  \<^item> \<open>Fault f\<close>: the process stopped or the behaviour is undefined, for the reason \<open>f\<close>.
\<close>

datatype fault =
    Aborted              \<comment> \<open>a call of \<open>abort()\<close>\<close>
  | AssertFailed         \<comment> \<open>a failed \<open>assert\<close>\<close>
  | NullDeref            \<comment> \<open>a read or write through a null pointer\<close>
  | OutOfBounds          \<comment> \<open>an access outside an array\<close>
  | DivByZero            \<comment> \<open>integer division or remainder by zero\<close>
  | SignedOverflow       \<comment> \<open>a signed integer result outside its type\<close>
  | Indeterminate        \<comment> \<open>a read of an uninitialised object\<close>
  | TypeConfusion        \<comment> \<open>a union read as a member that was not stored\<close>
  | Dangling             \<comment> \<open>an address that no object of the expected kind has\<close>
  | Deadlock             \<comment> \<open>a lock taken twice by its owner\<close>
  | OutOfFuel            \<comment> \<open>the step budget of the model is used up, the code goes on\<close>

datatype ('a, 's) res = Ok 'a 's | Throw 's | Fault fault

fun rbind :: "('a, 's) res \<Rightarrow> ('a \<Rightarrow> 's \<Rightarrow> ('b, 's) res) \<Rightarrow> ('b, 's) res" where
  "rbind (Ok x s) f = f x s"
| "rbind (Throw s) f = Throw s"
| "rbind (Fault e) f = Fault e"

text \<open>A C \<open>assert\<close>.\<close>

definition assert_that :: "bool \<Rightarrow> 's \<Rightarrow> (unit, 's) res" where
  "assert_that b s = (if b then Ok () s else Fault AssertFailed)"

text \<open>Reading a store of objects of one kind.\<close>

definition deref :: "('k \<Rightarrow> 'o option) \<Rightarrow> 'k \<Rightarrow> 's \<Rightarrow> ('o, 's) res" where
  "deref m a s = (case m a of Some x \<Rightarrow> Ok x s | None \<Rightarrow> Fault Dangling)"

named_theorems res_simps \<open>how results are sequenced and inspected\<close>
named_theorems frame_simps \<open>fields an operation leaves alone\<close>

lemma rbind_cong [fundef_cong]:
  "m = m' \<Longrightarrow> (\<And>x s. m' = Ok x s \<Longrightarrow> f x s = g x s) \<Longrightarrow> rbind m f = rbind m' g"
  by (cases m') auto

lemma rbind_assoc: "rbind (rbind m f) g = rbind m (\<lambda>x s. rbind (f x s) g)"
  by (cases m) auto

lemma rbind_Ok_iff [res_simps]:
  "rbind m f = Ok y t \<longleftrightarrow> (\<exists>x s. m = Ok x s \<and> f x s = Ok y t)"
  by (cases m) auto

lemma rbind_Throw_iff [res_simps]:
  "rbind m f = Throw t \<longleftrightarrow> m = Throw t \<or> (\<exists>x s. m = Ok x s \<and> f x s = Throw t)"
  by (cases m) auto

lemma assert_that_Ok [res_simps]: "assert_that b s = Ok u t \<longleftrightarrow> b \<and> t = s"
  by (auto simp: assert_that_def)

lemma assert_that_not_Throw [simp]: "assert_that b s \<noteq> Throw t"
  by (simp add: assert_that_def)

lemma assert_that_True [simp]: "assert_that True s = Ok () s"
  by (simp add: assert_that_def)

lemma deref_Ok [res_simps]: "deref m a s = Ok x t \<longleftrightarrow> m a = Some x \<and> t = s"
  by (auto simp: deref_def split: option.splits)

lemma deref_not_Throw [simp]: "deref m a s \<noteq> Throw t"
  by (simp add: deref_def split: option.splits)

lemma deref_Some [simp]: "m a = Some x \<Longrightarrow> deref m a s = Ok x s"
  by (simp add: deref_def)

text \<open>
  A predicate on the state that a result leaves, on return and on a non-local jump alike:
  what an invariant lemma states of an operation.
\<close>

fun leaves :: "('s \<Rightarrow> bool) \<Rightarrow> ('a, 's) res \<Rightarrow> bool" where
  "leaves P (Ok x s) = P s"
| "leaves P (Throw s) = P s"
| "leaves P (Fault e) = True"

lemma leaves_rbind:
  "leaves P m \<Longrightarrow> (\<And>x s. m = Ok x s \<Longrightarrow> P s \<Longrightarrow> leaves P (f x s)) \<Longrightarrow> leaves P (rbind m f)"
  by (cases m) auto

lemma leaves_assert [simp]: "P s \<Longrightarrow> leaves P (assert_that b s)"
  by (simp add: assert_that_def)

lemma leaves_deref [simp]: "P s \<Longrightarrow> leaves P (deref m a s)"
  by (simp add: deref_def split: option.splits)

lemma leaves_mono: "leaves P m \<Longrightarrow> (\<And>s. P s \<Longrightarrow> Q s) \<Longrightarrow> leaves Q m"
  by (cases m) auto

text \<open>An operation that gives a pair, and what follows it.\<close>

lemma leaves_pair:
  "(\<And>x t. m = (x, t) \<Longrightarrow> Q t) \<Longrightarrow> (\<And>x t. Q t \<Longrightarrow> leaves P (f x t)) \<Longrightarrow> leaves P (case m of (x, t) \<Rightarrow> f x t)"
  by (cases m) auto

text \<open>Lists updated by index.\<close>

lemma take_list_update_beyond [simp]: "n \<le> i \<Longrightarrow> take n (xs[i := x]) = take n xs"
  by (simp add: take_update_swap list_update_beyond)

lemma take_Suc_update:
  "n < length xs \<Longrightarrow> take (Suc n) (xs[n := x]) = take n xs @ [x]"
  by (simp add: take_Suc_conv_app_nth)

text \<open>Bytes of a string literal.\<close>

type_synonym byte = "8 word"

definition bytes_of :: "string \<Rightarrow> byte list" where
  "bytes_of s = map of_char s"

text \<open>The range of a C \<open>int\<close>.\<close>

definition INT_MAX :: int where "INT_MAX = 2147483647"
definition INT_MIN :: int where "INT_MIN = -2147483648"

definition int_ok :: "int \<Rightarrow> bool" where
  "int_ok i \<longleftrightarrow> INT_MIN \<le> i \<and> i \<le> INT_MAX"

end
