(* ===== verification/Doubles.thy ===== *)
theory Doubles
  imports Prelude "HOL-Library.Log_Nat"
begin

text \<open>
  C \<open>double\<close> (\<open>fluffyvm_number\<close>) as its 64 bit IEEE 754 binary64 pattern, with the operations
  the virtual machine uses, rounding to nearest, ties to even. A finite double is an integer
  mantissa times a power of two, so each operation is computed exactly on integers and rounded
  once. The pattern itself matters in the source: tables hash it, and \<open>value_is_less\<close> reads it
  as an integer. A NaN result is the quiet NaN \<open>0x7FF8000000000000\<close>.
\<close>

unbundle bit_operations_syntax

type_synonym dbl = "64 word"

definition fp_neg :: "dbl \<Rightarrow> bool" where
  "fp_neg x = bit x 63"

definition fp_exp :: "dbl \<Rightarrow> nat" where
  "fp_exp x = unat (drop_bit 52 x AND 0x7FF)"

definition fp_frac :: "dbl \<Rightarrow> nat" where
  "fp_frac x = unat (x AND 0xFFFFFFFFFFFFF)"

definition fp_is_nan :: "dbl \<Rightarrow> bool" where
  "fp_is_nan x \<longleftrightarrow> fp_exp x = 2047 \<and> fp_frac x \<noteq> 0"

definition fp_is_inf :: "dbl \<Rightarrow> bool" where
  "fp_is_inf x \<longleftrightarrow> fp_exp x = 2047 \<and> fp_frac x = 0"

text \<open>Magnitude of a finite double: \<open>fp_mant x * 2 ^ (fp_scale x - 1075)\<close>.\<close>

definition fp_mant :: "dbl \<Rightarrow> nat" where
  "fp_mant x = (if fp_exp x = 0 then fp_frac x else 2 ^ 52 + fp_frac x)"

definition fp_scale :: "dbl \<Rightarrow> nat" where
  "fp_scale x = (if fp_exp x = 0 then 1 else fp_exp x)"

definition fp_is_zero :: "dbl \<Rightarrow> bool" where
  "fp_is_zero x \<longleftrightarrow> fp_mant x = 0"

definition fp_NaN :: dbl where "fp_NaN = 0x7FF8000000000000"

definition fp_signed :: "bool \<Rightarrow> dbl \<Rightarrow> dbl" where
  "fp_signed s x = (if s then x OR 0x8000000000000000 else x)"

definition fp_inf :: "bool \<Rightarrow> dbl" where
  "fp_inf s = fp_signed s 0x7FF0000000000000"

text \<open>
  \<open>fp_round s p q e\<close> is the double nearest to \<open>p / q * 2 ^ e\<close>, with the sign \<open>s\<close>
  (\<open>p\<close> and \<open>q\<close> positive). It finds the exponent \<open>E\<close> of the leading bit, which is at least that of
  the subnormal numbers, scales the quotient so that its unit is the last place, rounds it, and
  adds it to the exponent field, where a carry out of the fraction lands. The steps are functions
  of their own, so that each intermediate number is computed once.
\<close>

definition fp_pack :: "bool \<Rightarrow> nat \<Rightarrow> dbl" where
  "fp_pack s bits = (if bits < 2047 * 2 ^ 52 then fp_signed s (word_of_nat bits) else fp_inf s)"

definition fp_round_quotient :: "bool \<Rightarrow> nat \<Rightarrow> nat \<Rightarrow> nat \<Rightarrow> int \<Rightarrow> dbl" where
  "fp_round_quotient s r0 rem den E =
     fp_pack s (nat (E + 1022) * 2 ^ 52
       + (if den < 2 * rem \<or> (2 * rem = den \<and> odd r0) then r0 + 1 else r0))"

definition fp_round_ratio :: "bool \<Rightarrow> nat \<Rightarrow> nat \<Rightarrow> int \<Rightarrow> dbl" where
  "fp_round_ratio s num den E = fp_round_quotient s (num div den) (num mod den) den E"

definition fp_round_shift :: "bool \<Rightarrow> nat \<Rightarrow> nat \<Rightarrow> int \<Rightarrow> int \<Rightarrow> dbl" where
  "fp_round_shift s p q sh E = fp_round_ratio s (p * 2 ^ nat sh) (q * 2 ^ nat (- sh)) E"

definition fp_round_exp :: "bool \<Rightarrow> nat \<Rightarrow> nat \<Rightarrow> int \<Rightarrow> int \<Rightarrow> dbl" where
  "fp_round_exp s p q e E = fp_round_shift s p q (e - E + 52) E"

definition fp_round_lead :: "bool \<Rightarrow> nat \<Rightarrow> nat \<Rightarrow> int \<Rightarrow> int \<Rightarrow> dbl" where
  "fp_round_lead s p q e k = fp_round_exp s p q e
     (max ((if q * 2 ^ nat k \<le> p * 2 ^ nat (- k) then k else k - 1) + e) (-1022))"

definition fp_round :: "bool \<Rightarrow> nat \<Rightarrow> nat \<Rightarrow> int \<Rightarrow> dbl" where
  "fp_round s p q e = fp_round_lead s p q e (int (floorlog 2 p) - int (floorlog 2 q))"

lemmas fp_round_eval = fp_round_def fp_round_lead_def fp_round_exp_def fp_round_shift_def
  fp_round_ratio_def fp_round_quotient_def fp_pack_def compute_floorlog fp_signed_def fp_inf_def

definition fp_round_int :: "int \<Rightarrow> int \<Rightarrow> dbl" where
  "fp_round_int n e = (if n = 0 then 0 else fp_round (n < 0) (nat \<bar>n\<bar>) 1 e)"

text \<open>The conversion \<open>(double) n\<close> of an integer.\<close>

definition fp_of_int :: "int \<Rightarrow> dbl" where
  "fp_of_int n = fp_round_int n 0"

definition fp_smant :: "dbl \<Rightarrow> int" where
  "fp_smant x = (if fp_neg x then - int (fp_mant x) else int (fp_mant x))"

text \<open>The comparisons \<open>==\<close>, \<open><\<close> and \<open>>=\<close>; an infinity is above every finite double.\<close>

definition fp_key :: "dbl \<Rightarrow> int" where
  "fp_key x = (let b = uint (x AND 0x7FFFFFFFFFFFFFFF) in if fp_neg x then - b else b)"

definition fp_eq :: "dbl \<Rightarrow> dbl \<Rightarrow> bool" where
  "fp_eq x y \<longleftrightarrow> \<not> fp_is_nan x \<and> \<not> fp_is_nan y \<and> fp_key x = fp_key y"

definition fp_less :: "dbl \<Rightarrow> dbl \<Rightarrow> bool" where
  "fp_less x y \<longleftrightarrow> \<not> fp_is_nan x \<and> \<not> fp_is_nan y \<and> fp_key x < fp_key y"

definition fp_ge :: "dbl \<Rightarrow> dbl \<Rightarrow> bool" where
  "fp_ge x y \<longleftrightarrow> \<not> fp_is_nan x \<and> \<not> fp_is_nan y \<and> fp_key y \<le> fp_key x"

definition fp_negate :: "dbl \<Rightarrow> dbl" where
  "fp_negate x = x XOR 0x8000000000000000"

definition fp_add :: "dbl \<Rightarrow> dbl \<Rightarrow> dbl" where
  "fp_add x y =
     (if fp_is_nan x \<or> fp_is_nan y then fp_NaN
      else if fp_is_inf x then (if fp_is_inf y \<and> fp_neg x \<noteq> fp_neg y then fp_NaN else x)
      else if fp_is_inf y then y
      else
        let m = min (fp_scale x) (fp_scale y);
            n = fp_smant x * 2 ^ (fp_scale x - m) + fp_smant y * 2 ^ (fp_scale y - m)
        in if n = 0 then fp_signed (fp_neg x \<and> fp_neg y) 0
           else fp_round_int n (int m - 1075))"

definition fp_sub :: "dbl \<Rightarrow> dbl \<Rightarrow> dbl" where
  "fp_sub x y = (if fp_is_nan x \<or> fp_is_nan y then fp_NaN else fp_add x (fp_negate y))"

definition fp_mul :: "dbl \<Rightarrow> dbl \<Rightarrow> dbl" where
  "fp_mul x y =
     (let s = (fp_neg x \<noteq> fp_neg y) in
      if fp_is_nan x \<or> fp_is_nan y then fp_NaN
      else if fp_is_inf x \<or> fp_is_inf y
        then (if fp_is_zero x \<or> fp_is_zero y then fp_NaN else fp_inf s)
      else if fp_is_zero x \<or> fp_is_zero y then fp_signed s 0
      else fp_round s (fp_mant x * fp_mant y) 1 (int (fp_scale x) + int (fp_scale y) - 2150))"

definition fp_div :: "dbl \<Rightarrow> dbl \<Rightarrow> dbl" where
  "fp_div x y =
     (let s = (fp_neg x \<noteq> fp_neg y) in
      if fp_is_nan x \<or> fp_is_nan y then fp_NaN
      else if fp_is_inf x then (if fp_is_inf y then fp_NaN else fp_inf s)
      else if fp_is_inf y then fp_signed s 0
      else if fp_is_zero y then (if fp_is_zero x then fp_NaN else fp_inf s)
      else if fp_is_zero x then fp_signed s 0
      else fp_round s (fp_mant x) (fp_mant y) (int (fp_scale x) - int (fp_scale y)))"

text \<open>\<open>fmod\<close>: the exact remainder with the sign of the dividend.\<close>

definition fp_fmod :: "dbl \<Rightarrow> dbl \<Rightarrow> dbl" where
  "fp_fmod x y =
     (if fp_is_nan x \<or> fp_is_nan y \<or> fp_is_inf x \<or> fp_is_zero y then fp_NaN
      else if fp_is_inf y then x
      else
        let m = min (fp_scale x) (fp_scale y);
            r = (fp_mant x * 2 ^ (fp_scale x - m)) mod (fp_mant y * 2 ^ (fp_scale y - m))
        in if r = 0 then fp_signed (fp_neg x) 0
           else fp_round (fp_neg x) r 1 (int m - 1075))"

text \<open>
  The conversion \<open>(int64_t) x\<close>: truncation towards zero; out of range (and NaN) it is
  undefined, which is \<open>None\<close>.
\<close>

definition fp_trunc :: "dbl \<Rightarrow> int" where
  "fp_trunc x =
     (let e = int (fp_scale x) - 1075;
          a = (if 0 \<le> e then fp_mant x * 2 ^ nat e else fp_mant x div 2 ^ nat (- e))
      in if fp_neg x then - int a else int a)"

definition fp_to_int64 :: "dbl \<Rightarrow> int option" where
  "fp_to_int64 x =
     (if fp_exp x = 2047 then None
      else let t = fp_trunc x in if - (2 ^ 63) \<le> t \<and> t < 2 ^ 63 then Some t else None)"

text \<open>Evaluating the operations on concrete patterns.\<close>

lemmas fp_eval = fp_of_int_def fp_round_int_def fp_ge_def fp_eq_def fp_less_def fp_key_def
  fp_div_def fp_mul_def fp_is_nan_def fp_is_inf_def fp_is_zero_def fp_mant_def fp_scale_def
  fp_exp_def fp_frac_def fp_neg_def Let_def fp_round_eval

lemma fp_eq_sym: "fp_eq x y = fp_eq y x"
  by (auto simp: fp_eq_def)

lemma fp_eq_trans: "fp_eq x y \<Longrightarrow> fp_eq y z \<Longrightarrow> fp_eq x z"
  by (auto simp: fp_eq_def)

lemma fp_eq_refl: "fp_eq x x \<longleftrightarrow> \<not> fp_is_nan x"
  by (auto simp: fp_eq_def)

end
