(* ===== verification/Model.thy ===== *)
theory Model
  imports Doubles
begin

text \<open>
  The data of the virtual machine: the structs and enums of the headers as records and
  datatypes, and the record \<open>vm\<close> that holds every object. An object of the garbage collected
  heap is an entry of the store of its kind, under its address; a pointer to it is the address,
  a pointer that may be null an \<open>addr option\<close>. The state is the one a managed thread sees
  (\<open>initThread\<close> has run, so \<open>validateThisThread\<close> passes). The collector, a library outside this
  repository, only reclaims what is unreachable, so root references have no part in the model;
  it may refuse an allocation, which \<open>mem\<close> decides: the \<open>n\<close>-th request succeeds iff \<open>mem n\<close>.
\<close>

type_synonym addr = nat
type_synonym u64 = "64 word"

subsection \<open>Values\<close>

datatype value_types =
    TVALUE_NOT_PRESENT
  | TVALUE_NIL
  | TVALUE_DOUBLE
  | TVALUE_LONG
  | TVALUE_STRING
  | TVALUE_TABLE
  | TVALUE_CLOSURE
  | TVALUE_BOOL
  | TVALUE_COROUTINE
  | TVALUE_FULL_USERDATA
  | TVALUE_LIGHT_USERDATA
  | TVALUE_GARBAGE_COLLECTABLE_USERDATA
  | TVALUE_LAST

datatype "value" =
    VNotPresent
  | VNil
  | VDouble dbl
  | VLong "64 word"
  | VString addr
  | VTable addr
  | VClosure addr
  | VBool bool
  | VCoroutine addr
  | VFullUserdata addr
  | VLightUserdata addr
  | VGcUserdata addr

fun type_tag :: "value \<Rightarrow> value_types" where
  "type_tag VNotPresent = TVALUE_NOT_PRESENT"
| "type_tag VNil = TVALUE_NIL"
| "type_tag (VDouble d) = TVALUE_DOUBLE"
| "type_tag (VLong n) = TVALUE_LONG"
| "type_tag (VString a) = TVALUE_STRING"
| "type_tag (VTable a) = TVALUE_TABLE"
| "type_tag (VClosure a) = TVALUE_CLOSURE"
| "type_tag (VBool b) = TVALUE_BOOL"
| "type_tag (VCoroutine a) = TVALUE_COROUTINE"
| "type_tag (VFullUserdata a) = TVALUE_FULL_USERDATA"
| "type_tag (VLightUserdata a) = TVALUE_LIGHT_USERDATA"
| "type_tag (VGcUserdata a) = TVALUE_GARBAGE_COLLECTABLE_USERDATA"

text \<open>
  \<open>struct value_string\<close>: the cached hash code (0 when not computed yet) and the bytes of the
  data array before its terminating zero.
\<close>

record value_string =
  vs_hashCode :: u64
  vs_bytes :: "byte list"

text \<open>
  \<open>struct value_userdata\<close>: \<open>ud_data\<close> is the address of the data (\<open>None\<close> where the code never
  stores the member), \<open>ud_cell\<close> the host pointer kept in that data by a light userdata, and
  \<open>ud_gcData\<close> the member \<open>userGarbageCollectableData\<close>.
\<close>

record value_userdata =
  ud_data :: "addr option"
  ud_cell :: "nat option"
  ud_gcData :: "addr option"
  ud_isFull :: bool
  ud_moduleID :: int
  ud_typeID :: int

subsection \<open>Tables\<close>

text \<open>
  A chain of pairs of one bucket is the list of its pairs, in the order of the \<open>next\<close>
  members; the empty list is the null bucket.
\<close>

record hashtable_pair =
  hp_key :: "value"
  hp_value :: "value"

record hashtable =
  ht_capacity :: int
  ht_loadFactor :: dbl
  ht_usage :: int
  ht_table :: "hashtable_pair list list"

subsection \<open>Bounded stacks of collected objects\<close>

record 'a fluffyvm_stack =
  stk_sp :: int
  stk_size :: int
  stk_arr :: "'a option list"

subsection \<open>Bytecode and closures\<close>

datatype prototype =
  Prototype (p_bytecode: addr) (p_instructions: "u64 list")
    (p_prototypes: "prototype list") (p_lineInfo: "int list") (p_sourceFile: "value")

record bytecode =
  bc_mainPrototype :: "prototype option"
  bc_constants :: "value list"

text \<open>A native function is known by its address; \<open>cl_udata\<close> is the pointer it is given.\<close>

record closure =
  cl_prototype :: "prototype option"
  cl_func :: "nat option"
  cl_udata :: "nat option"
  cl_isNative :: bool
  cl_env :: "value"
  cl_asValue :: "value"
  cl_luaCFunction :: "nat option"

subsection \<open>Coroutines\<close>

datatype fiber_state = FIBER_RUNNING | FIBER_SUSPENDED | FIBER_DEAD

record fiber =
  fb_state :: fiber_state
  fb_task :: bool       \<comment> \<open>the task block is still held\<close>
  fb_stack :: bool      \<comment> \<open>the machine stack is still allocated\<close>

record call_state =
  cs_closure :: addr
  cs_owner :: addr
  cs_generalStack :: "value list"
  cs_registers :: "value list option"
  cs_flagRegister :: "32 word"
  cs_pc :: int
  cs_sp :: int
  cs_debugSource :: "string option"
  cs_debugFuncName :: "string option"
  cs_debugLine :: int

text \<open>
  \<open>co_errorHandler\<close> numbers the installed \<open>jmp_buf\<close>s from the outermost one. \<open>co_gc_stack\<close> is the field
  with the number 1, through which the collector reaches the call stack; a collected object or null
  can be written over it.
\<close>

datatype gc_field = GC_callStack | GC_object "addr option"

record coroutine =
  co_isNativeThread :: bool
  co_isYieldable :: bool
  co_fiber :: "fiber option"
  co_currentCallState :: "addr option"
  co_errorHandler :: "nat option"
  co_callStackLock :: bool
  co_callStack :: "addr fluffyvm_stack"
  co_hasError :: bool
  co_thrownedError :: "value"
  co_gc_stack :: gc_field

subsection \<open>Static strings\<close>

datatype static_string =
    SS_outOfMemory
  | SS_outOfMemoryWhileAnErrorOccured
  | SS_strtodDidNotProcessAllTheData
  | SS_typenames_nil
  | SS_typenames_string
  | SS_typenames_doubleNum
  | SS_typenames_longNum
  | SS_typenames_table
  | SS_typenames_closure
  | SS_typenames_light_userdata
  | SS_typenames_full_userdata
  | SS_typenames_garbage_collectable_userdata
  | SS_typenames_bool
  | SS_typenames_coroutine
  | SS_invalidCapacity
  | SS_badKey
  | SS_protobufFailedToUnpackData
  | SS_unsupportedBytecode
  | SS_pthreadCreateError
  | SS_invalidBytecode
  | SS_cannotResumeDeadCoroutine
  | SS_cannotResumeRunningCoroutine
  | SS_cannotSuspendTopLevelCoroutine
  | SS_stackOverflow
  | SS_stackUnderflow
  | SS_notInCoroutine
  | SS_coroutineNestTooDeep
  | SS_attemptToLoadNonExistentPrototype
  | SS_attemptToCallNilValue
  | SS_invalidRemoveCall
  | SS_invalidStackIndex
  | SS_bool_true
  | SS_bool_false
  | SS_nativeFunctionExplicitlyDisabledYieldingForThisCoroutine
  | SS_attemptToXmoveOnRunningCoroutine
  | SS_attemptToXmoveOnDeadCoroutine

fun static_text :: "static_string \<Rightarrow> string" where
  "static_text SS_outOfMemory = ''out of memory''"
| "static_text SS_outOfMemoryWhileAnErrorOccured = ''out of memory while another error occured''"
| "static_text SS_strtodDidNotProcessAllTheData = ''strtod did not process all the data''"
| "static_text SS_typenames_nil = ''nil''"
| "static_text SS_typenames_string = ''string''"
| "static_text SS_typenames_doubleNum = ''double''"
| "static_text SS_typenames_longNum = ''long''"
| "static_text SS_typenames_table = ''table''"
| "static_text SS_typenames_closure = ''function''"
| "static_text SS_typenames_light_userdata = ''userdata''"
| "static_text SS_typenames_full_userdata = ''userdata''"
| "static_text SS_typenames_garbage_collectable_userdata = ''userdata''"
| "static_text SS_typenames_bool = ''boolean''"
| "static_text SS_typenames_coroutine = ''coroutine''"
| "static_text SS_invalidCapacity = ''invalid capacity''"
| "static_text SS_badKey = ''bad key''"
| "static_text SS_protobufFailedToUnpackData = ''protobuf failed to unpack data''"
| "static_text SS_unsupportedBytecode = ''unsupported bytecode version''"
| "static_text SS_pthreadCreateError = ''pthread_create call unsuccessful''"
| "static_text SS_invalidBytecode = ''invalid bytecode''"
| "static_text SS_cannotResumeDeadCoroutine = ''cannot resume dead corotine''"
| "static_text SS_cannotResumeRunningCoroutine = ''cannot resume running coroutine''"
| "static_text SS_cannotSuspendTopLevelCoroutine = ''cannot suspend top level coroutine''"
| "static_text SS_stackOverflow = ''stack overflow''"
| "static_text SS_stackUnderflow = ''stack underflow''"
| "static_text SS_notInCoroutine = ''not in coroutine''"
| "static_text SS_coroutineNestTooDeep = ''coroutine nest too deep''"
| "static_text SS_attemptToLoadNonExistentPrototype = ''attempt to load not existent prototype''"
| "static_text SS_attemptToCallNilValue = ''attempt to call nil value''"
| "static_text SS_invalidRemoveCall = ''invalid argument for interpreter_remove''"
| "static_text SS_invalidStackIndex = ''invalid stack index for C function (lua C API compatibility layer)''"
| "static_text SS_bool_true = ''true''"
| "static_text SS_bool_false = ''false''"
| "static_text SS_nativeFunctionExplicitlyDisabledYieldingForThisCoroutine = ''A native function explicitly disabled yielding for this coroutine''"
| "static_text SS_attemptToXmoveOnRunningCoroutine = ''attempt to xmove on running coroutine''"
| "static_text SS_attemptToXmoveOnDeadCoroutine = ''attempt to xmove on dead coroutine''"

subsection \<open>The virtual machine\<close>

record vm =
  mem :: "nat \<Rightarrow> bool"
  brk :: addr
  strs :: "addr \<Rightarrow> value_string option"
  udatas :: "addr \<Rightarrow> value_userdata option"
  tabs :: "addr \<Rightarrow> hashtable option"
  bcs :: "addr \<Rightarrow> bytecode option"
  closures :: "addr \<Rightarrow> closure option"
  cstates :: "addr \<Rightarrow> call_state option"
  coros :: "addr \<Rightarrow> coroutine option"
  staticStrings :: "static_string \<Rightarrow> value"
  errMsg :: "value option"
  coroutinesStack :: "addr fluffyvm_stack"
  globalTable :: "value"
  mainThread :: "addr option"
  coroutineTrampoline :: "addr option"
  stringCache :: bool
  luaModuleID :: int
  luaUserdataType :: int

text \<open>
  What the code calls and this repository does not hold: the xxHash library, and the parts of
  the C library whose results the language leaves to the platform: \<open>pow\<close>; \<open>strtod\<close>, which gives
  the number, how many bytes it read and the resulting \<open>errno\<close>; the text \<open>%lf\<close> prints; and the
  text of the message about a nonzero \<open>errno\<close>, whose second conversion prints a pointer by \<open>%d\<close>.
\<close>

record ext =
  xxh64 :: "byte list \<Rightarrow> u64 \<Rightarrow> u64"
  libm_pow :: "dbl \<Rightarrow> dbl \<Rightarrow> dbl"
  strtod :: "byte list \<Rightarrow> dbl \<times> nat \<times> int"
  fmt_double :: "dbl \<Rightarrow> byte list"
  strtod_errtext :: "int \<Rightarrow> byte list"

subsection \<open>Configuration\<close>

definition FLUFFYVM_RELEASE_NUM :: int where "FLUFFYVM_RELEASE_NUM = 1"
definition FLUFFYVM_CALL_STACK_SIZE :: int where "FLUFFYVM_CALL_STACK_SIZE = 512"
definition FLUFFYVM_GENERAL_STACK_SIZE :: int where "FLUFFYVM_GENERAL_STACK_SIZE = 256"
definition FLUFFYVM_REGISTERS_NUM :: int where "FLUFFYVM_REGISTERS_NUM = 256"
definition FLUFFYVM_MAX_COROUTINE_NEST :: int where "FLUFFYVM_MAX_COROUTINE_NEST = 64"

text \<open>The \<open>double\<close> 0.75.\<close>

definition FLUFFYVM_HASHTABLE_DEFAULT_LOAD_FACTOR :: dbl where
  "FLUFFYVM_HASHTABLE_DEFAULT_LOAD_FACTOR = 0x3FE8000000000000"

lemmas config_defs = FLUFFYVM_RELEASE_NUM_def FLUFFYVM_CALL_STACK_SIZE_def
  FLUFFYVM_GENERAL_STACK_SIZE_def FLUFFYVM_REGISTERS_NUM_def FLUFFYVM_MAX_COROUTINE_NEST_def
  FLUFFYVM_HASHTABLE_DEFAULT_LOAD_FACTOR_def

subsection \<open>The error message and allocation\<close>

definition fluffyvm_set_errmsg :: "vm \<Rightarrow> value \<Rightarrow> vm" where
  "fluffyvm_set_errmsg s v =
     (if v = VNotPresent then s\<lparr>errMsg := None\<rparr> else s\<lparr>errMsg := Some v\<rparr>)"

definition fluffyvm_clear_errmsg :: "vm \<Rightarrow> vm" where
  "fluffyvm_clear_errmsg s = fluffyvm_set_errmsg s VNotPresent"

definition fluffyvm_is_errmsg_present :: "vm \<Rightarrow> bool" where
  "fluffyvm_is_errmsg_present s = (errMsg s \<noteq> None)"

definition fluffyvm_get_errmsg :: "vm \<Rightarrow> value" where
  "fluffyvm_get_errmsg s = (case errMsg s of None \<Rightarrow> VNotPresent | Some v \<Rightarrow> v)"

text \<open>One request to the collector: the address of the new object, or a refusal.\<close>

definition gc_alloc :: "vm \<Rightarrow> addr option \<times> vm" where
  "gc_alloc s = (if mem s (brk s) then Some (brk s) else None, s\<lparr>brk := Suc (brk s)\<rparr>)"

definition set_static_errmsg :: "vm \<Rightarrow> static_string \<Rightarrow> vm" where
  "set_static_errmsg s m = fluffyvm_set_errmsg s (staticStrings s m)"

text \<open>
  Addresses in use lie below \<open>brk\<close>, so that a new object never takes the place of an old one.
\<close>

definition fresh_above :: "vm \<Rightarrow> bool" where
  "fresh_above s \<longleftrightarrow> (\<forall>a \<ge> brk s. strs s a = None \<and> udatas s a = None \<and> tabs s a = None \<and>
     bcs s a = None \<and> closures s a = None \<and> cstates s a = None \<and> coros s a = None)"

lemma errmsg_frame [frame_simps, simp]:
  "mem (fluffyvm_set_errmsg s v) = mem s" "brk (fluffyvm_set_errmsg s v) = brk s"
  "strs (fluffyvm_set_errmsg s v) = strs s" "udatas (fluffyvm_set_errmsg s v) = udatas s"
  "tabs (fluffyvm_set_errmsg s v) = tabs s" "bcs (fluffyvm_set_errmsg s v) = bcs s"
  "closures (fluffyvm_set_errmsg s v) = closures s" "cstates (fluffyvm_set_errmsg s v) = cstates s"
  "coros (fluffyvm_set_errmsg s v) = coros s"
  "staticStrings (fluffyvm_set_errmsg s v) = staticStrings s"
  "coroutinesStack (fluffyvm_set_errmsg s v) = coroutinesStack s"
  "globalTable (fluffyvm_set_errmsg s v) = globalTable s"
  "mainThread (fluffyvm_set_errmsg s v) = mainThread s"
  "coroutineTrampoline (fluffyvm_set_errmsg s v) = coroutineTrampoline s"
  by (simp_all add: fluffyvm_set_errmsg_def)

lemma static_errmsg_frame [frame_simps, simp]:
  "mem (set_static_errmsg s v) = mem s" "brk (set_static_errmsg s v) = brk s"
  "strs (set_static_errmsg s v) = strs s" "udatas (set_static_errmsg s v) = udatas s"
  "tabs (set_static_errmsg s v) = tabs s" "bcs (set_static_errmsg s v) = bcs s"
  "closures (set_static_errmsg s v) = closures s" "cstates (set_static_errmsg s v) = cstates s"
  "coros (set_static_errmsg s v) = coros s"
  "staticStrings (set_static_errmsg s v) = staticStrings s"
  "coroutinesStack (set_static_errmsg s v) = coroutinesStack s"
  "globalTable (set_static_errmsg s v) = globalTable s"
  "mainThread (set_static_errmsg s v) = mainThread s"
  "coroutineTrampoline (set_static_errmsg s v) = coroutineTrampoline s"
  by (simp_all add: set_static_errmsg_def)

subsection \<open>A machine without objects, and a library, for concrete cases\<close>

definition blank_vm :: vm where
  "blank_vm = \<lparr>mem = \<lambda>_. True, brk = 0, strs = Map.empty, udatas = Map.empty, tabs = Map.empty,
     bcs = Map.empty, closures = Map.empty, cstates = Map.empty, coros = Map.empty,
     staticStrings = \<lambda>_. VNil, errMsg = None,
     coroutinesStack = \<lparr>stk_sp = 0, stk_size = 64, stk_arr = replicate 64 None\<rparr>,
     globalTable = VNil, mainThread = None, coroutineTrampoline = None, stringCache = False,
     luaModuleID = 0, luaUserdataType = 0\<rparr>"

definition sample_ext :: ext where
  "sample_ext = \<lparr>xxh64 = \<lambda>bs seed. sum_list (map ucast bs), libm_pow = \<lambda>x y. x,
     strtod = \<lambda>bs. (0, 0, 0), fmt_double = \<lambda>d. [], strtod_errtext = \<lambda>e. []\<rparr>"

end
