(* ===== verification/Hashing.thy ===== *)
theory Hashing
  imports Model
begin

text \<open>
  \<open>hashing.c\<close>: the hash functions over a block of bytes and the compile-time choice between
  them made in \<open>config.h\<close>. XXH64 itself is a library and a parameter (\<open>xxh64\<close> of \<open>ext\<close>).
\<close>

unbundle bit_operations_syntax

definition FLUFFYVM_HASH_USE_XXHASH :: bool where "FLUFFYVM_HASH_USE_XXHASH = True"
definition FLUFFYVM_HASH_USE_FNV :: bool where "FLUFFYVM_HASH_USE_FNV = False"
definition FLUFFYVM_HASH_USE_OPENJDK8 :: bool where "FLUFFYVM_HASH_USE_OPENJDK8 = False"
definition FLUFFYVM_XXHASH_SEED :: u64 where "FLUFFYVM_XXHASH_SEED = 0x55775520"
definition FLUFFYVM_FNV_OFFSET_BASIS :: u64 where "FLUFFYVM_FNV_OFFSET_BASIS = 0xCBF29CE484222325"
definition FLUFFYVM_FNV_PRIME :: u64 where "FLUFFYVM_FNV_PRIME = 0x00000100000001B3"

definition hashing_hash_xxhash :: "ext \<Rightarrow> byte list \<Rightarrow> u64" where
  "hashing_hash_xxhash ex data = xxh64 ex data FLUFFYVM_XXHASH_SEED"

fun fnv_loop :: "u64 \<Rightarrow> byte list \<Rightarrow> u64" where
  "fnv_loop h [] = h"
| "fnv_loop h (b # bs) = fnv_loop ((h XOR ucast b) * FLUFFYVM_FNV_PRIME) bs"

definition hashing_hash_fnv :: "byte list \<Rightarrow> u64" where
  "hashing_hash_fnv data = fnv_loop FLUFFYVM_FNV_OFFSET_BASIS data"

fun openjdk8_loop :: "u64 \<Rightarrow> byte list \<Rightarrow> u64" where
  "openjdk8_loop h [] = h"
| "openjdk8_loop h (b # bs) = openjdk8_loop (31 * h + ucast b) bs"

definition hashing_hash_openjdk8 :: "byte list \<Rightarrow> u64" where
  "hashing_hash_openjdk8 data = openjdk8_loop 0 data"

text \<open>The last branch is \<open>abort()\<close>; \<open>config.h\<close> refuses to compile without a choice.\<close>

definition hashing_hash_default :: "ext \<Rightarrow> byte list \<Rightarrow> u64 option" where
  "hashing_hash_default ex data =
     (if FLUFFYVM_HASH_USE_FNV then Some (hashing_hash_fnv data)
      else if FLUFFYVM_HASH_USE_OPENJDK8 then Some (hashing_hash_openjdk8 data)
      else if FLUFFYVM_HASH_USE_XXHASH then Some (hashing_hash_xxhash ex data)
      else None)"

text \<open>The bytes of an object in memory, least significant first.\<close>

definition u64_bytes :: "u64 \<Rightarrow> byte list" where
  "u64_bytes w = map (\<lambda>i. ucast (drop_bit (8 * i) w)) [0..<8]"

definition ptr_bytes :: "addr \<Rightarrow> byte list" where
  "ptr_bytes a = u64_bytes (word_of_nat a)"

lemma hash_default_xxhash:
  "hashing_hash_default ex data = Some (hashing_hash_xxhash ex data)"
  by (simp add: hashing_hash_default_def FLUFFYVM_HASH_USE_FNV_def
      FLUFFYVM_HASH_USE_OPENJDK8_def FLUFFYVM_HASH_USE_XXHASH_def)

lemma openjdk8_loop_sum:
  "openjdk8_loop h bs =
     h * 31 ^ length bs + (\<Sum>i<length bs. ucast (bs ! i) * 31 ^ (length bs - Suc i))"
proof (induction bs arbitrary: h)
  case Nil
  then show ?case by simp
next
  case (Cons b bs)
  have "(\<Sum>i<Suc (length bs). ucast ((b # bs) ! i) * (31 :: u64) ^ (Suc (length bs) - Suc i))
      = ucast b * 31 ^ length bs
        + (\<Sum>i<length bs. ucast (bs ! i) * 31 ^ (length bs - Suc i))"
    by (subst sum.lessThan_Suc_shift) simp
  then show ?case
    by (simp add: Cons.IH algebra_simps)
qed

text \<open>
  The OpenJDK hash of a block is the polynomial the cited Java source documents:
  the sum of \<open>b[i] * 31 ^ (n - 1 - i)\<close> modulo \<open>2 ^ 64\<close>.
\<close>

theorem openjdk8_polynomial:
  "hashing_hash_openjdk8 bs = (\<Sum>i<length bs. ucast (bs ! i) * 31 ^ (length bs - Suc i))"
  by (simp add: hashing_hash_openjdk8_def openjdk8_loop_sum)

end
