(* ===== verification/Values.thy ===== *)
theory Values
  imports Hashing "HOL-Library.Signed_Division"
begin

text \<open>
  \<open>value.c\<close>: construction of values, their lengths, hash codes and equality, conversion to
  string and number, arithmetic and comparison. An operation that fails returns the value
  \<open>VNotPresent\<close> and leaves an error message; \<open>abort()\<close> and undefined behaviour are faults.
\<close>

unbundle bit_operations_syntax

subsection \<open>Presence and strings\<close>

definition checkPresent :: "value \<Rightarrow> vm \<Rightarrow> (unit, vm) res" where
  "checkPresent v s = (if v = VNotPresent then Fault Aborted else Ok () s)"

text \<open>\<open>if (vm->staticStrings.outOfMemoryRootRef) fluffyvm_set_errmsg(...outOfMemory)\<close>\<close>

definition outOfMemory_errmsg :: "vm \<Rightarrow> vm" where
  "outOfMemory_errmsg s =
     (if staticStrings s SS_outOfMemory \<noteq> VNotPresent then set_static_errmsg s SS_outOfMemory
      else s)"

definition value_string_allocator :: "vm \<Rightarrow> byte list \<Rightarrow> value \<times> vm" where
  "value_string_allocator s str =
     (case gc_alloc s of
        (None, s') \<Rightarrow> (VNotPresent, outOfMemory_errmsg s')
      | (Some a, s') \<Rightarrow>
          (VString a, s'\<lparr>strs := (strs s')(a \<mapsto> \<lparr>vs_hashCode = 0, vs_bytes = str\<rparr>)\<rparr>))"

definition value_new_string2 :: "vm \<Rightarrow> byte list \<Rightarrow> value \<times> vm" where
  "value_new_string2 s str = value_string_allocator s str"

text \<open>A C string ends before its first zero byte.\<close>

definition cstr :: "byte list \<Rightarrow> byte list" where
  "cstr bs = takeWhile (\<lambda>b. b \<noteq> 0) bs"

definition value_new_string :: "vm \<Rightarrow> byte list \<Rightarrow> value \<times> vm" where
  "value_new_string s str = value_new_string2 s (cstr str)"

text \<open>\<open>string_cache.c\<close>: the lookup is commented out, every request allocates.\<close>

definition string_cache_create_string :: "vm \<Rightarrow> byte list \<Rightarrow> value \<times> vm" where
  "string_cache_create_string s str = value_string_allocator s str"

definition value_new_string2_constant :: "vm \<Rightarrow> byte list \<Rightarrow> value \<times> vm" where
  "value_new_string2_constant s str =
     (if \<not> stringCache s then value_string_allocator s str
      else string_cache_create_string s str)"

definition value_new_string_constant :: "vm \<Rightarrow> byte list \<Rightarrow> value \<times> vm" where
  "value_new_string_constant s str = value_new_string2_constant s (cstr str)"

definition fluffyvm_set_errmsg_printf :: "vm \<Rightarrow> byte list \<Rightarrow> vm" where
  "fluffyvm_set_errmsg_printf s msg =
     (case value_new_string s msg of
        (v, s') \<Rightarrow>
          if v = VNotPresent then set_static_errmsg s' SS_outOfMemoryWhileAnErrorOccured
          else fluffyvm_set_errmsg s' v)"

text \<open>The characters of a string value; for another type the code returns \<open>NULL\<close>.\<close>

definition value_get_string :: "value \<Rightarrow> vm \<Rightarrow> (byte list option, vm) res" where
  "value_get_string v s =
     rbind (checkPresent v s) (\<lambda>_ s.
       case v of
         VString a \<Rightarrow> rbind (deref (strs s) a s) (\<lambda>vs s. Ok (Some (vs_bytes vs)) s)
       | _ \<Rightarrow> Ok None s)"

text \<open>The same as the argument of a \<open>%s\<close> conversion.\<close>

definition string_arg :: "value \<Rightarrow> vm \<Rightarrow> (byte list, vm) res" where
  "string_arg v s =
     rbind (value_get_string v s) (\<lambda>r s.
       case r of None \<Rightarrow> Fault NullDeref | Some bs \<Rightarrow> Ok (cstr bs) s)"

definition value_get_len :: "value \<Rightarrow> vm \<Rightarrow> (u64, vm) res" where
  "value_get_len v s =
     rbind (checkPresent v s) (\<lambda>_ s.
       case v of
         VString a \<Rightarrow> rbind (deref (strs s) a s) (\<lambda>vs s. Ok (word_of_nat (length (vs_bytes vs))) s)
       | VTable a \<Rightarrow> rbind (deref (tabs s) a s) (\<lambda>ht s. Ok (word_of_int (ht_usage ht)) s)
       | _ \<Rightarrow> Ok (-1) s)"

subsection \<open>Constructors\<close>

definition value_new_long :: "64 word \<Rightarrow> value" where "value_new_long n = VLong n"
definition value_new_double :: "dbl \<Rightarrow> value" where "value_new_double d = VDouble d"
definition value_new_bool :: "bool \<Rightarrow> value" where "value_new_bool b = VBool b"
definition value_new_closure :: "addr \<Rightarrow> value" where "value_new_closure a = VClosure a"
definition value_new_coroutine2 :: "addr \<Rightarrow> value" where "value_new_coroutine2 a = VCoroutine a"

definition value_new_full_userdata :: "vm \<Rightarrow> int \<Rightarrow> int \<Rightarrow> value \<times> vm" where
  "value_new_full_userdata s moduleID typeID =
     (case gc_alloc s of
        (None, s') \<Rightarrow> (VNotPresent, outOfMemory_errmsg s')
      | (Some a, s') \<Rightarrow>
          (VFullUserdata a,
           s'\<lparr>udatas := (udatas s')(a \<mapsto> \<lparr>ud_data = Some a, ud_cell = None, ud_gcData = None,
               ud_isFull = True, ud_moduleID = moduleID, ud_typeID = typeID\<rparr>)\<rparr>))"

text \<open>The result is used before it is checked: a refused allocation writes through null.\<close>

definition value_new_light_userdata :: "vm \<Rightarrow> int \<Rightarrow> int \<Rightarrow> nat \<Rightarrow> (value, vm) res" where
  "value_new_light_userdata s moduleID typeID data =
     (case value_new_full_userdata s moduleID typeID of
        (VFullUserdata a, s') \<Rightarrow>
          rbind (deref (udatas s') a s') (\<lambda>u s'.
            Ok (VLightUserdata a)
              (s'\<lparr>udatas := (udatas s')(a \<mapsto> u\<lparr>ud_isFull := False, ud_cell := Some data\<rparr>)\<rparr>))
      | _ \<Rightarrow> Fault NullDeref)"

definition value_new_garbage_collectable_userdata ::
    "vm \<Rightarrow> int \<Rightarrow> int \<Rightarrow> addr \<Rightarrow> value \<times> vm" where
  "value_new_garbage_collectable_userdata s moduleID typeID object =
     (case gc_alloc s of
        (None, s') \<Rightarrow> (VNotPresent, outOfMemory_errmsg s')
      | (Some a, s') \<Rightarrow>
          (VGcUserdata a,
           s'\<lparr>udatas := (udatas s')(a \<mapsto> \<lparr>ud_data = None, ud_cell = None, ud_gcData = Some object,
               ud_isFull = False, ud_moduleID = moduleID, ud_typeID = typeID\<rparr>)\<rparr>))"

subsection \<open>Type names and classification\<close>

text \<open>\<open>None\<close> is the \<open>abort()\<close> of the last two cases.\<close>

fun value_typename2 :: "value_types \<Rightarrow> static_string option" where
  "value_typename2 TVALUE_STRING = Some SS_typenames_string"
| "value_typename2 TVALUE_LONG = Some SS_typenames_longNum"
| "value_typename2 TVALUE_DOUBLE = Some SS_typenames_doubleNum"
| "value_typename2 TVALUE_NIL = Some SS_typenames_nil"
| "value_typename2 TVALUE_TABLE = Some SS_typenames_table"
| "value_typename2 TVALUE_CLOSURE = Some SS_typenames_closure"
| "value_typename2 TVALUE_LIGHT_USERDATA = Some SS_typenames_light_userdata"
| "value_typename2 TVALUE_FULL_USERDATA = Some SS_typenames_full_userdata"
| "value_typename2 TVALUE_GARBAGE_COLLECTABLE_USERDATA =
     Some SS_typenames_garbage_collectable_userdata"
| "value_typename2 TVALUE_BOOL = Some SS_typenames_bool"
| "value_typename2 TVALUE_COROUTINE = Some SS_typenames_coroutine"
| "value_typename2 TVALUE_LAST = None"
| "value_typename2 TVALUE_NOT_PRESENT = None"

definition value_typename :: "value \<Rightarrow> vm \<Rightarrow> (value, vm) res" where
  "value_typename v s =
     (case value_typename2 (type_tag v) of
        None \<Rightarrow> Fault Aborted
      | Some m \<Rightarrow> Ok (staticStrings s m) s)"

definition typename_arg :: "value \<Rightarrow> vm \<Rightarrow> (byte list, vm) res" where
  "typename_arg v s = rbind (value_typename v s) string_arg"

fun value_is_numeric :: "value \<Rightarrow> vm \<Rightarrow> (bool, vm) res" where
  "value_is_numeric VNotPresent s = Fault Aborted"
| "value_is_numeric (VDouble d) s = Ok True s"
| "value_is_numeric (VLong n) s = Ok True s"
| "value_is_numeric v s = Ok False s"

fun value_table_is_indexable :: "value \<Rightarrow> vm \<Rightarrow> (bool, vm) res" where
  "value_table_is_indexable VNotPresent s = Fault Aborted"
| "value_table_is_indexable (VTable a) s = Ok True s"
| "value_table_is_indexable v s = Ok False s"

fun value_is_callable :: "value \<Rightarrow> vm \<Rightarrow> (bool, vm) res" where
  "value_is_callable VNotPresent s = Fault Aborted"
| "value_is_callable (VClosure a) s = Ok True s"
| "value_is_callable v s = Ok False s"

text \<open>\<open>value_get_object_ptr\<close>: the collected object behind a value (\<open>None\<close> is null).\<close>

fun value_get_object_ptr :: "value \<Rightarrow> vm \<Rightarrow> (addr option, vm) res" where
  "value_get_object_ptr (VString a) s = Ok (Some a) s"
| "value_get_object_ptr (VTable a) s = Ok (Some a) s"
| "value_get_object_ptr (VClosure a) s = Ok (Some a) s"
| "value_get_object_ptr (VFullUserdata a) s = Ok (Some a) s"
| "value_get_object_ptr (VLightUserdata a) s = Ok (Some a) s"
| "value_get_object_ptr (VGcUserdata a) s = Ok (Some a) s"
| "value_get_object_ptr (VCoroutine a) s = Ok (Some a) s"
| "value_get_object_ptr (VLong n) s = Ok None s"
| "value_get_object_ptr (VDouble d) s = Ok None s"
| "value_get_object_ptr (VBool b) s = Ok None s"
| "value_get_object_ptr VNil s = Ok None s"
| "value_get_object_ptr VNotPresent s = Fault Aborted"

text \<open>
  \<open>value_get_unique_ptr\<close>. The \<open>data\<close> of a light userdata is the address of the cell that
  keeps the host pointer, not that pointer.
\<close>

definition value_get_unique_ptr :: "value \<Rightarrow> vm \<Rightarrow> (addr option, vm) res" where
  "value_get_unique_ptr v s =
     rbind (checkPresent v s) (\<lambda>_ s.
       case v of
         VString a \<Rightarrow> Ok (Some a) s
       | VTable a \<Rightarrow> Ok (Some a) s
       | VClosure a \<Rightarrow> Ok (Some a) s
       | VFullUserdata a \<Rightarrow> rbind (deref (udatas s) a s) (\<lambda>u s. Ok (ud_data u) s)
       | VLightUserdata a \<Rightarrow> rbind (deref (udatas s) a s) (\<lambda>u s. Ok (ud_data u) s)
       | VGcUserdata a \<Rightarrow> rbind (deref (udatas s) a s) (\<lambda>u s. Ok (ud_gcData u) s)
       | VCoroutine a \<Rightarrow> Ok (Some a) s
       | _ \<Rightarrow> Ok None s)"

subsection \<open>Hash codes and equality\<close>

definition hash_bytes :: "ext \<Rightarrow> byte list \<Rightarrow> vm \<Rightarrow> (u64, vm) res" where
  "hash_bytes ex bs s =
     (case hashing_hash_default ex bs of None \<Rightarrow> Fault Aborted | Some h \<Rightarrow> Ok h s)"

definition userdata_hash :: "ext \<Rightarrow> addr \<Rightarrow> vm \<Rightarrow> (u64, vm) res" where
  "userdata_hash ex a s =
     rbind (deref (udatas s) a s) (\<lambda>u s.
       case ud_data u of None \<Rightarrow> Fault Indeterminate | Some p \<Rightarrow> hash_bytes ex (ptr_bytes p) s)"

fun value_hash_code :: "ext \<Rightarrow> value \<Rightarrow> vm \<Rightarrow> (u64, vm) res" where
  "value_hash_code ex (VString a) s =
     rbind (deref (strs s) a s) (\<lambda>vs s.
       if vs_hashCode vs \<noteq> 0 then Ok (vs_hashCode vs) s
       else rbind (value_get_len (VString a) s) (\<lambda>len s.
         rbind (hash_bytes ex (take (unat len) (vs_bytes vs)) s) (\<lambda>h s.
           Ok h (s\<lparr>strs := (strs s)(a \<mapsto> vs\<lparr>vs_hashCode := h\<rparr>)\<rparr>))))"
| "value_hash_code ex (VLong n) s = hash_bytes ex (u64_bytes n) s"
| "value_hash_code ex (VDouble d) s = hash_bytes ex (u64_bytes d) s"
| "value_hash_code ex (VTable a) s = hash_bytes ex (ptr_bytes a) s"
| "value_hash_code ex (VClosure a) s = hash_bytes ex (ptr_bytes a) s"
| "value_hash_code ex (VFullUserdata a) s = userdata_hash ex a s"
| "value_hash_code ex (VLightUserdata a) s = userdata_hash ex a s"
| "value_hash_code ex (VGcUserdata a) s = userdata_hash ex a s"
| "value_hash_code ex (VBool b) s = hash_bytes ex [of_bool b] s"
| "value_hash_code ex (VCoroutine a) s = hash_bytes ex (ptr_bytes a) s"
| "value_hash_code ex VNil s = Ok 0 s"
| "value_hash_code ex VNotPresent s = Fault Aborted"

definition userdata_data_eq :: "addr \<Rightarrow> addr \<Rightarrow> vm \<Rightarrow> (bool, vm) res" where
  "userdata_data_eq a b s =
     rbind (deref (udatas s) a s) (\<lambda>u s. rbind (deref (udatas s) b s) (\<lambda>w s.
       case (ud_data u, ud_data w) of
         (Some p, Some q) \<Rightarrow> Ok (p = q) s
       | _ \<Rightarrow> Fault Indeterminate))"

definition string_equals :: "ext \<Rightarrow> addr \<Rightarrow> addr \<Rightarrow> vm \<Rightarrow> (bool, vm) res" where
  "string_equals ex a b s =
     rbind (value_get_len (VString a) s) (\<lambda>len1 s.
     rbind (value_get_len (VString b) s) (\<lambda>len2 s.
       if len1 \<noteq> len2 then Ok False s
       else rbind (value_hash_code ex (VString a) s) (\<lambda>h1 s.
            rbind (value_hash_code ex (VString b) s) (\<lambda>h2 s.
              if h1 = h2 then
                rbind (deref (strs s) a s) (\<lambda>x s. rbind (deref (strs s) b s) (\<lambda>y s.
                  Ok (take (unat (max len1 len2)) (vs_bytes x)
                      = take (unat (max len1 len2)) (vs_bytes y)) s))
              else Ok False s))))"

definition value_equals :: "ext \<Rightarrow> value \<Rightarrow> value \<Rightarrow> vm \<Rightarrow> (bool, vm) res" where
  "value_equals ex op1 op2 s =
     rbind (checkPresent op1 s) (\<lambda>_ s. rbind (checkPresent op2 s) (\<lambda>_ s.
       if type_tag op1 \<noteq> type_tag op2 then Ok False s
       else rbind (value_get_len op2 s) (\<lambda>_ s. rbind (value_get_len op1 s) (\<lambda>_ s.
         case (op1, op2) of
           (VString a, VString b) \<Rightarrow> string_equals ex a b s
         | (VTable a, VTable b) \<Rightarrow> Ok (a = b) s
         | (VClosure a, VClosure b) \<Rightarrow> Ok (a = b) s
         | (VLong m, VLong n) \<Rightarrow> Ok (m = n) s
         | (VDouble d, VDouble e) \<Rightarrow> Ok (fp_eq d e) s
         | (VFullUserdata a, VFullUserdata b) \<Rightarrow> userdata_data_eq a b s
         | (VLightUserdata a, VLightUserdata b) \<Rightarrow> userdata_data_eq a b s
         | (VGcUserdata a, VGcUserdata b) \<Rightarrow>
             rbind (deref (udatas s) a s) (\<lambda>u s. rbind (deref (udatas s) b s) (\<lambda>w s.
               Ok (ud_gcData u = ud_gcData w) s))
         | (VBool a, VBool b) \<Rightarrow> Ok (a = b) s
         | (VCoroutine a, VCoroutine b) \<Rightarrow> Ok (a = b) s
         | (VNil, VNil) \<Rightarrow> Ok True s
         | _ \<Rightarrow> Fault Aborted))))"

definition value_equals_cstring :: "ext \<Rightarrow> value \<Rightarrow> byte list \<Rightarrow> vm \<Rightarrow> (bool, vm) res" where
  "value_equals_cstring ex op1 str s =
     rbind (checkPresent op1 s) (\<lambda>_ s.
       case op1 of
         VString a \<Rightarrow>
           rbind (value_get_len op1 s) (\<lambda>len s.
             if len \<noteq> word_of_nat (length str) then Ok False s
             else rbind (value_hash_code ex op1 s) (\<lambda>h1 s.
               rbind (hash_bytes ex str s) (\<lambda>h2 s.
                 if h1 \<noteq> h2 then Ok False s
                 else rbind (deref (strs s) a s) (\<lambda>x s.
                   Ok (take (length str) (vs_bytes x) = str) s))))
       | _ \<Rightarrow> Ok False s)"

subsection \<open>Conversions\<close>

fun digit_char :: "nat \<Rightarrow> char" where
  "digit_char d = (''0123456789ABCDEF'' ! d)"

fun nat_digits :: "nat \<Rightarrow> nat \<Rightarrow> string" where
  "nat_digits b n =
     (if b < 2 \<or> n < b then [digit_char n] else nat_digits b (n div b) @ [digit_char (n mod b)])"

declare nat_digits.simps [simp del]

text \<open>\<open>%ld\<close> and \<open>%PRIXPTR\<close>.\<close>

definition fmt_long :: "int \<Rightarrow> string" where
  "fmt_long n = (if n < 0 then CHR 0x2D # nat_digits 10 (nat (- n)) else nat_digits 10 (nat n))"

definition fmt_ptr :: "string \<Rightarrow> addr \<Rightarrow> byte list" where
  "fmt_ptr name a = bytes_of (name @ '' 0x'' @ nat_digits 16 a)"

definition tostring_text :: "ext \<Rightarrow> value \<Rightarrow> vm \<Rightarrow> (byte list, vm) res" where
  "tostring_text ex v s =
     (case v of
        VLong n \<Rightarrow> Ok (bytes_of (fmt_long (sint n))) s
      | VDouble d \<Rightarrow> Ok (fmt_double ex d) s
      | VTable a \<Rightarrow> Ok (fmt_ptr ''table'' a) s
      | VClosure a \<Rightarrow> Ok (fmt_ptr ''function'' a) s
      | VFullUserdata a \<Rightarrow> rbind (deref (udatas s) a s) (\<lambda>u s.
          case ud_data u of None \<Rightarrow> Fault Indeterminate | Some p \<Rightarrow> Ok (fmt_ptr ''userdata'' p) s)
      | VLightUserdata a \<Rightarrow> rbind (deref (udatas s) a s) (\<lambda>u s.
          case ud_data u of None \<Rightarrow> Fault Indeterminate | Some p \<Rightarrow> Ok (fmt_ptr ''userdata'' p) s)
      | VGcUserdata a \<Rightarrow> rbind (deref (udatas s) a s) (\<lambda>u s.
          case ud_gcData u of None \<Rightarrow> Fault Indeterminate | Some p \<Rightarrow> Ok (fmt_ptr ''userdata'' p) s)
      | VCoroutine a \<Rightarrow> Ok (fmt_ptr ''coroutine'' a) s
      | _ \<Rightarrow> Fault Aborted)"

text \<open>Both branches of the boolean case return the string \<open>true\<close>, as in the source.\<close>

definition value_tostring :: "ext \<Rightarrow> value \<Rightarrow> vm \<Rightarrow> (value, vm) res" where
  "value_tostring ex v s =
     rbind (checkPresent v s) (\<lambda>_ s.
       case v of
         VString a \<Rightarrow> Ok v s
       | VBool b \<Rightarrow>
           (if b then Ok (staticStrings s SS_bool_true) s else Ok (staticStrings s SS_bool_true) s)
       | VNil \<Rightarrow> Ok (staticStrings s SS_typenames_nil) s
       | _ \<Rightarrow> rbind (tostring_text ex v s) (\<lambda>text s.
           case value_string_allocator s text of (r, s') \<Rightarrow> Ok r s'))"

definition value_todouble :: "ext \<Rightarrow> value \<Rightarrow> vm \<Rightarrow> (value, vm) res" where
  "value_todouble ex v s =
     rbind (checkPresent v s) (\<lambda>_ s.
       case v of
         VString a \<Rightarrow> rbind (deref (strs s) a s) (\<lambda>vs s.
           case strtod ex (cstr (vs_bytes vs)) of (number, used, errno) \<Rightarrow>
             if (vs_bytes vs @ [0]) ! used \<noteq> 0 then
               Ok VNotPresent (set_static_errmsg s SS_strtodDidNotProcessAllTheData)
             else if errno \<noteq> 0 then
               (case value_new_string s (butlast (strtod_errtext ex errno)) of (e, s') \<Rightarrow>
                  Ok VNotPresent (if e \<noteq> VNotPresent then fluffyvm_set_errmsg s' e else s'))
             else Ok (VDouble number) s)
       | VLong n \<Rightarrow> Ok (VDouble (fp_of_int (sint n))) s
       | VDouble d \<Rightarrow> Ok v s
       | _ \<Rightarrow> Ok VNotPresent s)"

subsection \<open>Arithmetic and comparison\<close>

definition quote :: string where "quote = [CHR 0x27]"

text \<open>
  \<open>mathCommon\<close>: both operands as longs or both as doubles, or \<open>None\<close> with a message.
\<close>

definition mathCommon ::
    "ext \<Rightarrow> string \<Rightarrow> value \<Rightarrow> value \<Rightarrow> vm \<Rightarrow> ((value \<times> value) option, vm) res" where
  "mathCommon ex op op1 op2 s =
     rbind (value_is_numeric op1 s) (\<lambda>n1 s.
     rbind (if n1 then value_is_numeric op2 s else Ok False s) (\<lambda>n2 s.
       if \<not> n1 \<or> \<not> n2 then
         rbind (typename_arg op1 s) (\<lambda>t1 s. rbind (typename_arg op2 s) (\<lambda>t2 s.
           Ok None (fluffyvm_set_errmsg_printf s
             (bytes_of (''attempt to do '' @ quote @ op @ quote @ '' operation with '' @ quote)
              @ t1 @ bytes_of (quote @ '' type and '' @ quote) @ t2
              @ bytes_of (quote @ '' type'')))))
       else if type_tag op1 = type_tag op2 then Ok (Some (op1, op2)) s
       else if type_tag op1 = TVALUE_DOUBLE then
         rbind (value_todouble ex op2 s) (\<lambda>d s. Ok (Some (op1, d)) s)
       else rbind (value_todouble ex op1 s) (\<lambda>d s. Ok (Some (d, op2)) s)))"

definition in_int64 :: "int \<Rightarrow> bool" where
  "in_int64 n \<longleftrightarrow> - (2 ^ 63) \<le> n \<and> n < 2 ^ 63"

definition long_result :: "int \<Rightarrow> vm \<Rightarrow> (value, vm) res" where
  "long_result n s = (if in_int64 n then Ok (VLong (word_of_int n)) s else Fault SignedOverflow)"

text \<open>The four operations of \<open>VALUE_MATH_OPS\<close>, expanded by one macro.\<close>

definition value_math ::
    "ext \<Rightarrow> string \<Rightarrow> (int \<Rightarrow> int \<Rightarrow> vm \<Rightarrow> (value, vm) res) \<Rightarrow> (dbl \<Rightarrow> dbl \<Rightarrow> dbl) \<Rightarrow>
     value \<Rightarrow> value \<Rightarrow> vm \<Rightarrow> (value, vm) res" where
  "value_math ex op on_long on_double op1 op2 s =
     rbind (mathCommon ex op op1 op2 s) (\<lambda>r s.
       case r of
         None \<Rightarrow> Ok VNotPresent s
       | Some (VLong m, VLong n) \<Rightarrow> on_long (sint m) (sint n) s
       | Some (VDouble d, VDouble e) \<Rightarrow> Ok (VDouble (on_double d e)) s
       | Some (VLong m, _) \<Rightarrow> Fault TypeConfusion
       | Some (VDouble m, _) \<Rightarrow> Fault TypeConfusion
       | _ \<Rightarrow> Fault Aborted)"

definition long_div :: "int \<Rightarrow> int \<Rightarrow> vm \<Rightarrow> (value, vm) res" where
  "long_div m n s = (if n = 0 then Fault DivByZero else long_result (m sdiv n) s)"

text \<open>The remainder is undefined where the quotient is not representable.\<close>

definition long_mod :: "int \<Rightarrow> int \<Rightarrow> vm \<Rightarrow> (value, vm) res" where
  "long_mod m n s =
     (if n = 0 then Fault DivByZero
      else if \<not> in_int64 (m sdiv n) then Fault SignedOverflow
      else long_result (m smod n) s)"

definition value_math_add :: "ext \<Rightarrow> value \<Rightarrow> value \<Rightarrow> vm \<Rightarrow> (value, vm) res" where
  "value_math_add ex = value_math ex ''+'' (\<lambda>m n. long_result (m + n)) fp_add"

definition value_math_sub :: "ext \<Rightarrow> value \<Rightarrow> value \<Rightarrow> vm \<Rightarrow> (value, vm) res" where
  "value_math_sub ex = value_math ex ''-'' (\<lambda>m n. long_result (m - n)) fp_sub"

definition value_math_mul :: "ext \<Rightarrow> value \<Rightarrow> value \<Rightarrow> vm \<Rightarrow> (value, vm) res" where
  "value_math_mul ex = value_math ex ''*'' (\<lambda>m n. long_result (m * n)) fp_mul"

definition value_math_div :: "ext \<Rightarrow> value \<Rightarrow> value \<Rightarrow> vm \<Rightarrow> (value, vm) res" where
  "value_math_div ex = value_math ex ''/'' long_div fp_div"

definition value_math_mod :: "ext \<Rightarrow> value \<Rightarrow> value \<Rightarrow> vm \<Rightarrow> (value, vm) res" where
  "value_math_mod ex = value_math ex ''%'' long_mod fp_fmod"

definition value_math_pow :: "ext \<Rightarrow> value \<Rightarrow> value \<Rightarrow> vm \<Rightarrow> (value, vm) res" where
  "value_math_pow ex = value_math ex ''^''
     (\<lambda>m n s. Ok (VDouble (libm_pow ex (fp_of_int m) (fp_of_int n))) s) (libm_pow ex)"

datatype value_comparison_result = CMP_INAPPLICABLE | CMP_FALSE | CMP_TRUE

definition cmp_of_bool :: "bool \<Rightarrow> value_comparison_result" where
  "cmp_of_bool b = (if b then CMP_TRUE else CMP_FALSE)"

definition value_is_equal ::
    "ext \<Rightarrow> value \<Rightarrow> value \<Rightarrow> vm \<Rightarrow> (value_comparison_result, vm) res" where
  "value_is_equal ex op1 op2 s =
     rbind (value_equals ex op1 op2 s) (\<lambda>b s. Ok (cmp_of_bool b) s)"

text \<open>
  The double case of the source compares the member \<open>longNum\<close> of the union: the two bit
  patterns read as signed integers.
\<close>

definition value_is_less ::
    "ext \<Rightarrow> value \<Rightarrow> value \<Rightarrow> vm \<Rightarrow> (value_comparison_result, vm) res" where
  "value_is_less ex op1 op2 s =
     rbind (mathCommon ex ''is less'' op1 op2 s) (\<lambda>r s.
       case r of
         None \<Rightarrow> Ok CMP_INAPPLICABLE s
       | Some (VLong m, VLong n) \<Rightarrow> Ok (cmp_of_bool (sint m < sint n)) s
       | Some (VDouble d, VDouble e) \<Rightarrow> Ok (cmp_of_bool (sint d < sint e)) s
       | Some (VLong m, _) \<Rightarrow> Fault TypeConfusion
       | Some (VDouble m, _) \<Rightarrow> Fault TypeConfusion
       | _ \<Rightarrow> Fault Aborted)"

subsection \<open>Hash codes and equality without the cache\<close>

text \<open>
  \<open>same_data\<close>: two states that differ in cached hash codes at most. \<open>strings_ok\<close>: a cached hash
  code is the hash of the string, and every length fits a \<open>size_t\<close>.
\<close>

definition string_bytes :: "vm \<Rightarrow> addr \<Rightarrow> byte list" where
  "string_bytes s a = (case strs s a of None \<Rightarrow> [] | Some vs \<Rightarrow> vs_bytes vs)"

definition same_data :: "vm \<Rightarrow> vm \<Rightarrow> bool" where
  "same_data s t \<longleftrightarrow> t = s\<lparr>strs := strs t\<rparr> \<and>
     (\<forall>a. map_option vs_bytes (strs t a) = map_option vs_bytes (strs s a))"

definition strings_ok :: "ext \<Rightarrow> vm \<Rightarrow> bool" where
  "strings_ok ex s \<longleftrightarrow> (\<forall>a vs. strs s a = Some vs \<longrightarrow>
     (vs_hashCode vs = 0 \<or> vs_hashCode vs = hashing_hash_xxhash ex (vs_bytes vs)) \<and>
     length (vs_bytes vs) < 2 ^ 64)"

fun value_ok :: "vm \<Rightarrow> value \<Rightarrow> bool" where
  "value_ok s VNotPresent = False"
| "value_ok s (VString a) = (strs s a \<noteq> None)"
| "value_ok s (VTable a) = (tabs s a \<noteq> None)"
| "value_ok s (VFullUserdata a) = (\<exists>u. udatas s a = Some u \<and> ud_data u \<noteq> None)"
| "value_ok s (VLightUserdata a) = (\<exists>u. udatas s a = Some u \<and> ud_data u \<noteq> None)"
| "value_ok s (VGcUserdata a) = (udatas s a \<noteq> None)"
| "value_ok s v = True"

definition ud_key :: "(value_userdata \<Rightarrow> addr option) \<Rightarrow> vm \<Rightarrow> addr \<Rightarrow> addr option" where
  "ud_key f s a = (case udatas s a of None \<Rightarrow> None | Some u \<Rightarrow> f u)"

fun value_hash :: "ext \<Rightarrow> vm \<Rightarrow> value \<Rightarrow> u64" where
  "value_hash ex s (VString a) = hashing_hash_xxhash ex (string_bytes s a)"
| "value_hash ex s (VLong n) = hashing_hash_xxhash ex (u64_bytes n)"
| "value_hash ex s (VDouble d) = hashing_hash_xxhash ex (u64_bytes d)"
| "value_hash ex s (VTable a) = hashing_hash_xxhash ex (ptr_bytes a)"
| "value_hash ex s (VClosure a) = hashing_hash_xxhash ex (ptr_bytes a)"
| "value_hash ex s (VCoroutine a) = hashing_hash_xxhash ex (ptr_bytes a)"
| "value_hash ex s (VBool b) = hashing_hash_xxhash ex [of_bool b]"
| "value_hash ex s (VFullUserdata a) = hashing_hash_xxhash ex (ptr_bytes (the (ud_key ud_data s a)))"
| "value_hash ex s (VLightUserdata a) = hashing_hash_xxhash ex (ptr_bytes (the (ud_key ud_data s a)))"
| "value_hash ex s (VGcUserdata a) = hashing_hash_xxhash ex (ptr_bytes (the (ud_key ud_data s a)))"
| "value_hash ex s VNil = 0"
| "value_hash ex s VNotPresent = 0"

text \<open>A userdata of the third kind can be hashed only if its member \<open>data\<close> was stored.\<close>

definition hashable :: "vm \<Rightarrow> value \<Rightarrow> bool" where
  "hashable s v \<longleftrightarrow> value_ok s v \<and> (\<forall>a. v = VGcUserdata a \<longrightarrow> ud_key ud_data s a \<noteq> None)"

fun same_value :: "vm \<Rightarrow> value \<Rightarrow> value \<Rightarrow> bool" where
  "same_value s (VString a) w = (case w of VString b \<Rightarrow> string_bytes s a = string_bytes s b | _ \<Rightarrow> False)"
| "same_value s (VTable a) w = (w = VTable a)"
| "same_value s (VClosure a) w = (w = VClosure a)"
| "same_value s (VLong m) w = (w = VLong m)"
| "same_value s (VDouble d) w = (case w of VDouble e \<Rightarrow> fp_eq d e | _ \<Rightarrow> False)"
| "same_value s (VFullUserdata a) w =
     (case w of VFullUserdata b \<Rightarrow> ud_key ud_data s a = ud_key ud_data s b | _ \<Rightarrow> False)"
| "same_value s (VLightUserdata a) w =
     (case w of VLightUserdata b \<Rightarrow> ud_key ud_data s a = ud_key ud_data s b | _ \<Rightarrow> False)"
| "same_value s (VGcUserdata a) w =
     (case w of VGcUserdata b \<Rightarrow> ud_key ud_gcData s a = ud_key ud_gcData s b | _ \<Rightarrow> False)"
| "same_value s (VBool b) w = (w = VBool b)"
| "same_value s (VCoroutine a) w = (w = VCoroutine a)"
| "same_value s VNil w = (w = VNil)"
| "same_value s VNotPresent w = False"

lemma same_data_refl [simp]: "same_data s s"
  by (simp add: same_data_def)

lemma same_data_trans: "same_data s t \<Longrightarrow> same_data t u \<Longrightarrow> same_data s u"
  by (auto simp: same_data_def) (metis vm.surjective vm.update_convs(3))

lemma same_data_fields:
  assumes "same_data s t"
  shows "mem t = mem s" "brk t = brk s" "udatas t = udatas s" "tabs t = tabs s" "bcs t = bcs s"
    "closures t = closures s" "cstates t = cstates s" "coros t = coros s"
    "staticStrings t = staticStrings s" "errMsg t = errMsg s"
    "coroutinesStack t = coroutinesStack s" "globalTable t = globalTable s"
    "mainThread t = mainThread s"
proof -
  have e: "t = s\<lparr>strs := strs t\<rparr>" using assms by (simp add: same_data_def)
  show "mem t = mem s" "brk t = brk s" "udatas t = udatas s" "tabs t = tabs s" "bcs t = bcs s"
    "closures t = closures s" "cstates t = cstates s" "coros t = coros s"
    "staticStrings t = staticStrings s" "errMsg t = errMsg s"
    "coroutinesStack t = coroutinesStack s" "globalTable t = globalTable s"
    "mainThread t = mainThread s"
    by (subst e, simp)+
qed

lemma same_data_strs_None: "same_data s t \<Longrightarrow> strs t a = None \<longleftrightarrow> strs s a = None"
  by (auto simp: same_data_def) (metis option.map_disc_iff)+

lemma same_data_string_bytes: "same_data s t \<Longrightarrow> string_bytes t a = string_bytes s a"
  by (auto simp: same_data_def string_bytes_def split: option.splits)
     (metis option.map_disc_iff option.distinct(1) option.simps(9) option.inject)+

lemma same_data_value_ok: "same_data s t \<Longrightarrow> value_ok t v = value_ok s v"
  by (cases v) (auto simp: same_data_fields same_data_strs_None[symmetric])

lemma same_data_ud_key: "same_data s t \<Longrightarrow> ud_key f t a = ud_key f s a"
  by (simp add: ud_key_def same_data_fields)

lemma same_data_value_hash: "same_data s t \<Longrightarrow> value_hash ex t v = value_hash ex s v"
  by (cases v) (simp_all add: same_data_string_bytes same_data_ud_key)

lemma same_data_same_value: "same_data s t \<Longrightarrow> same_value t v w = same_value s v w"
  by (cases v; cases w) (simp_all add: same_data_string_bytes same_data_ud_key)

lemma same_data_hashable: "same_data s t \<Longrightarrow> hashable t v = hashable s v"
  by (simp add: hashable_def same_data_value_ok same_data_ud_key)

lemmas same_data_simps = same_data_value_ok same_data_value_hash same_data_same_value
  same_data_hashable same_data_string_bytes same_data_ud_key

lemma hash_bytes_eq [simp]: "hash_bytes ex bs s = Ok (hashing_hash_xxhash ex bs) s"
  by (simp add: hash_bytes_def hash_default_xxhash)

lemma checkPresent_Ok [res_simps]: "checkPresent v s = Ok u t \<longleftrightarrow> v \<noteq> VNotPresent \<and> t = s"
  by (auto simp: checkPresent_def)

lemma checkPresent_simp [simp]: "v \<noteq> VNotPresent \<Longrightarrow> checkPresent v s = Ok () s"
  by (simp add: checkPresent_def)

lemma string_bytes_Some: "strs s a = Some vs \<Longrightarrow> string_bytes s a = vs_bytes vs"
  by (simp add: string_bytes_def)

lemma value_get_len_string:
  "strs s a = Some vs \<Longrightarrow> value_get_len (VString a) s = Ok (word_of_nat (length (vs_bytes vs))) s"
  by (simp add: value_get_len_def)

lemma strings_okD:
  "strings_ok ex s \<Longrightarrow> strs s a = Some vs \<Longrightarrow> length (vs_bytes vs) < 2 ^ 64"
  "strings_ok ex s \<Longrightarrow> strs s a = Some vs \<Longrightarrow> vs_hashCode vs \<noteq> 0 \<Longrightarrow>
     vs_hashCode vs = hashing_hash_xxhash ex (vs_bytes vs)"
  by (auto simp: strings_ok_def)

lemma unat_size: "n < 2 ^ 64 \<Longrightarrow> unat (word_of_nat n :: u64) = n"
  by (simp add: unat_of_nat take_bit_nat_eq_self)

text \<open>What an operation that may fill caches does: the answer, and the data as before.\<close>

definition cached :: "ext \<Rightarrow> vm \<Rightarrow> 'a \<Rightarrow> ('a, vm) res \<Rightarrow> bool" where
  "cached ex s x r \<longleftrightarrow> (\<exists>t. r = Ok x t \<and> same_data s t \<and> strings_ok ex t)"

lemma cached_refl: "strings_ok ex s \<Longrightarrow> x = y \<Longrightarrow> cached ex s x (Ok y s)"
  by (auto simp: cached_def)

lemma cached_rbind:
  assumes "cached ex s x m"
    and "\<And>t. same_data s t \<Longrightarrow> strings_ok ex t \<Longrightarrow> cached ex t y (f x t)"
  shows "cached ex s y (rbind m f)"
  using assms by (fastforce simp: cached_def intro: same_data_trans)

lemma value_hash_code_string:
  assumes ok: "strings_ok ex s" and a: "strs s a = Some vs"
  shows "cached ex s (value_hash ex s (VString a)) (value_hash_code ex (VString a) s)"
proof (cases "vs_hashCode vs = 0")
  case False
  then have "vs_hashCode vs = hashing_hash_xxhash ex (vs_bytes vs)"
    using strings_okD(2)[OF ok a] by simp
  then show ?thesis
    using False a ok by (simp add: cached_refl string_bytes_def)
next
  case True
  define h where "h = hashing_hash_xxhash ex (vs_bytes vs)"
  define t where "t = s\<lparr>strs := (strs s)(a \<mapsto> vs\<lparr>vs_hashCode := h\<rparr>)\<rparr>"
  have n: "unat (word_of_nat (length (vs_bytes vs)) :: u64) = length (vs_bytes vs)"
    using strings_okD(1)[OF ok a] by (rule unat_size)
  have r: "value_hash_code ex (VString a) s = Ok h t"
    using True a n by (simp add: value_get_len_string h_def t_def)
  have "same_data s t" using a by (auto simp: same_data_def t_def)
  moreover have "strings_ok ex t" using ok a by (auto simp: strings_ok_def t_def h_def)
  moreover have "value_hash ex s (VString a) = h" using a by (simp add: string_bytes_def h_def)
  ultimately show ?thesis unfolding cached_def using r by metis
qed

lemma value_hash_code_cached:
  assumes "strings_ok ex s" and "hashable s v"
  shows "cached ex s (value_hash ex s v) (value_hash_code ex v s)"
proof (cases v)
  case (VString a)
  then show ?thesis using assms value_hash_code_string by (auto simp: hashable_def)
qed (use assms in \<open>auto simp: hashable_def userdata_hash_def ud_key_def cached_refl
    split: option.splits\<close>)

lemma string_equals_cached:
  assumes ok: "strings_ok ex s" and a: "strs s a = Some x" and b: "strs s b = Some y"
  shows "cached ex s (same_value s (VString a) (VString b)) (string_equals ex a b s)"
proof -
  have n: "length (vs_bytes x) < 2 ^ 64" "length (vs_bytes y) < 2 ^ 64"
    using strings_okD(1)[OF ok] a b by auto
  then have lens: "(word_of_nat (length (vs_bytes x)) :: u64) = word_of_nat (length (vs_bytes y))
      \<longleftrightarrow> length (vs_bytes x) = length (vs_bytes y)"
    by (metis unat_size)
  show ?thesis
  proof (cases "length (vs_bytes x) = length (vs_bytes y)")
    case False
    then have "vs_bytes x \<noteq> vs_bytes y" by auto
    then show ?thesis
      using a b ok lens False
      by (simp add: string_equals_def value_get_len_string string_bytes_Some cached_refl)
  next
    case True
    have "cached ex s (vs_bytes x = vs_bytes y)
       (rbind (value_hash_code ex (VString a) s) (\<lambda>h1 s.
            rbind (value_hash_code ex (VString b) s) (\<lambda>h2 s.
              if h1 = h2 then
                rbind (deref (strs s) a s) (\<lambda>p s. rbind (deref (strs s) b s) (\<lambda>q s.
                  Ok (take (length (vs_bytes y)) (vs_bytes p)
                      = take (length (vs_bytes y)) (vs_bytes q)) s))
              else Ok False s)))"
    proof (rule cached_rbind, rule value_hash_code_string[OF ok a], rule cached_rbind)
      fix t assume t: "same_data s t" "strings_ok ex t"
      obtain y' where "strs t b = Some y'" using t b same_data_strs_None by fastforce
      then show "cached ex t (value_hash ex t (VString b)) (value_hash_code ex (VString b) t)"
        by (rule value_hash_code_string[OF t(2)])
    next
      fix t t' assume t: "same_data s t" "strings_ok ex t" "same_data t t'" "strings_ok ex t'"
      then have st: "same_data s t'" by (blast intro: same_data_trans)
      obtain x' y' where s': "strs t' a = Some x'" "strs t' b = Some y'"
        using st a b same_data_strs_None by fastforce
      have "vs_bytes x' = vs_bytes x" "vs_bytes y' = vs_bytes y"
        using same_data_string_bytes[OF st] s' a b by (metis string_bytes_Some)+
      then show "cached ex t' (vs_bytes x = vs_bytes y)
         (if value_hash ex s (VString a) = value_hash ex t (VString b) then
                rbind (deref (strs t') a t') (\<lambda>p s. rbind (deref (strs s) b s) (\<lambda>q s.
                  Ok (take (length (vs_bytes y)) (vs_bytes p)
                      = take (length (vs_bytes y)) (vs_bytes q)) s))
              else Ok False t')"
        using s' t(4) True a b same_data_string_bytes[OF t(1)]
        by (auto simp: string_bytes_Some intro!: cached_refl)
    qed
    then show ?thesis
      using a b True unat_size[OF n(1)]
      by (simp add: string_equals_def value_get_len_string string_bytes_Some cong: if_cong
          del: value_hash_code.simps)
  qed
qed

lemma type_tag_iff:
  "TVALUE_STRING = type_tag w \<longleftrightarrow> (\<exists>b. w = VString b)"
  "TVALUE_TABLE = type_tag w \<longleftrightarrow> (\<exists>b. w = VTable b)"
  "TVALUE_CLOSURE = type_tag w \<longleftrightarrow> (\<exists>b. w = VClosure b)"
  "TVALUE_LONG = type_tag w \<longleftrightarrow> (\<exists>b. w = VLong b)"
  "TVALUE_DOUBLE = type_tag w \<longleftrightarrow> (\<exists>b. w = VDouble b)"
  "TVALUE_FULL_USERDATA = type_tag w \<longleftrightarrow> (\<exists>b. w = VFullUserdata b)"
  "TVALUE_LIGHT_USERDATA = type_tag w \<longleftrightarrow> (\<exists>b. w = VLightUserdata b)"
  "TVALUE_GARBAGE_COLLECTABLE_USERDATA = type_tag w \<longleftrightarrow> (\<exists>b. w = VGcUserdata b)"
  "TVALUE_BOOL = type_tag w \<longleftrightarrow> (\<exists>b. w = VBool b)"
  "TVALUE_COROUTINE = type_tag w \<longleftrightarrow> (\<exists>b. w = VCoroutine b)"
  "TVALUE_NIL = type_tag w \<longleftrightarrow> w = VNil"
  by (cases w; simp)+

lemma same_value_tag: "same_value s v w \<Longrightarrow> type_tag v = type_tag w"
  by (cases v) (auto split: "value.splits")

lemma value_ok_present [simp]: "value_ok s v \<Longrightarrow> v \<noteq> VNotPresent"
  by auto

lemma value_equals_tags:
  "type_tag v \<noteq> type_tag w \<Longrightarrow> v \<noteq> VNotPresent \<Longrightarrow> w \<noteq> VNotPresent \<Longrightarrow>
     value_equals ex v w s = Ok False s"
  by (simp add: value_equals_def)

lemma value_equals_cached:
  assumes ok: "strings_ok ex s" and v: "value_ok s v" and w: "value_ok s w"
  shows "cached ex s (same_value s v w) (value_equals ex v w s)"
proof (cases "type_tag v = type_tag w")
  case False
  then have "\<not> same_value s v w" using same_value_tag by blast
  then show ?thesis
    using False v w ok by (simp add: value_equals_tags cached_refl)
next
  case True
  show ?thesis
  proof (cases v)
    case (VString a)
    with True obtain b where b: "w = VString b" by (auto simp: type_tag_iff)
    obtain x y where "strs s a = Some x" "strs s b = Some y" using v w b VString by auto
    then show ?thesis
      using string_equals_cached[OF ok] b VString
      by (simp add: value_equals_def value_get_len_string)
  qed (use True assms in \<open>auto simp: type_tag_iff value_equals_def value_get_len_def
      userdata_data_eq_def ud_key_def intro!: cached_refl\<close>)
qed

text \<open>
  Equality with cached hash codes is plain equality: for values whose objects exist it
  returns, changes nothing but hash caches, and answers as \<open>same_value\<close> does, which compares
  strings by content, doubles by value and objects by identity.
\<close>

theorem value_equals_correct:
  assumes "strings_ok ex s" and "value_ok s v" and "value_ok s w"
  shows "\<exists>t. value_equals ex v w s = Ok (same_value s v w) t \<and> same_data s t \<and> strings_ok ex t"
  using value_equals_cached[OF assms] by (simp add: cached_def)

definition two_strings :: vm where
  "two_strings = blank_vm\<lparr>strs := [0 \<mapsto> \<lparr>vs_hashCode = 0, vs_bytes = [65, 66]\<rparr>,
     1 \<mapsto> \<lparr>vs_hashCode = 0, vs_bytes = [65, 66]\<rparr>]\<rparr>"

text \<open>Two string objects with the same characters are equal.\<close>

theorem value_equals_correct_witness:
  "\<exists>t. value_equals sample_ext (VString 0) (VString 1) two_strings = Ok True t \<and>
     same_data two_strings t \<and> strings_ok sample_ext t"
  using value_equals_correct[of sample_ext two_strings "VString 0" "VString 1"]
  by (simp add: two_strings_def strings_ok_def string_bytes_def)

subsection \<open>Arithmetic\<close>

lemma mathCommon_longs [simp]: "mathCommon ex op (VLong a) (VLong b) s = Ok (Some (VLong a, VLong b)) s"
  by (simp add: mathCommon_def)

lemma mathCommon_doubles [simp]:
  "mathCommon ex op (VDouble a) (VDouble b) s = Ok (Some (VDouble a, VDouble b)) s"
  by (simp add: mathCommon_def)

lemma mathCommon_mixed [simp]:
  "mathCommon ex op (VLong a) (VDouble b) s = Ok (Some (VDouble (fp_of_int (sint a)), VDouble b)) s"
  "mathCommon ex op (VDouble b) (VLong a) s = Ok (Some (VDouble b, VDouble (fp_of_int (sint a)))) s"
  by (simp_all add: mathCommon_def value_todouble_def checkPresent_def)

lemma word_of_sint_ops:
  "word_of_int (sint a + sint b) = (a + b :: 64 word)"
  "word_of_int (sint a - sint b) = (a - b :: 64 word)"
  "word_of_int (sint a * sint b) = (a * b :: 64 word)"
  by simp_all

lemma sint_word_of_int64: "in_int64 n \<Longrightarrow> sint (word_of_int n :: 64 word) = n"
proof -
  assume n: "in_int64 n"
  have "sint (word_of_int n :: 64 word) = signed_take_bit 63 n"
    by (simp add: sint_sbintrunc')
  then show ?thesis using n by (simp only: in_int64_def signed_take_bit_int_eq_self)
qed

lemma in_int64_sint [simp]: "in_int64 (sint (a :: 64 word))"
  using sint_range_size[of a] by (simp add: in_int64_def word_size)

text \<open>
  Addition, subtraction and multiplication of two longs give the exact result whenever it
  fits an \<open>int64_t\<close>, and are undefined (signed overflow) otherwise.
\<close>

theorem value_math_long_exact:
  "value_math_add ex (VLong a) (VLong b) s =
     (if in_int64 (sint a + sint b) then Ok (VLong (a + b)) s else Fault SignedOverflow)
   \<and> value_math_sub ex (VLong a) (VLong b) s =
     (if in_int64 (sint a - sint b) then Ok (VLong (a - b)) s else Fault SignedOverflow)
   \<and> value_math_mul ex (VLong a) (VLong b) s =
     (if in_int64 (sint a * sint b) then Ok (VLong (a * b)) s else Fault SignedOverflow)"
  by (simp_all add: value_math_add_def value_math_sub_def value_math_mul_def value_math_def
      long_result_def)

lemma smod_bound: "n \<noteq> 0 \<Longrightarrow> \<bar>(m::int) smod n\<bar> < \<bar>n\<bar>"
  by (simp add: signed_modulo_int_def abs_mult abs_sgn_eq)

lemma in_int64_smod: "in_int64 n \<Longrightarrow> n \<noteq> 0 \<Longrightarrow> in_int64 (m smod n)"
  using smod_bound[of n m] by (auto simp: in_int64_def)

text \<open>
  Where the divisor is not zero and the quotient fits, division and remainder of longs are
  C's truncating pair: quotient times divisor plus remainder is the dividend, the remainder is
  smaller than the divisor in magnitude and has the sign of the dividend.
\<close>

theorem value_math_div_mod:
  assumes "b \<noteq> 0" and "in_int64 (sint a sdiv sint b)"
  shows "\<exists>q r. value_math_div ex (VLong a) (VLong b) s = Ok (VLong q) s \<and>
     value_math_mod ex (VLong a) (VLong b) s = Ok (VLong r) s \<and>
     sint a = sint q * sint b + sint r \<and> \<bar>sint r\<bar> < \<bar>sint b\<bar> \<and>
     (sint r = 0 \<or> sgn (sint r) = sgn (sint a))"
proof -
  let ?q = "sint a sdiv sint b" and ?r = "sint a smod sint b"
  have b0: "sint b \<noteq> 0" using assms(1) by (metis sint_0 signed_word_eqI)
  have r: "in_int64 ?r" using b0 by (simp add: in_int64_smod)
  have "value_math_div ex (VLong a) (VLong b) s = Ok (VLong (word_of_int ?q)) s"
    using assms b0 by (simp add: value_math_div_def value_math_def long_div_def long_result_def)
  moreover have "value_math_mod ex (VLong a) (VLong b) s = Ok (VLong (word_of_int ?r)) s"
    using assms b0 r by (simp add: value_math_mod_def value_math_def long_mod_def long_result_def)
  moreover have "sint a = ?q * sint b + ?r"
    by (simp add: sdiv_mult_smod_eq)
  moreover have "?r = 0 \<or> sgn ?r = sgn (sint a)"
    by (auto simp: signed_modulo_int_def sgn_mult sgn_if split: if_splits)
       (metis abs_ge_zero b0 order_less_le pos_mod_sign zero_less_abs_iff not_less)+
  ultimately show ?thesis
    using smod_bound[OF b0] sint_word_of_int64[OF r] sint_word_of_int64[OF assms(2)] by metis
qed

lemma fp_neg_sint: "fp_neg d \<longleftrightarrow> sint d < 0"
  using bit_last_iff[of d] by (simp add: fp_neg_def)

lemma fp_key_sint: "fp_key d = (if fp_neg d then - (sint d + 2 ^ 63) else sint d)"
proof -
  have m: "(0x7FFFFFFFFFFFFFFF :: 64 word) = mask 63" by (simp add: mask_eq_exp_minus_1)
  have k: "uint (d AND 0x7FFFFFFFFFFFFFFF) = take_bit 63 (uint d)"
    unfolding m by (simp add: take_bit_eq_mask[symmetric] unsigned_take_bit_eq)
  have b: "bit (uint d) 63 = fp_neg d"
    by (simp add: fp_neg_def bit_uint_iff)
  have "uint d = take_bit (Suc 63) (uint d)"
    by (simp add: bintr_uint)
  then have u: "uint d = 2 ^ 63 * of_bool (fp_neg d) + take_bit 63 (uint d)"
    using take_bit_Suc_from_most[of 63 "uint d"] b by simp
  have "sint d = signed_take_bit 63 (uint d)"
    by (simp add: sint_uint)
  also have "\<dots> = take_bit (Suc 63) (uint d) - 2 ^ Suc 63 * of_bool (bit (uint d) 63)"
    by (rule signed_take_bit_eq_take_bit_minus)
  also have "take_bit (Suc 63) (uint d) = uint d" by (simp add: bintr_uint)
  finally have "sint d = uint d - 2 ^ Suc 63 * of_bool (fp_neg d)" using b by simp
  then show ?thesis using u k by (auto simp: fp_key_def Let_def)
qed

text \<open>
  What \<open>value_is_less\<close> computes on doubles: the order of the bit patterns read as signed
  integers. It agrees with \<open><\<close> for two numbers of positive sign, is reversed for two of negative
  sign, and puts every pattern with a sign bit below every one without.
\<close>

theorem value_is_less_doubles: "value_is_less ex (VDouble d) (VDouble e) s =
     Ok (cmp_of_bool (if fp_neg d \<and> fp_neg e then fp_key e < fp_key d
                      else if fp_neg d then True
                      else if fp_neg e then False
                      else fp_key d < fp_key e)) s"
  using fp_neg_sint[of d] fp_neg_sint[of e]
  by (simp add: value_is_less_def fp_key_sint)

text \<open>The quotient of two longs, as a concrete case of the theorem above.\<close>

theorem value_math_div_mod_witness:
  "\<exists>q r. value_math_div sample_ext (VLong 7) (VLong (-2)) blank_vm = Ok (VLong q) blank_vm \<and>
     value_math_mod sample_ext (VLong 7) (VLong (-2)) blank_vm = Ok (VLong r) blank_vm \<and>
     sint (7 :: 64 word) = sint q * sint (-2 :: 64 word) + sint r \<and>
     \<bar>sint r\<bar> < \<bar>sint (-2 :: 64 word)\<bar> \<and> (sint r = 0 \<or> sgn (sint r) = sgn (sint (7 :: 64 word)))"
  by (rule value_math_div_mod) (simp_all add: in_int64_def signed_divide_int_def)

end
