(* ===== verification/Hashtable.thy ===== *)
theory Hashtable
  imports Values
begin

text \<open>
  \<open>hashtable.c\<close> and the table operations of \<open>value.c\<close>: chained hash tables whose capacity is a
  power of two. A table object is found under its address in \<open>tabs\<close>; its bucket array is a list
  of chains, and the null bucket array of a table under construction is the empty list. The
  read-write lock of a table is taken and released within each operation and guards nothing
  else, so it is left out. \<open>value_hash_code\<close> always returns true, so the branches the source
  has for a bad key are dead and \<open>value_hash_code\<close> returns the code alone.
\<close>

unbundle bit_operations_syntax

subsection \<open>Operations\<close>

definition bucket_index :: "u64 \<Rightarrow> int \<Rightarrow> nat" where
  "bucket_index hash capacity = unat (hash AND word_of_int (capacity - 1))"

text \<open>
  The search loop of \<open>set_entry\<close>: the chain with the matching pair overwritten, or \<open>None\<close> when
  no pair matches.
\<close>

fun chain_overwrite :: "ext \<Rightarrow> u64 \<Rightarrow> value \<Rightarrow> value \<Rightarrow> hashtable_pair list \<Rightarrow> vm \<Rightarrow>
    (hashtable_pair list option, vm) res" where
  "chain_overwrite ex hash key v [] s = Ok None s"
| "chain_overwrite ex hash key v (current # rest) s =
     rbind (value_hash_code ex (hp_key current) s) (\<lambda>hash2 s.
     rbind (if hash = hash2 then value_equals ex (hp_key current) key s else Ok False s) (\<lambda>m s.
       if m then Ok (Some (\<lparr>hp_key = key, hp_value = v\<rparr> # rest)) s
       else rbind (chain_overwrite ex hash key v rest s) (\<lambda>r s.
         Ok (map_option (\<lambda>c. current # c) r) s)))"

definition new_pair :: "vm \<Rightarrow> hashtable_pair option \<times> vm" where
  "new_pair s =
     (case gc_alloc s of
        (None, s') \<Rightarrow> (None, set_static_errmsg s' SS_outOfMemory)
      | (Some a, s') \<Rightarrow> (Some \<lparr>hp_key = VNotPresent, hp_value = VNotPresent\<rparr>, s'))"

text \<open>
  \<open>pair_write_next(this, pair)\<close> reads \<open>pair->next->gc_this\<close>. Both call sites give it a pair
  whose \<open>next\<close> is null, or no pair at all.
\<close>

definition pair_write_next :: "hashtable_pair list \<Rightarrow> hashtable_pair list \<Rightarrow> vm \<Rightarrow>
    (hashtable_pair list, vm) res" where
  "pair_write_next chain pair s =
     (if length pair < 2 then Fault NullDeref else Ok (chain @ pair) s)"

definition set_entry :: "ext \<Rightarrow> hashtable_pair list list \<Rightarrow> int \<Rightarrow> value \<Rightarrow> value \<Rightarrow> vm \<Rightarrow>
    (bool \<times> hashtable_pair list list, vm) res" where
  "set_entry ex table capacity key v s =
     rbind (value_hash_code ex key s) (\<lambda>hash s.
       let index = bucket_index hash capacity in
       if length table \<le> index then Fault OutOfBounds
       else rbind (chain_overwrite ex hash key v (table ! index) s) (\<lambda>r s.
         case r of
           Some chain \<Rightarrow> Ok (True, table[index := chain]) s
         | None \<Rightarrow>
             (case new_pair s of
                (None, s) \<Rightarrow> Ok (False, table) s
              | (Some pair, s) \<Rightarrow>
                  let pair = pair\<lparr>hp_key := key, hp_value := v\<rparr> in
                  if table ! index \<noteq> [] then
                    rbind (pair_write_next (table ! index) [pair] s) (\<lambda>chain s.
                      Ok (True, table[index := chain]) s)
                  else Ok (True, table[index := [pair]]) s)))"

fun rehash :: "ext \<Rightarrow> hashtable_pair list list \<Rightarrow> int \<Rightarrow> hashtable_pair list \<Rightarrow> vm \<Rightarrow>
    (bool \<times> hashtable_pair list list, vm) res" where
  "rehash ex newTable capacity [] s = Ok (True, newTable) s"
| "rehash ex newTable capacity (p # ps) s =
     rbind (set_entry ex newTable capacity (hp_key p) (hp_value p) s) (\<lambda>(ok, newTable) s.
       if \<not> ok then Ok (False, newTable) s else rehash ex newTable capacity ps s)"

definition not_power_of_two :: "int \<Rightarrow> bool" where
  "not_power_of_two c \<longleftrightarrow> \<not> (c AND (c - 1) = 0)"

definition resize :: "ext \<Rightarrow> hashtable \<Rightarrow> int \<Rightarrow> int \<Rightarrow> vm \<Rightarrow> (bool \<times> hashtable, vm) res" where
  "resize ex this prevCapacity desiredCapacity s =
     (if desiredCapacity \<noteq> 0 \<and> \<not> int_ok (desiredCapacity - 1) then Fault SignedOverflow
      else if desiredCapacity = 0 \<or> not_power_of_two desiredCapacity then
        Ok (False, this) (set_static_errmsg s SS_invalidCapacity)
      else case gc_alloc s of
        (None, s) \<Rightarrow> Ok (False, this) (set_static_errmsg s SS_outOfMemory)
      | (Some newTable, s) \<Rightarrow>
          rbind (rehash ex (replicate (nat desiredCapacity) []) desiredCapacity
                   (concat (take (nat prevCapacity) (ht_table this))) s) (\<lambda>(ok, table) s.
            if \<not> ok then Ok (False, this) s
            else Ok (True, this\<lparr>ht_capacity := desiredCapacity, ht_table := table\<rparr>) s))"

definition hashtable_new :: "ext \<Rightarrow> dbl \<Rightarrow> int \<Rightarrow> vm \<Rightarrow> (addr option, vm) res" where
  "hashtable_new ex loadFactor initialCapacity s =
     (if \<not> (0 < initialCapacity \<and> \<not> not_power_of_two initialCapacity) then
        Ok None (set_static_errmsg s SS_invalidCapacity)
      else case gc_alloc s of
        (None, s) \<Rightarrow> Ok None (set_static_errmsg s SS_outOfMemory)
      | (Some a, s) \<Rightarrow>
          rbind (resize ex \<lparr>ht_capacity = 0, ht_loadFactor = loadFactor, ht_usage = 0, ht_table = []\<rparr>
                   0 initialCapacity s) (\<lambda>(ok, this) s.
            if \<not> ok then Ok None s
            else Ok (Some a) (s\<lparr>tabs := (tabs s)(a \<mapsto> this)\<rparr>)))"

definition over_threshold :: "hashtable \<Rightarrow> bool" where
  "over_threshold this =
     fp_ge (fp_of_int (ht_usage this + 1))
       (fp_div (fp_mul (fp_of_int (ht_capacity this)) (ht_loadFactor this)) (fp_of_int 100))"

definition hashtable_set :: "ext \<Rightarrow> addr \<Rightarrow> value \<Rightarrow> value \<Rightarrow> vm \<Rightarrow> (bool, vm) res" where
  "hashtable_set ex a key v s =
     (if key = VNotPresent \<or> v = VNotPresent then Ok False s
      else rbind (deref (tabs s) a s) (\<lambda>this s.
        if \<not> int_ok (ht_usage this + 1) then Fault SignedOverflow
        else rbind
          (if over_threshold this then
             if \<not> int_ok (ht_capacity this * 2) then Fault SignedOverflow
             else resize ex this (ht_capacity this) (ht_capacity this * 2) s
           else Ok (True, this) s) (\<lambda>(ok, this) s.
          if \<not> ok then Ok False s
          else rbind (set_entry ex (ht_table this) (ht_capacity this) key v s) (\<lambda>(_, table) s.
            Ok True (s\<lparr>tabs := (tabs s)(a \<mapsto>
              this\<lparr>ht_table := table, ht_usage := ht_usage this + 1\<rparr>)\<rparr>)))))"

text \<open>\<open>internal_get\<close>: the value of the first pair of the chain that has the hash and matches.\<close>

fun chain_find :: "ext \<Rightarrow> u64 \<Rightarrow> (value \<Rightarrow> vm \<Rightarrow> (bool, vm) res) \<Rightarrow> hashtable_pair list \<Rightarrow> vm \<Rightarrow>
    (value, vm) res" where
  "chain_find ex hash equals [] s = Ok VNotPresent s"
| "chain_find ex hash equals (current # rest) s =
     rbind (value_hash_code ex (hp_key current) s) (\<lambda>hash2 s.
     rbind (if hash = hash2 then equals (hp_key current) s else Ok False s) (\<lambda>m s.
       if m then Ok (hp_value current) s else chain_find ex hash equals rest s))"

definition internal_get :: "ext \<Rightarrow> addr \<Rightarrow> u64 \<Rightarrow> (value \<Rightarrow> vm \<Rightarrow> (bool, vm) res) \<Rightarrow> vm \<Rightarrow>
    (value, vm) res" where
  "internal_get ex a hash equals s =
     rbind (deref (tabs s) a s) (\<lambda>this s.
       let index = bucket_index hash (ht_capacity this) in
       if length (ht_table this) \<le> index then Fault OutOfBounds
       else chain_find ex hash equals (ht_table this ! index) s)"

definition hashtable_get :: "ext \<Rightarrow> addr \<Rightarrow> value \<Rightarrow> vm \<Rightarrow> (value, vm) res" where
  "hashtable_get ex a key s =
     rbind (value_hash_code ex key s) (\<lambda>hash s.
       internal_get ex a hash (\<lambda>op2 s. value_equals ex key op2 s) s)"

text \<open>
  The test of \<open>hashtable_get2\<close>: \<open>memcmp\<close> over the shorter of the stored string, its terminating
  zero included, and the key; a difference counts as a match.
\<close>

definition memcmp_differs :: "byte list \<Rightarrow> nat \<Rightarrow> value \<Rightarrow> vm \<Rightarrow> (bool, vm) res" where
  "memcmp_differs key len op2 s =
     (case op2 of
        VString b \<Rightarrow> rbind (deref (strs s) b s) (\<lambda>vs s.
          let data = vs_bytes vs @ [0]; compareLen = min (length data) len in
          Ok (take compareLen key \<noteq> take compareLen data) s)
      | _ \<Rightarrow> Ok False s)"

definition hashtable_get2 :: "ext \<Rightarrow> addr \<Rightarrow> byte list \<Rightarrow> nat \<Rightarrow> vm \<Rightarrow> (value, vm) res" where
  "hashtable_get2 ex a key len s =
     rbind (hash_bytes ex (take len key) s) (\<lambda>hash s.
       internal_get ex a hash (memcmp_differs key len) s)"

text \<open>
  The loop of \<open>hashtable_remove\<close>: \<open>Some\<close> chain to store when a pair matches. A match at the
  head stores a null bucket, which drops the whole chain.
\<close>

fun chain_remove :: "ext \<Rightarrow> u64 \<Rightarrow> value \<Rightarrow> hashtable_pair list \<Rightarrow> hashtable_pair list \<Rightarrow> vm \<Rightarrow>
    (hashtable_pair list option, vm) res" where
  "chain_remove ex hash key prev [] s = Ok None s"
| "chain_remove ex hash key prev (current # rest) s =
     rbind (value_hash_code ex (hp_key current) s) (\<lambda>hash2 s.
     rbind (if hash = hash2 then value_equals ex (hp_key current) key s else Ok False s) (\<lambda>m s.
       if m then
         if prev \<noteq> [] then rbind (pair_write_next prev [] s) (\<lambda>chain s. Ok (Some chain) s)
         else Ok (Some []) s
       else chain_remove ex hash key (prev @ [current]) rest s))"

definition hashtable_remove :: "ext \<Rightarrow> addr \<Rightarrow> value \<Rightarrow> vm \<Rightarrow> (unit, vm) res" where
  "hashtable_remove ex a key s =
     rbind (value_hash_code ex key s) (\<lambda>hash s. rbind (deref (tabs s) a s) (\<lambda>this s.
       let index = bucket_index hash (ht_capacity this) in
       if length (ht_table this) \<le> index then Fault OutOfBounds
       else rbind (chain_remove ex hash key [] (ht_table this ! index) s) (\<lambda>r s.
         case r of
           None \<Rightarrow> Ok () s
         | Some chain \<Rightarrow>
             Ok () (s\<lparr>tabs := (tabs s)(a \<mapsto>
               this\<lparr>ht_table := (ht_table this)[index := chain]\<rparr>)\<rparr>))))"

text \<open>
  The inner loop of \<open>hashtable_next\<close>: it stops after the first pair that matches and gives the
  rest of the chain.
\<close>

fun chain_skip :: "ext \<Rightarrow> value \<Rightarrow> bool \<Rightarrow> hashtable_pair list \<Rightarrow> vm \<Rightarrow>
    (bool \<times> hashtable_pair list, vm) res" where
  "chain_skip ex key hasFound [] s = Ok (hasFound, []) s"
| "chain_skip ex key hasFound (pair # rest) s =
     (if hasFound then Ok (hasFound, pair # rest) s
      else rbind (value_equals ex (hp_key pair) key s) (\<lambda>m s. chain_skip ex key m rest s))"

fun next_loop :: "ext \<Rightarrow> value \<Rightarrow> bool \<Rightarrow> hashtable_pair list list \<Rightarrow> vm \<Rightarrow> (value, vm) res" where
  "next_loop ex key hasFound [] s = Ok VNotPresent s"
| "next_loop ex key hasFound ([] # buckets) s = next_loop ex key hasFound buckets s"
| "next_loop ex key hasFound ((pair # rest) # buckets) s =
     (if key = VNotPresent then Ok (hp_key pair) s
      else rbind (chain_skip ex key hasFound (pair # rest) s) (\<lambda>(hasFound, chain) s.
        case chain of
          p # _ \<Rightarrow> Ok (hp_key p) s
        | [] \<Rightarrow> next_loop ex key hasFound buckets s))"

definition hashtable_next :: "ext \<Rightarrow> addr \<Rightarrow> value \<Rightarrow> vm \<Rightarrow> (value, vm) res" where
  "hashtable_next ex a key s =
     rbind (deref (tabs s) a s) (\<lambda>this s.
     rbind (if key \<noteq> VNotPresent then
              rbind (value_hash_code ex key s) (\<lambda>hash s.
                Ok (bucket_index hash (ht_capacity this)) s)
            else Ok 0 s) (\<lambda>bucketStart s.
       next_loop ex key False (drop bucketStart (take (nat (ht_capacity this)) (ht_table this))) s))"

text \<open>The table operations of \<open>value.c\<close>.\<close>

definition value_new_table :: "ext \<Rightarrow> dbl \<Rightarrow> int \<Rightarrow> vm \<Rightarrow> (value, vm) res" where
  "value_new_table ex loadFactor initialCapacity s =
     rbind (hashtable_new ex loadFactor initialCapacity s) (\<lambda>r s.
       case r of
         None \<Rightarrow> Ok VNotPresent (outOfMemory_errmsg s)
       | Some a \<Rightarrow> Ok (VTable a) s)"

definition attempt_to_index :: "value \<Rightarrow> vm \<Rightarrow> (unit, vm) res" where
  "attempt_to_index table s =
     rbind (typename_arg table s) (\<lambda>t s.
       Ok () (fluffyvm_set_errmsg_printf s
         (bytes_of (''attempt to index '' @ quote) @ t @ bytes_of quote)))"

definition value_table_set :: "ext \<Rightarrow> value \<Rightarrow> value \<Rightarrow> value \<Rightarrow> vm \<Rightarrow> (bool, vm) res" where
  "value_table_set ex table key v s =
     rbind (checkPresent table s) (\<lambda>_ s. rbind (checkPresent key s) (\<lambda>_ s.
     rbind (checkPresent v s) (\<lambda>_ s.
       case table of
         VTable a \<Rightarrow> rbind (hashtable_set ex a key v s) (\<lambda>_ s. Ok True s)
       | _ \<Rightarrow> rbind (attempt_to_index table s) (\<lambda>_ s. Ok False s))))"

definition value_table_get :: "ext \<Rightarrow> value \<Rightarrow> value \<Rightarrow> vm \<Rightarrow> (value, vm) res" where
  "value_table_get ex table key s =
     rbind (checkPresent table s) (\<lambda>_ s. rbind (checkPresent key s) (\<lambda>_ s.
       case table of
         VTable a \<Rightarrow> hashtable_get ex a key s
       | _ \<Rightarrow> rbind (attempt_to_index table s) (\<lambda>_ s. Ok VNotPresent s)))"

subsection \<open>Well-formed tables and their contents\<close>

text \<open>
  \<open>same_objs\<close>: the objects a value can refer to are the same, hash caches aside. \<open>kept\<close>: in
  addition only caches, the allocation counter and the error message changed.
\<close>

definition same_objs :: "vm \<Rightarrow> vm \<Rightarrow> bool" where
  "same_objs s t \<longleftrightarrow> udatas t = udatas s \<and> (\<forall>a. tabs t a = None \<longleftrightarrow> tabs s a = None) \<and>
     (\<forall>a. map_option vs_bytes (strs t a) = map_option vs_bytes (strs s a))"

definition kept :: "vm \<Rightarrow> vm \<Rightarrow> bool" where
  "kept s t \<longleftrightarrow> t = s\<lparr>strs := strs t, brk := brk t, errMsg := errMsg t\<rparr> \<and> brk s \<le> brk t \<and>
     (\<forall>a. map_option vs_bytes (strs t a) = map_option vs_bytes (strs s a))"

definition grown :: "ext \<Rightarrow> vm \<Rightarrow> 'a \<Rightarrow> ('a, vm) res \<Rightarrow> bool" where
  "grown ex s x r \<longleftrightarrow> (\<exists>t. r = Ok x t \<and> kept s t \<and> strings_ok ex t)"

text \<open>Keys that a table identifies; the collector never refuses an allocation.\<close>

definition key_same :: "ext \<Rightarrow> vm \<Rightarrow> value \<Rightarrow> value \<Rightarrow> bool" where
  "key_same ex s k k' \<longleftrightarrow> value_hash ex s k = value_hash ex s k' \<and> same_value s k k'"

definition always_mem :: "vm \<Rightarrow> bool" where
  "always_mem s \<longleftrightarrow> (\<forall>n. mem s n)"

definition pair_ok :: "vm \<Rightarrow> hashtable_pair \<Rightarrow> bool" where
  "pair_ok s p \<longleftrightarrow> hashable s (hp_key p) \<and> hp_value p \<noteq> VNotPresent"

definition key_index :: "ext \<Rightarrow> vm \<Rightarrow> int \<Rightarrow> value \<Rightarrow> nat" where
  "key_index ex s cap k = bucket_index (value_hash ex s k) cap"

definition bucket_ok :: "ext \<Rightarrow> vm \<Rightarrow> int \<Rightarrow> nat \<Rightarrow> hashtable_pair list \<Rightarrow> bool" where
  "bucket_ok ex s cap i ps \<longleftrightarrow> length ps \<le> 1 \<and>
     (\<forall>p \<in> set ps. pair_ok s p \<and> key_index ex s cap (hp_key p) = i)"

definition buckets_ok :: "ext \<Rightarrow> vm \<Rightarrow> int \<Rightarrow> hashtable_pair list list \<Rightarrow> bool" where
  "buckets_ok ex s cap T \<longleftrightarrow> (\<exists>k \<le> 30. cap = 2 ^ k) \<and> length T = nat cap \<and>
     (\<forall>i < length T. bucket_ok ex s cap i (T ! i))"

definition ht_ok :: "ext \<Rightarrow> vm \<Rightarrow> hashtable \<Rightarrow> bool" where
  "ht_ok ex s ht \<longleftrightarrow> buckets_ok ex s (ht_capacity ht) (ht_table ht) \<and> 0 \<le> ht_usage ht \<and>
     ht_usage ht \<le> INT_MAX"

definition buckets_lookup ::
    "ext \<Rightarrow> vm \<Rightarrow> int \<Rightarrow> hashtable_pair list list \<Rightarrow> value \<Rightarrow> value option" where
  "buckets_lookup ex s cap T k =
     map_option hp_value (find (\<lambda>p. key_same ex s (hp_key p) k) (T ! key_index ex s cap k))"

definition ht_lookup :: "ext \<Rightarrow> vm \<Rightarrow> hashtable \<Rightarrow> value \<Rightarrow> value option" where
  "ht_lookup ex s ht = buckets_lookup ex s (ht_capacity ht) (ht_table ht)"

lemma same_objs_refl [simp]: "same_objs s s"
  by (simp add: same_objs_def)

lemma same_objs_trans: "same_objs s t \<Longrightarrow> same_objs t u \<Longrightarrow> same_objs s u"
  by (simp add: same_objs_def)

lemma same_objs_strs_None: "same_objs s t \<Longrightarrow> strs t a = None \<longleftrightarrow> strs s a = None"
  by (simp add: same_objs_def) (metis option.map_disc_iff)

lemma same_objs_string_bytes: "same_objs s t \<Longrightarrow> string_bytes t a = string_bytes s a"
  by (simp add: same_objs_def string_bytes_def split: option.splits)
     (metis option.map_disc_iff option.distinct(1) option.simps(9) option.inject)

lemma same_objs_ud_key: "same_objs s t \<Longrightarrow> ud_key f t a = ud_key f s a"
  by (simp add: ud_key_def same_objs_def)

lemma same_objs_value_ok: "same_objs s t \<Longrightarrow> value_ok t v = value_ok s v"
proof -
  assume o: "same_objs s t"
  then have "udatas t = udatas s" "\<And>a. tabs t a = None \<longleftrightarrow> tabs s a = None"
    by (simp_all add: same_objs_def)
  then show ?thesis by (cases v) (simp_all add: same_objs_strs_None[OF o] del: not_None_eq)
qed

lemma same_objs_hashable: "same_objs s t \<Longrightarrow> hashable t v = hashable s v"
  by (simp add: hashable_def same_objs_value_ok same_objs_ud_key)

lemma same_objs_value_hash: "same_objs s t \<Longrightarrow> value_hash ex t v = value_hash ex s v"
  by (cases v) (simp_all add: same_objs_string_bytes same_objs_ud_key)

lemma same_objs_same_value: "same_objs s t \<Longrightarrow> same_value t v w = same_value s v w"
  by (cases v; cases w) (simp_all add: same_objs_string_bytes same_objs_ud_key)

lemmas same_objs_values = same_objs_value_ok same_objs_hashable same_objs_value_hash
  same_objs_same_value same_objs_string_bytes

lemma same_objs_tables:
  assumes "same_objs s t"
  shows "key_same ex t = key_same ex s" "key_index ex t = key_index ex s"
    "pair_ok t = pair_ok s" "bucket_ok ex t = bucket_ok ex s" "buckets_ok ex t = buckets_ok ex s"
    "buckets_lookup ex t = buckets_lookup ex s" "ht_ok ex t = ht_ok ex s"
    "ht_lookup ex t = ht_lookup ex s"
  by (simp_all add: fun_eq_iff key_same_def key_index_def pair_ok_def bucket_ok_def buckets_ok_def
      buckets_lookup_def ht_ok_def ht_lookup_def same_objs_values[OF assms])

lemma same_data_kept: "same_data s t \<Longrightarrow> kept s t"
  unfolding kept_def same_data_def by (cases s; cases t) simp

lemma kept_refl [simp]: "kept s s"
  by (simp add: kept_def)

lemma kept_fields:
  assumes "kept s t"
  shows "mem t = mem s" "udatas t = udatas s" "tabs t = tabs s" "bcs t = bcs s"
    "closures t = closures s" "cstates t = cstates s" "coros t = coros s"
    "staticStrings t = staticStrings s" "coroutinesStack t = coroutinesStack s"
    "globalTable t = globalTable s" "mainThread t = mainThread s" "brk s \<le> brk t"
proof -
  have e: "t = s\<lparr>strs := strs t, brk := brk t, errMsg := errMsg t\<rparr>" using assms by (simp add: kept_def)
  show "mem t = mem s" "udatas t = udatas s" "tabs t = tabs s" "bcs t = bcs s"
    "closures t = closures s" "cstates t = cstates s" "coros t = coros s"
    "staticStrings t = staticStrings s" "coroutinesStack t = coroutinesStack s"
    "globalTable t = globalTable s" "mainThread t = mainThread s"
    by (subst e, simp)+
  show "brk s \<le> brk t" using assms by (simp add: kept_def)
qed

lemma kept_trans: "kept s t \<Longrightarrow> kept t u \<Longrightarrow> kept s u"
  unfolding kept_def by (cases s; cases t; cases u) simp

lemma kept_same_objs: "kept s t \<Longrightarrow> same_objs s t"
  by (simp add: same_objs_def kept_fields) (simp add: kept_def)

lemma cached_grown: "cached ex s x r \<Longrightarrow> grown ex s x r"
  by (auto simp: cached_def grown_def intro: same_data_kept)

lemma grown_refl: "strings_ok ex s \<Longrightarrow> grown ex s x (Ok x s)"
  by (auto simp: grown_def)

lemma grown_rbind:
  assumes "grown ex s x m"
    and "\<And>t. kept s t \<Longrightarrow> strings_ok ex t \<Longrightarrow> grown ex t y (f x t)"
  shows "grown ex s y (rbind m f)"
  using assms by (fastforce simp: grown_def intro: kept_trans)

lemma kept_alloc: "kept s (s\<lparr>brk := Suc (brk s)\<rparr>)"
  by (simp add: kept_def)

subsection \<open>Storing an entry\<close>

lemma bucket_index_mod: "bucket_index h (2 ^ k) = unat h mod 2 ^ k"
proof -
  have "word_of_int (2 ^ k - 1) = (mask k :: u64)" by (simp add: mask_eq_exp_minus_1)
  then show ?thesis
    by (simp only: bucket_index_def take_bit_eq_mask[symmetric] unsigned_take_bit_eq)
       (simp only: take_bit_eq_mod)
qed

lemma key_index_less: "buckets_ok ex s cap T \<Longrightarrow> key_index ex s cap k < length T"
  by (auto simp: buckets_ok_def key_index_def bucket_index_mod nat_power_eq)

lemma same_value_sym: "same_value s v w = same_value s w v"
  by (cases v; cases w) (simp_all add: fp_eq_sym eq_commute)

lemma same_value_trans:
  assumes "same_value s v w" and "same_value s w x"
  shows "same_value s v x"
proof -
  have t: "type_tag v = type_tag w" "type_tag w = type_tag x"
    using assms by (blast dest: same_value_tag)+
  show ?thesis
    using assms t by (cases v; cases w; simp; cases x; simp add: fp_eq_trans)
qed

lemma key_same_sym: "key_same ex s k k' \<Longrightarrow> key_same ex s k' k"
  by (simp add: key_same_def same_value_sym[of s k k'])

lemma key_same_trans: "key_same ex s k k' \<Longrightarrow> key_same ex s k' k'' \<Longrightarrow> key_same ex s k k''"
  by (simp add: key_same_def) (blast intro: same_value_trans)

lemma key_same_index: "key_same ex s k k' \<Longrightarrow> key_index ex s cap k = key_index ex s cap k'"
  by (simp add: key_same_def key_index_def)

lemma hashable_value_ok: "hashable s k \<Longrightarrow> value_ok s k"
  by (simp add: hashable_def)

lemma keys_compared:
  assumes ok: "strings_ok ex s" and k: "hashable s k" "hashable s k'"
    and h: "h = value_hash ex s k'"
  shows "cached ex s (key_same ex s k k')
    (rbind (value_hash_code ex k s) (\<lambda>h2 s. if h = h2 then value_equals ex k k' s else Ok False s))"
proof (rule cached_rbind[OF value_hash_code_cached[OF ok k(1)]])
  fix t assume t: "same_data s t" "strings_ok ex t"
  show "cached ex t (key_same ex s k k')
      (if h = value_hash ex s k then value_equals ex k k' t else Ok False t)"
    using value_equals_cached[of ex t k k'] t k h
    by (auto simp: key_same_def same_data_simps hashable_value_ok intro: cached_refl)
qed

text \<open>What storing an entry does to a well-formed bucket array.\<close>

definition bucket_put ::
    "ext \<Rightarrow> vm \<Rightarrow> int \<Rightarrow> hashtable_pair list list \<Rightarrow> value \<Rightarrow> value \<Rightarrow> hashtable_pair list list" where
  "bucket_put ex s cap T k v = T[key_index ex s cap k := [\<lparr>hp_key = k, hp_value = v\<rparr>]]"

definition collides :: "ext \<Rightarrow> vm \<Rightarrow> int \<Rightarrow> hashtable_pair list list \<Rightarrow> value \<Rightarrow> bool" where
  "collides ex s cap T k \<longleftrightarrow>
     (\<exists>p \<in> set (T ! key_index ex s cap k). \<not> key_same ex s (hp_key p) k)"

lemma same_data_tables:
  "same_data s t \<Longrightarrow> key_same ex t = key_same ex s"
  "same_data s t \<Longrightarrow> key_index ex t = key_index ex s"
  "same_data s t \<Longrightarrow> pair_ok t = pair_ok s"
  "same_data s t \<Longrightarrow> buckets_ok ex t = buckets_ok ex s"
  by (simp_all add: same_objs_tables kept_same_objs same_data_kept)

lemma chain_overwrite_single:
  assumes ok: "strings_ok ex s" and p: "pair_ok s p" and k: "hashable s k"
    and h: "h = value_hash ex s k"
  shows "cached ex s (if key_same ex s (hp_key p) k then Some [\<lparr>hp_key = k, hp_value = v\<rparr>] else None)
     (chain_overwrite ex h k v [p] s)"
proof -
  have "hashable s (hp_key p)" using p by (simp add: pair_ok_def)
  note c = keys_compared[OF ok this k h]
  show ?thesis
    unfolding chain_overwrite.simps
    by (subst rbind_assoc[symmetric], rule cached_rbind[OF c]) (simp add: cached_refl)
qed

lemma bucket_cases:
  assumes "buckets_ok ex s cap T" and "i < length T"
  obtains "T ! i = []"
  | p where "T ! i = [p]" "pair_ok s p" "key_index ex s cap (hp_key p) = i"
proof -
  have "bucket_ok ex s cap i (T ! i)" using assms by (simp add: buckets_ok_def)
  then show ?thesis using that by (cases "T ! i") (auto simp: bucket_ok_def)
qed

lemma set_entry_hit:
  assumes ok: "strings_ok ex s" and T: "buckets_ok ex s cap T" and k: "hashable s k"
    and p: "T ! key_index ex s cap k = [p]" "pair_ok s p" "key_same ex s (hp_key p) k"
  shows "cached ex s (True, bucket_put ex s cap T k v) (set_entry ex T cap k v s)"
proof -
  obtain t where t: "value_hash_code ex k s = Ok (value_hash ex s k) t" "same_data s t"
      "strings_ok ex t"
    using value_hash_code_cached[OF ok k] by (auto simp: cached_def)
  have "cached ex t (if key_same ex t (hp_key p) k then Some [\<lparr>hp_key = k, hp_value = v\<rparr>] else None)
     (chain_overwrite ex (value_hash ex s k) k v [p] t)"
    using t k p(2) by (intro chain_overwrite_single) (simp_all add: same_data_tables same_data_simps)
  then obtain u where u: "chain_overwrite ex (value_hash ex s k) k v [p] t
        = Ok (Some [\<lparr>hp_key = k, hp_value = v\<rparr>]) u" "same_data t u" "strings_ok ex u"
    using p(3) t(2) by (auto simp: same_data_tables cached_def)
  have "same_data s u" using t(2) u(2) by (rule same_data_trans)
  then show ?thesis
    using t(1) u(1,3) p(1) key_index_less[OF T, of k]
    by (simp add: set_entry_def key_index_def[symmetric] bucket_put_def Let_def cached_def)
qed

lemma set_entry_miss:
  assumes ok: "strings_ok ex s" and T: "buckets_ok ex s cap T" and k: "hashable s k"
    and p: "T ! key_index ex s cap k = [p]" "pair_ok s p" "\<not> key_same ex s (hp_key p) k"
  shows "\<exists>t. kept s t \<and> set_entry ex T cap k v s =
     (if mem s (brk s) then Fault NullDeref else Ok (False, T) t) \<and> strings_ok ex t"
proof -
  obtain t where t: "value_hash_code ex k s = Ok (value_hash ex s k) t" "same_data s t"
      "strings_ok ex t"
    using value_hash_code_cached[OF ok k] by (auto simp: cached_def)
  have "cached ex t (if key_same ex t (hp_key p) k then Some [\<lparr>hp_key = k, hp_value = v\<rparr>] else None)
     (chain_overwrite ex (value_hash ex s k) k v [p] t)"
    using t k p(2) by (intro chain_overwrite_single) (simp_all add: same_data_tables same_data_simps)
  then obtain u where u: "chain_overwrite ex (value_hash ex s k) k v [p] t = Ok None u"
      "same_data t u" "strings_ok ex u"
    using p(3) t(2) by (auto simp: same_data_tables cached_def)
  have su: "same_data s u" using t(2) u(2) by (rule same_data_trans)
  let ?w = "set_static_errmsg (u\<lparr>brk := Suc (brk u)\<rparr>) SS_outOfMemory"
  have "kept u ?w" by (simp add: kept_def set_static_errmsg_def fluffyvm_set_errmsg_def)
  then have "kept s ?w" using same_data_kept[OF su] kept_trans by blast
  moreover have "strings_ok ex ?w" using u(3) by (simp add: strings_ok_def)
  ultimately show ?thesis
    using t(1) u(1) su p(1) key_index_less[OF T, of k]
    by (intro exI[of _ ?w])
       (simp add: set_entry_def key_index_def[symmetric] new_pair_def gc_alloc_def same_data_fields
         pair_write_next_def Let_def)
qed

lemma set_entry_empty:
  assumes ok: "strings_ok ex s" and T: "buckets_ok ex s cap T" and k: "hashable s k"
    and p: "T ! key_index ex s cap k = []"
  shows "\<exists>t. kept s t \<and> strings_ok ex t \<and> set_entry ex T cap k v s =
     (if mem s (brk s) then Ok (True, bucket_put ex s cap T k v) t else Ok (False, T) t)"
proof -
  obtain u where u: "value_hash_code ex k s = Ok (value_hash ex s k) u" "same_data s u"
      "strings_ok ex u"
    using value_hash_code_cached[OF ok k] by (auto simp: cached_def)
  let ?v = "u\<lparr>brk := Suc (brk u)\<rparr>"
  let ?w = "if mem s (brk s) then ?v else set_static_errmsg ?v SS_outOfMemory"
  have "kept u ?w" by (simp add: kept_def set_static_errmsg_def fluffyvm_set_errmsg_def)
  then have "kept s ?w" using same_data_kept[OF u(2)] kept_trans by blast
  moreover have "strings_ok ex ?w" using u(3) by (simp add: strings_ok_def)
  ultimately show ?thesis
    using u p key_index_less[OF T, of k]
    by (intro exI[of _ ?w])
       (simp add: set_entry_def key_index_def[symmetric] new_pair_def gc_alloc_def same_data_fields
         bucket_put_def Let_def)
qed

definition put_ok :: "ext \<Rightarrow> vm \<Rightarrow> int \<Rightarrow> hashtable_pair list list \<Rightarrow> value \<Rightarrow> value \<Rightarrow> bool" where
  "put_ok ex s cap T k v \<longleftrightarrow> buckets_ok ex s cap T \<and> hashable s k \<and> v \<noteq> VNotPresent \<and>
     \<not> collides ex s cap T k"

lemma put_cases:
  assumes "buckets_ok ex s cap T" and "\<not> collides ex s cap T k"
  obtains "T ! key_index ex s cap k = []"
  | p where "T ! key_index ex s cap k = [p]" "pair_ok s p" "key_same ex s (hp_key p) k"
proof (rule bucket_cases[OF assms(1) key_index_less[OF assms(1), of k]])
  assume "T ! key_index ex s cap k = []"
  then show thesis by (rule that(1))
next
  fix p assume "T ! key_index ex s cap k = [p]" "pair_ok s p"
  then show thesis using assms(2) by (intro that(2)) (auto simp: collides_def)
qed

lemma set_entry_grown:
  assumes ok: "strings_ok ex s" and p: "put_ok ex s cap T k v" and m: "always_mem s"
  shows "grown ex s (True, bucket_put ex s cap T k v) (set_entry ex T cap k v s)"
proof -
  have T: "buckets_ok ex s cap T" and k: "hashable s k" and c: "\<not> collides ex s cap T k"
    using p by (simp_all add: put_ok_def)
  show ?thesis
  proof (rule put_cases[OF T c])
    assume "T ! key_index ex s cap k = []"
    then show ?thesis
      using set_entry_empty[OF ok T k, of v] m by (auto simp: grown_def always_mem_def)
  next
    fix q assume "T ! key_index ex s cap k = [q]" "pair_ok s q" "key_same ex s (hp_key q) k"
    then show ?thesis using set_entry_hit[OF ok T k] by (blast intro: cached_grown)
  qed
qed

lemma buckets_ok_update:
  assumes T: "buckets_ok ex s cap T" and b: "bucket_ok ex s cap i b"
  shows "buckets_ok ex s cap (T[i := b])"
proof -
  have "bucket_ok ex s cap j (T[i := b] ! j)" if "j < length T" for j
    using T b that by (cases "j = i") (simp_all add: buckets_ok_def)
  then show ?thesis using T by (simp add: buckets_ok_def)
qed

lemma buckets_ok_put:
  "put_ok ex s cap T k v \<Longrightarrow> buckets_ok ex s cap (bucket_put ex s cap T k v)"
  unfolding bucket_put_def
  by (rule buckets_ok_update) (simp_all add: put_ok_def bucket_ok_def pair_ok_def)

lemma buckets_lookup_put:
  assumes "put_ok ex s cap T k v"
  shows "buckets_lookup ex s cap (bucket_put ex s cap T k v) k' =
     (if key_same ex s k k' then Some v else buckets_lookup ex s cap T k')"
proof -
  have T: "buckets_ok ex s cap T" and c: "\<not> collides ex s cap T k"
    using assms by (simp_all add: put_ok_def)
  have i: "key_index ex s cap k < length T" by (rule key_index_less[OF T])
  show ?thesis
  proof (cases "key_index ex s cap k' = key_index ex s cap k")
    case False
    then have "\<not> key_same ex s k k'" by (metis key_same_index)
    then show ?thesis using False by (simp add: buckets_lookup_def bucket_put_def)
  next
    case True
    show ?thesis
    proof (rule put_cases[OF T c])
      assume "T ! key_index ex s cap k = []"
      then show ?thesis using True i by (simp add: buckets_lookup_def bucket_put_def)
    next
      fix p assume p: "T ! key_index ex s cap k = [p]" "key_same ex s (hp_key p) k"
      then have "key_same ex s (hp_key p) k' \<Longrightarrow> key_same ex s k k'"
        by (blast intro: key_same_trans key_same_sym)
      then show ?thesis using True i p by (auto simp: buckets_lookup_def bucket_put_def)
    qed
  qed
qed

lemma in_bucket_iff:
  assumes "buckets_ok ex s cap T" and "i < length T"
  shows "p \<in> set (T ! i) \<longleftrightarrow> p \<in> set (concat T) \<and> key_index ex s cap (hp_key p) = i"
proof -
  have "\<And>j q. j < length T \<Longrightarrow> q \<in> set (T ! j) \<Longrightarrow> key_index ex s cap (hp_key q) = j"
    using assms(1) by (simp add: buckets_ok_def bucket_ok_def)
  then show ?thesis using assms(2) by (auto simp: set_conv_nth[of T])
qed

lemma entries_pair_ok:
  "buckets_ok ex s cap T \<Longrightarrow> p \<in> set (concat T) \<Longrightarrow> pair_ok s p"
  by (auto simp: buckets_ok_def bucket_ok_def in_set_conv_nth[of _ T])

text \<open>A lookup finds exactly the entries whose key is the same.\<close>

lemma buckets_lookup_iff:
  assumes T: "buckets_ok ex s cap T"
  shows "buckets_lookup ex s cap T k = Some v \<longleftrightarrow>
     (\<exists>p \<in> set (concat T). key_same ex s (hp_key p) k \<and> hp_value p = v)"
proof -
  let ?i = "key_index ex s cap k"
  have i: "?i < length T" by (rule key_index_less[OF T])
  have "buckets_lookup ex s cap T k = Some v \<longleftrightarrow>
      (\<exists>p \<in> set (T ! ?i). key_same ex s (hp_key p) k \<and> hp_value p = v)"
    by (rule bucket_cases[OF T i]) (auto simp: buckets_lookup_def)
  then show ?thesis
    using in_bucket_iff[OF T i] key_same_index[of ex s _ k cap] by (auto simp del: set_concat)
qed

subsection \<open>Rehashing into twice the capacity\<close>

definition rehashed ::
    "ext \<Rightarrow> vm \<Rightarrow> int \<Rightarrow> hashtable_pair list \<Rightarrow> hashtable_pair list list \<Rightarrow> hashtable_pair list list" where
  "rehashed ex s cap ps T = fold (\<lambda>p T. bucket_put ex s cap T (hp_key p) (hp_value p)) ps T"

definition spread :: "ext \<Rightarrow> vm \<Rightarrow> int \<Rightarrow> hashtable_pair list \<Rightarrow> hashtable_pair list list \<Rightarrow> bool" where
  "spread ex s cap ps T \<longleftrightarrow> distinct (map (\<lambda>p. key_index ex s cap (hp_key p)) ps) \<and>
     (\<forall>p \<in> set ps. pair_ok s p \<and> T ! key_index ex s cap (hp_key p) = [])"

lemma spread_Cons:
  assumes "spread ex s cap (p # ps) T" and T: "buckets_ok ex s cap T"
  shows "put_ok ex s cap T (hp_key p) (hp_value p)"
    and "spread ex s cap ps (bucket_put ex s cap T (hp_key p) (hp_value p))"
proof -
  show "put_ok ex s cap T (hp_key p) (hp_value p)"
    using assms by (auto simp: spread_def put_ok_def collides_def pair_ok_def)
  have "\<And>q. q \<in> set ps \<Longrightarrow> key_index ex s cap (hp_key p) \<noteq> key_index ex s cap (hp_key q)"
    using assms(1) by (auto simp: spread_def)
  then show "spread ex s cap ps (bucket_put ex s cap T (hp_key p) (hp_value p))"
    using assms(1) by (auto simp: spread_def bucket_put_def)
qed

lemma rehashed_ok:
  assumes "buckets_ok ex s cap T" and "spread ex s cap ps T"
  shows "buckets_ok ex s cap (rehashed ex s cap ps T)"
  using assms
proof (induction ps arbitrary: T)
  case (Cons p ps)
  show ?case
    using Cons.IH[OF buckets_ok_put[OF spread_Cons(1)] spread_Cons(2)] Cons.prems
    by (simp add: rehashed_def)
qed (simp add: rehashed_def)

lemma set_concat_put:
  assumes "i < length T" and "T ! i = []"
  shows "set (concat (T[i := [p]])) = insert p (set (concat T))"
proof -
  have "T = take i T @ [] # drop (Suc i) T" using id_take_nth_drop[OF assms(1)] assms(2) by simp
  then have "set (concat T) = set (concat (take i T)) \<union> set (concat (drop (Suc i) T))"
    by (metis append_Nil concat.simps(2) concat_append set_append)
  then show ?thesis by (simp add: upd_conv_take_nth_drop[OF assms(1)])
qed

lemma pair_collapse: "\<lparr>hp_key = hp_key p, hp_value = hp_value p\<rparr> = p"
  by simp

lemma rehashed_entries:
  assumes "buckets_ok ex s cap T" and "spread ex s cap ps T"
  shows "set (concat (rehashed ex s cap ps T)) = set ps \<union> set (concat T)"
  using assms
proof (induction ps arbitrary: T)
  case (Cons p ps)
  let ?T = "bucket_put ex s cap T (hp_key p) (hp_value p)"
  have "set (concat ?T) = insert p (set (concat T))"
    using Cons.prems key_index_less[OF Cons.prems(1)]
    by (simp add: bucket_put_def set_concat_put spread_def pair_collapse del: set_concat)
  then show ?case
    using Cons.IH[OF buckets_ok_put[OF spread_Cons(1)] spread_Cons(2)] Cons.prems
    by (simp add: rehashed_def del: set_concat)
qed (simp add: rehashed_def)

lemma rehash_grown:
  assumes "strings_ok ex s" and "always_mem s" and "buckets_ok ex s cap T"
    and "spread ex s cap ps T"
  shows "grown ex s (True, rehashed ex s cap ps T) (rehash ex T cap ps s)"
  using assms
proof (induction ps arbitrary: T s)
  case Nil
  then show ?case by (simp add: rehashed_def grown_refl)
next
  case (Cons p ps)
  let ?T = "bucket_put ex s cap T (hp_key p) (hp_value p)"
  note put = spread_Cons(1)[OF Cons.prems(4,3)] and rest = spread_Cons(2)[OF Cons.prems(4,3)]
  show ?case
    unfolding rehash.simps
  proof (rule grown_rbind[OF set_entry_grown[OF Cons.prems(1) put Cons.prems(2)]])
    fix t assume t: "kept s t" "strings_ok ex t"
    note o = same_objs_tables[OF kept_same_objs[OF t(1)]]
    have "rehashed ex t cap ps ?T = rehashed ex s cap (p # ps) T"
      by (simp add: rehashed_def bucket_put_def o)
    moreover have "grown ex t (True, rehashed ex t cap ps ?T) (rehash ex ?T cap ps t)"
      using t Cons.prems(2) rest buckets_ok_put[OF put]
      by (intro Cons.IH) (simp_all add: o spread_def always_mem_def kept_fields)
    ultimately show "grown ex t (True, rehashed ex s cap (p # ps) T)
        ((case (True, ?T) of (ok, T) \<Rightarrow> \<lambda>s. if \<not> ok then Ok (False, T) s else rehash ex T cap ps s) t)"
      by simp
  qed
qed

lemma power_of_two: "\<not> not_power_of_two (2 ^ k)"
proof -
  have "(2 ^ k :: int) AND (2 ^ k - 1) = take_bit k (2 ^ k)"
    by (simp add: take_bit_eq_mask mask_eq_exp_minus_1)
  then show ?thesis by (simp add: not_power_of_two_def take_bit_eq_mod)
qed

lemma power_ok: "k \<le> 30 \<Longrightarrow> int_ok (2 ^ k) \<and> int_ok (2 ^ k - 1)"
proof -
  assume "k \<le> 30"
  then have "(2::int) ^ k \<le> 1073741824" "0 < (2::int) ^ k"
    using power_increasing[of k 30 "2 :: int"] by simp_all
  then show ?thesis unfolding int_ok_def INT_MAX_def INT_MIN_def by linarith
qed

lemma buckets_ok_replicate: "k \<le> 30 \<Longrightarrow> buckets_ok ex s (2 ^ k) (replicate (nat (2 ^ k)) [])"
  by (auto simp: buckets_ok_def bucket_ok_def)

lemma distinct_indices:
  assumes "\<And>i p. i < length T \<Longrightarrow> p \<in> set (T ! i) \<Longrightarrow> f p = i"
    and "\<And>i. i < length T \<Longrightarrow> length (T ! i) \<le> 1"
    and "\<And>p q. g p = g q \<Longrightarrow> f p = f q"
  shows "distinct (map g (concat T))"
  using assms(1,2)
proof (induction T rule: rev_induct)
  case (snoc b T)
  have T: "f p = i" if "i < length T" "p \<in> set (T ! i)" for i p
    using snoc.prems(1)[of i p] that by (simp add: nth_append)
  have d: "distinct (map g (concat T))"
  proof (intro snoc.IH T)
    fix i assume "i < length T"
    then show "length (T ! i) \<le> 1" using snoc.prems(2)[of i] by (simp add: nth_append)
  qed
  have b: "f p = length T" if "p \<in> set b" for p using snoc.prems(1)[of "length T" p] that by simp
  have "f p < length T" if "p \<in> set (concat T)" for p
    using that T by (auto simp: in_set_conv_nth[of _ T])
  then have "g q \<notin> g ` set (concat T)" if "q \<in> set b" for q
    using that b assms(3) by (metis imageE less_irrefl)
  moreover have "length b \<le> 1" using snoc.prems(2)[of "length T"] by simp
  ultimately show ?case using d by (cases b) (auto simp del: set_concat)
qed simp

lemma key_index_double:
  "key_index ex s (2 * 2 ^ k) p = key_index ex s (2 * 2 ^ k) q \<Longrightarrow>
     key_index ex s (2 ^ k) p = key_index ex s (2 ^ k) q"
proof -
  have "(a mod (2 * 2 ^ k)) mod 2 ^ k = a mod (2 ^ k :: nat)" for a
    by (simp add: mod_mod_cancel)
  moreover assume "key_index ex s (2 * 2 ^ k) p = key_index ex s (2 * 2 ^ k) q"
  ultimately show ?thesis
    using bucket_index_mod[of _ "Suc k"] by (simp add: key_index_def bucket_index_mod) metis
qed

lemma take_all_buckets: "length T = nat cap \<Longrightarrow> take (nat cap) T = T"
  by simp

lemma spread_double:
  assumes T: "buckets_ok ex s (2 ^ k) T" and k: "Suc k \<le> 30"
  shows "spread ex s (2 * 2 ^ k) (concat T) (replicate (nat (2 * 2 ^ k)) [])"
proof -
  have "distinct (map (\<lambda>p. key_index ex s (2 * 2 ^ k) (hp_key p)) (concat T))"
    by (rule distinct_indices[of T "\<lambda>p. key_index ex s (2 ^ k) (hp_key p)"])
       (use T in \<open>auto simp: buckets_ok_def bucket_ok_def dest: key_index_double\<close>)
  moreover have "key_index ex s (2 * 2 ^ k) p < nat (2 * 2 ^ k)" for p
    using key_index_less[OF buckets_ok_replicate[OF k]] by simp
  ultimately show ?thesis using entries_pair_ok[OF T] by (simp add: spread_def del: set_concat)
qed

text \<open>
  Growing a well-formed table: no two entries of the old array can meet in the new one, so the
  rehash cannot run into a collision, and the table holds the same entries.
\<close>

definition grown_table :: "ext \<Rightarrow> vm \<Rightarrow> hashtable \<Rightarrow> hashtable" where
  "grown_table ex s ht = (let cap = 2 * ht_capacity ht in
     ht\<lparr>ht_capacity := cap,
        ht_table := rehashed ex s cap (concat (ht_table ht)) (replicate (nat cap) [])\<rparr>)"

lemma ht_okE:
  assumes "ht_ok ex s ht"
  obtains k where "k \<le> 30" "ht_capacity ht = 2 ^ k" "length (ht_table ht) = nat (2 ^ k)"
    "buckets_ok ex s (2 ^ k) (ht_table ht)" "0 \<le> ht_usage ht" "ht_usage ht \<le> INT_MAX"
  using assms by (auto simp: ht_ok_def buckets_ok_def)

lemma double_capacity:
  "k \<le> 30 \<Longrightarrow> int_ok (2 ^ k * 2) \<longleftrightarrow> k < 30"
  using power_ok[of "Suc k"] by (cases "k = 30") (auto simp: int_ok_def INT_MAX_def mult.commute)

lemma grown_table_ok:
  assumes ht: "ht_ok ex s ht" and c: "int_ok (ht_capacity ht * 2)"
  shows "ht_ok ex s (grown_table ex s ht)"
    and "set (concat (ht_table (grown_table ex s ht))) = set (concat (ht_table ht))"
proof -
  obtain k where k: "k \<le> 30" "ht_capacity ht = 2 ^ k" "buckets_ok ex s (2 ^ k) (ht_table ht)"
      "0 \<le> ht_usage ht" "ht_usage ht \<le> INT_MAX"
    by (rule ht_okE[OF ht]) blast
  then have k': "Suc k \<le> 30" using c double_capacity[of k] by simp
  note r = buckets_ok_replicate[OF k', of ex s, unfolded power_Suc] spread_double[OF k(3) k']
  show "ht_ok ex s (grown_table ex s ht)"
    using rehashed_ok[OF r] k by (simp add: ht_ok_def grown_table_def Let_def)
  show "set (concat (ht_table (grown_table ex s ht))) = set (concat (ht_table ht))"
    using rehashed_entries[OF r] k by (simp add: grown_table_def Let_def)
qed

lemma resize_grown:
  assumes ok: "strings_ok ex s" "always_mem s" and ht: "ht_ok ex s ht"
    and c: "int_ok (ht_capacity ht * 2)"
  shows "grown ex s (True, grown_table ex s ht) (resize ex ht (ht_capacity ht) (ht_capacity ht * 2) s)"
proof -
  obtain k where k: "k \<le> 30" "ht_capacity ht = 2 ^ k" "length (ht_table ht) = nat (2 ^ k)"
      "buckets_ok ex s (2 ^ k) (ht_table ht)"
    by (rule ht_okE[OF ht])
  then have k': "Suc k \<le> 30" using c double_capacity[of k] by simp
  let ?s = "s\<lparr>brk := Suc (brk s)\<rparr>"
  have a: "kept s ?s" by (rule kept_alloc)
  note o = same_objs_tables[OF kept_same_objs[OF a]]
  note r = buckets_ok_replicate[OF k', of ex ?s, unfolded power_Suc]
  have sp: "spread ex ?s (2 * 2 ^ k) (concat (ht_table ht)) (replicate (nat (2 * 2 ^ k)) [])"
    using spread_double[OF k(4) k'] by (simp add: spread_def o)
  have "grown ex ?s (True, rehashed ex ?s (2 * 2 ^ k) (concat (ht_table ht)) (replicate (nat (2 * 2 ^ k)) []))
     (rehash ex (replicate (nat (2 * 2 ^ k)) []) (2 * 2 ^ k) (concat (ht_table ht)) ?s)"
    using ok by (intro rehash_grown r sp) (simp_all add: strings_ok_def always_mem_def)
  moreover have "rehashed ex ?s = rehashed ex s"
    by (simp add: fun_eq_iff rehashed_def bucket_put_def o)
  ultimately obtain t where "rehash ex (replicate (nat (2 * 2 ^ k)) []) (2 * 2 ^ k)
        (concat (ht_table ht)) ?s =
      Ok (True, rehashed ex s (2 * 2 ^ k) (concat (ht_table ht)) (replicate (nat (2 * 2 ^ k)) [])) t"
      "kept ?s t" "strings_ok ex t"
    by (auto simp: grown_def)
  then show ?thesis
    using k ok power_ok[OF k'] power_of_two[of "Suc k"] kept_trans[OF a]
    by (auto simp: resize_def gc_alloc_def always_mem_def grown_def grown_table_def Let_def mult.commute)
qed

subsection \<open>Setting and getting\<close>

definition set_base :: "ext \<Rightarrow> vm \<Rightarrow> hashtable \<Rightarrow> hashtable" where
  "set_base ex s ht = (if over_threshold ht then grown_table ex s ht else ht)"

definition ht_put :: "ext \<Rightarrow> vm \<Rightarrow> hashtable \<Rightarrow> value \<Rightarrow> value \<Rightarrow> hashtable" where
  "ht_put ex s ht k v = ht\<lparr>ht_table := bucket_put ex s (ht_capacity ht) (ht_table ht) k v,
     ht_usage := ht_usage ht + 1\<rparr>"

definition ht_collides :: "ext \<Rightarrow> vm \<Rightarrow> hashtable \<Rightarrow> value \<Rightarrow> bool" where
  "ht_collides ex s ht k = collides ex s (ht_capacity ht) (ht_table ht) k"

definition has_room :: "hashtable \<Rightarrow> bool" where
  "has_room ht \<longleftrightarrow> ht_usage ht < INT_MAX \<and> (over_threshold ht \<longrightarrow> ht_capacity ht < 2 ^ 30)"

lemma has_room_double:
  assumes "ht_ok ex s ht" and "has_room ht" and "over_threshold ht"
  shows "int_ok (ht_capacity ht * 2)"
proof (rule ht_okE[OF assms(1)])
  fix k assume k: "k \<le> 30" "ht_capacity ht = 2 ^ k"
  then have "(2::int) ^ k < 2 ^ 30" using assms(2,3) by (simp add: has_room_def)
  then have "k < 30" by (subst (asm) power_strict_increasing_iff) auto
  then show ?thesis using k double_capacity by simp
qed

lemma set_base_ok:
  assumes "ht_ok ex s ht" and "has_room ht"
  shows "ht_ok ex s (set_base ex s ht)"
    and "set (concat (ht_table (set_base ex s ht))) = set (concat (ht_table ht))"
    and "ht_usage (set_base ex s ht) = ht_usage ht"
  using grown_table_ok[OF assms(1) has_room_double[OF assms]] assms(1)
  by (simp_all add: set_base_def del: set_concat) (simp add: grown_table_def Let_def)

lemma ht_lookup_iff:
  assumes "ht_ok ex s ht"
  shows "ht_lookup ex s ht k = Some v \<longleftrightarrow>
     (\<exists>p \<in> set (concat (ht_table ht)). key_same ex s (hp_key p) k \<and> hp_value p = v)"
  using assms buckets_lookup_iff by (simp add: ht_lookup_def ht_ok_def del: set_concat)

lemma set_base_lookup:
  assumes "ht_ok ex s ht" and "has_room ht"
  shows "ht_lookup ex s (set_base ex s ht) k = ht_lookup ex s ht k"
  using ht_lookup_iff[OF assms(1)] ht_lookup_iff[OF set_base_ok(1)[OF assms]] set_base_ok(2)[OF assms]
  by (metis not_Some_eq)

lemma hashtable_set_steps:
  assumes ok: "strings_ok ex s" "always_mem s" and a: "tabs s a = Some ht" and ht: "ht_ok ex s ht"
    and r: "has_room ht" and k: "hashable s k" and v: "v \<noteq> VNotPresent"
  shows "\<exists>t. kept s t \<and> strings_ok ex t \<and> hashtable_set ex a k v s =
    (if ht_collides ex s (set_base ex s ht) k then Fault NullDeref
     else Ok True (t\<lparr>tabs := (tabs s)(a \<mapsto> ht_put ex s (set_base ex s ht) k v)\<rparr>))"
proof -
  let ?B = "set_base ex s ht"
  have kp: "k \<noteq> VNotPresent" using k by (auto simp: hashable_def)
  have u: "int_ok (ht_usage ht + 1)"
    using r ht by (auto simp: has_room_def int_ok_def ht_ok_def INT_MIN_def)
  have "grown ex s (True, ?B)
     (if over_threshold ht then
        if \<not> int_ok (ht_capacity ht * 2) then Fault SignedOverflow
        else resize ex ht (ht_capacity ht) (ht_capacity ht * 2) s
      else Ok (True, ht) s)"
    using resize_grown[OF ok ht] has_room_double[OF ht r] ok by (simp add: set_base_def grown_refl)
  then obtain t where t: "(if over_threshold ht then
        if \<not> int_ok (ht_capacity ht * 2) then Fault SignedOverflow
        else resize ex ht (ht_capacity ht) (ht_capacity ht * 2) s
      else Ok (True, ht) s) = Ok (True, ?B) t" "kept s t" "strings_ok ex t"
    by (auto simp: grown_def)
  note o = same_objs_tables[OF kept_same_objs[OF t(2)]]
  have m: "always_mem t" using ok(2) t(2) by (simp add: always_mem_def kept_fields)
  have B: "buckets_ok ex t (ht_capacity ?B) (ht_table ?B)"
    using set_base_ok(1)[OF ht r] by (simp add: ht_ok_def o)
  have kt: "hashable t k" using k same_objs_hashable[OF kept_same_objs[OF t(2)]] by simp
  have us: "ht_usage ?B = ht_usage ht" by (rule set_base_ok(3)[OF ht r])
  have e: "hashtable_set ex a k v s =
      rbind (set_entry ex (ht_table ?B) (ht_capacity ?B) k v t) (\<lambda>(_, table) s.
            Ok True (s\<lparr>tabs := (tabs s)(a \<mapsto>
              ?B\<lparr>ht_table := table, ht_usage := ht_usage ?B + 1\<rparr>)\<rparr>))"
    using kp v a u t(1) by (simp add: hashtable_set_def)
  show ?thesis
  proof (cases "ht_collides ex s ?B k")
    case True
    then obtain p where "ht_table ?B ! key_index ex t (ht_capacity ?B) k = [p]" "pair_ok t p"
        "\<not> key_same ex t (hp_key p) k"
      by (cases rule: bucket_cases[OF B key_index_less[OF B, of k]])
         (auto simp: ht_collides_def collides_def o)
    from set_entry_miss[OF t(3) B kt this, of v] m
    have "set_entry ex (ht_table ?B) (ht_capacity ?B) k v t = Fault NullDeref"
      by (auto simp: always_mem_def)
    then show ?thesis using e True t by auto
  next
    case False
    then have "put_ok ex t (ht_capacity ?B) (ht_table ?B) k v"
      using B kt v by (simp add: put_ok_def ht_collides_def collides_def o)
    from set_entry_grown[OF t(3) this m]
    obtain w where w: "set_entry ex (ht_table ?B) (ht_capacity ?B) k v t =
        Ok (True, bucket_put ex s (ht_capacity ?B) (ht_table ?B) k v) w" "kept t w" "strings_ok ex w"
      by (auto simp: grown_def bucket_put_def o)
    moreover have sw: "kept s w" using t(2) w(2) by (rule kept_trans)
    ultimately show ?thesis
      using e False by (intro exI[of _ w]) (simp add: ht_put_def kept_fields(3)[OF sw])
  qed
qed

lemma chain_find_single:
  assumes ok: "strings_ok ex s" and p: "pair_ok s p" and k: "hashable s k"
    and h: "h = value_hash ex s k"
  shows "cached ex s (if key_same ex s (hp_key p) k then hp_value p else VNotPresent)
     (chain_find ex h (\<lambda>op2 s. value_equals ex k op2 s) [p] s)"
proof -
  have kp: "hashable s (hp_key p)" using p by (simp add: pair_ok_def)
  have "cached ex s (key_same ex s (hp_key p) k) (rbind (value_hash_code ex (hp_key p) s)
      (\<lambda>h2 s. if h = h2 then value_equals ex k (hp_key p) s else Ok False s))"
  proof (rule cached_rbind[OF value_hash_code_cached[OF ok kp]])
    fix t assume t: "same_data s t" "strings_ok ex t"
    show "cached ex t (key_same ex s (hp_key p) k)
        (if h = value_hash ex s (hp_key p) then value_equals ex k (hp_key p) t else Ok False t)"
      using value_equals_cached[of ex t k "hp_key p"] t kp k h same_value_sym[of s k "hp_key p"]
      by (auto simp: key_same_def same_data_simps hashable_value_ok intro: cached_refl)
  qed
  then show ?thesis
    unfolding chain_find.simps
    by (subst rbind_assoc[symmetric], elim cached_rbind) (simp add: cached_refl)
qed

definition table_lookup :: "ext \<Rightarrow> addr \<Rightarrow> vm \<Rightarrow> value \<Rightarrow> value option" where
  "table_lookup ex a s k = Option.bind (tabs s a) (\<lambda>ht. ht_lookup ex s ht k)"

definition table_ok :: "ext \<Rightarrow> addr \<Rightarrow> vm \<Rightarrow> bool" where
  "table_ok ex a s \<longleftrightarrow> strings_ok ex s \<and> always_mem s \<and> (\<exists>ht. tabs s a = Some ht \<and> ht_ok ex s ht)"

definition or_absent :: "value option \<Rightarrow> value" where
  "or_absent r = (case r of None \<Rightarrow> VNotPresent | Some v \<Rightarrow> v)"

lemma or_absent_simps [simp]: "or_absent None = VNotPresent" "or_absent (Some v) = v"
  by (simp_all add: or_absent_def)

lemma hashtable_get_cached:
  assumes ok: "strings_ok ex s" and a: "tabs s a = Some ht" and ht: "ht_ok ex s ht"
    and k: "hashable s k"
  shows "cached ex s (or_absent (ht_lookup ex s ht k)) (hashtable_get ex a k s)"
  unfolding hashtable_get_def
proof (rule cached_rbind[OF value_hash_code_cached[OF ok k]])
  fix t assume t: "same_data s t" "strings_ok ex t"
  note o = same_objs_tables[OF kept_same_objs[OF same_data_kept[OF t(1)]]]
  have B: "buckets_ok ex t (ht_capacity ht) (ht_table ht)" using ht by (simp add: ht_ok_def o)
  have kt: "hashable t k" using k t by (simp add: same_data_simps)
  have ht_t: "tabs t a = Some ht" using a t by (simp add: same_data_fields)
  note i = key_index_less[OF B, of k]
  have h: "value_hash ex s k = value_hash ex t k" using t by (simp add: same_data_simps)
  show "cached ex t (or_absent (ht_lookup ex s ht k))
      (internal_get ex a (value_hash ex s k) (\<lambda>op2 s. value_equals ex k op2 s) t)"
  proof (rule bucket_cases[OF B i])
    assume "ht_table ht ! key_index ex t (ht_capacity ht) k = []"
    then show ?thesis
      using ht_t i t by (simp add: internal_get_def h key_index_def[symmetric] Let_def
          ht_lookup_def buckets_lookup_def o cached_refl)
  next
    fix p assume p: "ht_table ht ! key_index ex t (ht_capacity ht) k = [p]" "pair_ok t p"
    then show ?thesis
      using chain_find_single[OF t(2) p(2) kt refl] ht_t i
      by (simp add: internal_get_def h key_index_def[symmetric] Let_def ht_lookup_def
          buckets_lookup_def o if_distrib[of or_absent] if_distrib[of "map_option hp_value"]
          del: chain_find.simps cong: if_cong)
  qed
qed

subsection \<open>The contract of a table\<close>

text \<open>
  \<open>hashtable_set\<close> and \<open>hashtable_get\<close> as their callers see them, over an arbitrary state: a store
  of values by key. The laws speak of stores that returned; the lemmas proved from them say what
  a client finds after any sequence of stores.
\<close>

locale key_store =
  fixes inv :: "'s \<Rightarrow> bool"
    and keyed :: "'s \<Rightarrow> 'k \<Rightarrow> bool"
    and same :: "'s \<Rightarrow> 'k \<Rightarrow> 'k \<Rightarrow> bool"
    and storable :: "'v \<Rightarrow> bool"
    and look :: "'s \<Rightarrow> 'k \<Rightarrow> 'v option"
    and store :: "'k \<Rightarrow> 'v \<Rightarrow> 's \<Rightarrow> (bool, 's) res"
    and fetch :: "'k \<Rightarrow> 's \<Rightarrow> ('v option, 's) res"
  assumes fetch_law: "inv s \<Longrightarrow> keyed s k \<Longrightarrow> \<exists>t. fetch k s = Ok (look s k) t \<and> inv t \<and>
      keyed t = keyed s \<and> same t = same s \<and> look t = look s"
    and store_law: "inv s \<Longrightarrow> keyed s k \<Longrightarrow> storable v \<Longrightarrow> store k v s = Ok b t \<Longrightarrow>
      b \<and> inv t \<and> keyed t = keyed s \<and> same t = same s \<and>
      look t = (\<lambda>k'. if same s k k' then Some v else look s k')"

text \<open>A sequence of stores, and the last of a sequence of entries that a key matches.\<close>

fun store_all :: "('k \<Rightarrow> 'v \<Rightarrow> 's \<Rightarrow> (bool, 's) res) \<Rightarrow> ('k \<times> 'v) list \<Rightarrow> 's \<Rightarrow> (unit, 's) res" where
  "store_all store [] s = Ok () s"
| "store_all store ((k, v) # kvs) s = rbind (store k v s) (\<lambda>_ s. store_all store kvs s)"

fun last_match :: "('k \<Rightarrow> bool) \<Rightarrow> ('k \<times> 'v) list \<Rightarrow> 'v option \<Rightarrow> 'v option" where
  "last_match m [] d = d"
| "last_match m ((k, v) # kvs) d = last_match m kvs (if m k then Some v else d)"

context key_store
begin

lemma store_all_look:
  assumes "inv s" and "\<forall>(k, v) \<in> set kvs. keyed s k \<and> storable v"
    and "store_all store kvs s = Ok u t"
  shows "inv t \<and> keyed t = keyed s \<and> same t = same s \<and>
     (\<forall>k. look t k = last_match (\<lambda>k'. same s k' k) kvs (look s k))"
  using assms
proof (induction kvs arbitrary: s)
  case (Cons kv kvs)
  obtain k v where kv: "kv = (k, v)" by (cases kv)
  obtain b w where w: "store k v s = Ok b w" "store_all store kvs w = Ok u t"
    using Cons.prems(3) by (auto simp: kv res_simps)
  have l: "inv w \<and> keyed w = keyed s \<and> same w = same s \<and>
      look w = (\<lambda>k'. if same s k k' then Some v else look s k')"
    using store_law[OF Cons.prems(1) _ _ w(1)] Cons.prems(2) by (simp add: kv)
  then show ?case using Cons.IH[of w] w(2) Cons.prems(2) by (auto simp: kv)
qed simp

lemma store_all_fetch:
  assumes "inv s" and "\<forall>(k, v) \<in> set kvs. keyed s k \<and> storable v"
    and "store_all store kvs s = Ok u t" and "keyed s k"
  shows "\<exists>w. fetch k t = Ok (last_match (\<lambda>k'. same s k' k) kvs (look s k)) w"
  using store_all_look[OF assms(1-3)] fetch_law[of t k] assms(4) by auto

end

lemma has_room_of_returns:
  assumes "ht_ok ex s ht" and "tabs s a = Some ht" and "k \<noteq> VNotPresent" and "v \<noteq> VNotPresent"
    and r: "hashtable_set ex a k v s = Ok b t"
  shows "has_room ht"
proof -
  have u: "int_ok (ht_usage ht + 1)" and c: "over_threshold ht \<longrightarrow> int_ok (ht_capacity ht * 2)"
    using assms by (auto simp: hashtable_set_def res_simps split: if_splits)
  obtain k where k: "k \<le> 30" "ht_capacity ht = 2 ^ k" by (rule ht_okE[OF assms(1)])
  have "ht_capacity ht < 2 ^ 30" if "over_threshold ht"
    using c that k double_capacity[of k] power_strict_increasing[of k 30 "2 :: int"] by auto
  then show ?thesis using u by (auto simp: has_room_def int_ok_def)
qed

lemma same_objs_update_table:
  assumes "kept s t" and "tabs s a = Some ht"
  shows "same_objs s (t\<lparr>tabs := (tabs s)(a \<mapsto> ht')\<rparr>)"
  using assms kept_same_objs[OF assms(1)] by (auto simp: same_objs_def)

lemma ht_put_ok:
  assumes ht: "ht_ok ex s ht" and k: "hashable s k" and v: "v \<noteq> VNotPresent"
    and c: "\<not> ht_collides ex s ht k" and u: "ht_usage ht < INT_MAX"
  shows "ht_ok ex s (ht_put ex s ht k v)"
    and "ht_lookup ex s (ht_put ex s ht k v) k' =
      (if key_same ex s k k' then Some v else ht_lookup ex s ht k')"
proof -
  have p: "put_ok ex s (ht_capacity ht) (ht_table ht) k v"
    using assms by (simp add: put_ok_def ht_ok_def ht_collides_def)
  show "ht_ok ex s (ht_put ex s ht k v)"
    using buckets_ok_put[OF p] ht u by (simp add: ht_ok_def ht_put_def)
  show "ht_lookup ex s (ht_put ex s ht k v) k' =
      (if key_same ex s k k' then Some v else ht_lookup ex s ht k')"
    using buckets_lookup_put[OF p] by (simp add: ht_lookup_def ht_put_def)
qed

lemma hashtable_set_law:
  assumes t_ok: "table_ok ex a s" and k: "hashable s k" and v: "v \<noteq> VNotPresent"
    and r: "hashtable_set ex a k v s = Ok b t"
  shows "b \<and> table_ok ex a t \<and> same_objs s t \<and>
     table_lookup ex a t = (\<lambda>k'. if key_same ex s k k' then Some v else table_lookup ex a s k')"
proof -
  obtain ht where h: "strings_ok ex s" "always_mem s" "tabs s a = Some ht" "ht_ok ex s ht"
    using t_ok by (auto simp: table_ok_def)
  have "k \<noteq> VNotPresent" using k by (auto simp: hashable_def)
  note room = has_room_of_returns[OF h(4,3) this v r]
  let ?B = "set_base ex s ht"
  obtain w where w: "kept s w" "strings_ok ex w" "\<not> ht_collides ex s ?B k" "b"
      "t = w\<lparr>tabs := (tabs s)(a \<mapsto> ht_put ex s ?B k v)\<rparr>"
    using hashtable_set_steps[OF h room k v] r by (auto split: if_splits)
  have so: "same_objs s t" using same_objs_update_table[OF w(1) h(3)] w(5) by simp
  note o = same_objs_tables[OF so]
  have u: "ht_usage ?B < INT_MAX" using set_base_ok(3)[OF h(4) room] room by (simp add: has_room_def)
  note put = ht_put_ok[OF set_base_ok(1)[OF h(4) room] k v w(3) u]
  have "tabs t a = Some (ht_put ex s ?B k v)" "strings_ok ex t" "always_mem t"
    using w(2,5) h(2) kept_fields(1)[OF w(1)] by (simp_all add: strings_ok_def always_mem_def)
  moreover have "ht_ok ex t (ht_put ex s ?B k v)" using put(1) by (simp add: o)
  ultimately have "table_ok ex a t" by (simp add: table_ok_def)
  moreover have "table_lookup ex a t k' = (if key_same ex s k k' then Some v else table_lookup ex a s k')" for k'
    using \<open>tabs t a = _\<close> h(3) put(2) set_base_lookup[OF h(4) room] by (simp add: table_lookup_def o)
  ultimately show ?thesis using so w(4) by (simp add: fun_eq_iff)
qed

definition table_fetch :: "ext \<Rightarrow> addr \<Rightarrow> value \<Rightarrow> vm \<Rightarrow> (value option, vm) res" where
  "table_fetch ex a k s = rbind (hashtable_get ex a k s) (\<lambda>v s.
     Ok (if v = VNotPresent then None else Some v) s)"

lemma table_fetch_get:
  "table_fetch ex a k s = Ok r t \<Longrightarrow> hashtable_get ex a k s = Ok (or_absent r) t"
  by (auto simp: table_fetch_def res_simps split: if_splits)

lemma lookup_present:
  assumes "ht_ok ex s ht" and "ht_lookup ex s ht k = Some v"
  shows "v \<noteq> VNotPresent"
  using assms ht_lookup_iff[OF assms(1)] entries_pair_ok[of ex s "ht_capacity ht" "ht_table ht"]
  by (auto simp: pair_ok_def ht_ok_def simp del: set_concat)

lemma hashtable_get_law:
  assumes "table_ok ex a s" and k: "hashable s k"
  shows "\<exists>t. hashtable_get ex a k s = Ok (or_absent (table_lookup ex a s k)) t \<and> same_data s t \<and>
     table_ok ex a t"
proof -
  obtain ht where h: "strings_ok ex s" "always_mem s" "tabs s a = Some ht" "ht_ok ex s ht"
    using assms by (auto simp: table_ok_def)
  obtain t where t: "hashtable_get ex a k s = Ok (or_absent (ht_lookup ex s ht k)) t"
      "same_data s t" "strings_ok ex t"
    using hashtable_get_cached[OF h(1,3,4) k] by (auto simp: cached_def)
  have "table_ok ex a t"
    using h t same_objs_tables(7)[OF kept_same_objs[OF same_data_kept[OF t(2)]]]
    by (simp add: table_ok_def same_data_fields always_mem_def)
  then show ?thesis using t h by (auto simp: table_lookup_def)
qed

interpretation tbl: key_store "table_ok ex a" hashable "key_same ex" "\<lambda>v. v \<noteq> VNotPresent"
    "table_lookup ex a" "hashtable_set ex a" "table_fetch ex a" for ex :: ext and a :: addr
proof (unfold_locales, goal_cases)
  case (1 s k)
  then obtain t where t: "hashtable_get ex a k s = Ok (or_absent (table_lookup ex a s k)) t"
      "same_data s t" "table_ok ex a t"
    using hashtable_get_law by blast
  note so = kept_same_objs[OF same_data_kept[OF t(2)]]
  have "table_lookup ex a t = table_lookup ex a s"
    using same_data_fields(4)[OF t(2)] same_objs_tables(8)[OF so]
    by (simp add: fun_eq_iff table_lookup_def)
  moreover have "table_lookup ex a s k \<noteq> Some VNotPresent"
    using 1 by (auto simp: table_ok_def table_lookup_def dest: lookup_present)
  ultimately show ?case
    using t same_objs_hashable[OF so] same_objs_tables(1)[OF so]
    by (cases "table_lookup ex a s k") (auto simp: table_fetch_def fun_eq_iff)
next
  case (2 s k v b t)
  then have l: "b \<and> table_ok ex a t \<and> same_objs s t \<and>
     table_lookup ex a t = (\<lambda>k'. if key_same ex s k k' then Some v else table_lookup ex a s k')"
    by (intro hashtable_set_law)
  then show ?case using same_objs_hashable[of s t] same_objs_tables(1)[of s t ex]
    by (simp add: fun_eq_iff)
qed

subsection \<open>Properties of tables\<close>

text \<open>
  C4. After any sequence of \<open>hashtable_set\<close> calls that returned, \<open>hashtable_get\<close> gives the value of
  the last call whose key equals the key asked for, and what the table held before when there was
  none.
\<close>

theorem hashtable_last_write_wins:
  assumes "table_ok ex a s" and "\<forall>(k, v) \<in> set kvs. hashable s k \<and> v \<noteq> VNotPresent"
    and "store_all (hashtable_set ex a) kvs s = Ok u t" and "hashable s k"
  shows "\<exists>w. hashtable_get ex a k t =
     Ok (or_absent (last_match (\<lambda>k'. key_same ex s k' k) kvs (table_lookup ex a s k))) w"
  using tbl.store_all_fetch[OF assms] by (blast dest: table_fetch_get)

lemma clash_iff:
  assumes ht: "ht_ok ex s ht" and r: "has_room ht"
  shows "ht_collides ex s (set_base ex s ht) k \<longleftrightarrow> (\<exists>p \<in> set (concat (ht_table ht)).
     \<not> key_same ex s (hp_key p) k \<and>
     key_index ex s (ht_capacity (set_base ex s ht)) (hp_key p) =
     key_index ex s (ht_capacity (set_base ex s ht)) k)"
proof -
  let ?B = "set_base ex s ht"
  have B: "buckets_ok ex s (ht_capacity ?B) (ht_table ?B)"
    using set_base_ok(1)[OF ht r] by (simp add: ht_ok_def)
  have "p \<in> set (ht_table ?B ! key_index ex s (ht_capacity ?B) k) \<longleftrightarrow> p \<in> set (concat (ht_table ht)) \<and>
      key_index ex s (ht_capacity ?B) (hp_key p) = key_index ex s (ht_capacity ?B) k" for p
    using in_bucket_iff[OF B key_index_less[OF B, of k], of p] set_base_ok(2)[OF ht r]
    by (simp del: set_concat)
  then show ?thesis by (auto simp: ht_collides_def collides_def simp del: set_concat)
qed

text \<open>
  C18. Exactly when a \<open>hashtable_set\<close> on a well-formed table returns: the table keeps its capacity
  below the load threshold and doubles it above; if some other key of the table then falls into
  the bucket of the new key, the null \<open>next\<close> of the fresh pair is dereferenced; otherwise the
  call returns true. A counter or a capacity that cannot grow further is an overflow.
\<close>

theorem hashtable_set_outcome:
  assumes "strings_ok ex s" and "always_mem s" and "tabs s a = Some ht" and "ht_ok ex s ht"
    and "hashable s k" and "v \<noteq> VNotPresent" and "has_room ht"
    and "cap = (if over_threshold ht then 2 * ht_capacity ht else ht_capacity ht)"
  shows "(if \<exists>p \<in> set (concat (ht_table ht)). \<not> key_same ex s (hp_key p) k \<and>
            key_index ex s cap (hp_key p) = key_index ex s cap k
          then hashtable_set ex a k v s = Fault NullDeref
          else \<exists>t ht'. hashtable_set ex a k v s = Ok True t \<and> tabs t = (tabs s)(a \<mapsto> ht') \<and>
            ht_ok ex t ht' \<and> ht_capacity ht' = cap \<and> ht_usage ht' = ht_usage ht + 1)"
proof -
  have c: "ht_capacity (set_base ex s ht) = cap"
    using assms(8) by (simp add: set_base_def grown_table_def Let_def)
  have p: "\<not> ht_collides ex s (set_base ex s ht) k \<Longrightarrow>
      ht_ok ex s (ht_put ex s (set_base ex s ht) k v)"
    using assms by (intro ht_put_ok set_base_ok) (simp_all add: set_base_ok has_room_def)
  obtain t where t: "kept s t" "hashtable_set ex a k v s =
    (if ht_collides ex s (set_base ex s ht) k then Fault NullDeref
     else Ok True (t\<lparr>tabs := (tabs s)(a \<mapsto> ht_put ex s (set_base ex s ht) k v)\<rparr>))"
    using hashtable_set_steps[OF assms(1-4,7,5,6)] by blast
  note o = same_objs_tables(7)[OF same_objs_update_table[OF t(1) assms(3)]]
  let ?ht = "ht_put ex s (set_base ex s ht) k v"
  have "ht_capacity ?ht = cap" "ht_usage ?ht = ht_usage ht + 1"
    using set_base_ok(3)[OF assms(4,7)] c by (simp_all add: ht_put_def)
  then have "\<not> ht_collides ex s (set_base ex s ht) k \<Longrightarrow>
      \<exists>t ht'. hashtable_set ex a k v s = Ok True t \<and> tabs t = (tabs s)(a \<mapsto> ht') \<and>
            ht_ok ex t ht' \<and> ht_capacity ht' = cap \<and> ht_usage ht' = ht_usage ht + 1"
    using p t(2) by (intro exI[of _ "t\<lparr>tabs := (tabs s)(a \<mapsto> ?ht)\<rparr>"] exI[of _ ?ht]) (simp add: o)
  then show ?thesis
    unfolding clash_iff[OF assms(4,7), unfolded c, symmetric] using t(2) by simp
qed

text \<open>
  \<open>hashtable_new\<close> accepts exactly the positive powers of two; it then gives an empty
  well-formed table, unused so far, of the capacity and load factor asked for.
\<close>

theorem hashtable_new_empty:
  assumes "strings_ok ex s" and "always_mem s" and "k \<le> 30"
  shows "\<exists>a t ht. hashtable_new ex lf (2 ^ k) s = Ok (Some a) t \<and> tabs t = (tabs s)(a \<mapsto> ht) \<and>
     ht_ok ex t ht \<and> (\<forall>key. ht_lookup ex t ht key = None) \<and> ht_capacity ht = 2 ^ k \<and>
     ht_usage ht = 0 \<and> ht_loadFactor ht = lf \<and>
     (c \<le> 0 \<or> c AND (c - 1) \<noteq> 0 \<longrightarrow>
        hashtable_new ex lf c s = Ok None (set_static_errmsg s SS_invalidCapacity))"
proof -
  let ?ht = "\<lparr>ht_capacity = 2 ^ k, ht_loadFactor = lf, ht_usage = 0,
    ht_table = replicate (nat (2 ^ k)) []\<rparr>"
  let ?t = "s\<lparr>brk := Suc (Suc (brk s)), tabs := (tabs s)(brk s \<mapsto> ?ht)\<rparr>"
  have h: "ht_ok ex ?t ?ht"
    using buckets_ok_replicate[OF assms(3), of ex ?t] by (simp add: ht_ok_def INT_MAX_def)
  have "ht_lookup ex ?t ?ht key \<noteq> Some v" for key v
    by (simp add: ht_lookup_iff[OF h])
  then have "\<forall>key. ht_lookup ex ?t ?ht key = None" by (metis not_None_eq)
  moreover have "hashtable_new ex lf (2 ^ k) s = Ok (Some (brk s)) ?t"
    using assms power_ok[of k] power_of_two[of k]
    by (simp add: hashtable_new_def resize_def gc_alloc_def always_mem_def)
  moreover have "c \<le> 0 \<or> c AND (c - 1) \<noteq> 0 \<Longrightarrow>
      hashtable_new ex lf c s = Ok None (set_static_errmsg s SS_invalidCapacity)"
    by (auto simp: hashtable_new_def not_power_of_two_def)
  ultimately show ?thesis using h
    by (intro exI[of _ "brk s"] exI[of _ ?t] exI[of _ ?ht]) simp
qed

text \<open>
  A set that finds no memory for its pair reports success all the same: it returns true and
  counts the entry, but the table holds what it held before.
\<close>

theorem hashtable_set_hides_oom:
  assumes "strings_ok ex s" and "tabs s a = Some ht" and "ht_ok ex s ht" and "hashable s k"
    and "v \<noteq> VNotPresent" and "\<not> over_threshold ht" and "ht_usage ht < INT_MAX"
    and "\<forall>p \<in> set (concat (ht_table ht)). \<not> key_same ex s (hp_key p) k" and "\<not> mem s (brk s)"
  shows "\<exists>t ht'. hashtable_set ex a k v s = Ok True t \<and> tabs t a = Some ht' \<and>
     ht_usage ht' = ht_usage ht + 1 \<and> ht_table ht' = ht_table ht \<and> ht_lookup ex t ht' k = None"
proof -
  have T: "buckets_ok ex s (ht_capacity ht) (ht_table ht)" using assms(3) by (simp add: ht_ok_def)
  have "k \<noteq> VNotPresent" using assms(4) by (auto simp: hashable_def)
  have u: "int_ok (ht_usage ht + 1)"
    using assms(3,7) by (auto simp: int_ok_def ht_ok_def INT_MIN_def)
  have "\<exists>t. kept s t \<and> set_entry ex (ht_table ht) (ht_capacity ht) k v s = Ok (False, ht_table ht) t"
  proof (rule bucket_cases[OF T key_index_less[OF T, of k]])
    assume "ht_table ht ! key_index ex s (ht_capacity ht) k = []"
    then show ?thesis using set_entry_empty[OF assms(1) T assms(4), of v] assms(9) by auto
  next
    fix p assume p: "ht_table ht ! key_index ex s (ht_capacity ht) k = [p]" "pair_ok s p"
    then have "\<not> key_same ex s (hp_key p) k"
      using assms(8) key_index_less[OF T, of k] by (metis in_bucket_iff[OF T] list.set_intros(1))
    then show ?thesis using set_entry_miss[OF assms(1) T assms(4) p, of v] assms(9) by auto
  qed
  then obtain t where t: "kept s t"
      "set_entry ex (ht_table ht) (ht_capacity ht) k v s = Ok (False, ht_table ht) t" by blast
  let ?h = "ht\<lparr>ht_usage := ht_usage ht + 1\<rparr>"
  let ?t = "t\<lparr>tabs := (tabs s)(a \<mapsto> ?h)\<rparr>"
  have "hashtable_set ex a k v s = Ok True ?t"
    using t u assms(2,5,6) \<open>k \<noteq> VNotPresent\<close> by (simp add: hashtable_set_def kept_fields)
  moreover have "ht_lookup ex ?t ?h k = None"
  proof -
    have "ht_lookup ex ?t ?h k = ht_lookup ex s ht k"
      using same_objs_tables(6,8)[OF same_objs_update_table[OF t(1) assms(2), of ?h]]
      by (simp add: ht_lookup_def)
    then show ?thesis using ht_lookup_iff[OF assms(3), of k] assms(8) by (metis not_Some_eq)
  qed
  ultimately show ?thesis by (intro exI[of _ ?t] exI[of _ ?h]) simp
qed

text \<open>Enumeration.\<close>

lemma next_loop_found:
  "key \<noteq> VNotPresent \<Longrightarrow> next_loop ex key True buckets s =
     Ok (case concat buckets of [] \<Rightarrow> VNotPresent | p # _ \<Rightarrow> hp_key p) s"
proof (induction buckets)
  case (Cons b bs)
  then show ?case by (cases b) simp_all
qed simp

lemma next_loop_first:
  "next_loop ex VNotPresent f buckets s =
     Ok (case concat buckets of [] \<Rightarrow> VNotPresent | p # _ \<Rightarrow> hp_key p) s"
proof (induction buckets)
  case (Cons b bs)
  then show ?case by (cases b) simp_all
qed simp

lemma entries_distinct:
  assumes "buckets_ok ex s cap T"
  shows "distinct (map (\<lambda>p. key_index ex s cap (hp_key p)) (concat T))"
  by (rule distinct_indices[of T "\<lambda>p. key_index ex s cap (hp_key p)"])
     (use assms in \<open>auto simp: buckets_ok_def bucket_ok_def\<close>)

lemma takeWhile_before: "p \<notin> set xs \<Longrightarrow> takeWhile (\<lambda>x. x \<noteq> p) (xs @ p # ys) = xs"
  by (induction xs) auto

lemma distinct_suffix:
  assumes "distinct (xs @ p # ys)" and "distinct (us @ p # vs)" and "xs @ p # ys = us @ p # vs"
  shows "vs = ys"
proof -
  have "takeWhile (\<lambda>x. x \<noteq> p) (xs @ p # ys) = xs" using assms(1) by (intro takeWhile_before) simp
  moreover have "takeWhile (\<lambda>x. x \<noteq> p) (us @ p # vs) = us"
    using assms(2) by (intro takeWhile_before) simp
  ultimately have "xs = us" using assms(3) by simp
  then show ?thesis using assms(3) by simp
qed

text \<open>Where an entry stands in the enumeration: what is before it and after it.\<close>

lemma entries_split:
  assumes T: "buckets_ok ex s cap T" and e: "concat T = xs @ p # ys"
  shows "T ! key_index ex s cap (hp_key p) = [p]"
    and "concat (drop (Suc (key_index ex s cap (hp_key p))) T) = ys"
proof -
  let ?i = "key_index ex s cap (hp_key p)"
  have i: "?i < length T" by (rule key_index_less[OF T])
  have "p \<in> set (T ! ?i)" using in_bucket_iff[OF T i, of p] e by simp
  moreover have "length (T ! ?i) \<le> 1" using T i by (simp add: buckets_ok_def bucket_ok_def)
  ultimately show b: "T ! ?i = [p]" by (cases "T ! ?i") auto
  have "T = take ?i T @ [p] # drop (Suc ?i) T"
    using id_take_nth_drop[OF i] b by simp
  then have c: "concat T = concat (take ?i T) @ p # concat (drop (Suc ?i) T)"
    by (metis append_Cons append_Nil concat.simps(2) concat_append)
  have "distinct (concat T)" using entries_distinct[OF T] by (simp add: distinct_map)
  then show "concat (drop (Suc ?i) T) = ys"
    using c e by (intro distinct_suffix[of xs p ys "concat (take ?i T)"]) simp_all
qed

text \<open>
  C19. \<open>hashtable_next\<close> walks the entries of a well-formed table in bucket order: started with no
  key it gives the first key, and from the key of an entry the key of the entry that follows, or
  no value after the last one. A key that is not equal to itself (a NaN) is excluded.
\<close>

theorem hashtable_next_enumerates:
  assumes "strings_ok ex s" and "tabs s a = Some ht" and "ht_ok ex s ht"
    and "concat (ht_table ht) = xs @ p # ys" and "same_value s (hp_key p) (hp_key p)"
  shows "hashtable_next ex a VNotPresent s = Ok (hp_key (hd (xs @ [p]))) s \<and>
    (\<exists>t. hashtable_next ex a (hp_key p) s =
      Ok (case ys of [] \<Rightarrow> VNotPresent | q # _ \<Rightarrow> hp_key q) t \<and> same_data s t)"
proof -
  have T: "buckets_ok ex s (ht_capacity ht) (ht_table ht)" using assms(3) by (simp add: ht_ok_def)
  let ?i = "key_index ex s (ht_capacity ht) (hp_key p)"
  have tk: "take (nat (ht_capacity ht)) (ht_table ht) = ht_table ht"
    using T by (simp add: buckets_ok_def)
  have k: "hashable s (hp_key p)"
    using entries_pair_ok[OF T, of p] assms(4) by (simp add: pair_ok_def)
  then have kp: "hp_key p \<noteq> VNotPresent" by (auto simp: hashable_def)
  have first: "hashtable_next ex a VNotPresent s = Ok (hp_key (hd (xs @ [p]))) s"
    using assms(2,4) tk by (cases xs) (simp_all add: hashtable_next_def next_loop_first)
  note b = entries_split[OF T assms(4)]
  have d: "drop ?i (ht_table ht) = [p] # drop (Suc ?i) (ht_table ht)"
    using key_index_less[OF T, of "hp_key p"] b(1) by (metis Cons_nth_drop_Suc)
  obtain t where t: "value_hash_code ex (hp_key p) s = Ok (value_hash ex s (hp_key p)) t"
      "same_data s t" "strings_ok ex t"
    using value_hash_code_cached[OF assms(1) k] by (auto simp: cached_def)
  obtain w where w: "value_equals ex (hp_key p) (hp_key p) t = Ok True w" "same_data t w"
    using value_equals_cached[OF t(3), of "hp_key p" "hp_key p"] assms(5) k t(2)
    by (auto simp: cached_def same_data_simps hashable_value_ok)
  have "hashtable_next ex a (hp_key p) s =
      Ok (case ys of [] \<Rightarrow> VNotPresent | q # _ \<Rightarrow> hp_key q) w"
    using assms(2) kp t(1) w(1) b(2) d
    by (simp add: hashtable_next_def tk key_index_def[symmetric] next_loop_found)
  then show ?thesis using first same_data_trans[OF t(2) w(2)] by blast
qed

text \<open>What removing a key does to a well-formed table.\<close>

definition ht_has :: "ext \<Rightarrow> vm \<Rightarrow> hashtable \<Rightarrow> value \<Rightarrow> bool" where
  "ht_has ex s ht k \<longleftrightarrow>
     (\<exists>p \<in> set (ht_table ht ! key_index ex s (ht_capacity ht) k). key_same ex s (hp_key p) k)"

definition ht_drop :: "ext \<Rightarrow> vm \<Rightarrow> hashtable \<Rightarrow> value \<Rightarrow> hashtable" where
  "ht_drop ex s ht k =
     (if ht_has ex s ht k
      then ht\<lparr>ht_table := (ht_table ht)[key_index ex s (ht_capacity ht) k := []]\<rparr> else ht)"

lemma ht_drop_ok: "ht_ok ex s ht \<Longrightarrow> ht_ok ex s (ht_drop ex s ht k)"
  by (simp add: ht_drop_def ht_ok_def buckets_ok_update bucket_ok_def)

lemma ht_drop_lookup:
  assumes ht: "ht_ok ex s ht"
  shows "ht_lookup ex s (ht_drop ex s ht k) k' =
    (if key_same ex s k k' then None else ht_lookup ex s ht k')"
proof -
  have T: "buckets_ok ex s (ht_capacity ht) (ht_table ht)" using ht by (simp add: ht_ok_def)
  let ?i = "key_index ex s (ht_capacity ht)"
  note i = key_index_less[OF T]
  note ls = ht_lookup_def buckets_lookup_def ht_drop_def ht_has_def
  have same: "key_same ex s k k' \<Longrightarrow> ?i k = ?i k'" by (rule key_same_index)
  show ?thesis
  proof (cases rule: bucket_cases[OF T i[of k]])
    case 1
    then show ?thesis using same by (auto simp: ls)
  next
    case (2 p)
    have "key_same ex s (hp_key p) k' \<longleftrightarrow> key_same ex s k k'" if "key_same ex s (hp_key p) k"
      using that key_same_trans key_same_sym by blast
    moreover have "\<not> key_same ex s (hp_key p) k'"
      if "\<not> key_same ex s (hp_key p) k" "key_same ex s k k'"
      using that key_same_trans key_same_sym by blast
    ultimately show ?thesis
      using 2 same i[of k] by (cases "?i k' = ?i k") (auto simp: ls)
  qed
qed

lemma chain_remove_bucket:
  assumes ok: "strings_ok ex t" and ht: "ht_ok ex t ht" and k: "hashable t k"
  shows "cached ex t (if ht_has ex t ht k then Some [] else None)
     (chain_remove ex (value_hash ex t k) k [] (ht_table ht ! key_index ex t (ht_capacity ht) k) t)"
proof -
  have T: "buckets_ok ex t (ht_capacity ht) (ht_table ht)" using ht by (simp add: ht_ok_def)
  show ?thesis
  proof (cases rule: bucket_cases[OF T key_index_less[OF T, of k]])
    case 1
    then show ?thesis using ok by (simp add: ht_has_def cached_refl)
  next
    case (2 p)
    then have "hashable t (hp_key p)" by (simp add: pair_ok_def)
    note c = keys_compared[OF ok this k refl]
    show ?thesis
      unfolding 2(1) chain_remove.simps
      by (subst rbind_assoc[symmetric], rule cached_rbind[OF c])
         (simp add: ht_has_def 2(1) cached_refl)
  qed
qed

text \<open>
  C13. \<open>hashtable_remove\<close> on a well-formed table returns, and afterwards a lookup of an equal key
  finds nothing while every other key finds what it found before.
\<close>

theorem hashtable_remove_correct:
  assumes "table_ok ex a s" and "hashable s k"
  shows "\<exists>t. hashtable_remove ex a k s = Ok () t \<and> table_ok ex a t \<and>
    table_lookup ex a t = (\<lambda>k'. if key_same ex s k k' then None else table_lookup ex a s k')"
proof -
  obtain ht where h: "strings_ok ex s" "always_mem s" "tabs s a = Some ht" "ht_ok ex s ht"
    using assms by (auto simp: table_ok_def)
  obtain t where t: "value_hash_code ex k s = Ok (value_hash ex s k) t" "same_data s t"
      "strings_ok ex t"
    using value_hash_code_cached[OF h(1) assms(2)] by (auto simp: cached_def)
  note o = same_objs_tables[OF kept_same_objs[OF same_data_kept[OF t(2)]]]
  have "ht_ok ex t ht" "hashable t k" using h(4) assms(2) t(2) by (simp_all add: o same_data_simps)
  note c = chain_remove_bucket[OF t(3) this]
  have hh: "ht_has ex t ht k = ht_has ex s ht k" by (simp add: ht_has_def o)
  obtain w where w: "chain_remove ex (value_hash ex s k) k []
      (ht_table ht ! key_index ex s (ht_capacity ht) k) t
      = Ok (if ht_has ex s ht k then Some [] else None) w" "same_data t w" "strings_ok ex w"
    using c t(2) unfolding hh by (auto simp: cached_def o same_data_simps)
  have sw: "same_data s w" using t(2) w(2) by (rule same_data_trans)
  let ?w = "w\<lparr>tabs := (tabs s)(a \<mapsto> ht_drop ex s ht k)\<rparr>"
  have T: "buckets_ok ex s (ht_capacity ht) (ht_table ht)" using h(4) by (simp add: ht_ok_def)
  have tw: "tabs w = tabs s" "tabs t = tabs s"
    using same_data_fields(4)[OF sw] same_data_fields(4)[OF t(2)] by simp_all
  have "w = w\<lparr>tabs := (tabs s)(a \<mapsto> ht)\<rparr>"
    using h(3) tw(1) by (simp add: fun_upd_idem vm.equality)
  then have r: "hashtable_remove ex a k s = Ok () ?w"
    using t(1) w(1) h(3) key_index_less[OF T, of k] tw
    by (simp add: hashtable_remove_def key_index_def[symmetric] Let_def ht_drop_def)
  note o = same_objs_tables[OF same_objs_update_table[OF same_data_kept[OF sw] h(3)]]
  have "table_ok ex a ?w"
    using ht_drop_ok[OF h(4)] w(3) h(2) same_data_fields(1)[OF sw]
    unfolding table_ok_def o by (simp add: strings_ok_def always_mem_def)
  moreover have "table_lookup ex a ?w k' = (if key_same ex s k k' then None else table_lookup ex a s k')"
    for k' using h(3) ht_drop_lookup[OF h(4)] by (simp add: table_lookup_def o)
  ultimately show ?thesis using r by (auto simp: fun_eq_iff)
qed

text \<open>
  \<open>hashtable_get2\<close> does not find a string key that is in the table: its comparison reports a
  match when the bytes differ.
\<close>

theorem hashtable_get2_misses:
  assumes "table_ok ex a s" and "strs s b = Some vs" and "table_lookup ex a s (VString b) \<noteq> None"
  shows "\<exists>t. hashtable_get2 ex a (vs_bytes vs) (length (vs_bytes vs)) s = Ok VNotPresent t"
proof -
  obtain ht where h: "strings_ok ex s" "tabs s a = Some ht" "ht_ok ex s ht"
    using assms by (auto simp: table_ok_def)
  have T: "buckets_ok ex s (ht_capacity ht) (ht_table ht)" using h(3) by (simp add: ht_ok_def)
  let ?i = "key_index ex s (ht_capacity ht) (VString b)"
  have i: "?i < length (ht_table ht)" by (rule key_index_less[OF T])
  obtain p where p: "ht_table ht ! ?i = [p]" "pair_ok s p" "key_same ex s (hp_key p) (VString b)"
    using assms(3) h(2)
    by (cases rule: bucket_cases[OF T i])
       (auto simp: table_lookup_def ht_lookup_def buckets_lookup_def split: if_splits)
  obtain c where c: "hp_key p = VString c" "string_bytes s c = vs_bytes vs"
    using p(3) string_bytes_Some[OF assms(2)]
    by (cases "hp_key p") (auto simp: key_same_def split: "value.splits")
  have hk: "hashable s (hp_key p)" using p(2) by (simp add: pair_ok_def)
  obtain t where t: "value_hash_code ex (hp_key p) s = Ok (value_hash ex s (hp_key p)) t"
      "same_data s t"
    using value_hash_code_cached[OF h(1) hk] by (auto simp: cached_def)
  obtain ws where ws: "strs t c = Some ws"
    using hk c(1) same_data_strs_None[OF t(2)] by (fastforce simp: hashable_def)
  have "vs_bytes ws = vs_bytes vs"
    using same_data_string_bytes[OF t(2), of c] c(2) string_bytes_Some[OF ws] by simp
  then have "memcmp_differs (vs_bytes vs) (length (vs_bytes vs)) (hp_key p) t = Ok False t"
    using ws by (simp add: memcmp_differs_def c(1) Let_def)
  moreover have "hashing_hash_xxhash ex (vs_bytes vs) = value_hash ex s (VString b)"
    using string_bytes_Some[OF assms(2)] by simp
  ultimately have "hashtable_get2 ex a (vs_bytes vs) (length (vs_bytes vs)) s = Ok VNotPresent t"
    using h(2) t(1) i p(1)
    by (simp add: hashtable_get2_def internal_get_def Let_def key_index_def[symmetric]
        del: value_hash.simps)
  then show ?thesis by blast
qed

text \<open>
  The default load factor 0.75 is used as a percentage: an unused table of at most 128
  buckets is already over its threshold, so its first set doubles it.
\<close>

theorem default_load_factor_grows:
  assumes "k \<le> 8"
  shows "over_threshold \<lparr>ht_capacity = 2 ^ k, ht_loadFactor = FLUFFYVM_HASHTABLE_DEFAULT_LOAD_FACTOR,
     ht_usage = 0, ht_table = T\<rparr> \<longleftrightarrow> k \<le> 7"
proof -
  have "k \<in> {0, 1, 2, 3, 4, 5, 6, 7, 8}" using assms by auto
  then show ?thesis
    by (elim insertE) (simp_all add: over_threshold_def config_defs fp_eval)
qed

subsection \<open>Concrete cases\<close>

definition sample_table :: hashtable where
  "sample_table = \<lparr>ht_capacity = 4, ht_loadFactor = 0x4059000000000000, ht_usage = 0,
     ht_table = [[], [], [], []]\<rparr>"

definition sample_full :: hashtable where
  "sample_full = \<lparr>ht_capacity = 4, ht_loadFactor = 0x4059000000000000, ht_usage = 1,
     ht_table = [[\<lparr>hp_key = VNil, hp_value = VBool True\<rparr>], [], [], []]\<rparr>"

definition vm_with :: "hashtable \<Rightarrow> vm" where
  "vm_with ht = blank_vm\<lparr>tabs := [0 \<mapsto> ht]\<rparr>"

lemma vm_with_simps [simp]:
  "tabs (vm_with ht) = [0 \<mapsto> ht]" "strs (vm_with ht) = Map.empty" "mem (vm_with ht) n"
  by (simp_all add: vm_with_def blank_vm_def)

lemma vm_with_ok [simp]: "strings_ok ex (vm_with ht)" "always_mem (vm_with ht)"
  by (simp_all add: strings_ok_def always_mem_def)

lemma sample_table_ok: "ht_ok ex s sample_table"
proof -
  have "buckets_ok ex s (2 ^ 2) (replicate (nat (2 ^ 2)) [])" by (rule buckets_ok_replicate) simp
  then show ?thesis by (simp add: ht_ok_def sample_table_def INT_MAX_def numeral_eq_Suc)
qed

lemma hashable_nil [simp]: "hashable s VNil"
  by (simp add: hashable_def)

lemma key_index_nil: "key_index ex s cap VNil = 0"
  by (simp add: key_index_def bucket_index_def)

lemma sample_full_ok: "ht_ok ex s sample_full"
proof -
  have "buckets_ok ex s 4 [[], [], [], []]"
    using sample_table_ok[of ex s] by (simp add: ht_ok_def sample_table_def)
  then have "buckets_ok ex s 4 ([[], [], [], []][0 := [\<lparr>hp_key = VNil, hp_value = VBool True\<rparr>]])"
    by (rule buckets_ok_update) (simp add: bucket_ok_def pair_ok_def key_index_nil)
  then show ?thesis by (simp add: ht_ok_def sample_full_def INT_MAX_def)
qed

lemma sample_ok: "table_ok ex 0 (vm_with sample_table)" "table_ok ex 0 (vm_with sample_full)"
  by (simp_all add: table_ok_def sample_table_ok sample_full_ok)

lemma sample_threshold: "\<not> over_threshold sample_table" "\<not> over_threshold sample_full"
  by (simp_all add: over_threshold_def sample_table_def sample_full_def fp_eval)

lemma sample_room: "has_room sample_table" "has_room sample_full"
  using sample_threshold by (simp_all add: has_room_def) (simp_all add: sample_table_def sample_full_def INT_MAX_def)

lemma sample_set: "\<exists>t. hashtable_set ex 0 VNil (VBool True) (vm_with sample_table) = Ok True t"
proof -
  have "\<not> ht_collides ex (vm_with sample_table) sample_table VNil"
    by (simp add: ht_collides_def collides_def key_index_nil) (simp add: sample_table_def)
  then show ?thesis
    using hashtable_set_steps[of ex "vm_with sample_table" 0 sample_table VNil "VBool True"]
      sample_table_ok sample_room(1) sample_threshold(1) by (auto simp: set_base_def)
qed

theorem hashtable_last_write_wins_witness:
  "\<exists>t. store_all (hashtable_set sample_ext 0) [(VNil, VBool True)] (vm_with sample_table) = Ok () t \<and>
     (\<exists>w. hashtable_get sample_ext 0 VNil t = Ok (or_absent (last_match
        (\<lambda>k'. key_same sample_ext (vm_with sample_table) k' VNil) [(VNil, VBool True)]
        (table_lookup sample_ext 0 (vm_with sample_table) VNil))) w)"
proof -
  obtain t where t: "store_all (hashtable_set sample_ext 0) [(VNil, VBool True)]
      (vm_with sample_table) = Ok () t"
    using sample_set[of sample_ext] by auto
  show ?thesis
    using t hashtable_last_write_wins[OF sample_ok(1) _ t, of VNil] by auto
qed

theorem hashtable_set_outcome_witness:
  "\<exists>t ht'. hashtable_set sample_ext 0 VNil (VBool False) (vm_with sample_full) = Ok True t \<and>
     tabs t = (tabs (vm_with sample_full))(0 \<mapsto> ht') \<and> ht_ok sample_ext t ht' \<and>
     ht_capacity ht' = 4 \<and> ht_usage ht' = 2"
  using hashtable_set_outcome[of sample_ext "vm_with sample_full" 0 sample_full VNil "VBool False" 4]
    sample_full_ok sample_room(2) sample_threshold(2)
  by (simp add: key_same_def) (simp add: sample_full_def)

theorem hashtable_new_empty_witness:
  "hashtable_new sample_ext 0 12 (vm_with sample_table) =
     Ok None (set_static_errmsg (vm_with sample_table) SS_invalidCapacity) \<and>
   (\<exists>a t ht. hashtable_new sample_ext 0 16 (vm_with sample_table) = Ok (Some a) t \<and>
     tabs t a = Some ht \<and> (\<forall>key. ht_lookup sample_ext t ht key = None))"
proof -
  have s: "strings_ok sample_ext (vm_with sample_table)" "always_mem (vm_with sample_table)"
    by simp_all
  have "(12::int) AND (12 - 1) \<noteq> 0" by simp
  then show ?thesis using hashtable_new_empty[OF s, of 4 0 12] by fastforce
qed

theorem hashtable_set_hides_oom_witness:
  "\<exists>t ht'. hashtable_set sample_ext 0 VNil (VBool True) ((vm_with sample_table)\<lparr>mem := \<lambda>_. False\<rparr>) = Ok True t \<and>
     tabs t 0 = Some ht' \<and> ht_usage ht' = ht_usage sample_table + 1 \<and>
     ht_table ht' = ht_table sample_table \<and> ht_lookup sample_ext t ht' VNil = None"
proof (rule hashtable_set_hides_oom)
  show "strings_ok sample_ext ((vm_with sample_table)\<lparr>mem := \<lambda>_. False\<rparr>)"
    by (simp add: strings_ok_def)
  show "\<forall>p\<in>set (concat (ht_table sample_table)).
      \<not> key_same sample_ext ((vm_with sample_table)\<lparr>mem := \<lambda>_. False\<rparr>) (hp_key p) VNil"
    by (simp add: sample_table_def)
  show "ht_usage sample_table < INT_MAX" by (simp add: sample_table_def INT_MAX_def)
qed (simp_all add: sample_table_ok sample_threshold)

theorem default_load_factor_grows_witness:
  "over_threshold \<lparr>ht_capacity = 2 ^ 4, ht_loadFactor = FLUFFYVM_HASHTABLE_DEFAULT_LOAD_FACTOR,
     ht_usage = 0, ht_table = []\<rparr>"
  using default_load_factor_grows[of 4] by simp

theorem hashtable_next_enumerates_witness:
  "hashtable_next sample_ext 0 VNotPresent (vm_with sample_full) = Ok VNil (vm_with sample_full) \<and>
   (\<exists>t. hashtable_next sample_ext 0 VNil (vm_with sample_full) = Ok VNotPresent t \<and>
      same_data (vm_with sample_full) t)"
  using hashtable_next_enumerates[of sample_ext "vm_with sample_full" 0 sample_full "[]"
      "\<lparr>hp_key = VNil, hp_value = VBool True\<rparr>" "[]"] sample_full_ok
  by (simp add: sample_full_def)

theorem hashtable_remove_correct_witness:
  "\<exists>t. hashtable_remove sample_ext 0 VNil (vm_with sample_full) = Ok () t \<and> table_ok sample_ext 0 t \<and>
    table_lookup sample_ext 0 t = (\<lambda>k'. if key_same sample_ext (vm_with sample_full) VNil k' then None
      else table_lookup sample_ext 0 (vm_with sample_full) k')"
  by (rule hashtable_remove_correct) (simp_all add: sample_ok)

definition named_vm :: vm where
  "named_vm = (vm_with \<lparr>ht_capacity = 1, ht_loadFactor = 0x4059000000000000, ht_usage = 1,
     ht_table = [[\<lparr>hp_key = VString 1, hp_value = VNil\<rparr>]]\<rparr>)
     \<lparr>strs := [1 \<mapsto> \<lparr>vs_hashCode = 0, vs_bytes = [7]\<rparr>]\<rparr>"

lemma named_vm_ok: "table_ok sample_ext 0 named_vm"
proof -
  have "hashable named_vm (VString 1)" by (simp add: named_vm_def hashable_def)
  moreover have "key_index ex s 1 k = 0" for ex s k
    by (simp add: key_index_def bucket_index_def)
  ultimately show ?thesis
    by (auto simp: table_ok_def ht_ok_def buckets_ok_def bucket_ok_def pair_ok_def INT_MAX_def
        strings_ok_def always_mem_def named_vm_def intro: exI[of _ 0])
qed

theorem hashtable_get2_misses_witness:
  "\<exists>t. hashtable_get2 sample_ext 0 [7] (length [7 :: byte]) named_vm = Ok VNotPresent t"
proof -
  have "table_lookup sample_ext 0 named_vm (VString 1) \<noteq> None"
    by (simp add: table_lookup_def ht_lookup_def buckets_lookup_def key_index_def bucket_index_def
        named_vm_def key_same_def)
  then show ?thesis
    using hashtable_get2_misses[OF named_vm_ok, of 1 "\<lparr>vs_hashCode = 0, vs_bytes = [7]\<rparr>"]
    by (simp add: named_vm_def)
qed

end
