(* ===== verification/Stack.thy ===== *)
theory Stack
  imports Hashtable
begin

text \<open>
  \<open>stack.c\<close>: bounded stacks of collected objects, used for the call stack of a coroutine and for
  the nesting of coroutines. An operation gets the stack and gives back the stack it leaves; the
  array cell of a popped element is cleared.
\<close>

definition stack_new :: "int \<Rightarrow> vm \<Rightarrow> 'a fluffyvm_stack option \<times> vm" where
  "stack_new stackSize s =
     (case gc_alloc s of
        (None, s) \<Rightarrow> (None, set_static_errmsg s SS_outOfMemory)
      | (Some obj, s) \<Rightarrow>
          (case gc_alloc s of
             (None, s) \<Rightarrow> (None, set_static_errmsg s SS_outOfMemory)
           | (Some stackObj, s) \<Rightarrow>
               (Some \<lparr>stk_sp = 0, stk_size = stackSize, stk_arr = replicate (nat stackSize) None\<rparr>,
                s)))"

definition stack_push :: "'a \<Rightarrow> 'a fluffyvm_stack \<Rightarrow> vm \<Rightarrow> (bool \<times> 'a fluffyvm_stack, vm) res" where
  "stack_push data st s =
     (if stk_size st \<le> stk_sp st then Ok (False, st) (set_static_errmsg s SS_stackOverflow)
      else if stk_sp st < 0 \<or> length (stk_arr st) \<le> nat (stk_sp st) then Fault OutOfBounds
      else Ok (True, st\<lparr>stk_arr := (stk_arr st)[nat (stk_sp st) := Some data],
                        stk_sp := stk_sp st + 1\<rparr>) s)"

text \<open>
  \<open>stack_pop\<close> with and without a place for the result: \<open>foxgc_api_object_get_data\<close> is applied
  only when the result is wanted.
\<close>

definition stack_pop ::
    "bool \<Rightarrow> 'a fluffyvm_stack \<Rightarrow> vm \<Rightarrow> ('a option \<times> bool \<times> 'a fluffyvm_stack, vm) res" where
  "stack_pop wanted st s =
     (if stk_sp st - 1 < 0 then Ok (None, False, st) (set_static_errmsg s SS_stackUnderflow)
      else
        let i = nat (stk_sp st - 1);
            st' = st\<lparr>stk_sp := stk_sp st - 1, stk_arr := (stk_arr st)[i := None]\<rparr>
        in if length (stk_arr st) \<le> i then Fault OutOfBounds
           else if \<not> wanted then Ok (None, True, st') s
           else case stk_arr st ! i of
             None \<Rightarrow> Fault NullDeref
           | Some x \<Rightarrow> Ok (Some x, True, st') s)"

definition stack_peek :: "'a fluffyvm_stack \<Rightarrow> vm \<Rightarrow> ('a option, vm) res" where
  "stack_peek st s =
     (if stk_sp st - 1 < 0 then Ok None s
      else
        let i = nat (stk_sp st - 1)
        in if length (stk_arr st) \<le> i then Fault OutOfBounds
           else case stk_arr st ! i of None \<Rightarrow> Fault NullDeref | Some x \<Rightarrow> Ok (Some x) s)"

subsection \<open>Well-formed stacks as lists\<close>

text \<open>The elements from the bottom to the top; the cells above the top are clear.\<close>

definition stk_items :: "'a fluffyvm_stack \<Rightarrow> 'a list" where
  "stk_items st = map the (take (nat (stk_sp st)) (stk_arr st))"

definition stk_ok :: "'a fluffyvm_stack \<Rightarrow> bool" where
  "stk_ok st \<longleftrightarrow> 0 \<le> stk_sp st \<and> stk_sp st \<le> stk_size st \<and> length (stk_arr st) = nat (stk_size st) \<and>
     stk_arr st = map Some (stk_items st) @ replicate (nat (stk_size st) - nat (stk_sp st)) None"

lemma stk_okD:
  assumes "stk_ok st"
  shows "stk_sp st = int (length (stk_items st))" "length (stk_items st) \<le> nat (stk_size st)"
    "stk_arr st = map Some (stk_items st) @ replicate (nat (stk_size st) - length (stk_items st)) None"
    "length (stk_arr st) = nat (stk_size st)" "0 \<le> stk_size st"
proof -
  have l: "length (stk_items st) = nat (stk_sp st)"
    using assms by (simp add: stk_items_def stk_ok_def nat_mono)
  then show "stk_sp st = int (length (stk_items st))" using assms by (simp add: stk_ok_def)
  show "length (stk_items st) \<le> nat (stk_size st)" using l assms by (simp add: stk_ok_def nat_mono)
  show "stk_arr st = map Some (stk_items st) @ replicate (nat (stk_size st) - length (stk_items st)) None"
    using l assms by (simp add: stk_ok_def)
  show "length (stk_arr st) = nat (stk_size st)" "0 \<le> stk_size st" using assms by (auto simp: stk_ok_def)
qed

lemma stk_okI:
  assumes "stk_sp st = int (length xs)" and "int (length xs) \<le> stk_size st"
    and "stk_arr st = map Some xs @ replicate (nat (stk_size st) - length xs) None"
  shows "stk_ok st" and "stk_items st = xs"
proof -
  show "stk_items st = xs" using assms(1,3) by (simp add: stk_items_def o_def)
  then show "stk_ok st" using assms by (auto simp: stk_ok_def)
qed

lemma stack_new_ok:
  assumes "0 \<le> n" and "stack_new n s = (Some st, t)"
  shows "stk_ok st" and "stk_items st = []" and "stk_size st = n"
  using assms by (auto simp: stack_new_def gc_alloc_def split: if_splits intro!: stk_okI)

lemma stack_push_room:
  assumes "stk_ok st" and "length (stk_items st) < nat (stk_size st)"
  obtains st' where "stack_push x st s = Ok (True, st') s" "stk_ok st'" "stk_size st' = stk_size st"
    "stk_items st' = stk_items st @ [x]"
proof -
  let ?n = "length (stk_items st)"
  let ?st = "st\<lparr>stk_arr := (stk_arr st)[?n := Some x], stk_sp := stk_sp st + 1\<rparr>"
  note d = stk_okD[OF assms(1)]
  have "nat (stk_size st) - ?n = Suc (nat (stk_size st) - Suc ?n)" using assms(2) by simp
  then have r: "replicate (nat (stk_size st) - ?n) None = None # replicate (nat (stk_size st) - Suc ?n) None"
    by (simp only: replicate_Suc)
  have "stk_arr ?st = map Some (stk_items st @ [x]) @ replicate (nat (stk_size st) - Suc ?n) None"
    by (simp add: r list_update_append d(3))
  then have "stk_ok ?st" "stk_items ?st = stk_items st @ [x]"
    using d assms(2) by (intro stk_okI[of _ "stk_items st @ [x]"]; simp)+
  moreover have "stack_push x st s = Ok (True, ?st) s"
    using d assms(2) by (simp add: stack_push_def nat_less_iff zless_nat_eq_int_zless)
  ultimately show ?thesis using that by simp
qed

lemma stack_push_full:
  assumes "stk_ok st" and "nat (stk_size st) \<le> length (stk_items st)"
  shows "stack_push x st s = Ok (False, st) (set_static_errmsg s SS_stackOverflow)"
  using stk_okD[OF assms(1)] assms(2) by (simp add: stack_push_def)

lemma stack_pop_items:
  assumes "stk_ok st" and "stk_items st = xs @ [x]"
  obtains st' where "stack_pop w st s = Ok (if w then Some x else None, True, st') s" "stk_ok st'"
    "stk_size st' = stk_size st" "stk_items st' = xs"
proof -
  let ?n = "length xs"
  let ?st = "st\<lparr>stk_sp := stk_sp st - 1, stk_arr := (stk_arr st)[?n := None]\<rparr>"
  note d = stk_okD[OF assms(1), unfolded assms(2)]
  have "nat (stk_size st) - ?n = Suc (nat (stk_size st) - Suc ?n)" using d(2) by simp
  then have "stk_arr ?st = map Some xs @ replicate (nat (stk_size st) - ?n) None"
    using d(3) by (simp add: list_update_append)
  then have "stk_ok ?st" "stk_items ?st = xs"
    using d by (intro stk_okI[of _ xs]; simp)+
  moreover have "stack_pop w st s = Ok (if w then Some x else None, True, ?st) s"
    using d by (simp add: stack_pop_def Let_def nth_append)
  ultimately show ?thesis using that by simp
qed

lemma stack_pop_empty:
  "stk_ok st \<Longrightarrow> stk_items st = [] \<Longrightarrow>
     stack_pop w st s = Ok (None, False, st) (set_static_errmsg s SS_stackUnderflow)"
  using stk_okD(1) by (fastforce simp: stack_pop_def)

lemma stack_peek_items:
  "stk_ok st \<Longrightarrow> stack_peek st s = Ok (if stk_items st = [] then None else Some (last (stk_items st))) s"
  using stk_okD[of st]
  by (cases "stk_items st" rule: rev_cases) (simp_all add: stack_peek_def Let_def nth_append)

subsection \<open>The contract of a bounded stack\<close>

locale bounded_stack =
  fixes inv :: "'st \<Rightarrow> bool"
    and items :: "'st \<Rightarrow> 'a list"
    and bound :: "'st \<Rightarrow> nat"
    and valid :: "'a \<Rightarrow> bool"
    and push :: "'a \<Rightarrow> 'st \<Rightarrow> 'st option"
    and pop :: "'st \<Rightarrow> ('a \<times> 'st) option"
  assumes within: "inv st \<Longrightarrow> length (items st) \<le> bound st"
    and push_room: "inv st \<Longrightarrow> valid x \<Longrightarrow> length (items st) < bound st \<Longrightarrow>
      \<exists>st'. push x st = Some st' \<and> inv st' \<and> bound st' = bound st \<and> items st' = items st @ [x]"
    and push_full: "inv st \<Longrightarrow> length (items st) = bound st \<Longrightarrow> push x st = None"
    and pop_top: "inv st \<Longrightarrow> items st = xs @ [x] \<Longrightarrow>
      \<exists>st'. pop st = Some (x, st') \<and> inv st' \<and> bound st' = bound st \<and> items st' = xs"
    and pop_empty: "inv st \<Longrightarrow> items st = [] \<Longrightarrow> pop st = None"

fun push_all :: "('a \<Rightarrow> 'st \<Rightarrow> 'st option) \<Rightarrow> 'a list \<Rightarrow> 'st \<Rightarrow> 'st option" where
  "push_all push [] st = Some st"
| "push_all push (x # xs) st = Option.bind (push x st) (push_all push xs)"

fun pop_n :: "('st \<Rightarrow> ('a \<times> 'st) option) \<Rightarrow> nat \<Rightarrow> 'st \<Rightarrow> ('a list \<times> 'st) option" where
  "pop_n pop 0 st = Some ([], st)"
| "pop_n pop (Suc n) st =
     Option.bind (pop st) (\<lambda>(x, st). map_option (apfst ((#) x)) (pop_n pop n st))"

context bounded_stack
begin

lemma push_all_iff:
  "inv st \<Longrightarrow> \<forall>x \<in> set xs. valid x \<Longrightarrow>
     (\<exists>st'. push_all push xs st = Some st') \<longleftrightarrow> length (items st) + length xs \<le> bound st"
proof (induction xs arbitrary: st)
  case Nil
  then show ?case using within by simp
next
  case (Cons x xs)
  show ?case
  proof (cases "length (items st) < bound st")
    case True
    obtain st1 where "push x st = Some st1" "inv st1" "bound st1 = bound st"
        "items st1 = items st @ [x]"
      using push_room[OF Cons.prems(1) _ True, of x] Cons.prems(2) by auto
    then show ?thesis using Cons.IH[of st1] Cons.prems(2) by simp
  next
    case False
    then have "length (items st) = bound st" using within[OF Cons.prems(1)] by simp
    then show ?thesis using push_full[OF Cons.prems(1)] by simp
  qed
qed

lemma push_all_items:
  "inv st \<Longrightarrow> \<forall>x \<in> set xs. valid x \<Longrightarrow> push_all push xs st = Some st' \<Longrightarrow>
     inv st' \<and> bound st' = bound st \<and> items st' = items st @ xs"
proof (induction xs arbitrary: st)
  case (Cons x xs)
  have "length (items st) < bound st"
    using Cons.prems push_full within[of st] by (fastforce simp: bind_eq_Some_conv)
  from push_room[OF Cons.prems(1) _ this, of x] Cons.prems(2) obtain st1 where s1: "push x st = Some st1" "inv st1"
      "bound st1 = bound st" "items st1 = items st @ [x]" by auto
  then show ?case using Cons.IH[of st1] Cons.prems(2,3) by simp
qed simp

lemma pop_n_items:
  "inv st \<Longrightarrow> items st = xs @ ys \<Longrightarrow>
     \<exists>st'. pop_n pop (length ys) st = Some (rev ys, st') \<and> inv st' \<and> items st' = xs"
proof (induction ys arbitrary: st rule: rev_induct)
  case (snoc y ys)
  obtain st1 where "pop st = Some (y, st1)" "inv st1" "items st1 = xs @ ys"
    using pop_top[of st "xs @ ys" y] snoc.prems by auto
  then show ?case using snoc.IH[of st1] by auto
qed simp

lemma push_pop_reverse:
  assumes "inv st" and "\<forall>x \<in> set xs. valid x" and "push_all push xs st = Some st'"
  shows "\<exists>st''. pop_n pop (length xs) st' = Some (rev xs, st'') \<and> items st'' = items st"
  using push_all_items[OF assms] pop_n_items[of st' "items st" xs] by blast

end

text \<open>The stacks of \<open>stack.c\<close> keep the contract.\<close>

definition stk_push_in :: "vm \<Rightarrow> 'a \<Rightarrow> 'a fluffyvm_stack \<Rightarrow> 'a fluffyvm_stack option" where
  "stk_push_in s x st = (case stack_push x st s of Ok (True, st') t \<Rightarrow> Some st' | _ \<Rightarrow> None)"

definition stk_pop_in :: "vm \<Rightarrow> 'a fluffyvm_stack \<Rightarrow> ('a \<times> 'a fluffyvm_stack) option" where
  "stk_pop_in s st = (case stack_pop True st s of Ok (Some x, True, st') t \<Rightarrow> Some (x, st') | _ \<Rightarrow> None)"

interpretation stk: bounded_stack stk_ok stk_items "\<lambda>st. nat (stk_size st)" "\<lambda>_. True"
    "stk_push_in s" "stk_pop_in s"
  for s :: vm
proof (unfold_locales, goal_cases)
  case (1 st)
  then show ?case by (rule stk_okD(2))
next
  case (2 st x)
  from 2(1,3) show ?case by (rule stack_push_room[of st x s]) (auto simp: stk_push_in_def)
next
  case (3 st x)
  then show ?case by (simp add: stk_push_in_def stack_push_full)
next
  case (4 st xs x)
  then show ?case by (rule stack_pop_items[of st xs x True s]) (auto simp: stk_pop_in_def)
next
  case (5 st)
  then show ?case by (simp add: stk_pop_in_def stack_pop_empty)
qed

text \<open>
  A stack of \<open>stack.c\<close> accepts a sequence of pushes exactly while it does not exceed its
  size, and pops then give the pushed objects back in reverse order, leaving the stack as it was.
\<close>

theorem stack_lifo:
  assumes "stk_ok st"
  shows "((\<exists>st'. push_all (stk_push_in s) xs st = Some st') \<longleftrightarrow>
      length (stk_items st) + length xs \<le> nat (stk_size st)) \<and>
    (\<forall>st'. push_all (stk_push_in s) xs st = Some st' \<longrightarrow>
      (\<exists>st''. pop_n (stk_pop_in s) (length xs) st' = Some (rev xs, st'') \<and>
        stk_items st'' = stk_items st))"
  using stk.push_all_iff[OF assms] stk.push_pop_reverse[OF assms] by simp

theorem stack_lifo_witness:
  "\<exists>st' st''. push_all (stk_push_in blank_vm) [7, 8] (coroutinesStack blank_vm) = Some st' \<and>
     pop_n (stk_pop_in blank_vm) 2 st' = Some ([8, 7 :: nat], st'') \<and> stk_items st'' = []"
proof -
  have ok: "stk_ok (coroutinesStack blank_vm)"
    by (rule stk_okI(1)[of _ "[]"]; simp add: blank_vm_def)
  have i: "stk_items (coroutinesStack blank_vm) = []"
    by (rule stk_okI(2)[of _ "[]"]; simp add: blank_vm_def)
  have z: "stk_size (coroutinesStack blank_vm) = 64"
    by (simp add: blank_vm_def)
  show ?thesis
    using stack_lifo[OF ok, of blank_vm "[7, 8]"] by (auto simp: i z numeral_2_eq_2)
qed

end
