(* ===== verification/Bytecode.thy ===== *)
theory Bytecode
  imports Stack
begin

text \<open>
  \<open>bytecode.c\<close> and \<open>closure.c\<close>: loading a decoded bytecode message into the machine, reading its
  constants and prototypes, and making closures. The protobuf decoder is generated code and a
  parameter: \<open>unpack\<close> maps the bytes to the message of \<open>bytecode.proto\<close>, or to nothing.
\<close>

subsection \<open>The message\<close>

datatype constant_data =
    Data_not_set
  | Data_str "byte list"
  | Data_longNum u64
  | Data_doubleNum dbl

datatype constant_type = NOT_SET | STRING | DOUBLE | LONG | UNKNOWN_TYPE int

record pb_constant =
  pbc_type :: constant_type
  pbc_data :: constant_data

datatype pb_prototype =
  Pb_Prototype (pb_instructions: "u64 list") (pb_prototypes: "pb_prototype list")
    (pb_lineInfo: "int list") (pb_sourceFile: "byte list")

record pb_bytecode =
  pb_version :: int
  pb_constants :: "pb_constant list"
  pb_mainPrototype :: "pb_prototype option"

type_synonym pb_unpack = "byte list \<Rightarrow> pb_bytecode option"

subsection \<open>Loading\<close>

text \<open>One array request of a loader, which sets the message of the \<open>no_memory\<close> label.\<close>

definition alloc_or :: "static_string \<Rightarrow> vm \<Rightarrow> bool \<times> vm" where
  "alloc_or m s =
     (case gc_alloc s of (None, s) \<Rightarrow> (False, set_static_errmsg s m) | (Some a, s) \<Rightarrow> (True, s))"

text \<open>
  The name of the source file: \<open>len + 1\<close> bytes, so the terminating zero is part of the string,
  except that an empty name stays empty. A refused string is a value that is not present, whose
  object pointer is then asked for.
\<close>

definition source_file_name :: "byte list \<Rightarrow> vm \<Rightarrow> (value, vm) res" where
  "source_file_name name s =
     (case value_new_string2_constant s (if cstr name = [] then [] else cstr name @ [0]) of
        (v, s) \<Rightarrow> rbind (value_get_object_ptr v s) (\<lambda>_ s. Ok v s))"

fun loadPrototype :: "addr \<Rightarrow> pb_prototype \<Rightarrow> vm \<Rightarrow> (prototype option, vm) res"
and loadPrototypes :: "addr \<Rightarrow> pb_prototype list \<Rightarrow> vm \<Rightarrow> (prototype list option, vm) res" where
  "loadPrototype bc (Pb_Prototype instructions prototypes lineinfo sourcefile) s =
     (case alloc_or SS_outOfMemory s of
        (False, s) \<Rightarrow> Ok None s
      | (True, s) \<Rightarrow> rbind (source_file_name sourcefile s) (\<lambda>name s.
          case alloc_or SS_outOfMemory s of
            (False, s) \<Rightarrow> Ok None s
          | (True, s) \<Rightarrow>
          (case alloc_or SS_outOfMemory s of
            (False, s) \<Rightarrow> Ok None s
          | (True, s) \<Rightarrow>
          (case (if lineinfo \<noteq> [] then alloc_or SS_outOfMemory s else (True, s)) of
            (False, s) \<Rightarrow> Ok None s
          | (True, s) \<Rightarrow>
              rbind (loadPrototypes bc prototypes s) (\<lambda>r s.
                case r of
                  None \<Rightarrow> Ok None s
                | Some ps \<Rightarrow> Ok (Some (Prototype bc instructions ps lineinfo name)) s)))))"
| "loadPrototypes bc [] s = Ok (Some []) s"
| "loadPrototypes bc (p # ps) s =
     rbind (loadPrototype bc p s) (\<lambda>r s.
       case r of
         None \<Rightarrow> Ok None s
       | Some q \<Rightarrow> rbind (loadPrototypes bc ps s) (\<lambda>qs s. Ok (map_option ((#) q) qs) s))"

text \<open>
  One round of the loop over the constants: \<open>None\<close> is the jump to \<open>error\<close> with the message set.
\<close>

definition load_constant :: "pb_constant \<Rightarrow> vm \<Rightarrow> value option \<times> vm" where
  "load_constant current s =
     (let bad = (None, set_static_errmsg s SS_invalidBytecode);
          checked = (\<lambda>(v, s). if v = VNotPresent then (None, set_static_errmsg s SS_invalidBytecode)
                              else (Some v, s))
      in case pbc_type current of
           STRING \<Rightarrow>
             (case pbc_data current of
                Data_str bs \<Rightarrow> checked (value_new_string2_constant s bs) | _ \<Rightarrow> bad)
         | LONG \<Rightarrow> (case pbc_data current of Data_longNum n \<Rightarrow> checked (VLong n, s) | _ \<Rightarrow> bad)
         | DOUBLE \<Rightarrow> (case pbc_data current of Data_doubleNum d \<Rightarrow> checked (VDouble d, s) | _ \<Rightarrow> bad)
         | _ \<Rightarrow> bad)"

fun load_constants :: "pb_constant list \<Rightarrow> vm \<Rightarrow> value list option \<times> vm" where
  "load_constants [] s = (Some [], s)"
| "load_constants (c # cs) s =
     (case load_constant c s of
        (None, s) \<Rightarrow> (None, s)
      | (Some v, s) \<Rightarrow> (case load_constants cs s of (vs, s) \<Rightarrow> (map_option ((#) v) vs, s)))"

definition bytecode_load :: "pb_unpack \<Rightarrow> byte list \<Rightarrow> vm \<Rightarrow> (addr option, vm) res" where
  "bytecode_load unpack data s =
     (case gc_alloc s of
        (None, s) \<Rightarrow> Ok None (set_static_errmsg s SS_outOfMemory)
      | (Some this, s) \<Rightarrow>
          (case unpack data of
             None \<Rightarrow> Ok None (set_static_errmsg s SS_protobufFailedToUnpackData)
           | Some bytecode \<Rightarrow>
               if pb_version bytecode \<noteq> FLUFFYVM_RELEASE_NUM then
                 Ok None (set_static_errmsg s SS_unsupportedBytecode)
               else (case alloc_or SS_outOfMemory s of
                 (False, s) \<Rightarrow> Ok None s
               | (True, s) \<Rightarrow> (case alloc_or SS_outOfMemory s of
                   (False, s) \<Rightarrow> Ok None s
                 | (True, s) \<Rightarrow> (case load_constants (pb_constants bytecode) s of
                     (None, s) \<Rightarrow> Ok None s
                   | (Some constants, s) \<Rightarrow>
                       (case pb_mainPrototype bytecode of
                          None \<Rightarrow> (case alloc_or SS_outOfMemory s of
                              (False, s) \<Rightarrow> Ok None s
                            | (True, s) \<Rightarrow> Fault NullDeref)
                        | Some p \<Rightarrow> rbind (loadPrototype this p s) (\<lambda>r s.
                            case r of
                              None \<Rightarrow> Ok None s
                            | Some main \<Rightarrow> Ok (Some this) (s\<lparr>bcs := (bcs s)(this \<mapsto>
                                \<lparr>bc_mainPrototype = Some main, bc_constants = constants\<rparr>)\<rparr>))))))))"

subsection \<open>Reading\<close>

definition range_message :: "string \<Rightarrow> int \<Rightarrow> nat \<Rightarrow> byte list" where
  "range_message what index len = bytes_of (''invalid '' @ what @ '' index '' @ fmt_long index
     @ '' out of 0 - '' @ nat_digits 10 (unat (word_of_nat len - 1 :: u64)) @ '' range'')"

definition bytecode_get_constant :: "bytecode \<Rightarrow> int \<Rightarrow> vm \<Rightarrow> value \<times> vm" where
  "bytecode_get_constant this index s =
     (if index < 0 \<or> int (length (bc_constants this)) \<le> index then
        (VNotPresent,
         fluffyvm_set_errmsg_printf s (range_message ''constant'' index (length (bc_constants this))))
      else (bc_constants this ! nat index, s))"

definition bytecode_prototype_get_prototype ::
    "prototype \<Rightarrow> int \<Rightarrow> vm \<Rightarrow> prototype option \<times> vm" where
  "bytecode_prototype_get_prototype this index s =
     (if index < 0 \<or> int (length (p_prototypes this)) \<le> index then
        (None,
         fluffyvm_set_errmsg_printf s (range_message ''prototype'' index (length (p_prototypes this))))
      else (Some (p_prototypes this ! nat index), s))"

subsection \<open>Closures\<close>

definition closure_new_common :: "value \<Rightarrow> vm \<Rightarrow> (addr option, vm) res" where
  "closure_new_common env s =
     (case gc_alloc s of
        (None, s) \<Rightarrow> Ok None (set_static_errmsg s SS_outOfMemory)
      | (Some a, s) \<Rightarrow>
          rbind (value_get_object_ptr env s) (\<lambda>_ s.
            Ok (Some a) (s\<lparr>closures := (closures s)(a \<mapsto>
              \<lparr>cl_prototype = None, cl_func = None, cl_udata = None, cl_isNative = False,
               cl_env = env, cl_asValue = value_new_closure a, cl_luaCFunction = None\<rparr>)\<rparr>)))"

definition closure_new :: "prototype option \<Rightarrow> value \<Rightarrow> vm \<Rightarrow> (addr option, vm) res" where
  "closure_new proto env s =
     rbind (closure_new_common env s) (\<lambda>r s.
       case r of
         None \<Rightarrow> Ok None s
       | Some a \<Rightarrow>
           (case proto of
              None \<Rightarrow> Fault NullDeref
            | Some p \<Rightarrow> rbind (deref (closures s) a s) (\<lambda>c s.
                Ok (Some a) (s\<lparr>closures := (closures s)(a \<mapsto>
                  c\<lparr>cl_prototype := Some p, cl_isNative := False\<rparr>)\<rparr>))))"

definition closure_from_cfunction ::
    "nat option \<Rightarrow> nat option \<Rightarrow> value \<Rightarrow> vm \<Rightarrow> (addr option, vm) res" where
  "closure_from_cfunction func udata env s =
     rbind (closure_new_common env s) (\<lambda>r s.
       case r of
         None \<Rightarrow> Ok None s
       | Some a \<Rightarrow> rbind (deref (closures s) a s) (\<lambda>c s.
           Ok (Some a) (s\<lparr>closures := (closures s)(a \<mapsto>
             c\<lparr>cl_func := func, cl_udata := udata, cl_isNative := True\<rparr>)\<rparr>)))"

subsection \<open>What a loaded message looks like\<close>

text \<open>
  The strings a load creates stay: it allocates above \<open>brk\<close> and leaves what is below alone.
\<close>

definition strings_grow :: "vm \<Rightarrow> vm \<Rightarrow> bool" where
  "strings_grow s t \<longleftrightarrow> mem t = mem s \<and> brk s \<le> brk t \<and> (\<forall>a < brk s. strs t a = strs s a)"

definition is_string :: "vm \<Rightarrow> value \<Rightarrow> byte list \<Rightarrow> bool" where
  "is_string s v bs \<longleftrightarrow>
     (\<exists>a < brk s. v = VString a \<and> strs s a = Some \<lparr>vs_hashCode = 0, vs_bytes = bs\<rparr>)"

fun proto_mirrors :: "vm \<Rightarrow> addr \<Rightarrow> pb_prototype \<Rightarrow> prototype \<Rightarrow> bool" where
  "proto_mirrors s bc (Pb_Prototype instructions prototypes lineinfo src) p \<longleftrightarrow>
     p_bytecode p = bc \<and> p_instructions p = instructions \<and> p_lineInfo p = lineinfo \<and>
     is_string s (p_sourceFile p) (if cstr src = [] then [] else cstr src @ [0]) \<and>
     list_all2 (proto_mirrors s bc) prototypes (p_prototypes p)"

definition constant_typed :: "pb_constant \<Rightarrow> bool" where
  "constant_typed c \<longleftrightarrow> (case (pbc_type c, pbc_data c) of
     (STRING, Data_str bs) \<Rightarrow> True | (LONG, Data_longNum n) \<Rightarrow> True
   | (DOUBLE, Data_doubleNum d) \<Rightarrow> True | _ \<Rightarrow> False)"

definition constant_mirrors :: "vm \<Rightarrow> pb_constant \<Rightarrow> value \<Rightarrow> bool" where
  "constant_mirrors s c v \<longleftrightarrow> (case pbc_data c of
     Data_str bs \<Rightarrow> is_string s v bs | Data_longNum n \<Rightarrow> v = VLong n
   | Data_doubleNum d \<Rightarrow> v = VDouble d | Data_not_set \<Rightarrow> False)"

lemma strings_grow_refl [simp]: "strings_grow s s"
  by (simp add: strings_grow_def)

lemma strings_grow_trans: "strings_grow s t \<Longrightarrow> strings_grow t u \<Longrightarrow> strings_grow s u"
  by (fastforce simp: strings_grow_def)

lemma strings_grow_mem: "strings_grow s t \<Longrightarrow> always_mem s \<Longrightarrow> always_mem t"
  by (simp add: strings_grow_def always_mem_def)

lemma is_string_grow: "strings_grow s t \<Longrightarrow> is_string s v bs \<Longrightarrow> is_string t v bs"
  by (fastforce simp: strings_grow_def is_string_def)

lemma proto_mirrors_grow: "strings_grow s t \<Longrightarrow> proto_mirrors s bc q p \<Longrightarrow> proto_mirrors t bc q p"
proof (induction q arbitrary: p)
  case (Pb_Prototype ins ps li src)
  then have "list_all2 (proto_mirrors t bc) ps (p_prototypes p)"
    by (auto elim!: list.rel_mono_strong)
  then show ?case using Pb_Prototype.prems by (auto intro: is_string_grow)
qed

lemma constant_mirrors_grow: "strings_grow s t \<Longrightarrow> constant_mirrors s c v \<Longrightarrow> constant_mirrors t c v"
  by (auto simp: constant_mirrors_def intro: is_string_grow split: constant_data.splits)

lemma alloc_or_mem: "always_mem s \<Longrightarrow> alloc_or m s = (True, s\<lparr>brk := Suc (brk s)\<rparr>)"
  by (simp add: alloc_or_def gc_alloc_def always_mem_def)

lemma strings_grow_alloc [simp]: "strings_grow s (s\<lparr>brk := Suc (brk s)\<rparr>)"
  by (simp add: strings_grow_def)

lemma new_string_mem:
  "always_mem s \<Longrightarrow> value_new_string2_constant s bs =
     (VString (brk s), s\<lparr>brk := Suc (brk s),
        strs := (strs s)(brk s \<mapsto> \<lparr>vs_hashCode = 0, vs_bytes = bs\<rparr>)\<rparr>)"
  by (simp add: value_new_string2_constant_def string_cache_create_string_def
      value_string_allocator_def gc_alloc_def always_mem_def)

lemma source_file_name_loads:
  assumes "always_mem s"
  shows "\<exists>v t. source_file_name src s = Ok v t \<and> strings_grow s t \<and>
     is_string t v (if cstr src = [] then [] else cstr src @ [0])"
  using assms by (simp add: source_file_name_def new_string_mem strings_grow_def is_string_def)

lemma loadPrototypes_loads:
  assumes "\<And>q s. q \<in> set qs \<Longrightarrow> always_mem s \<Longrightarrow>
      \<exists>p t. loadPrototype bc q s = Ok (Some p) t \<and> strings_grow s t \<and> proto_mirrors t bc q p"
    and "always_mem s"
  shows "\<exists>ps t. loadPrototypes bc qs s = Ok (Some ps) t \<and> strings_grow s t \<and>
     list_all2 (proto_mirrors t bc) qs ps"
  using assms
proof (induction qs arbitrary: s)
  case (Cons q qs)
  obtain p t where p: "loadPrototype bc q s = Ok (Some p) t" "strings_grow s t" "proto_mirrors t bc q p"
    using Cons.prems(1)[of q s] Cons.prems(2) by auto
  obtain ps u where "loadPrototypes bc qs t = Ok (Some ps) u" "strings_grow t u"
      "list_all2 (proto_mirrors u bc) qs ps"
    using Cons.IH[OF Cons.prems(1) strings_grow_mem[OF p(2) Cons.prems(2)]] by auto
  then show ?case using p proto_mirrors_grow strings_grow_trans by fastforce
qed simp

lemma loadPrototype_loads:
  "always_mem s \<Longrightarrow>
     \<exists>p t. loadPrototype bc q s = Ok (Some p) t \<and> strings_grow s t \<and> proto_mirrors t bc q p"
proof (induction q arbitrary: s)
  case (Pb_Prototype ins qs li src)
  let ?s1 = "s\<lparr>brk := Suc (brk s)\<rparr>"
  obtain v t where v: "source_file_name src ?s1 = Ok v t" "strings_grow ?s1 t"
      "is_string t v (if cstr src = [] then [] else cstr src @ [0])"
    using source_file_name_loads[of ?s1 src] Pb_Prototype.prems strings_grow_mem strings_grow_alloc
    by blast
  have st: "strings_grow s t" using v(2) strings_grow_alloc strings_grow_trans by blast
  let ?t1 = "t\<lparr>brk := Suc (brk t)\<rparr>"
  let ?t2 = "t\<lparr>brk := Suc (Suc (brk t))\<rparr>"
  let ?u = "if li \<noteq> [] then t\<lparr>brk := Suc (Suc (Suc (brk t)))\<rparr> else ?t2"
  have m: "always_mem t" by (rule strings_grow_mem[OF st Pb_Prototype.prems])
  then have ms: "always_mem ?t1" "always_mem ?t2" "always_mem ?u" by (simp_all add: always_mem_def)
  have tu: "strings_grow t ?u" by (simp add: strings_grow_def)
  obtain ps w where ps: "loadPrototypes bc qs ?u = Ok (Some ps) w" "strings_grow ?u w"
      "list_all2 (proto_mirrors w bc) qs ps"
    using loadPrototypes_loads[OF Pb_Prototype.IH ms(3)] by blast
  have "loadPrototype bc (Pb_Prototype ins qs li src) s = Ok (Some (Prototype bc ins ps li v)) w"
    using alloc_or_mem[OF Pb_Prototype.prems] v(1) alloc_or_mem[OF m] alloc_or_mem[OF ms(1)]
      alloc_or_mem[OF ms(2)] ps(1) by (simp split: if_splits)
  moreover have "strings_grow t w" using tu ps(2) by (rule strings_grow_trans)
  ultimately show ?case
    using ps(3) v(3) is_string_grow strings_grow_trans[OF st] by fastforce
qed

lemma load_constants_loads:
  assumes "\<forall>c \<in> set cs. constant_typed c" and "always_mem s"
  shows "\<exists>vs t. load_constants cs s = (Some vs, t) \<and> strings_grow s t \<and>
     list_all2 (constant_mirrors t) cs vs"
  using assms
proof (induction cs arbitrary: s)
  case (Cons c cs)
  obtain v t where v: "load_constant c s = (Some v, t)" "strings_grow s t" "constant_mirrors t c v"
    using Cons.prems
    by (auto simp: constant_typed_def load_constant_def new_string_mem constant_mirrors_def
        is_string_def strings_grow_def Let_def split: constant_type.splits constant_data.splits)
  obtain vs u where "load_constants cs t = (Some vs, u)" "strings_grow t u"
      "list_all2 (constant_mirrors u) cs vs"
    using Cons.IH[of t] Cons.prems strings_grow_mem[OF v(2)] by auto
  then show ?case using v constant_mirrors_grow strings_grow_trans by fastforce
qed simp

text \<open>
  C11. Loading a message of the supported version whose constants have the data their type asks
  for gives a bytecode object that mirrors the message: the same constants in the same order,
  and a tree of prototypes with the instructions, nested prototypes, line numbers and
  zero-terminated file names of the message, each prototype pointing back to the new object.
\<close>

theorem bytecode_load_mirrors:
  assumes "always_mem s" and "unpack data = Some m" and "pb_version m = FLUFFYVM_RELEASE_NUM"
    and "\<forall>c \<in> set (pb_constants m). constant_typed c" and "pb_mainPrototype m = Some q"
  shows "\<exists>a t p vs. bytecode_load unpack data s = Ok (Some a) t \<and>
     bcs t a = Some \<lparr>bc_mainPrototype = Some p, bc_constants = vs\<rparr> \<and>
     list_all2 (constant_mirrors t) (pb_constants m) vs \<and> proto_mirrors t a q p"
proof -
  let ?a = "brk s"
  let ?s1 = "s\<lparr>brk := Suc (brk s)\<rparr>"
  let ?s2 = "s\<lparr>brk := Suc (Suc (brk s))\<rparr>"
  let ?s3 = "s\<lparr>brk := Suc (Suc (Suc (brk s)))\<rparr>"
  have m: "always_mem ?s1" "always_mem ?s2" "always_mem ?s3"
    using assms(1) by (simp_all add: always_mem_def)
  obtain vs t where vs: "load_constants (pb_constants m) ?s3 = (Some vs, t)" "strings_grow ?s3 t"
      "list_all2 (constant_mirrors t) (pb_constants m) vs"
    using load_constants_loads[OF assms(4) m(3)] by blast
  obtain p u where p: "loadPrototype ?a q t = Ok (Some p) u" "strings_grow t u" "proto_mirrors u ?a q p"
    using loadPrototype_loads[OF strings_grow_mem[OF vs(2) m(3)]] by blast
  let ?u = "u\<lparr>bcs := (bcs u)(?a \<mapsto> \<lparr>bc_mainPrototype = Some p, bc_constants = vs\<rparr>)\<rparr>"
  have uu: "strings_grow u ?u" by (simp add: strings_grow_def)
  have "list_all2 (constant_mirrors ?u) (pb_constants m) vs"
    using vs(3) constant_mirrors_grow[OF strings_grow_trans[OF p(2) uu]]
    by (auto elim!: list.rel_mono_strong)
  moreover have "proto_mirrors ?u ?a q p" by (rule proto_mirrors_grow[OF uu p(3)])
  moreover have "bytecode_load unpack data s = Ok (Some ?a) ?u"
    using assms vs(1) p(1) alloc_or_mem[OF m(1)] alloc_or_mem[OF m(2)]
    by (simp add: bytecode_load_def gc_alloc_def always_mem_def)
  ultimately show ?thesis by (intro exI[of _ ?a] exI[of _ ?u] exI[of _ p] exI[of _ vs]) simp
qed

lemma load_constants_rejects:
  assumes "\<not> (\<forall>c \<in> set cs. constant_typed c)" and "always_mem s"
  shows "\<exists>t. load_constants cs s = (None, set_static_errmsg t SS_invalidBytecode) \<and>
     staticStrings t = staticStrings s \<and> bcs t = bcs s"
  using assms
proof (induction cs arbitrary: s)
  case (Cons c cs)
  show ?case
  proof (cases "constant_typed c")
    case True
    then obtain v t where v: "load_constant c s = (Some v, t)" "always_mem t"
        "staticStrings t = staticStrings s" "bcs t = bcs s"
      using Cons.prems
      by (auto simp: constant_typed_def load_constant_def new_string_mem always_mem_def Let_def
          split: constant_type.splits constant_data.splits)
    then show ?thesis using Cons.IH[of t] Cons.prems True by fastforce
  next
    case False
    then have "load_constant c s = (None, set_static_errmsg s SS_invalidBytecode)"
      by (auto simp: constant_typed_def load_constant_def Let_def
          split: constant_type.splits constant_data.splits)
    then show ?thesis by auto
  qed
qed simp

text \<open>
  C20. A message that cannot be decoded, one of another version, and one with a constant whose data
  does not have the type it declares are refused with the message for each, and no bytecode object
  is made.
\<close>

theorem bytecode_load_rejects:
  assumes "always_mem s"
    and "case unpack data of None \<Rightarrow> True | Some m \<Rightarrow> pb_version m \<noteq> FLUFFYVM_RELEASE_NUM \<or>
      \<not> (\<forall>c \<in> set (pb_constants m). constant_typed c)"
  shows "\<exists>t. bytecode_load unpack data s = Ok None (set_static_errmsg t
       (case unpack data of None \<Rightarrow> SS_protobufFailedToUnpackData
        | Some m \<Rightarrow> if pb_version m \<noteq> FLUFFYVM_RELEASE_NUM then SS_unsupportedBytecode
                    else SS_invalidBytecode)) \<and>
     staticStrings t = staticStrings s \<and> bcs t = bcs s"
proof -
  let ?s1 = "s\<lparr>brk := Suc (brk s)\<rparr>"
  have e: "bytecode_load unpack data s = (case unpack data of
             None \<Rightarrow> Ok None (set_static_errmsg ?s1 SS_protobufFailedToUnpackData)
           | Some m \<Rightarrow> if pb_version m \<noteq> FLUFFYVM_RELEASE_NUM
               then Ok None (set_static_errmsg ?s1 SS_unsupportedBytecode)
               else bytecode_load unpack data s)"
    using assms(1) by (simp add: bytecode_load_def gc_alloc_def always_mem_def split: option.split)
  show ?thesis
  proof (cases "unpack data")
    case None
    then show ?thesis using e by (intro exI[of _ ?s1]) simp
  next
    case (Some m)
    show ?thesis
    proof (cases "pb_version m = FLUFFYVM_RELEASE_NUM")
      case False
      then show ?thesis using e Some by (intro exI[of _ ?s1]) simp
    next
      case True
      let ?s2 = "s\<lparr>brk := Suc (Suc (brk s))\<rparr>"
      let ?s3 = "s\<lparr>brk := Suc (Suc (Suc (brk s)))\<rparr>"
      have mm: "always_mem ?s1" "always_mem ?s2" "always_mem ?s3"
        using assms(1) by (simp_all add: always_mem_def)
      obtain t where t: "load_constants (pb_constants m) ?s3 =
            (None, set_static_errmsg t SS_invalidBytecode)"
          "staticStrings t = staticStrings s" "bcs t = bcs s"
        using load_constants_rejects[OF _ mm(3), of "pb_constants m"] assms(2) Some True by auto
      have "bytecode_load unpack data s = Ok None (set_static_errmsg t SS_invalidBytecode)"
        using assms(1) Some True t(1) alloc_or_mem[OF mm(1)] alloc_or_mem[OF mm(2)]
        by (simp add: bytecode_load_def gc_alloc_def always_mem_def)
      then show ?thesis using t Some True by auto
    qed
  qed
qed

subsection \<open>Concrete cases\<close>

definition sample_message :: pb_bytecode where
  "sample_message = \<lparr>pb_version = 1,
     pb_constants = [\<lparr>pbc_type = LONG, pbc_data = Data_longNum 5\<rparr>,
       \<lparr>pbc_type = STRING, pbc_data = Data_str [65]\<rparr>],
     pb_mainPrototype = Some (Pb_Prototype [1, 2] [Pb_Prototype [3] [] [] []] [10, 11] [97])\<rparr>"

definition untyped_message :: pb_bytecode where
  "untyped_message = sample_message
     \<lparr>pb_constants := [\<lparr>pbc_type = LONG, pbc_data = Data_str [65]\<rparr>]\<rparr>"

theorem bytecode_load_mirrors_witness:
  "\<exists>a t p vs. bytecode_load (\<lambda>_. Some sample_message) [] blank_vm = Ok (Some a) t \<and>
     bcs t a = Some \<lparr>bc_mainPrototype = Some p, bc_constants = vs\<rparr> \<and>
     list_all2 (constant_mirrors t) (pb_constants sample_message) vs \<and>
     proto_mirrors t a (Pb_Prototype [1, 2] [Pb_Prototype [3] [] [] []] [10, 11] [97]) p"
  by (rule bytecode_load_mirrors)
     (simp_all add: sample_message_def constant_typed_def config_defs always_mem_def blank_vm_def)

theorem bytecode_load_rejects_witness:
  "\<exists>t. bytecode_load (\<lambda>_. Some untyped_message) [] blank_vm =
       Ok None (set_static_errmsg t SS_invalidBytecode) \<and>
     staticStrings t = staticStrings blank_vm \<and> bcs t = bcs blank_vm"
  using bytecode_load_rejects[of blank_vm "\<lambda>_. Some untyped_message" "[]"]
  by (simp add: untyped_message_def sample_message_def constant_typed_def config_defs
      always_mem_def blank_vm_def)

end
