(* ===== verification/Fiber.thy ===== *)
theory Fiber
  imports Bytecode
begin

text \<open>
  \<open>fiber.c\<close>: a fiber is suspended, running or dead. Switching machine contexts is the C library's;
  what is modelled is the state around each switch: what \<open>fiber_resume\<close> and \<open>fiber_yield\<close> do
  before it and after it, and the end of \<open>entryPoint\<close>. The atomic compare-and-exchange is a single
  step, so the relation \<open>fiber_step\<close> covers callers on several threads.
\<close>

definition fiber_new :: fiber where
  "fiber_new = \<lparr>fb_state = FIBER_SUSPENDED, fb_task = True, fb_stack = True\<rparr>"

text \<open>Before the switch: whether it happens, the previous state, the fiber left behind.\<close>

definition fiber_resume_enter :: "fiber \<Rightarrow> bool \<times> fiber_state \<times> fiber" where
  "fiber_resume_enter f =
     (if fb_state f = FIBER_SUSPENDED then (True, fb_state f, f\<lparr>fb_state := FIBER_RUNNING\<rparr>)
      else (False, fb_state f, f))"

text \<open>After the switch back: the machine stack of a dead fiber is freed.\<close>

definition fiber_resume_leave :: "fiber \<Rightarrow> fiber" where
  "fiber_resume_leave f = (if fb_state f = FIBER_DEAD then f\<lparr>fb_stack := False\<rparr> else f)"

definition fiber_yield_enter :: "fiber \<Rightarrow> 's \<Rightarrow> (bool \<times> fiber, 's) res" where
  "fiber_yield_enter f s =
     (if fb_state f = FIBER_RUNNING then Ok (True, f\<lparr>fb_state := FIBER_SUSPENDED\<rparr>) s
      else if fb_state f = FIBER_DEAD then Fault Aborted
      else Ok (False, f) s)"

text \<open>The end of \<open>entryPoint\<close>, after the task returned.\<close>

definition entryPoint_finish :: "fiber \<Rightarrow> fiber" where
  "entryPoint_finish f = f\<lparr>fb_task := False, fb_state := FIBER_DEAD\<rparr>"

subsection \<open>The life of a fiber\<close>

text \<open>
  The steps of a fiber: a resume that is accepted or refused, a yield, the end of its task, and
  the return of the resume it was running under.
\<close>

datatype fiber_event = Resumed | Refused | Yielded | Finished | Returned

inductive fiber_step :: "fiber \<Rightarrow> fiber_event \<Rightarrow> fiber \<Rightarrow> bool" where
  resumed: "fiber_resume_enter f = (True, p, g) \<Longrightarrow> fiber_step f Resumed g"
| refused: "fiber_resume_enter f = (False, p, g) \<Longrightarrow> fiber_step f Refused g"
| yielded: "fiber_yield_enter f () = Ok (True, g) () \<Longrightarrow> fiber_step f Yielded g"
| finished: "fb_state f = FIBER_RUNNING \<Longrightarrow> fiber_step f Finished (entryPoint_finish f)"
| returned: "fb_state f \<noteq> FIBER_RUNNING \<Longrightarrow> fiber_step f Returned (fiber_resume_leave f)"

inductive_simps resumed_iff: "fiber_step f Resumed g"
inductive_simps refused_iff: "fiber_step f Refused g"
inductive_simps yielded_iff: "fiber_step f Yielded g"
inductive_simps finished_iff: "fiber_step f Finished g"
inductive_simps returned_iff: "fiber_step f Returned g"
inductive_cases fiber_stepE: "fiber_step f e g"

inductive fiber_run :: "fiber \<Rightarrow> fiber_event list \<Rightarrow> fiber \<Rightarrow> bool" where
  run_nil: "fiber_run f [] f"
| run_snoc: "fiber_run f es g \<Longrightarrow> fiber_step g e h \<Longrightarrow> fiber_run f (es @ [e]) h"

inductive_cases fiber_run_snocE: "fiber_run f (es @ [e]) g"

lemmas fiber_defs = fiber_new_def fiber_resume_enter_def fiber_resume_leave_def
  fiber_yield_enter_def entryPoint_finish_def

lemmas fiber_step_iffs = resumed_iff refused_iff yielded_iff finished_iff returned_iff

text \<open>
  The task block is held exactly until the task ends, the machine stack is freed only then.
\<close>

definition fiber_ok :: "fiber \<Rightarrow> bool" where
  "fiber_ok f \<longleftrightarrow> (fb_task f \<longleftrightarrow> fb_state f \<noteq> FIBER_DEAD) \<and> (fb_state f \<noteq> FIBER_DEAD \<longrightarrow> fb_stack f)"

lemma fiber_step_ok: "fiber_step f e g \<Longrightarrow> fiber_ok f \<Longrightarrow> fiber_ok g"
  by (cases e) (auto simp: fiber_step_iffs fiber_defs fiber_ok_def split: if_splits)

lemma fiber_step_dead: "fiber_step f e g \<Longrightarrow> fb_state f = FIBER_DEAD \<Longrightarrow>
    fb_state g = FIBER_DEAD \<and> (e = Refused \<or> e = Returned)"
  by (cases e) (auto simp: fiber_step_iffs fiber_defs split: if_splits)

text \<open>The events that change who runs, in the order they happened.\<close>

fun alternates :: "bool \<Rightarrow> fiber_event list \<Rightarrow> bool" where
  "alternates running [] = True"
| "alternates running (Resumed # es) = (\<not> running \<and> alternates True es)"
| "alternates running (Yielded # es) = (running \<and> alternates False es)"
| "alternates running (Finished # es) = (running \<and> (\<forall>e \<in> set es. e = Refused \<or> e = Returned))"
| "alternates running (e # es) = alternates running es"

fun running_after :: "bool \<Rightarrow> fiber_event list \<Rightarrow> bool" where
  "running_after running [] = running"
| "running_after running (Resumed # es) = running_after True es"
| "running_after running (Yielded # es) = running_after False es"
| "running_after running (Finished # es) = running_after False es"
| "running_after running (e # es) = running_after running es"

lemma alternates_snoc:
  "alternates r (es @ [e]) \<longleftrightarrow> alternates r es \<and>
     (if Finished \<in> set es then e = Refused \<or> e = Returned
      else case e of Resumed \<Rightarrow> \<not> running_after r es | Yielded \<Rightarrow> running_after r es
           | Finished \<Rightarrow> running_after r es | _ \<Rightarrow> True)"
proof (induction r es rule: alternates.induct)
  case (1 r)
  then show ?case by (cases e) auto
next
  case (4 r es)
  then show ?case by (cases e) auto
qed (auto split: fiber_event.split)

lemma running_after_snoc:
  "running_after r (es @ [e]) = (case e of Resumed \<Rightarrow> True | Yielded \<Rightarrow> False | Finished \<Rightarrow> False
      | _ \<Rightarrow> running_after r es)"
  by (induction r es rule: running_after.induct) (auto split: fiber_event.split)

lemma fiber_run_state:
  "fiber_run f es g \<Longrightarrow> f = fiber_new \<Longrightarrow>
     fiber_ok g \<and> alternates False es \<and> (fb_state g = FIBER_DEAD \<longleftrightarrow> Finished \<in> set es) \<and>
     (fb_state g = FIBER_RUNNING \<longleftrightarrow> running_after False es \<and> Finished \<notin> set es)"
proof (induction rule: fiber_run.induct)
  case (run_nil f)
  then show ?case by (simp add: fiber_new_def fiber_ok_def)
next
  case (run_snoc f es g e h)
  show ?case
    using run_snoc fiber_step_ok[OF run_snoc.hyps(2)]
    by (cases e) (auto simp: alternates_snoc running_after_snoc fiber_step_iffs fiber_defs split: if_splits)
qed

text \<open>
  C17. Whatever callers do with a fiber, its accepted resumes and its yields alternate, starting
  with a resume; its task ends at most once and only while it runs; after that every resume is
  refused. The task block is released exactly at that end, and the machine stack of a fiber that
  has not ended is never freed.
\<close>

theorem fiber_life:
  assumes "fiber_run fiber_new es f"
  shows "alternates False es \<and> (fb_state f = FIBER_DEAD \<longleftrightarrow> Finished \<in> set es) \<and>
     (fb_state f = FIBER_RUNNING \<longleftrightarrow> running_after False es \<and> Finished \<notin> set es) \<and>
     (fb_task f \<longleftrightarrow> Finished \<notin> set es) \<and> (Finished \<notin> set es \<longrightarrow> fb_stack f)"
  using fiber_run_state[OF assms refl] by (auto simp: fiber_ok_def)

lemma sample_run:
  "fiber_run fiber_new [Resumed, Yielded, Returned, Resumed, Finished, Returned, Refused]
     \<lparr>fb_state = FIBER_DEAD, fb_task = False, fb_stack = False\<rparr>"
proof -
  have snoc: "fiber_run f es g \<Longrightarrow> fiber_step g e h \<Longrightarrow> es @ [e] = es' \<Longrightarrow> fiber_run f es' h" for f es g e h es'
    using run_snoc by blast
  let ?f = "\<lambda>st t k. \<lparr>fb_state = st, fb_task = t, fb_stack = k\<rparr>"
  have "fiber_run fiber_new [Resumed] (?f FIBER_RUNNING True True)"
    by (rule snoc[OF run_nil]) (auto simp: fiber_step_iffs fiber_defs)
  then have "fiber_run fiber_new [Resumed, Yielded] (?f FIBER_SUSPENDED True True)"
    by (rule snoc) (auto simp: fiber_step_iffs fiber_defs)
  then have "fiber_run fiber_new [Resumed, Yielded, Returned] (?f FIBER_SUSPENDED True True)"
    by (rule snoc) (auto simp: fiber_step_iffs fiber_defs)
  then have "fiber_run fiber_new [Resumed, Yielded, Returned, Resumed] (?f FIBER_RUNNING True True)"
    by (rule snoc) (auto simp: fiber_step_iffs fiber_defs)
  then have "fiber_run fiber_new [Resumed, Yielded, Returned, Resumed, Finished] (?f FIBER_DEAD False True)"
    by (rule snoc) (auto simp: fiber_step_iffs fiber_defs)
  then have "fiber_run fiber_new [Resumed, Yielded, Returned, Resumed, Finished, Returned]
      (?f FIBER_DEAD False False)"
    by (rule snoc) (auto simp: fiber_step_iffs fiber_defs)
  then show ?thesis
    by (rule snoc) (auto simp: fiber_step_iffs fiber_defs)
qed

theorem fiber_life_witness:
  "let es = [Resumed, Yielded, Returned, Resumed, Finished, Returned, Refused];
       f = \<lparr>fb_state = FIBER_DEAD, fb_task = False, fb_stack = False\<rparr> in
     alternates False es \<and> (fb_state f = FIBER_DEAD \<longleftrightarrow> Finished \<in> set es) \<and>
     (fb_state f = FIBER_RUNNING \<longleftrightarrow> running_after False es \<and> Finished \<notin> set es) \<and>
     (fb_task f \<longleftrightarrow> Finished \<notin> set es)"
  unfolding Let_def using fiber_life[OF sample_run] by blast

end
