(* ===== verification/Coroutine.thy ===== *)
theory Coroutine
  imports Fiber
begin

text \<open>
  \<open>coroutine.c\<close> and the coroutine nesting of \<open>fluffyvm.c\<close>: the frame a call pushes and pops, the
  making of coroutines, resume and yield. Switching to a fiber hands control to code outside the
  call, which is a parameter here: \<open>body\<close> is what the machine does from a resume until control
  comes back, \<open>rest\<close> what it does from a yield until the fiber is resumed. A mutex taken twice by
  its owner is the fault \<open>Deadlock\<close>. \<open>malloc\<close> and \<open>calloc\<close>, whose results the source does not
  check, succeed. The members of an object that the source stores later have a neutral value
  until then.
\<close>

subsection \<open>Updates of stored objects\<close>

definition modify_coro :: "addr \<Rightarrow> (coroutine \<Rightarrow> coroutine) \<Rightarrow> vm \<Rightarrow> (unit, vm) res" where
  "modify_coro co f s =
     rbind (deref (coros s) co s) (\<lambda>c s. Ok () (s\<lparr>coros := (coros s)(co \<mapsto> f c)\<rparr>))"

definition modify_cstate :: "addr \<Rightarrow> (call_state \<Rightarrow> call_state) \<Rightarrow> vm \<Rightarrow> (unit, vm) res" where
  "modify_cstate cs f s =
     rbind (deref (cstates s) cs s) (\<lambda>c s. Ok () (s\<lparr>cstates := (cstates s)(cs \<mapsto> f c)\<rparr>))"

subsection \<open>The nesting of coroutines\<close>

definition fluffyvm_get_executing_coroutine :: "vm \<Rightarrow> (addr option, vm) res" where
  "fluffyvm_get_executing_coroutine s = stack_peek (coroutinesStack s) s"

text \<open>The same followed by \<open>assert(co)\<close>.\<close>

definition executing_coroutine :: "vm \<Rightarrow> (addr, vm) res" where
  "executing_coroutine s =
     rbind (fluffyvm_get_executing_coroutine s) (\<lambda>r s.
       case r of None \<Rightarrow> Fault AssertFailed | Some co \<Rightarrow> Ok co s)"

definition fluffyvm_pop_current_coroutine :: "vm \<Rightarrow> (unit, vm) res" where
  "fluffyvm_pop_current_coroutine s =
     rbind (stack_pop False (coroutinesStack s) s) (\<lambda>(_, res, st) s.
       assert_that res (s\<lparr>coroutinesStack := st\<rparr>))"

definition fluffyvm_push_current_coroutine :: "addr \<Rightarrow> vm \<Rightarrow> (bool, vm) res" where
  "fluffyvm_push_current_coroutine co s =
     rbind (stack_push co (coroutinesStack s) s) (\<lambda>(res, st) s.
       Ok res (s\<lparr>coroutinesStack := st\<rparr>))"

subsection \<open>Frames\<close>

definition lock_callStack :: "addr \<Rightarrow> vm \<Rightarrow> (unit, vm) res" where
  "lock_callStack co s =
     rbind (deref (coros s) co s) (\<lambda>c s.
       if co_callStackLock c then Fault Deadlock
       else modify_coro co (\<lambda>c. c\<lparr>co_callStackLock := True\<rparr>) s)"

definition unlock_callStack :: "addr \<Rightarrow> vm \<Rightarrow> (unit, vm) res" where
  "unlock_callStack co s = modify_coro co (\<lambda>c. c\<lparr>co_callStackLock := False\<rparr>) s"

definition internal_function_epilog :: "addr \<Rightarrow> vm \<Rightarrow> (unit, vm) res" where
  "internal_function_epilog co s =
     rbind (deref (coros s) co s) (\<lambda>c s.
     rbind (stack_pop False (co_callStack c) s) (\<lambda>(_, tmp, st) s.
     rbind (assert_that tmp s) (\<lambda>_ s.
     rbind (stack_peek st s) (\<lambda>top s.
       modify_coro co (\<lambda>c. c\<lparr>co_callStack := st, co_currentCallState := top\<rparr>) s))))"

text \<open>\<open>interpreter_function_epilog\<close> does nothing.\<close>

definition coroutine_function_epilog :: "vm \<Rightarrow> (unit, vm) res" where
  "coroutine_function_epilog s =
     rbind (executing_coroutine s) (\<lambda>co s.
     rbind (lock_callStack co s) (\<lambda>_ s.
     rbind (internal_function_epilog co s) (\<lambda>_ s.
       unlock_callStack co s)))"

definition coroutine_function_epilog_no_lock :: "vm \<Rightarrow> (unit, vm) res" where
  "coroutine_function_epilog_no_lock s =
     rbind (executing_coroutine s) (\<lambda>co s. internal_function_epilog co s)"

definition new_call_state :: "addr \<Rightarrow> addr \<Rightarrow> bool \<Rightarrow> call_state" where
  "new_call_state func co native =
     \<lparr>cs_closure = func, cs_owner = co,
      cs_generalStack = replicate (nat FLUFFYVM_GENERAL_STACK_SIZE) VNotPresent,
      cs_registers = (if native then None
                      else Some (replicate (nat FLUFFYVM_REGISTERS_NUM) VNotPresent)),
      cs_flagRegister = 0, cs_pc = 0, cs_sp = 0,
      cs_debugSource = None, cs_debugFuncName = None, cs_debugLine = -1\<rparr>"

text \<open>
  \<open>coroutine_function_prolog\<close>. When the push on the call stack fails, the jump to \<open>error\<close> leaves
  the lock taken and pops the frame of the caller. When an array is refused, the frame just pushed
  is popped, without the lock.
\<close>

definition coroutine_function_prolog :: "addr \<Rightarrow> vm \<Rightarrow> (addr option, vm) res" where
  "coroutine_function_prolog func s =
     rbind (executing_coroutine s) (\<lambda>co s.
       case gc_alloc s of
         (None, s) \<Rightarrow> Ok None (set_static_errmsg s SS_outOfMemory)
       | (Some obj, s) \<Rightarrow>
           rbind (lock_callStack co s) (\<lambda>_ s.
           rbind (deref (coros s) co s) (\<lambda>c s.
           rbind (stack_push obj (co_callStack c) s) (\<lambda>(pushed, st) s.
             if \<not> pushed then
               rbind (internal_function_epilog co s) (\<lambda>_ s. Ok None s)
             else
               rbind (modify_coro co (\<lambda>c. c\<lparr>co_callStack := st\<rparr>) s) (\<lambda>_ s.
               rbind (unlock_callStack co s) (\<lambda>_ s.
               rbind (deref (closures s) func s) (\<lambda>cl s.
                 let native = (cl_func cl \<noteq> None);
                     s = s\<lparr>cstates := (cstates s)(obj \<mapsto> new_call_state func co native)\<rparr>;
                     no_memory = (\<lambda>s. rbind (internal_function_epilog co s) (\<lambda>_ s. Ok None s))
                 in case (if native then (True, s) else alloc_or SS_outOfMemory s) of
                      (False, s) \<Rightarrow> no_memory s
                    | (True, s) \<Rightarrow> (case alloc_or SS_outOfMemory s of
                        (False, s) \<Rightarrow> no_memory s
                      | (True, s) \<Rightarrow>
                          rbind (modify_coro co (\<lambda>c. c\<lparr>co_currentCallState := Some obj\<rparr>) s) (\<lambda>_ s.
                            Ok (Some obj) s)))))))))"

subsection \<open>Making, resuming and yielding\<close>

definition coroutine_new :: "addr \<Rightarrow> vm \<Rightarrow> (addr option, vm) res" where
  "coroutine_new func s =
     (case gc_alloc s of
        (None, s) \<Rightarrow> Ok None (set_static_errmsg s SS_outOfMemory)
      | (Some this, s) \<Rightarrow>
          (case stack_new FLUFFYVM_CALL_STACK_SIZE s of
             (None, s) \<Rightarrow> Ok None s
           | (Some callStack, s) \<Rightarrow>
               let s = s\<lparr>coros := (coros s)(this \<mapsto>
                 \<lparr>co_isNativeThread = False, co_isYieldable = False, co_fiber = None,
                  co_currentCallState = None, co_errorHandler = None, co_callStackLock = False,
                  co_callStack = callStack, co_hasError = False, co_thrownedError = VNotPresent,
                  co_gc_stack = GC_callStack\<rparr>)\<rparr>
               in rbind (fluffyvm_push_current_coroutine this s) (\<lambda>_ s.
                  rbind (coroutine_function_prolog func s) (\<lambda>r s.
                  rbind (fluffyvm_pop_current_coroutine s) (\<lambda>_ s.
                    case r of
                      None \<Rightarrow> Ok None s
                    | Some _ \<Rightarrow>
                        rbind (modify_coro this (\<lambda>c. c\<lparr>co_isYieldable := True,
                          co_isNativeThread := False, co_hasError := False, co_errorHandler := None,
                          co_fiber := Some fiber_new\<rparr>) s) (\<lambda>_ s. Ok (Some this) s))))))"

definition set_fiber :: "addr \<Rightarrow> fiber \<Rightarrow> vm \<Rightarrow> (unit, vm) res" where
  "set_fiber co f s = modify_coro co (\<lambda>c. c\<lparr>co_fiber := Some f\<rparr>) s"

definition get_fiber :: "addr \<Rightarrow> vm \<Rightarrow> (fiber, vm) res" where
  "get_fiber co s =
     rbind (deref (coros s) co s) (\<lambda>c s.
       case co_fiber c of None \<Rightarrow> Fault NullDeref | Some f \<Rightarrow> Ok f s)"

definition fiber_resume :: "(addr \<Rightarrow> vm \<Rightarrow> (unit, vm) res) \<Rightarrow> addr \<Rightarrow> vm \<Rightarrow> (bool \<times> fiber_state, vm) res" where
  "fiber_resume body co s =
     rbind (get_fiber co s) (\<lambda>f s.
       case fiber_resume_enter f of
         (False, prev, f) \<Rightarrow> Ok (False, prev) s
       | (True, prev, f) \<Rightarrow>
           rbind (set_fiber co f s) (\<lambda>_ s.
           rbind (body co s) (\<lambda>_ s.
           rbind (get_fiber co s) (\<lambda>f s.
           rbind (set_fiber co (fiber_resume_leave f) s) (\<lambda>_ s. Ok (True, prev) s)))))"

definition coroutine_resume :: "(addr \<Rightarrow> vm \<Rightarrow> (unit, vm) res) \<Rightarrow> addr \<Rightarrow> vm \<Rightarrow> (bool, vm) res" where
  "coroutine_resume body co s =
     rbind (fluffyvm_push_current_coroutine co s) (\<lambda>pushed s.
       if \<not> pushed then Ok False s
       else rbind (fiber_resume body co s) (\<lambda>(res, prev) s.
         if \<not> res then
           (case prev of
              FIBER_RUNNING \<Rightarrow>
                rbind (fluffyvm_pop_current_coroutine
                  (set_static_errmsg s SS_cannotResumeRunningCoroutine)) (\<lambda>_ s. Ok False s)
            | FIBER_DEAD \<Rightarrow>
                rbind (fluffyvm_pop_current_coroutine
                  (set_static_errmsg s SS_cannotResumeDeadCoroutine)) (\<lambda>_ s. Ok False s)
            | FIBER_SUSPENDED \<Rightarrow> Fault Aborted)
         else rbind (fluffyvm_pop_current_coroutine s) (\<lambda>_ s.
              rbind (deref (coros s) co s) (\<lambda>c s. Ok (\<not> co_hasError c) s))))"

definition fiber_yield :: "(vm \<Rightarrow> (unit, vm) res) \<Rightarrow> addr \<Rightarrow> vm \<Rightarrow> (bool, vm) res" where
  "fiber_yield rest co s =
     rbind (get_fiber co s) (\<lambda>f s.
     rbind (fiber_yield_enter f s) (\<lambda>(ok, f) s.
       if \<not> ok then Ok False s
       else rbind (set_fiber co f s) (\<lambda>_ s. rbind (rest s) (\<lambda>_ s. Ok True s))))"

definition coroutine_yield :: "(vm \<Rightarrow> (unit, vm) res) \<Rightarrow> vm \<Rightarrow> (bool, vm) res" where
  "coroutine_yield rest s =
     rbind (fluffyvm_get_executing_coroutine s) (\<lambda>r s.
       case r of
         None \<Rightarrow> Ok False (set_static_errmsg s SS_notInCoroutine)
       | Some co \<Rightarrow> rbind (deref (coros s) co s) (\<lambda>c s.
           if co_isNativeThread c then
             Ok False (set_static_errmsg s SS_cannotSuspendTopLevelCoroutine)
           else if \<not> co_isYieldable c then
             Ok False (set_static_errmsg s
               SS_nativeFunctionExplicitlyDisabledYieldingForThisCoroutine)
           else fiber_yield rest co s))"

definition set_yieldable :: "bool \<Rightarrow> vm \<Rightarrow> (unit, vm) res" where
  "set_yieldable b s =
     rbind (fluffyvm_get_executing_coroutine s) (\<lambda>r s.
       case r of
         None \<Rightarrow> Ok () s
       | Some co \<Rightarrow> modify_coro co (\<lambda>c. c\<lparr>co_isYieldable := b\<rparr>) s)"

definition coroutine_disallow_yield :: "vm \<Rightarrow> (unit, vm) res" where
  "coroutine_disallow_yield s = set_yieldable False s"

definition coroutine_allow_yield :: "vm \<Rightarrow> (unit, vm) res" where
  "coroutine_allow_yield s = set_yieldable True s"

definition coroutine_can_yield :: "coroutine \<Rightarrow> bool" where
  "coroutine_can_yield co = (co_isYieldable co \<and> \<not> co_isNativeThread co)"

text \<open>
  The task of a coroutine: the block \<open>coroutine_new\<close> gives to \<open>fiber_new\<close>, run under a handler of
  its own, and the end of \<open>entryPoint\<close>. A thrown error is stored in the coroutine; the object
  pointer of the message is asked for, which aborts when there is no message, and written to the
  field 1, which is that of the call stack and not that of the error.
\<close>

definition coroutine_task :: "(addr \<Rightarrow> vm \<Rightarrow> (int, vm) res) \<Rightarrow> addr \<Rightarrow> vm \<Rightarrow> (unit, vm) res" where
  "coroutine_task exec co s =
     (case rbind (modify_coro co (\<lambda>c. c\<lparr>co_errorHandler := Some 0\<rparr>) s) (\<lambda>_ s.
           rbind (exec co s) (\<lambda>_ s.
           rbind (coroutine_function_epilog s) (\<lambda>_ s.
             modify_coro co (\<lambda>c. c\<lparr>co_errorHandler := None\<rparr>) s))) of
        Ok _ s \<Rightarrow> Ok () s
      | Throw s \<Rightarrow>
          rbind (value_get_object_ptr (fluffyvm_get_errmsg s) s) (\<lambda>p s.
            modify_coro co (\<lambda>c. c\<lparr>co_thrownedError := fluffyvm_get_errmsg s, co_gc_stack := GC_object p,
              co_hasError := True, co_errorHandler := None\<rparr>) s)
      | Fault e \<Rightarrow> Fault e)"

definition entryPoint :: "(addr \<Rightarrow> vm \<Rightarrow> (int, vm) res) \<Rightarrow> addr \<Rightarrow> vm \<Rightarrow> (unit, vm) res" where
  "entryPoint exec co s =
     rbind (coroutine_task exec co s) (\<lambda>_ s.
     rbind (get_fiber co s) (\<lambda>f s. set_fiber co (entryPoint_finish f) s))"

subsection \<open>Debug information\<close>

record call_frame =
  cf_isNative :: bool
  cf_name :: "byte list"
  cf_source :: "byte list option"
  cf_closure :: addr
  cf_line :: int
  cf_bytecode :: "addr option"
  cf_prototype :: "prototype option"
  cf_isMain :: bool

definition fmt_func_ptr :: "nat option \<Rightarrow> byte list" where
  "fmt_func_ptr f = (let d = nat_digits 16 (case f of None \<Rightarrow> 0 | Some p \<Rightarrow> p)
     in bytes_of (''0x'' @ replicate (8 - length d) CHR 0x30 @ d))"

definition frame_of :: "nat \<Rightarrow> call_state \<Rightarrow> closure \<Rightarrow> vm \<Rightarrow> (call_frame, vm) res" where
  "frame_of pos cs cl s =
     (if cl_isNative cl then
        Ok \<lparr>cf_isNative = True,
            cf_name = (case cs_debugFuncName cs of
               Some n \<Rightarrow> bytes_of n | None \<Rightarrow> fmt_func_ptr (cl_func cl)),
            cf_source = Some (case cs_debugSource cs of
               None \<Rightarrow> bytes_of ''[Native]'' | Some src \<Rightarrow> bytes_of (''[Native '' @ src @ '']'')),
            cf_closure = cs_closure cs,
            cf_line = (if 0 < cs_debugLine cs then cs_debugLine cs else -1),
            cf_bytecode = map_option p_bytecode (cl_prototype cl),
            cf_prototype = None, cf_isMain = (pos = 0)\<rparr> s
      else case cl_prototype cl of
        None \<Rightarrow> Fault NullDeref
      | Some p \<Rightarrow> rbind (value_get_string (p_sourceFile p) s) (\<lambda>src s.
          Ok \<lparr>cf_isNative = False, cf_name = bytes_of ''lua function'',
              cf_source = src, cf_closure = cs_closure cs,
              cf_line = (if p_lineInfo p \<noteq> [] \<and> cs_pc cs < int (length (p_lineInfo p))
                         then p_lineInfo p ! nat (cs_pc cs) else -1),
              cf_bytecode = Some (p_bytecode p), cf_prototype = Some p, cf_isMain = (pos = 0)\<rparr> s))"

fun iterate_frames ::
    "addr \<Rightarrow> (call_frame \<Rightarrow> vm \<Rightarrow> (bool, vm) res) \<Rightarrow> nat list \<Rightarrow> vm \<Rightarrow> (unit, vm) res" where
  "iterate_frames co consumer [] s = Ok () s"
| "iterate_frames co consumer (pos # positions) s =
     rbind (deref (coros s) co s) (\<lambda>c s.
       if length (stk_arr (co_callStack c)) \<le> pos then Fault OutOfBounds
       else case stk_arr (co_callStack c) ! pos of
         None \<Rightarrow> Fault NullDeref
       | Some cs \<Rightarrow>
           rbind (deref (cstates s) cs s) (\<lambda>st s.
           rbind (deref (closures s) (cs_closure st) s) (\<lambda>cl s.
           rbind (frame_of pos st cl s) (\<lambda>frame s.
           rbind (consumer frame s) (\<lambda>res s.
             if \<not> res then Ok () s else iterate_frames co consumer positions s)))))"

definition coroutine_iterate_call_stack ::
    "addr \<Rightarrow> bool \<Rightarrow> (call_frame \<Rightarrow> vm \<Rightarrow> (bool, vm) res) \<Rightarrow> vm \<Rightarrow> (unit, vm) res" where
  "coroutine_iterate_call_stack co backward consumer s =
     rbind (lock_callStack co s) (\<lambda>_ s. rbind (deref (coros s) co s) (\<lambda>c s.
       let positions = [0..<nat (stk_sp (co_callStack c))] in
       rbind (iterate_frames co consumer (if backward then rev positions else positions) s)
         (\<lambda>_ s. unlock_callStack co s)))"

definition coroutine_set_debug_info ::
    "string option \<Rightarrow> string option \<Rightarrow> int \<Rightarrow> vm \<Rightarrow> (unit, vm) res" where
  "coroutine_set_debug_info source funcName line s =
     rbind (fluffyvm_get_executing_coroutine s) (\<lambda>r s.
       case r of
         None \<Rightarrow> Fault NullDeref
       | Some co \<Rightarrow> rbind (deref (coros s) co s) (\<lambda>c s.
           case co_currentCallState c of
             None \<Rightarrow> Fault NullDeref
           | Some cs \<Rightarrow> modify_cstate cs (\<lambda>st. st\<lparr>cs_debugFuncName := funcName,
               cs_debugSource := source, cs_debugLine := line\<rparr>) s))"

subsection \<open>Well-formed coroutines\<close>

text \<open>
  The current frame is the top of the call stack, and the executing coroutine the top of the
  nesting.
\<close>

definition coro_ok :: "coroutine \<Rightarrow> bool" where
  "coro_ok c \<longleftrightarrow> stk_ok (co_callStack c) \<and> stk_size (co_callStack c) = FLUFFYVM_CALL_STACK_SIZE \<and>
     co_currentCallState c = (if stk_items (co_callStack c) = [] then None
                              else Some (last (stk_items (co_callStack c))))"

definition running :: "vm \<Rightarrow> addr \<Rightarrow> coroutine \<Rightarrow> bool" where
  "running s co c \<longleftrightarrow> stk_ok (coroutinesStack s) \<and> stk_items (coroutinesStack s) \<noteq> [] \<and>
     last (stk_items (coroutinesStack s)) = co \<and> coros s co = Some c \<and> coro_ok c"

abbreviation frames :: "coroutine \<Rightarrow> addr list" where
  "frames c \<equiv> stk_items (co_callStack c)"

lemma stk_eqI:
  assumes "stk_ok st" and "stk_ok st'" and "stk_items st = stk_items st'" and "stk_size st = stk_size st'"
  shows "st = (st' :: 'a fluffyvm_stack)"
  using stk_okD(1,3)[OF assms(1)] stk_okD(1,3)[OF assms(2)] assms(3,4)
  by (intro fluffyvm_stack.equality) simp_all

lemma running_executing:
  "running s co c \<Longrightarrow> fluffyvm_get_executing_coroutine s = Ok (Some co) s"
  "running s co c \<Longrightarrow> executing_coroutine s = Ok co s"
  by (simp_all add: running_def executing_coroutine_def fluffyvm_get_executing_coroutine_def
      stack_peek_items)

lemma modify_coro_Some:
  "coros s co = Some c \<Longrightarrow> modify_coro co f s = Ok () (s\<lparr>coros := (coros s)(co \<mapsto> f c)\<rparr>)"
  by (simp add: modify_coro_def)

lemma lock_free:
  "coros s co = Some c \<Longrightarrow> \<not> co_callStackLock c \<Longrightarrow> lock_callStack co s =
     Ok () (s\<lparr>coros := (coros s)(co \<mapsto> c\<lparr>co_callStackLock := True\<rparr>)\<rparr>)"
  by (simp add: lock_callStack_def modify_coro_Some)

lemma unlock_Some:
  "coros s co = Some c \<Longrightarrow> unlock_callStack co s =
     Ok () (s\<lparr>coros := (coros s)(co \<mapsto> c\<lparr>co_callStackLock := False\<rparr>)\<rparr>)"
  by (simp add: unlock_callStack_def modify_coro_Some)

lemma internal_epilog_pops:
  assumes "coros s co = Some c" and "stk_ok (co_callStack c)" and "frames c = fs @ [f]"
  obtains st where "internal_function_epilog co s = Ok () (s\<lparr>coros := (coros s)(co \<mapsto>
      c\<lparr>co_callStack := st, co_currentCallState := (if fs = [] then None else Some (last fs))\<rparr>)\<rparr>)"
    "stk_ok st" "stk_items st = fs" "stk_size st = stk_size (co_callStack c)"
proof -
  obtain st where st: "stack_pop False (co_callStack c) s = Ok (None, True, st) s" "stk_ok st"
      "stk_size st = stk_size (co_callStack c)" "stk_items st = fs"
    by (rule stack_pop_items[OF assms(2,3), of False s]) auto
  then show ?thesis
    using assms(1) that[of st]
    by (simp add: internal_function_epilog_def stack_peek_items modify_coro_Some)
qed

lemma coro_replace_same: "coros s co = Some c \<Longrightarrow> s\<lparr>coros := (coros s)(co \<mapsto> c)\<rparr> = s"
  by (cases s) (auto simp: fun_upd_idem)

text \<open>Leaving a frame of the executing coroutine.\<close>

lemma epilog_pops:
  assumes r: "running s co c" and l: "\<not> co_callStackLock c" and f: "frames c = fs @ [f]"
  obtains c' where "coroutine_function_epilog s = Ok () (s\<lparr>coros := (coros s)(co \<mapsto> c')\<rparr>)"
    "coro_ok c'" "frames c' = fs"
    "c' = c\<lparr>co_callStack := co_callStack c', co_currentCallState := co_currentCallState c'\<rparr>"
proof -
  have c: "coros s co = Some c" and ok: "coro_ok c" using r by (simp_all add: running_def)
  let ?s1 = "s\<lparr>coros := (coros s)(co \<mapsto> c\<lparr>co_callStackLock := True\<rparr>)\<rparr>"
  obtain st where st: "internal_function_epilog co ?s1 = Ok () (?s1\<lparr>coros := (coros ?s1)(co \<mapsto>
      c\<lparr>co_callStackLock := True, co_callStack := st,
        co_currentCallState := (if fs = [] then None else Some (last fs))\<rparr>)\<rparr>)"
      "stk_ok st" "stk_items st = fs" "stk_size st = stk_size (co_callStack c)"
    by (rule internal_epilog_pops[of ?s1 co "c\<lparr>co_callStackLock := True\<rparr>" fs f])
       (use ok f in \<open>auto simp: coro_ok_def\<close>)
  let ?c = "c\<lparr>co_callStack := st, co_currentCallState := (if fs = [] then None else Some (last fs))\<rparr>"
  have "?c\<lparr>co_callStackLock := False\<rparr> = ?c" using l by simp
  then have "coroutine_function_epilog s = Ok () (s\<lparr>coros := (coros s)(co \<mapsto> ?c)\<rparr>)"
    using st(1) lock_free[OF c l] running_executing(2)[OF r]
    by (simp add: coroutine_function_epilog_def unlock_Some)
  then show ?thesis
    using st ok by (intro that[of ?c]) (auto simp: coro_ok_def)
qed

text \<open>Entering a frame.\<close>

lemma prolog_pushes:
  assumes r: "running s co c" and l: "\<not> co_callStackLock c"
    and n: "int (length (frames c)) < FLUFFYVM_CALL_STACK_SIZE" and m: "always_mem s"
    and f: "closures s func = Some cl"
  obtains t st cs where "coroutine_function_prolog func s = Ok (Some cs) t"
    "coros t = (coros s)(co \<mapsto> c\<lparr>co_callStack := st, co_currentCallState := Some cs\<rparr>)"
    "cstates t = (cstates s)(cs \<mapsto> new_call_state func co (cl_func cl \<noteq> None))"
    "stk_ok st" "stk_items st = frames c @ [cs]" "stk_size st = stk_size (co_callStack c)"
    "t = s\<lparr>coros := coros t, cstates := cstates t, brk := brk t\<rparr>" "brk s < brk t" "cs = brk s"
proof -
  have c: "coros s co = Some c" and ok: "coro_ok c" using r by (simp_all add: running_def)
  have room: "length (frames c) < nat (stk_size (co_callStack c))"
    using n ok by (simp add: coro_ok_def nat_less_iff zless_nat_eq_int_zless)
  have sok: "stk_ok (co_callStack c)" using ok by (simp add: coro_ok_def)
  obtain st where st: "stack_push (brk s) (co_callStack c)
        (s\<lparr>brk := Suc (brk s), coros := (coros s)(co \<mapsto> c\<lparr>co_callStackLock := True\<rparr>)\<rparr>) =
      Ok (True, st) (s\<lparr>brk := Suc (brk s), coros := (coros s)(co \<mapsto> c\<lparr>co_callStackLock := True\<rparr>)\<rparr>)"
      "stk_ok st" "stk_size st = stk_size (co_callStack c)" "stk_items st = frames c @ [brk s]"
    by (rule stack_push_room[OF sok room])
  let ?c = "c\<lparr>co_callStack := st, co_currentCallState := Some (brk s)\<rparr>"
  let ?t = "s\<lparr>coros := (coros s)(co \<mapsto> ?c),
    cstates := (cstates s)(brk s \<mapsto> new_call_state func co (cl_func cl \<noteq> None)),
    brk := (if cl_func cl = None then Suc (Suc (Suc (brk s))) else Suc (Suc (brk s)))\<rparr>"
  have e: "executing_coroutine s = Ok co s" by (rule running_executing(2)[OF r])
  have cl: "c\<lparr>co_callStack := st, co_callStackLock := False, co_currentCallState := x\<rparr> =
      c\<lparr>co_callStack := st, co_currentCallState := x\<rparr>" for x
    using l by (cases c) simp
  have "coroutine_function_prolog func s = Ok (Some (brk s)) ?t"
    using e c l m st(1) f cl
    by (simp add: coroutine_function_prolog_def gc_alloc_def always_mem_def lock_free modify_coro_Some
        unlock_Some Let_def alloc_or_def cl)
  then show ?thesis using st(2-4) by (intro that[of "brk s" ?t st]) auto
qed

text \<open>Leaving the frame that was pushed last gives the coroutine back as it was.\<close>

lemma epilog_undoes:
  assumes r: "running s co c" and l: "\<not> co_callStackLock c"
    and t: "coros t = (coros s)(co \<mapsto> c\<lparr>co_callStack := st, co_currentCallState := Some cs\<rparr>)"
    and n: "coroutinesStack t = coroutinesStack s"
    and st: "stk_ok st" "stk_items st = frames c @ [cs]" "stk_size st = stk_size (co_callStack c)"
  shows "running t co (c\<lparr>co_callStack := st, co_currentCallState := Some cs\<rparr>)"
    and "coroutine_function_epilog t = Ok () (t\<lparr>coros := coros s\<rparr>)"
proof -
  let ?c = "c\<lparr>co_callStack := st, co_currentCallState := Some cs\<rparr>"
  have ok: "coro_ok c" and cs: "coros s co = Some c" using r by (simp_all add: running_def)
  show rt: "running t co ?c" using r t n st ok by (simp add: running_def coro_ok_def)
  obtain c' where c': "coroutine_function_epilog t = Ok () (t\<lparr>coros := (coros t)(co \<mapsto> c')\<rparr>)"
      "coro_ok c'" "frames c' = frames c"
      "c' = ?c\<lparr>co_callStack := co_callStack c', co_currentCallState := co_currentCallState c'\<rparr>"
    by (rule epilog_pops[OF rt, of "frames c" cs]) (use l st(2) in auto)
  have "co_callStack c' = co_callStack c"
    using c'(2,3) ok by (intro stk_eqI) (simp_all add: coro_ok_def)
  moreover from this have "co_currentCallState c' = co_currentCallState c"
    using c'(2) ok by (simp add: coro_ok_def)
  ultimately have "c' = c" by (subst c'(4)) simp
  then have "(coros t)(co \<mapsto> c') = coros s" using t cs by (simp add: fun_upd_idem)
  then show "coroutine_function_epilog t = Ok () (t\<lparr>coros := coros s\<rparr>)" using c'(1) by simp
qed

text \<open>
  A call enters and leaves a frame symmetrically: with room on the call stack, the prolog
  pushes one fresh frame for the function, with empty stack, cleared registers (none for a native
  function) and the coroutine as owner, and makes it current; the epilog then gives back every
  coroutine exactly as it was before the prolog.
\<close>

theorem prolog_epilog_restores:
  assumes "running s co c" and "\<not> co_callStackLock c"
    and "int (length (frames c)) < FLUFFYVM_CALL_STACK_SIZE" and "always_mem s"
    and "closures s func = Some cl"
  shows "\<exists>cs t c' u. coroutine_function_prolog func s = Ok (Some cs) t \<and> running t co c' \<and>
     frames c' = frames c @ [cs] \<and> co_currentCallState c' = Some cs \<and>
     cstates t = (cstates s)(cs \<mapsto> new_call_state func co (cl_func cl \<noteq> None)) \<and>
     coroutine_function_epilog t = Ok () u \<and> coros u = coros s"
proof -
  obtain t st cs where t: "coroutine_function_prolog func s = Ok (Some cs) t"
    "coros t = (coros s)(co \<mapsto> c\<lparr>co_callStack := st, co_currentCallState := Some cs\<rparr>)"
    "cstates t = (cstates s)(cs \<mapsto> new_call_state func co (cl_func cl \<noteq> None))"
    "stk_ok st" "stk_items st = frames c @ [cs]" "stk_size st = stk_size (co_callStack c)"
    "t = s\<lparr>coros := coros t, cstates := cstates t, brk := brk t\<rparr>"
    by (rule prolog_pushes[OF assms])
  have "coroutinesStack t = coroutinesStack s" by (subst t(7)) simp
  note u = epilog_undoes[OF assms(1,2) t(2) this t(4-6)]
  show ?thesis
    using t(1,3,5) u
    by (intro exI[of _ cs] exI[of _ t] exI[of _ "c\<lparr>co_callStack := st, co_currentCallState := Some cs\<rparr>"]
        exI[of _ "t\<lparr>coros := coros s\<rparr>"]) simp
qed

text \<open>What a call changes neither in the coroutine it runs on, nor an error that goes through it.\<close>

abbreviation same_control :: "coroutine \<Rightarrow> coroutine \<Rightarrow> bool" where
  "same_control d c \<equiv> co_errorHandler d = co_errorHandler c \<and> co_fiber d = co_fiber c"

lemma prolog_overflows:
  assumes "running s co c" and "\<not> co_callStackLock c"
    and "int (length (frames c)) = FLUFFYVM_CALL_STACK_SIZE" and "always_mem s"
  obtains t c' where "coroutine_function_prolog func s = Ok None t" "running t co c'"
    "co_callStackLock c'" "frames c' = butlast (frames c)" "same_control c' c"
    "errMsg t = errMsg (set_static_errmsg s SS_stackOverflow)" "always_mem t" "cstates t = cstates s"
    "coroutinesStack t = coroutinesStack s"
proof -
  have c: "coros s co = Some c" and ok: "coro_ok c" using assms(1) by (simp_all add: running_def)
  have sok: "stk_ok (co_callStack c)" using ok by (simp add: coro_ok_def)
  have full: "nat (stk_size (co_callStack c)) \<le> length (frames c)"
    using assms(3) ok by (simp add: coro_ok_def)
  have "frames c \<noteq> []" using assms(3) by (auto simp: config_defs)
  then have fs: "frames c = butlast (frames c) @ [last (frames c)]" by simp
  let ?lc = "c\<lparr>co_callStackLock := True\<rparr>"
  let ?s1 = "set_static_errmsg (s\<lparr>brk := Suc (brk s), coros := (coros s)(co \<mapsto> ?lc)\<rparr>) SS_stackOverflow"
  obtain st where st: "internal_function_epilog co ?s1 = Ok () (?s1\<lparr>coros := (coros ?s1)(co \<mapsto>
      ?lc\<lparr>co_callStack := st, co_currentCallState :=
        (if butlast (frames c) = [] then None else Some (last (butlast (frames c))))\<rparr>)\<rparr>)"
      "stk_ok st" "stk_items st = butlast (frames c)" "stk_size st = stk_size (co_callStack c)"
    by (rule internal_epilog_pops[of ?s1 co ?lc "butlast (frames c)" "last (frames c)"])
       (use sok fs in auto)
  let ?c = "?lc\<lparr>co_callStack := st, co_currentCallState :=
        (if butlast (frames c) = [] then None else Some (last (butlast (frames c))))\<rparr>"
  let ?t = "?s1\<lparr>coros := (coros ?s1)(co \<mapsto> ?c)\<rparr>"
  have p: "coroutine_function_prolog func s = Ok None ?t"
    using running_executing(2)[OF assms(1)] c assms(2,4) st(1) stack_push_full[OF sok full]
    by (simp add: coroutine_function_prolog_def gc_alloc_def always_mem_def lock_free)
  have r: "running ?t co ?c"
    using assms(1) st(2-4) ok by (simp add: running_def coro_ok_def)
  have "errMsg ?t = errMsg (set_static_errmsg s SS_stackOverflow)"
    by (simp add: set_static_errmsg_def fluffyvm_set_errmsg_def)
  then show ?thesis
    using p r st(3) assms(4) by (intro that[of ?t ?c]) (simp_all add: always_mem_def)
qed

lemma locked_deadlocks:
  assumes "running s co c" and "co_callStackLock c" and "always_mem s"
  shows "coroutine_function_prolog func s = Fault Deadlock" "coroutine_function_epilog s = Fault Deadlock"
  using running_executing[OF assms(1)] assms
  by (auto simp: coroutine_function_prolog_def coroutine_function_epilog_def gc_alloc_def lock_callStack_def
      always_mem_def running_def)

text \<open>
  C21. A call that overflows the call stack returns no frame, but on its way out pops the frame of
  its caller and leaves the call stack locked: every later prolog or epilog of that coroutine on
  the thread deadlocks.
\<close>

theorem prolog_overflow_deadlocks:
  assumes "running s co c" and "\<not> co_callStackLock c"
    and "int (length (frames c)) = FLUFFYVM_CALL_STACK_SIZE" and "always_mem s"
  shows "\<exists>t c'. coroutine_function_prolog func s = Ok None t \<and> running t co c' \<and>
     frames c' = butlast (frames c) \<and> errMsg t = errMsg (set_static_errmsg s SS_stackOverflow) \<and>
     coroutine_function_prolog func' t = Fault Deadlock \<and> coroutine_function_epilog t = Fault Deadlock"
proof -
  obtain t c' where t: "coroutine_function_prolog func s = Ok None t" "running t co c'"
    "co_callStackLock c'" "frames c' = butlast (frames c)" "always_mem t"
    "errMsg t = errMsg (set_static_errmsg s SS_stackOverflow)"
    by (rule prolog_overflows[OF assms])
  then show ?thesis using locked_deadlocks[OF t(2,3,5)] by blast
qed

subsection \<open>Resuming\<close>

lemma push_current_room:
  assumes "stk_ok (coroutinesStack s)"
    and "length (stk_items (coroutinesStack s)) < nat (stk_size (coroutinesStack s))"
  obtains st where "fluffyvm_push_current_coroutine co s = Ok True (s\<lparr>coroutinesStack := st\<rparr>)"
    "stk_ok st" "stk_items st = stk_items (coroutinesStack s) @ [co]"
    "stk_size st = stk_size (coroutinesStack s)"
  by (rule stack_push_room[OF assms, of co s]) (auto simp: fluffyvm_push_current_coroutine_def)

lemma pop_current_items:
  assumes "stk_ok (coroutinesStack s)" and "stk_items (coroutinesStack s) = xs @ [x]"
  obtains st where "fluffyvm_pop_current_coroutine s = Ok () (s\<lparr>coroutinesStack := st\<rparr>)"
    "stk_ok st" "stk_items st = xs" "stk_size st = stk_size (coroutinesStack s)"
  by (rule stack_pop_items[OF assms, of False s]) (auto simp: fluffyvm_pop_current_coroutine_def)

text \<open>The nesting with one coroutine more, and popped again.\<close>

lemma nest_pop:
  assumes "stk_ok (coroutinesStack s)" and "stk_ok st" and "coroutinesStack t = st"
    and "stk_items st = stk_items (coroutinesStack s) @ [co]"
    and "stk_size st = stk_size (coroutinesStack s)"
  shows "fluffyvm_pop_current_coroutine t = Ok () (t\<lparr>coroutinesStack := coroutinesStack s\<rparr>)"
proof -
  obtain st' where st': "fluffyvm_pop_current_coroutine t = Ok () (t\<lparr>coroutinesStack := st'\<rparr>)"
      "stk_ok st'" "stk_items st' = stk_items (coroutinesStack s)" "stk_size st' = stk_size st"
    using pop_current_items[of t "stk_items (coroutinesStack s)" co] assms by auto
  then have "st' = coroutinesStack s" using assms by (intro stk_eqI) simp_all
  then show ?thesis using st'(1) by simp
qed

lemma coroutine_resume_refuses:
  assumes "stk_ok (coroutinesStack s)" and "coros s co = Some c" and "co_fiber c = Some f"
    and "fb_state f \<noteq> FIBER_SUSPENDED"
    and "length (stk_items (coroutinesStack s)) < nat (stk_size (coroutinesStack s))"
  shows "coroutine_resume body co s = Ok False (set_static_errmsg s
     (if fb_state f = FIBER_RUNNING then SS_cannotResumeRunningCoroutine
      else SS_cannotResumeDeadCoroutine))"
proof -
  obtain st where st: "fluffyvm_push_current_coroutine co s = Ok True (s\<lparr>coroutinesStack := st\<rparr>)"
    "stk_ok st" "stk_items st = stk_items (coroutinesStack s) @ [co]"
    "stk_size st = stk_size (coroutinesStack s)"
    by (rule push_current_room[OF assms(1,5)])
  let ?s = "s\<lparr>coroutinesStack := st\<rparr>"
  have p: "fluffyvm_pop_current_coroutine (set_static_errmsg ?s m) = Ok () (set_static_errmsg s m)" for m
    using nest_pop[OF assms(1) st(2), of "set_static_errmsg ?s m" co] st(3,4)
    by (simp add: set_static_errmsg_def fluffyvm_set_errmsg_def)
  have "fiber_resume body co ?s = Ok (False, fb_state f) ?s"
    using assms(2-4) by (simp add: fiber_resume_def get_fiber_def fiber_resume_enter_def)
  then show ?thesis
    using st(1) p assms(4) by (cases "fb_state f") (simp_all add: coroutine_resume_def)
qed

text \<open>
  A refused resume changes nothing but the error message: with the nesting at its limit the
  message is the overflow of its stack, for a running or a dead coroutine it says so, and the
  coroutine, its fiber and the nesting are as they were.
\<close>

theorem coroutine_resume_refused:
  assumes "stk_ok (coroutinesStack s)" and "coros s co = Some c" and "co_fiber c = Some f"
    and "length (stk_items (coroutinesStack s)) = nat (stk_size (coroutinesStack s)) \<or>
      fb_state f \<noteq> FIBER_SUSPENDED"
  shows "coroutine_resume body co s = Ok False (set_static_errmsg s
     (if length (stk_items (coroutinesStack s)) = nat (stk_size (coroutinesStack s)) then SS_stackOverflow
      else if fb_state f = FIBER_RUNNING then SS_cannotResumeRunningCoroutine
      else SS_cannotResumeDeadCoroutine))"
proof (cases "length (stk_items (coroutinesStack s)) = nat (stk_size (coroutinesStack s))")
  case True
  have "set_static_errmsg s SS_stackOverflow\<lparr>coroutinesStack := coroutinesStack s\<rparr> =
      set_static_errmsg s SS_stackOverflow"
    by (simp add: set_static_errmsg_def fluffyvm_set_errmsg_def)
  then show ?thesis
    using True stack_push_full[OF assms(1), of co s]
    by (simp add: coroutine_resume_def fluffyvm_push_current_coroutine_def)
next
  case False
  then have "length (stk_items (coroutinesStack s)) < nat (stk_size (coroutinesStack s))"
    using stk_okD(2)[OF assms(1)] by simp
  then show ?thesis using False coroutine_resume_refuses[OF assms(1-3)] assms(4) by simp
qed

text \<open>
  An error that \<open>exec\<close> throws in the state the task starts it in ends the coroutine: the message is
  stored and the object behind it written over the call stack's field.
\<close>

lemma coroutine_resume_throws:
  assumes "stk_ok (coroutinesStack s)"
    and "length (stk_items (coroutinesStack s)) < nat (stk_size (coroutinesStack s))"
    and "coros s co = Some c" and "co_fiber c = Some f" and "fb_state f = FIBER_SUSPENDED"
    and exec: "\<And>st. stk_ok st \<Longrightarrow> stk_items st = stk_items (coroutinesStack s) @ [co] \<Longrightarrow>
      \<exists>t c'. exec co (s\<lparr>coroutinesStack := st, coros := (coros s)
          (co \<mapsto> c\<lparr>co_fiber := Some (f\<lparr>fb_state := FIBER_RUNNING\<rparr>), co_errorHandler := Some 0\<rparr>)\<rparr>) = Throw t \<and>
        errMsg t = Some e \<and> coroutinesStack t = st \<and> coros t co = Some c' \<and>
        co_fiber c' = Some (f\<lparr>fb_state := FIBER_RUNNING\<rparr>)"
    and "e \<noteq> VNotPresent"
  shows "\<exists>u d p. coroutine_resume (entryPoint exec) co s = Ok False u \<and> coros u co = Some d \<and>
     co_hasError d \<and> co_thrownedError d = e \<and> co_errorHandler d = None \<and>
     co_fiber d = Some \<lparr>fb_state = FIBER_DEAD, fb_task = False, fb_stack = False\<rparr> \<and>
     value_get_object_ptr e u = Ok p u \<and> co_gc_stack d = GC_object p \<and>
     coroutinesStack u = coroutinesStack s \<and>
     coroutine_resume body co u = Ok False (set_static_errmsg u SS_cannotResumeDeadCoroutine)"
proof -
  obtain st where st: "fluffyvm_push_current_coroutine co s = Ok True (s\<lparr>coroutinesStack := st\<rparr>)"
    "stk_ok st" "stk_items st = stk_items (coroutinesStack s) @ [co]"
    "stk_size st = stk_size (coroutinesStack s)"
    by (rule push_current_room[OF assms(1,2)])
  let ?c1 = "c\<lparr>co_fiber := Some (f\<lparr>fb_state := FIBER_RUNNING\<rparr>)\<rparr>"
  let ?c2 = "?c1\<lparr>co_errorHandler := Some 0\<rparr>"
  let ?s1 = "s\<lparr>coroutinesStack := st, coros := (coros s)(co \<mapsto> ?c1)\<rparr>"
  let ?s2 = "s\<lparr>coroutinesStack := st, coros := (coros s)(co \<mapsto> ?c2)\<rparr>"
  obtain t c' where t: "exec co ?s2 = Throw t" "errMsg t = Some e" "coroutinesStack t = st"
      "coros t co = Some c'" "co_fiber c' = Some (f\<lparr>fb_state := FIBER_RUNNING\<rparr>)"
    using exec[OF st(2,3)] by auto
  obtain p where ptr: "value_get_object_ptr e u = Ok p u" for u using assms(7) by (cases e) auto
  let ?d = "c'\<lparr>co_thrownedError := e, co_gc_stack := GC_object p, co_hasError := True, co_errorHandler := None\<rparr>"
  have task: "coroutine_task exec co ?s1 = Ok () (t\<lparr>coros := (coros t)(co \<mapsto> ?d)\<rparr>)"
    using t ptr by (auto simp: coroutine_task_def modify_coro_Some fluffyvm_get_errmsg_def)
  let ?g = "\<lparr>fb_state = FIBER_DEAD, fb_task = False, fb_stack = fb_stack f\<rparr>"
  have fin: "entryPoint_finish (f\<lparr>fb_state := FIBER_RUNNING\<rparr>) = ?g"
    by (simp add: entryPoint_finish_def)
  have entry: "entryPoint exec co ?s1 = Ok () (t\<lparr>coros := (coros t)(co \<mapsto> ?d\<lparr>co_fiber := Some ?g\<rparr>)\<rparr>)"
    using task t(5) by (simp add: entryPoint_def get_fiber_def set_fiber_def modify_coro_Some fin)
  let ?h = "\<lparr>fb_state = FIBER_DEAD, fb_task = False, fb_stack = False\<rparr>"
  let ?t = "t\<lparr>coros := (coros t)(co \<mapsto> ?d\<lparr>co_fiber := Some ?h\<rparr>)\<rparr>"
  have fr: "fiber_resume (entryPoint exec) co (s\<lparr>coroutinesStack := st\<rparr>) = Ok (True, FIBER_SUSPENDED) ?t"
    using assms(3-5) entry
    by (simp add: fiber_resume_def get_fiber_def set_fiber_def modify_coro_Some
        fiber_resume_enter_def fiber_resume_leave_def)
  let ?u = "?t\<lparr>coroutinesStack := coroutinesStack s\<rparr>"
  have pop: "fluffyvm_pop_current_coroutine ?t = Ok () ?u"
    using t(3) st by (intro nest_pop[OF assms(1) st(2)]) simp_all
  have r: "coroutine_resume (entryPoint exec) co s = Ok False ?u"
    using st(1) fr pop by (simp add: coroutine_resume_def)
  have "coroutine_resume body co ?u = Ok False (set_static_errmsg ?u SS_cannotResumeDeadCoroutine)"
    using coroutine_resume_refuses[of ?u co "?d\<lparr>co_fiber := Some ?h\<rparr>" ?h body] assms(1,2) by simp
  then show ?thesis using r ptr by (intro exI[of _ ?u] exI[of _ "?d\<lparr>co_fiber := Some ?h\<rparr>"] exI[of _ p]) simp
qed

subsection \<open>Concrete cases\<close>

text \<open>
  A machine whose coroutine 100 executes a stack of \<open>n\<close> frames, with a suspended fiber and a Lua
  closure at 50.
\<close>

definition stack_of :: "int \<Rightarrow> 'a list \<Rightarrow> 'a fluffyvm_stack" where
  "stack_of n xs = \<lparr>stk_sp = int (length xs), stk_size = n,
     stk_arr = map Some xs @ replicate (nat n - length xs) None\<rparr>"

definition coroutine_of :: "addr list \<Rightarrow> fiber_state \<Rightarrow> coroutine" where
  "coroutine_of fs st = \<lparr>co_isNativeThread = False, co_isYieldable = True,
     co_fiber = Some \<lparr>fb_state = st, fb_task = st \<noteq> FIBER_DEAD, fb_stack = True\<rparr>,
     co_currentCallState = (if fs = [] then None else Some (last fs)), co_errorHandler = None,
     co_callStackLock = False, co_callStack = stack_of FLUFFYVM_CALL_STACK_SIZE fs,
     co_hasError = False, co_thrownedError = VNotPresent, co_gc_stack = GC_callStack\<rparr>"

definition plain_closure :: closure where
  "plain_closure = \<lparr>cl_prototype = Some (Prototype 0 [] [] [] VNil), cl_func = None, cl_udata = None,
     cl_isNative = False, cl_env = VNil, cl_asValue = VClosure 50, cl_luaCFunction = None\<rparr>"

definition vm_running :: "addr list \<Rightarrow> fiber_state \<Rightarrow> vm" where
  "vm_running fs st = blank_vm\<lparr>coros := [100 \<mapsto> coroutine_of fs st], closures := [50 \<mapsto> plain_closure],
     coroutinesStack := stack_of FLUFFYVM_MAX_COROUTINE_NEST [100]\<rparr>"

lemma stack_of_ok [simp]:
  "int (length xs) \<le> n \<Longrightarrow> stk_ok (stack_of n xs)"
  "int (length xs) \<le> n \<Longrightarrow> stk_items (stack_of n xs) = xs"
  using stk_okI[of "stack_of n xs" xs] by (simp_all add: stack_of_def)

lemma stack_of_size [simp]: "stk_size (stack_of n xs) = n"
  by (simp add: stack_of_def)

lemma vm_running_simps [simp]:
  "coros (vm_running fs st) = [100 \<mapsto> coroutine_of fs st]"
  "closures (vm_running fs st) = [50 \<mapsto> plain_closure]"
  "coroutinesStack (vm_running fs st) = stack_of FLUFFYVM_MAX_COROUTINE_NEST [100]"
  "always_mem (vm_running fs st)" "brk (vm_running fs st) = 0" "mem (vm_running fs st) n"
  by (simp_all add: vm_running_def always_mem_def blank_vm_def)

lemma coroutine_of_simps [simp]:
  "co_callStack (coroutine_of fs st) = stack_of FLUFFYVM_CALL_STACK_SIZE fs"
  "\<not> co_callStackLock (coroutine_of fs st)"
  "co_fiber (coroutine_of fs st) = Some \<lparr>fb_state = st, fb_task = st \<noteq> FIBER_DEAD, fb_stack = True\<rparr>"
  by (simp_all add: coroutine_of_def)

lemma vm_running_ok:
  assumes "length fs \<le> 512"
  shows "running (vm_running fs st) 100 (coroutine_of fs st)"
    and "frames (coroutine_of fs st) = fs"
  using assms by (simp_all add: running_def coro_ok_def config_defs coroutine_of_def)

theorem prolog_epilog_restores_witness:
  "\<exists>cs t c' u. coroutine_function_prolog 50 (vm_running [7] FIBER_RUNNING) = Ok (Some cs) t \<and>
     running t 100 c' \<and> frames c' = frames (coroutine_of [7] FIBER_RUNNING) @ [cs] \<and>
     co_currentCallState c' = Some cs \<and>
     cstates t = (cstates (vm_running [7] FIBER_RUNNING))
       (cs \<mapsto> new_call_state 50 100 (cl_func plain_closure \<noteq> None)) \<and>
     coroutine_function_epilog t = Ok () u \<and> coros u = coros (vm_running [7] FIBER_RUNNING)"
  by (rule prolog_epilog_restores[OF vm_running_ok(1)])
     (use vm_running_ok(2)[of "[7]" FIBER_RUNNING] in \<open>simp_all add: config_defs\<close>)

theorem prolog_overflow_deadlocks_witness:
  "\<exists>t c'. coroutine_function_prolog 50 (vm_running (replicate 512 7) FIBER_RUNNING) = Ok None t \<and>
     running t 100 c' \<and> frames c' = butlast (frames (coroutine_of (replicate 512 7) FIBER_RUNNING)) \<and>
     errMsg t = errMsg (set_static_errmsg (vm_running (replicate 512 7) FIBER_RUNNING) SS_stackOverflow) \<and>
     coroutine_function_prolog 50 t = Fault Deadlock \<and> coroutine_function_epilog t = Fault Deadlock"
  by (rule prolog_overflow_deadlocks[OF vm_running_ok(1)])
     (use vm_running_ok(2)[of "replicate 512 7" FIBER_RUNNING] in \<open>simp_all add: config_defs\<close>)

theorem coroutine_resume_refused_witness:
  "coroutine_resume (\<lambda>co s. Ok () s) 100 (vm_running [7] FIBER_DEAD) =
     Ok False (set_static_errmsg (vm_running [7] FIBER_DEAD) SS_cannotResumeDeadCoroutine)"
  using coroutine_resume_refused[of "vm_running [7] FIBER_DEAD" 100 "coroutine_of [7] FIBER_DEAD"
      "\<lparr>fb_state = FIBER_DEAD, fb_task = False, fb_stack = True\<rparr>" "\<lambda>co s. Ok () s"]
  by (simp add: config_defs)

end
