(* ===== verification/Interpreter.thy ===== *)
theory Interpreter
  imports Coroutine
begin

text \<open>
  \<open>interpreter.c\<close> and \<open>opcodes.h\<close>: registers and the general stack of a frame, instruction
  decoding, one handler per opcode, the instruction loop, calls from native code, errors and
  protected calls. Native functions are parameters: \<open>host f cs udata\<close> is what the function at
  address \<open>f\<close> does with the frame \<open>cs\<close>. The loop and the nesting of calls may run forever, so
  \<open>interpreter_exec\<close> takes fuel: one unit per call and one per instruction. More fuel never
  changes a result, which the last but one section shows.
\<close>

unbundle bit_operations_syntax

type_synonym host = "nat \<Rightarrow> addr \<Rightarrow> nat option \<Rightarrow> vm \<Rightarrow> (int, vm) res"

subsection \<open>Registers and the general stack\<close>

definition FLUFFYVM_INTERPRETER_REGISTER_ALWAYS_NIL :: int where
  "FLUFFYVM_INTERPRETER_REGISTER_ALWAYS_NIL = 0xFFFF"
definition FLUFFYVM_INTERPRETER_REGISTER_ENV :: int where
  "FLUFFYVM_INTERPRETER_REGISTER_ENV = 0xFFFE"
definition FLUFFYVM_INTERPRETER_REGISTER_CURRENT :: int where
  "FLUFFYVM_INTERPRETER_REGISTER_CURRENT = 0xFFFD"
definition FLUFFYVM_INTERPRETER_RESERVED_START :: int where
  "FLUFFYVM_INTERPRETER_RESERVED_START = 0xFF00"
definition FLUFFYVM_INTERPRETER_FLAG_EQUAL :: "32 word" where
  "FLUFFYVM_INTERPRETER_FLAG_EQUAL = 1"
definition FLUFFYVM_INTERPRETER_FLAG_LESS :: "32 word" where
  "FLUFFYVM_INTERPRETER_FLAG_LESS = 2"

lemmas register_defs = FLUFFYVM_INTERPRETER_REGISTER_ALWAYS_NIL_def
  FLUFFYVM_INTERPRETER_REGISTER_ENV_def FLUFFYVM_INTERPRETER_REGISTER_CURRENT_def
  FLUFFYVM_INTERPRETER_RESERVED_START_def FLUFFYVM_INTERPRETER_FLAG_EQUAL_def
  FLUFFYVM_INTERPRETER_FLAG_LESS_def

text \<open>The source compares with \<open>RESERVED_START\<close> at both ends of the reserved range.\<close>

definition setRegister :: "addr \<Rightarrow> int \<Rightarrow> value \<Rightarrow> vm \<Rightarrow> (unit, vm) res" where
  "setRegister cs index v s =
     rbind (assert_that (v \<noteq> VNotPresent) s) (\<lambda>_ s.
       if index \<noteq> FLUFFYVM_INTERPRETER_REGISTER_ENV \<and>
          FLUFFYVM_INTERPRETER_RESERVED_START \<le> index \<and>
          index \<le> FLUFFYVM_INTERPRETER_RESERVED_START then Ok () s
       else rbind (assert_that (0 \<le> index \<and> index < FLUFFYVM_REGISTERS_NUM) s) (\<lambda>_ s.
         rbind (deref (cstates s) cs s) (\<lambda>st s.
           case cs_registers st of
             None \<Rightarrow> Fault NullDeref
           | Some rs \<Rightarrow>
               modify_cstate cs (\<lambda>st. st\<lparr>cs_registers := Some (rs[nat index := v])\<rparr>) s)))"

definition getRegister :: "addr \<Rightarrow> int \<Rightarrow> vm \<Rightarrow> (value, vm) res" where
  "getRegister cs index s =
     rbind (deref (cstates s) cs s) (\<lambda>st s. rbind (deref (closures s) (cs_closure st) s) (\<lambda>cl s.
       if index = FLUFFYVM_INTERPRETER_REGISTER_ENV then Ok (cl_env cl) s
       else if index = FLUFFYVM_INTERPRETER_REGISTER_CURRENT then Ok (cl_asValue cl) s
       else if index = FLUFFYVM_INTERPRETER_REGISTER_ALWAYS_NIL then Ok VNil s
       else rbind (assert_that (0 \<le> index \<and> index < FLUFFYVM_REGISTERS_NUM) s) (\<lambda>_ s.
         case cs_registers st of
           None \<Rightarrow> Fault NullDeref
         | Some rs \<Rightarrow>
             if length rs \<le> nat index then Fault OutOfBounds
             else Ok (if rs ! nat index = VNotPresent then VNil else rs ! nat index) s)))"

text \<open>Reading a cell of the general stack of a frame.\<close>

definition stack_cell :: "addr \<Rightarrow> int \<Rightarrow> vm \<Rightarrow> (value, vm) res" where
  "stack_cell cs i s =
     rbind (deref (cstates s) cs s) (\<lambda>st s.
       if i < 0 \<or> int (length (cs_generalStack st)) \<le> i then Fault OutOfBounds
       else Ok (cs_generalStack st ! nat i) s)"

definition interpreter_pop :: "addr \<Rightarrow> vm \<Rightarrow> (value option, vm) res" where
  "interpreter_pop cs s =
     rbind (deref (cstates s) cs s) (\<lambda>st s.
       if cs_sp st - 1 < 0 then Ok None (set_static_errmsg s SS_stackUnderflow)
       else let index = cs_sp st - 1 in
         rbind (stack_cell cs index s) (\<lambda>val s.
         rbind (assert_that (val \<noteq> VNotPresent) s) (\<lambda>_ s.
         rbind (modify_cstate cs (\<lambda>st. st\<lparr>cs_sp := index,
             cs_generalStack := (cs_generalStack st)[nat index := VNotPresent]\<rparr>) s) (\<lambda>_ s.
           Ok (Some val) s))))"

definition interpreter_pop2 :: "addr \<Rightarrow> int \<Rightarrow> vm \<Rightarrow> (bool, vm) res" where
  "interpreter_pop2 cs destination s =
     rbind (interpreter_pop cs s) (\<lambda>r s.
       case r of
         None \<Rightarrow> Ok False s
       | Some val \<Rightarrow> rbind (setRegister cs destination val s) (\<lambda>_ s. Ok True s))"

definition interpreter_push :: "addr \<Rightarrow> value \<Rightarrow> vm \<Rightarrow> (bool, vm) res" where
  "interpreter_push cs v s =
     rbind (deref (cstates s) cs s) (\<lambda>st s.
       if FLUFFYVM_GENERAL_STACK_SIZE \<le> cs_sp st then
         Ok False (set_static_errmsg s SS_stackOverflow)
       else rbind (assert_that (v \<noteq> VNotPresent) s) (\<lambda>_ s.
         rbind (stack_cell cs (cs_sp st) s) (\<lambda>_ s.
         rbind (modify_cstate cs (\<lambda>st. st\<lparr>
             cs_generalStack := (cs_generalStack st)[nat (cs_sp st) := v],
             cs_sp := cs_sp st + 1\<rparr>) s) (\<lambda>_ s. Ok True s))))"

definition interpreter_peek :: "addr \<Rightarrow> int \<Rightarrow> vm \<Rightarrow> (value option, vm) res" where
  "interpreter_peek cs index s =
     rbind (deref (cstates s) cs s) (\<lambda>st s.
       if index < 0 then Ok None (set_static_errmsg s SS_stackUnderflow)
       else if cs_sp st \<le> index then Ok None (set_static_errmsg s SS_stackOverflow)
       else rbind (stack_cell cs index s) (\<lambda>v s. Ok (Some v) s))"

definition interpreter_get_top :: "addr \<Rightarrow> vm \<Rightarrow> (int, vm) res" where
  "interpreter_get_top cs s = rbind (deref (cstates s) cs s) (\<lambda>st s. Ok (cs_sp st - 1) s)"

definition interpreter_get_env :: "addr \<Rightarrow> vm \<Rightarrow> (value, vm) res" where
  "interpreter_get_env cs s =
     rbind (deref (cstates s) cs s) (\<lambda>st s. rbind (deref (closures s) (cs_closure st) s) (\<lambda>cl s.
       Ok (cl_env cl) s))"

subsection \<open>Errors\<close>

text \<open>Without a handler the message is printed and the process aborted.\<close>

definition errorCommon :: "value \<Rightarrow> vm \<Rightarrow> (unit, vm) res" where
  "errorCommon errmsg s =
     (let s = fluffyvm_set_errmsg s errmsg in
      rbind (executing_coroutine s) (\<lambda>co s. rbind (deref (coros s) co s) (\<lambda>c s.
        if co_errorHandler c = None then Fault Aborted else Ok () s)))"

definition interpreter_error :: "value \<Rightarrow> vm \<Rightarrow> ('a, vm) res" where
  "interpreter_error errmsg s =
     rbind (executing_coroutine s) (\<lambda>_ s. rbind (errorCommon errmsg s) (\<lambda>_ s. Throw s))"

definition interpreter_error_printf :: "byte list \<Rightarrow> vm \<Rightarrow> ('a, vm) res" where
  "interpreter_error_printf msg s =
     rbind (executing_coroutine s) (\<lambda>_ s.
       case value_new_string s msg of (v, s) \<Rightarrow>
         rbind (errorCommon (if v = VNotPresent
             then staticStrings s SS_outOfMemoryWhileAnErrorOccured else v) s) (\<lambda>_ s. Throw s))"

subsection \<open>Instructions\<close>

datatype fluffyvm_opcode =
    OPCODE_NOP | OPCODE_MOV | OPCODE_TABLE_GET | OPCODE_TABLE_SET | OPCODE_CALL
  | OPCODE_STACK_PUSH | OPCODE_STACK_POP | OPCODE_GET_CONSTANT | OPCODE_RETURN | OPCODE_EXTRA
  | OPCODE_STACK_GETTOP | OPCODE_LOAD_PROTOTYPE | OPCODE_ADD | OPCODE_SUB | OPCODE_MUL
  | OPCODE_DIV | OPCODE_MOD | OPCODE_POW | OPCODE_JMP_FORWARD | OPCODE_JMP_BACKWARD | OPCODE_CMP

definition opcodes :: "(fluffyvm_opcode \<times> string \<times> int) list" where
  "opcodes = [(OPCODE_NOP, ''nop'', 0), (OPCODE_MOV, ''mov'', 2), (OPCODE_TABLE_GET, ''table_get'', 3),
     (OPCODE_TABLE_SET, ''table_set'', 3), (OPCODE_CALL, ''call'', 3),
     (OPCODE_STACK_PUSH, ''stack_push'', 1), (OPCODE_STACK_POP, ''stack_pop'', 1),
     (OPCODE_GET_CONSTANT, ''get_constant'', 2), (OPCODE_RETURN, ''ret'', 2),
     (OPCODE_EXTRA, ''extra'', 3), (OPCODE_STACK_GETTOP, ''stack_gettop'', 1),
     (OPCODE_LOAD_PROTOTYPE, ''load_prototype'', 2), (OPCODE_ADD, ''add'', 3), (OPCODE_SUB, ''sub'', 3),
     (OPCODE_MUL, ''mul'', 3), (OPCODE_DIV, ''div'', 3), (OPCODE_MOD, ''mod'', 3),
     (OPCODE_POW, ''pow'', 3), (OPCODE_JMP_FORWARD, ''jmp_forward'', 1),
     (OPCODE_JMP_BACKWARD, ''jmp_backward'', 1), (OPCODE_CMP, ''cmp'', 2)]"

definition OPCODE_LAST :: nat where "OPCODE_LAST = 21"

definition opcode_of :: "nat \<Rightarrow> fluffyvm_opcode" where "opcode_of n = fst (opcodes ! n)"
definition instructionName :: "nat \<Rightarrow> string" where "instructionName n = fst (snd (opcodes ! n))"
definition instructionFieldUsed :: "nat \<Rightarrow> int" where "instructionFieldUsed n = snd (snd (opcodes ! n))"

record instruction =
  ins_opcode :: nat
  ins_condFlags :: "32 word"
  ins_A :: int
  ins_B :: int
  ins_C :: int
  ins_D :: int
  ins_E :: int
  ins_F :: int
  ins_G :: int
  ins_H :: int
  ins_I :: int

definition decode :: "u64 \<Rightarrow> instruction" where
  "decode i =
     \<lparr>ins_opcode = unat (drop_bit 56 i AND 0xFF),
      ins_condFlags = ucast (drop_bit 48 i AND 0xFF),
      ins_A = uint (drop_bit 32 i AND 0xFFFF),
      ins_B = uint (drop_bit 16 i AND 0xFFFF),
      ins_C = uint (i AND 0xFFFF),
      ins_D = 0, ins_E = 0, ins_F = 0, ins_G = 0, ins_H = 0, ins_I = 0\<rparr>"

text \<open>\<open>ins.condFlags & 0xF0 >> 4\<close>, where the shift binds more tightly than the conjunction.\<close>

definition condFlagsMask :: "instruction \<Rightarrow> 32 word" where
  "condFlagsMask ins = ins_condFlags ins AND drop_bit 4 0xF0"

definition skips :: "instruction \<Rightarrow> 32 word \<Rightarrow> bool" where
  "skips ins flags =
     (let mask = condFlagsMask ins;
          condFlags = ins_condFlags ins AND mask;
          flagRegister = flags AND mask
      in (NOT (flagRegister XOR condFlags)) AND mask = 0 \<and> mask \<noteq> 0)"

text \<open>How many instructions one occupies, and the fetch of the fields of the ones that follow.\<close>

definition incrementCount :: "nat \<Rightarrow> int" where
  "incrementCount opcode =
     (let n = instructionFieldUsed opcode div 3 + (if 0 < instructionFieldUsed opcode mod 3 then 1 else 0)
      in if n = 0 then 1 else n)"

definition extras :: "u64 list \<Rightarrow> int \<Rightarrow> int \<Rightarrow> instruction list option" where
  "extras instructions pc n =
     (let idx = map (\<lambda>i. nat pc + i + 1) [0..<nat n] in
      if \<forall>i \<in> set idx. i < length instructions
      then Some (map (\<lambda>i. decode (instructions ! i)) idx) else None)"

definition with_extras :: "instruction \<Rightarrow> instruction list \<Rightarrow> instruction option" where
  "with_extras ins es =
     (if \<exists>e \<in> set es. ins_opcode e \<noteq> 9 then None
      else case es of
        [e] \<Rightarrow> Some (ins\<lparr>ins_D := ins_A e, ins_E := ins_B e, ins_F := ins_C e\<rparr>)
      | [e, f] \<Rightarrow> Some (ins\<lparr>ins_D := ins_A e, ins_E := ins_B e, ins_F := ins_C e,
                           ins_G := ins_A f, ins_H := ins_B f, ins_I := ins_C f\<rparr>)
      | _ \<Rightarrow> None)"

definition fmt_hex :: "nat \<Rightarrow> nat \<Rightarrow> string" where
  "fmt_hex width n = (let d = nat_digits 16 n in replicate (width - length d) CHR 0x30 @ d)"

definition illegal_message :: "u64 \<Rightarrow> instruction \<Rightarrow> byte list" where
  "illegal_message w ins = bytes_of (''illegal instruction 0x'' @ fmt_hex 16 (unat w) @ '' (Op: '' @
     (if ins_opcode ins < OPCODE_LAST then quote @ instructionName (ins_opcode ins) @ quote
      else ''0x'' @ fmt_hex 2 (ins_opcode ins)) @
     ''  Cond: 0x'' @ fmt_hex 2 (unat (ins_condFlags ins)) @ ''  A: 0x'' @ fmt_hex 4 (nat (ins_A ins)) @
     ''  B: 0x'' @ fmt_hex 4 (nat (ins_B ins)) @ ''  C: 0x'' @ fmt_hex 4 (nat (ins_C ins)) @ '')'')"

subsection \<open>Handlers\<close>

text \<open>What an instruction leads to: the next position, or the end of the function.\<close>

datatype step_result = Continue int | Return int

definition current_frame :: "addr \<Rightarrow> vm \<Rightarrow> (addr \<times> call_state \<times> closure, vm) res" where
  "current_frame co s =
     rbind (deref (coros s) co s) (\<lambda>c s.
       case co_currentCallState c of
         None \<Rightarrow> Fault NullDeref
       | Some cs \<Rightarrow> rbind (deref (cstates s) cs s) (\<lambda>st s.
           rbind (deref (closures s) (cs_closure st) s) (\<lambda>cl s. Ok (cs, st, cl) s)))"

definition set_pc :: "addr \<Rightarrow> int \<Rightarrow> vm \<Rightarrow> (unit, vm) res" where
  "set_pc cs pc s = modify_cstate cs (\<lambda>st. st\<lparr>cs_pc := pc\<rparr>) s"

text \<open>The labels \<open>error\<close> and \<open>illegal_instruction\<close>.\<close>

definition goto_error :: "addr \<Rightarrow> int \<Rightarrow> vm \<Rightarrow> ('a, vm) res" where
  "goto_error cs pc s = rbind (set_pc cs pc s) (\<lambda>_ s. interpreter_error (fluffyvm_get_errmsg s) s)"

definition goto_illegal :: "addr \<Rightarrow> int \<Rightarrow> u64 \<Rightarrow> instruction \<Rightarrow> vm \<Rightarrow> ('a, vm) res" where
  "goto_illegal cs pc w ins s =
     goto_error cs pc (fluffyvm_set_errmsg_printf s (illegal_message w ins))"

definition op_arith ::
    "(value \<Rightarrow> value \<Rightarrow> vm \<Rightarrow> (value, vm) res) \<Rightarrow> addr \<Rightarrow> int \<Rightarrow> instruction \<Rightarrow> vm \<Rightarrow> (step_result, vm) res" where
  "op_arith f cs pc ins s =
     rbind (getRegister cs (ins_B ins) s) (\<lambda>op1 s. rbind (getRegister cs (ins_C ins) s) (\<lambda>op2 s.
     rbind (f op1 op2 s) (\<lambda>tmp s.
       if tmp = VNotPresent then goto_error cs pc s
       else rbind (setRegister cs (ins_A ins) tmp s) (\<lambda>_ s. Ok (Continue pc) s))))"

definition op_jmp_forward :: "addr \<Rightarrow> int \<Rightarrow> int \<Rightarrow> instruction \<Rightarrow> vm \<Rightarrow> (step_result, vm) res" where
  "op_jmp_forward cs len pc ins s =
     (if len \<le> pc + ins_A ins then
        goto_error cs pc (fluffyvm_set_errmsg_printf s (bytes_of (''Attempting to forward jump to ''
          @ fmt_long pc @ '' out of '' @ fmt_long len @ '' instructions'')))
      else Ok (Continue (pc + ins_A ins)) s)"

definition op_jmp_backward :: "addr \<Rightarrow> int \<Rightarrow> instruction \<Rightarrow> vm \<Rightarrow> (step_result, vm) res" where
  "op_jmp_backward cs pc ins s =
     (if pc - ins_A ins < 0 then
        goto_error cs pc (fluffyvm_set_errmsg_printf s
          (bytes_of (''Attempting to backward jump to '' @ fmt_long pc)))
      else Ok (Continue (pc - ins_A ins)) s)"

definition set_flag :: "addr \<Rightarrow> 32 word \<Rightarrow> bool \<Rightarrow> vm \<Rightarrow> (unit, vm) res" where
  "set_flag cs flag b s =
     modify_cstate cs (\<lambda>st. st\<lparr>cs_flagRegister :=
       (if b then cs_flagRegister st OR flag else cs_flagRegister st AND NOT flag)\<rparr>) s"

definition op_cmp :: "ext \<Rightarrow> addr \<Rightarrow> int \<Rightarrow> instruction \<Rightarrow> vm \<Rightarrow> (step_result, vm) res" where
  "op_cmp ex cs pc ins s =
     rbind (getRegister cs (ins_A ins) s) (\<lambda>op1 s. rbind (getRegister cs (ins_B ins) s) (\<lambda>op2 s.
     rbind (value_is_equal ex op1 op2 s) (\<lambda>eq s.
     rbind (set_flag cs FLUFFYVM_INTERPRETER_FLAG_EQUAL (eq = CMP_TRUE) s) (\<lambda>_ s.
     rbind (value_is_less ex op1 op2 s) (\<lambda>less s.
     rbind (set_flag cs FLUFFYVM_INTERPRETER_FLAG_LESS (less = CMP_TRUE) s) (\<lambda>_ s.
       Ok (Continue pc) s))))))"

text \<open>\<open>LOAD_PROTOTYPE\<close> neither checks the index nor whether a closure was made.\<close>

definition op_load_prototype :: "addr \<Rightarrow> int \<Rightarrow> instruction \<Rightarrow> vm \<Rightarrow> (step_result, vm) res" where
  "op_load_prototype cs pc ins s =
     rbind (deref (cstates s) cs s) (\<lambda>st s. rbind (deref (closures s) (cs_closure st) s) (\<lambda>cl s.
       case cl_prototype cl of
         None \<Rightarrow> Fault NullDeref
       | Some p \<Rightarrow>
           if length (p_prototypes p) \<le> nat (ins_B ins) then Fault OutOfBounds
           else rbind (getRegister cs FLUFFYVM_INTERPRETER_REGISTER_ENV s) (\<lambda>env s.
             rbind (closure_new (Some (p_prototypes p ! nat (ins_B ins))) env s) (\<lambda>r s.
               case r of
                 None \<Rightarrow> Fault NullDeref
               | Some a \<Rightarrow> rbind (setRegister cs (ins_A ins) (value_new_closure a) s) (\<lambda>_ s.
                   Ok (Continue pc) s)))))"

definition op_get_constant :: "addr \<Rightarrow> int \<Rightarrow> u64 \<Rightarrow> instruction \<Rightarrow> vm \<Rightarrow> (step_result, vm) res" where
  "op_get_constant cs pc w ins s =
     rbind (deref (cstates s) cs s) (\<lambda>st s. rbind (deref (closures s) (cs_closure st) s) (\<lambda>cl s.
       case cl_prototype cl of
         None \<Rightarrow> Fault NullDeref
       | Some p \<Rightarrow> rbind (deref (bcs s) (p_bytecode p) s) (\<lambda>bc s.
           if length (bc_constants bc) \<le> nat (ins_B ins) then goto_illegal cs pc w ins s
           else rbind (setRegister cs (ins_A ins) (bc_constants bc ! nat (ins_B ins)) s) (\<lambda>_ s.
             Ok (Continue pc) s))))"

definition op_stack_gettop :: "addr \<Rightarrow> int \<Rightarrow> instruction \<Rightarrow> vm \<Rightarrow> (step_result, vm) res" where
  "op_stack_gettop cs pc ins s =
     rbind (deref (cstates s) cs s) (\<lambda>st s.
     rbind (setRegister cs (ins_A ins) (value_new_long (word_of_int (cs_sp st - 1))) s) (\<lambda>_ s.
       Ok (Continue pc) s))"

definition op_stack_pop :: "addr \<Rightarrow> int \<Rightarrow> instruction \<Rightarrow> vm \<Rightarrow> (step_result, vm) res" where
  "op_stack_pop cs pc ins s =
     rbind (interpreter_pop2 cs (ins_A ins) s) (\<lambda>ok s.
       if \<not> ok then goto_error cs pc s else Ok (Continue pc) s)"

definition op_stack_push :: "addr \<Rightarrow> int \<Rightarrow> instruction \<Rightarrow> vm \<Rightarrow> (step_result, vm) res" where
  "op_stack_push cs pc ins s =
     rbind (getRegister cs (ins_A ins) s) (\<lambda>v s. rbind (interpreter_push cs v s) (\<lambda>ok s.
       if \<not> ok then goto_error cs pc s else Ok (Continue pc) s))"

definition op_table_get :: "ext \<Rightarrow> addr \<Rightarrow> int \<Rightarrow> instruction \<Rightarrow> vm \<Rightarrow> (step_result, vm) res" where
  "op_table_get ex cs pc ins s =
     rbind (getRegister cs (ins_B ins) s) (\<lambda>table s. rbind (getRegister cs (ins_C ins) s) (\<lambda>key s.
     rbind (value_table_get ex table key (fluffyvm_clear_errmsg s)) (\<lambda>result s.
     rbind (value_table_is_indexable table s) (\<lambda>indexable s.
       if \<not> indexable \<or> fluffyvm_is_errmsg_present s then goto_error cs pc s
       else rbind (setRegister cs (ins_A ins) (if result = VNotPresent then VNil else result) s) (\<lambda>_ s.
         Ok (Continue pc) s)))))"

definition op_table_set :: "ext \<Rightarrow> addr \<Rightarrow> int \<Rightarrow> instruction \<Rightarrow> vm \<Rightarrow> (step_result, vm) res" where
  "op_table_set ex cs pc ins s =
     rbind (getRegister cs (ins_A ins) s) (\<lambda>table s. rbind (getRegister cs (ins_B ins) s) (\<lambda>key s.
     rbind (getRegister cs (ins_C ins) s) (\<lambda>v s.
     rbind (value_table_set ex table key v s) (\<lambda>_ s. Ok (Continue pc) s))))"

text \<open>Copying between general stacks, as the loops of a call do.\<close>

fun copy_args :: "addr \<Rightarrow> addr \<Rightarrow> int list \<Rightarrow> vm \<Rightarrow> (bool, vm) res" where
  "copy_args dest src [] s = Ok True s"
| "copy_args dest src (i # is) s =
     rbind (stack_cell src i s) (\<lambda>v s. rbind (interpreter_push dest v s) (\<lambda>ok s.
       if \<not> ok then Ok False s else copy_args dest src is s))"

text \<open>Popping; whether every pop succeeded (\<open>interpreter_call\<close> does not look).\<close>

fun pop_args :: "addr \<Rightarrow> nat \<Rightarrow> vm \<Rightarrow> (bool, vm) res" where
  "pop_args cs 0 s = Ok True s"
| "pop_args cs (Suc n) s =
     rbind (interpreter_pop cs s) (\<lambda>r s. rbind (pop_args cs n s) (\<lambda>ok s. Ok (r \<noteq> None \<and> ok) s))"

fun copy_returns :: "addr \<Rightarrow> addr \<Rightarrow> int \<Rightarrow> int list \<Rightarrow> vm \<Rightarrow> (bool, vm) res" where
  "copy_returns co dest startPos [] s = Ok True s"
| "copy_returns co dest startPos (i # is) s =
     rbind (current_frame co s) (\<lambda>(cs, st, cl) s.
     rbind (if startPos + i \<le> cs_sp st - 1 then stack_cell cs (startPos + i) s else Ok VNil s) (\<lambda>v s.
     rbind (interpreter_push dest v s) (\<lambda>ok s.
       if \<not> ok then Ok False s else copy_returns co dest startPos is s)))"

text \<open>After the callee ran: its values to the caller, then its frame goes.\<close>

definition return_values :: "addr \<Rightarrow> addr \<Rightarrow> bool \<Rightarrow> int \<Rightarrow> int \<Rightarrow> vm \<Rightarrow> (bool, vm) res" where
  "return_values co dest vararg nret actualRetCount s =
     rbind (current_frame co s) (\<lambda>(cs, st, cl) s.
       let returnCount = (if vararg then cs_sp st else nret);
           startPos = (if cs_sp st - actualRetCount < 0 then 0 else cs_sp st - actualRetCount)
       in copy_returns co dest startPos [0..returnCount - 1] s)"

definition run_callee :: "(vm \<Rightarrow> (int, vm) res) \<Rightarrow> addr \<Rightarrow> addr \<Rightarrow> int \<Rightarrow> addr \<Rightarrow> int list \<Rightarrow> bool \<Rightarrow>
    int \<Rightarrow> vm \<Rightarrow> (step_result, vm) res" where
  "run_callee exec co cs pc closure args vararg returnCount s =
     (let call_error = (\<lambda>s. rbind (coroutine_function_epilog s) (\<lambda>_ s. goto_error cs pc s)) in
      rbind (coroutine_function_prolog closure s) (\<lambda>r s.
        case r of
          None \<Rightarrow> goto_error cs pc s
        | Some _ \<Rightarrow>
            rbind (current_frame co s) (\<lambda>(dest, _, _) s.
            rbind (copy_args dest cs args s) (\<lambda>ok s.
              if \<not> ok then call_error s
              else
                rbind (set_pc cs pc s) (\<lambda>_ s.
                rbind (exec s) (\<lambda>actualRetCount s.
                rbind (pop_args cs (length args) s) (\<lambda>popped s.
                  if \<not> popped then Fault Aborted
                  else
                    rbind (return_values co cs vararg returnCount actualRetCount s) (\<lambda>ok s.
                      if \<not> ok then call_error s
                      else
                        rbind (coroutine_function_epilog s) (\<lambda>_ s. Ok (Continue pc) s)))))))))"

definition op_call :: "(vm \<Rightarrow> (int, vm) res) \<Rightarrow> addr \<Rightarrow> addr \<Rightarrow> int \<Rightarrow> instruction \<Rightarrow> vm \<Rightarrow>
    (step_result, vm) res" where
  "op_call exec co cs pc ins s =
     rbind (deref (cstates s) cs s) (\<lambda>st s.
       let B = ins_B ins; D = ins_C ins;
           C = (if 1 < D then cs_sp st - (D - 1) else 0);
           argsStart = C;
           argsEnd = (if D = 1 then cs_sp st - 1 else C + D - 2);
           returnCount = (if B - 1 < 0 then 0 else B - 1)
       in if argsStart < 0 then goto_error cs pc (set_static_errmsg s SS_stackUnderflow)
          else rbind (getRegister cs (ins_A ins) s) (\<lambda>val s.
            if val = VNil then goto_error cs pc (set_static_errmsg s SS_attemptToCallNilValue)
            else rbind (value_is_callable val s) (\<lambda>callable s.
              if \<not> callable then
                rbind (typename_arg val s) (\<lambda>t s. goto_error cs pc (fluffyvm_set_errmsg_printf s
                  (bytes_of (''attempt to call non callable value of type '' @ quote) @ t
                   @ bytes_of quote)))
              else case val of
                VClosure closure \<Rightarrow>
                  run_callee exec co cs pc closure [argsStart..argsEnd] (B = 1) returnCount s
              | _ \<Rightarrow> Fault Aborted)))"

text \<open>\<open>RETURN\<close> does not look whether its pushes succeeded.\<close>

fun push_registers :: "addr \<Rightarrow> int list \<Rightarrow> vm \<Rightarrow> (unit, vm) res" where
  "push_registers cs [] s = Ok () s"
| "push_registers cs (i # is) s =
     rbind (getRegister cs i s) (\<lambda>v s. rbind (interpreter_push cs v s) (\<lambda>_ s.
       push_registers cs is s))"

definition op_return :: "addr \<Rightarrow> instruction \<Rightarrow> vm \<Rightarrow> (step_result, vm) res" where
  "op_return cs ins s =
     rbind (push_registers cs [ins_A ins..ins_A ins + ins_B ins - 1] s) (\<lambda>_ s.
       Ok (Return (ins_B ins)) s)"

definition op_mov :: "addr \<Rightarrow> int \<Rightarrow> instruction \<Rightarrow> vm \<Rightarrow> (step_result, vm) res" where
  "op_mov cs pc ins s =
     rbind (getRegister cs (ins_B ins) s) (\<lambda>v s. rbind (setRegister cs (ins_A ins) v s) (\<lambda>_ s.
       Ok (Continue pc) s))"

definition dispatch :: "ext \<Rightarrow> (vm \<Rightarrow> (int, vm) res) \<Rightarrow> addr \<Rightarrow> addr \<Rightarrow> u64 list \<Rightarrow> int \<Rightarrow>
    instruction \<Rightarrow> vm \<Rightarrow> (step_result, vm) res" where
  "dispatch ex exec co cs instructions pc ins s =
     (case opcode_of (ins_opcode ins) of
        OPCODE_MOV \<Rightarrow> op_mov cs pc ins s
      | OPCODE_ADD \<Rightarrow> op_arith (value_math_add ex) cs pc ins s
      | OPCODE_SUB \<Rightarrow> op_arith (value_math_sub ex) cs pc ins s
      | OPCODE_MUL \<Rightarrow> op_arith (value_math_mul ex) cs pc ins s
      | OPCODE_DIV \<Rightarrow> op_arith (value_math_div ex) cs pc ins s
      | OPCODE_MOD \<Rightarrow> op_arith (value_math_mod ex) cs pc ins s
      | OPCODE_POW \<Rightarrow> op_arith (value_math_pow ex) cs pc ins s
      | OPCODE_JMP_FORWARD \<Rightarrow> op_jmp_forward cs (int (length instructions)) pc ins s
      | OPCODE_CMP \<Rightarrow> op_cmp ex cs pc ins s
      | OPCODE_JMP_BACKWARD \<Rightarrow> op_jmp_backward cs pc ins s
      | OPCODE_LOAD_PROTOTYPE \<Rightarrow> op_load_prototype cs pc ins s
      | OPCODE_GET_CONSTANT \<Rightarrow> op_get_constant cs pc (instructions ! nat pc) ins s
      | OPCODE_STACK_GETTOP \<Rightarrow> op_stack_gettop cs pc ins s
      | OPCODE_STACK_POP \<Rightarrow> op_stack_pop cs pc ins s
      | OPCODE_TABLE_GET \<Rightarrow> op_table_get ex cs pc ins s
      | OPCODE_STACK_PUSH \<Rightarrow> op_stack_push cs pc ins s
      | OPCODE_CALL \<Rightarrow> op_call exec co cs pc ins s
      | OPCODE_TABLE_SET \<Rightarrow> op_table_set ex cs pc ins s
      | OPCODE_RETURN \<Rightarrow> op_return cs ins s
      | OPCODE_NOP \<Rightarrow> Ok (Continue pc) s
      | OPCODE_EXTRA \<Rightarrow> goto_illegal cs pc (instructions ! nat pc) ins s)"

text \<open>
  One round of the loop up to \<open>pc += incrementCount\<close>, which it includes. A skipped instruction
  jumps over the initialisation of \<open>incrementCount\<close>.
\<close>

definition exec_instruction :: "ext \<Rightarrow> (vm \<Rightarrow> (int, vm) res) \<Rightarrow> addr \<Rightarrow> addr \<Rightarrow> u64 list \<Rightarrow> int \<Rightarrow>
    vm \<Rightarrow> (step_result, vm) res" where
  "exec_instruction ex exec co cs instructions pc s =
     rbind (deref (cstates s) cs s) (\<lambda>st s.
       let w = instructions ! nat pc; ins = decode w in
       if skips ins (cs_flagRegister st) then Fault Indeterminate
       else if OPCODE_LAST \<le> ins_opcode ins \<or> ins_opcode ins = 9 then goto_illegal cs pc w ins s
       else
         let n = incrementCount (ins_opcode ins);
             run = (\<lambda>ins s. rbind (dispatch ex exec co cs instructions pc ins s) (\<lambda>r s.
               case r of
                 Continue pc' \<Rightarrow> Ok (Continue (pc' + n)) s
               | Return k \<Rightarrow> Ok (Return k) s))
         in if 1 < n then
              (case extras instructions pc (n - 1) of
                 None \<Rightarrow> Fault OutOfBounds
               | Some es \<Rightarrow>
                   (case with_extras ins es of
                      None \<Rightarrow> goto_illegal cs pc w ins s
                    | Some ins \<Rightarrow> run ins s))
            else run ins s)"

fun interpreter_exec :: "host \<Rightarrow> ext \<Rightarrow> nat \<Rightarrow> addr \<Rightarrow> vm \<Rightarrow> (int, vm) res"
and exec_loop :: "host \<Rightarrow> ext \<Rightarrow> nat \<Rightarrow> addr \<Rightarrow> addr \<Rightarrow> u64 list \<Rightarrow> int \<Rightarrow> vm \<Rightarrow> (int, vm) res" where
  "interpreter_exec host ex 0 co s = Fault OutOfFuel"
| "interpreter_exec host ex (Suc n) co s =
     rbind (current_frame co s) (\<lambda>(cs, st, cl) s.
       case cl_prototype cl of
         None \<Rightarrow>
           (case cl_func cl of
              None \<Rightarrow> Fault NullDeref
            | Some f \<Rightarrow> host f cs (cl_udata cl) s)
       | Some p \<Rightarrow> exec_loop host ex n co cs (p_instructions p) 0 s)"
| "exec_loop host ex 0 co cs instructions pc s = Fault OutOfFuel"
| "exec_loop host ex (Suc n) co cs instructions pc s =
     (if pc < int (length instructions) then
        rbind (exec_instruction ex (interpreter_exec host ex n co) co cs instructions pc s) (\<lambda>r s.
          case r of
            Continue pc' \<Rightarrow> rbind (set_pc cs pc' s) (\<lambda>_ s. exec_loop host ex n co cs instructions pc' s)
          | Return k \<Rightarrow> rbind (set_pc cs pc s) (\<lambda>_ s. Ok k s))
      else rbind (set_pc cs pc s) (\<lambda>_ s. Ok 0 s))"

subsection \<open>Calls from native code\<close>

definition interpreter_call :: "(addr \<Rightarrow> vm \<Rightarrow> (int, vm) res) \<Rightarrow> value \<Rightarrow> int \<Rightarrow> int \<Rightarrow> vm \<Rightarrow>
    (unit, vm) res" where
  "interpreter_call exec func nargs nret s =
     rbind (executing_coroutine s) (\<lambda>co s.
       case func of
         VClosure closure \<Rightarrow>
           rbind (current_frame co s) (\<lambda>(callerState, st, _) s.
             let argsStart = (if cs_sp st - nargs < 0 \<or> nargs = -1 then 0 else cs_sp st - nargs);
                 error = (\<lambda>s. interpreter_error (fluffyvm_get_errmsg s) s)
             in rbind (coroutine_function_prolog closure s) (\<lambda>r s.
               case r of
                 None \<Rightarrow> error s
               | Some _ \<Rightarrow>
                   rbind (current_frame co s) (\<lambda>(dest, st', _) s.
                     let argsEnd = (if nargs = -1 then cs_sp st' - 1 else argsStart + nargs - 1);
                         args = [argsStart..argsEnd]
                     in rbind (copy_args dest callerState args s) (\<lambda>ok s.
                       if \<not> ok then error s
                       else rbind (pop_args callerState (length args) s) (\<lambda>_ s.
                         rbind (exec co s) (\<lambda>actualRetCount s.
                         rbind (return_values co callerState (nret = -1) nret actualRetCount s) (\<lambda>ok s.
                           if \<not> ok then error s
                           else coroutine_function_epilog s)))))))
       | _ \<Rightarrow> Fault TypeConfusion)"

text \<open>
  Unwinding the call stack to the frame of the protected call: each round pops a frame, so the
  height of the call stack is enough fuel.
\<close>

fun unwind :: "nat \<Rightarrow> addr \<Rightarrow> addr option \<Rightarrow> vm \<Rightarrow> (unit, vm) res" where
  "unwind n co callerState s =
     rbind (deref (coros s) co s) (\<lambda>c s.
       if co_currentCallState c = callerState then Ok () s
       else case n of
         0 \<Rightarrow> rbind (coroutine_function_epilog_no_lock s) (\<lambda>_ s. Fault OutOfFuel)
       | Suc n \<Rightarrow> rbind (coroutine_function_epilog_no_lock s) (\<lambda>_ s. unwind n co callerState s))"

declare unwind.simps [simp del]

text \<open>
  The return of \<open>setjmp\<close> through \<open>longjmp\<close>. The handler still runs under the same jump buffer, so
  an error it throws comes back here; \<open>n\<close> bounds how often.
\<close>

fun xpcall_handler :: "nat \<Rightarrow> (vm \<Rightarrow> (unit, vm) res) option \<Rightarrow> vm \<Rightarrow> (unit, vm) res" where
  "xpcall_handler n None s = Ok () s"
| "xpcall_handler n (Some handler) s =
     (case handler s of
        Throw t \<Rightarrow> (case n of 0 \<Rightarrow> Fault OutOfFuel | Suc n \<Rightarrow> xpcall_handler n (Some handler) t)
      | r \<Rightarrow> r)"

declare xpcall_handler.simps(2) [simp del]

definition interpreter_xpcall :: "nat \<Rightarrow> (vm \<Rightarrow> (unit, vm) res) \<Rightarrow> (vm \<Rightarrow> (unit, vm) res) option \<Rightarrow>
    vm \<Rightarrow> (bool, vm) res" where
  "interpreter_xpcall n thingToExecute handler s =
     rbind (executing_coroutine s) (\<lambda>co s. rbind (deref (coros s) co s) (\<lambda>c s.
       let prevErrorHandler = co_errorHandler c;
           callerState = co_currentCallState c;
           env = (case prevErrorHandler of None \<Rightarrow> 0 | Some d \<Rightarrow> Suc d);
           restore = modify_coro co (\<lambda>c. c\<lparr>co_errorHandler := prevErrorHandler\<rparr>)
       in rbind (modify_coro co (\<lambda>c. c\<lparr>co_errorHandler := Some env\<rparr>) s) (\<lambda>_ s.
         case thingToExecute s of
           Ok _ s \<Rightarrow> rbind (restore s) (\<lambda>_ s. Ok True s)
         | Throw s \<Rightarrow>
             rbind (xpcall_handler n handler s) (\<lambda>_ s.
             rbind (lock_callStack co s) (\<lambda>_ s. rbind (deref (coros s) co s) (\<lambda>c s.
             rbind (unwind (nat (stk_sp (co_callStack c))) co callerState s) (\<lambda>_ s.
             rbind (unlock_callStack co s) (\<lambda>_ s.
             rbind (restore s) (\<lambda>_ s. Ok False s))))))
         | Fault e \<Rightarrow> Fault e)))"

subsection \<open>More fuel, the same result\<close>

definition less_fuel :: "('a, 's) res \<Rightarrow> ('a, 's) res \<Rightarrow> bool" where
  "less_fuel r r' \<longleftrightarrow> r = Fault OutOfFuel \<or> r = r'"

lemma less_fuel_refl [simp, intro]: "less_fuel r r"
  by (simp add: less_fuel_def)

lemma less_fuel_out [simp]: "less_fuel (Fault OutOfFuel) r"
  by (simp add: less_fuel_def)

lemma less_fuel_rbind:
  assumes "less_fuel m m'" and "\<And>x s. less_fuel (f x s) (g x s)"
  shows "less_fuel (rbind m f) (rbind m' g)"
proof (cases "m = m'")
  case True
  then show ?thesis using assms(2) by (cases m') simp_all
qed (use assms(1) in \<open>auto simp: less_fuel_def\<close>)

lemma run_callee_fuel:
  assumes "\<And>s. less_fuel (exec s) (exec' s)"
  shows "less_fuel (run_callee exec co cs pc cl args va n s) (run_callee exec' co cs pc cl args va n s)"
  unfolding run_callee_def Let_def
  by (auto intro!: less_fuel_rbind assms split: option.split)

lemma op_call_fuel:
  assumes "\<And>s. less_fuel (exec s) (exec' s)"
  shows "less_fuel (op_call exec co cs pc ins s) (op_call exec' co cs pc ins s)"
  unfolding op_call_def Let_def
  by (auto intro!: less_fuel_rbind run_callee_fuel assms split: "value.split")

lemma dispatch_fuel:
  assumes "\<And>s. less_fuel (exec s) (exec' s)"
  shows "less_fuel (dispatch ex exec co cs is pc ins s) (dispatch ex exec' co cs is pc ins s)"
  unfolding dispatch_def
  by (cases "opcode_of (ins_opcode ins)") (simp_all add: op_call_fuel assms)

lemma exec_instruction_fuel:
  assumes "\<And>s. less_fuel (exec s) (exec' s)"
  shows "less_fuel (exec_instruction ex exec co cs is pc s) (exec_instruction ex exec' co cs is pc s)"
  unfolding exec_instruction_def Let_def
  by (auto intro!: less_fuel_rbind dispatch_fuel assms split: option.split)

lemma exec_Suc_fuel:
  "less_fuel (interpreter_exec host ex n co s) (interpreter_exec host ex (Suc n) co s)"
  "less_fuel (exec_loop host ex n co' cs is pc s') (exec_loop host ex (Suc n) co' cs is pc s')"
proof (induction n arbitrary: co s co' cs "is" pc s')
  case 0
  {
    case 1
    then show ?case by simp
  next
    case 2
    then show ?case by simp
  }
next
  case (Suc n)
  {
    case 1
    show ?case
      unfolding interpreter_exec.simps(2)[of host ex "Suc n"] interpreter_exec.simps(2)[of host ex n]
      by (auto simp del: exec_loop.simps intro!: less_fuel_rbind Suc.IH(2) split: option.split)
  next
    case 2
    show ?case
      by (subst (1 2) exec_loop.simps(2)) (auto simp del: exec_loop.simps interpreter_exec.simps
          intro!: less_fuel_rbind exec_instruction_fuel Suc.IH split: step_result.split)
  }
qed

text \<open>
  More fuel never changes what the interpreter does: a run that ended, whether by returning, by
  throwing or by a fault, ends in the same way with any larger amount.
\<close>

theorem exec_more_fuel:
  assumes "interpreter_exec host ex n co s \<noteq> Fault OutOfFuel" and "n \<le> m"
  shows "interpreter_exec host ex m co s = interpreter_exec host ex n co s"
  using assms(2)
proof (induction m rule: dec_induct)
  case (step m)
  then show ?case
    using exec_Suc_fuel(1)[of host ex m co s] assms(1) by (simp add: less_fuel_def)
qed simp

subsection \<open>Instruction words\<close>

definition encode :: "nat \<Rightarrow> nat \<Rightarrow> nat \<Rightarrow> nat \<Rightarrow> nat \<Rightarrow> u64" where
  "encode opcode cond a b c = push_bit 56 (word_of_nat opcode) OR push_bit 48 (word_of_nat cond)
     OR push_bit 32 (word_of_nat a) OR push_bit 16 (word_of_nat b) OR word_of_nat c"

lemma masks: "(0xFF :: u64) = mask 8" "(0xFFFF :: u64) = mask 16"
  by (simp_all add: mask_eq_exp_minus_1)

lemma bit_small_nat:
  assumes n: "(n :: nat) < 2 ^ k" and b: "bit n i"
  shows "i < k"
proof (rule ccontr)
  assume "\<not> i < k"
  then have "(2 :: nat) ^ k \<le> 2 ^ i" by (simp add: power_increasing)
  with n have "n < 2 ^ i" by (rule order_less_le_trans)
  then have "n div 2 ^ i = 0" by simp
  then show False using b by (simp add: bit_iff_odd)
qed

lemma encode_fields:
  assumes "opcode < 2 ^ 8" and "cond < 2 ^ 8" and "a < 2 ^ 16" and "b < 2 ^ 16" and "c < 2 ^ 16"
  shows "drop_bit 56 (encode opcode cond a b c) AND 0xFF = word_of_nat opcode"
    and "drop_bit 48 (encode opcode cond a b c) AND 0xFF = word_of_nat cond"
    and "drop_bit 32 (encode opcode cond a b c) AND 0xFFFF = word_of_nat a"
    and "drop_bit 16 (encode opcode cond a b c) AND 0xFFFF = word_of_nat b"
    and "encode opcode cond a b c AND 0xFFFF = word_of_nat c"
  unfolding masks encode_def
  by (rule bit_word_eqI;
      auto simp: bit_simps 
        dest: bit_small_nat[OF assms(1)] bit_small_nat[OF assms(2)] bit_small_nat[OF assms(3)]
        bit_small_nat[OF assms(4)] bit_small_nat[OF assms(5)])+

lemma encode_decode_bits:
  "push_bit 56 (drop_bit 56 w AND 0xFF) OR push_bit 48 (drop_bit 48 w AND 0xFF)
     OR push_bit 32 (drop_bit 32 w AND 0xFFFF) OR push_bit 16 (drop_bit 16 w AND 0xFFFF)
     OR (w AND 0xFFFF) = (w :: u64)"
  unfolding masks
proof (rule bit_word_eqI, goal_cases)
  case (1 i)
  consider "i < 16" | "16 \<le> i \<and> i < 32" | "32 \<le> i \<and> i < 48" | "48 \<le> i \<and> i < 56" | "56 \<le> i"
    by linarith
  then show ?case using 1 by cases (simp_all add: bit_simps less_diff_conv2)
qed

lemma ucast_small: "word_of_nat (unat (ucast (w AND 0xFF :: u64) :: 32 word)) = w AND 0xFF"
  unfolding masks by (rule bit_word_eqI) (auto simp: bit_simps)

lemma decode_of_encode:
  assumes "opcode < 2 ^ 8" and "cond < 2 ^ 8" and "a < 2 ^ 16" and "b < 2 ^ 16" and "c < 2 ^ 16"
  shows "decode (encode opcode cond a b c) =
     \<lparr>ins_opcode = opcode, ins_condFlags = word_of_nat cond, ins_A = int a, ins_B = int b,
      ins_C = int c, ins_D = 0, ins_E = 0, ins_F = 0, ins_G = 0, ins_H = 0, ins_I = 0\<rparr>"
proof -
  have u: "unat (word_of_nat n :: u64) = n" if "n < 2 ^ 16" for n
    using that by (intro unat_size) (simp add: order_less_trans)
  have n: "opcode < 2 ^ 16" "cond < 2 ^ 16" using assms(1,2) by simp_all
  have "ucast (word_of_nat cond :: u64) = (word_of_nat cond :: 32 word)"
    by (rule bit_word_eqI) (auto simp: bit_simps)
  then show ?thesis
    using u[OF n(1)] u[OF assms(3)] u[OF assms(4)] u[OF assms(5)]
    by (simp only: decode_def encode_fields[OF assms] uint_nat)
qed

lemma encode_of_decode:
  "encode (ins_opcode (decode w)) (unat (ins_condFlags (decode w))) (nat (ins_A (decode w)))
     (nat (ins_B (decode w))) (nat (ins_C (decode w))) = w"
proof -
  have h: "word_of_nat (nat (uint x)) = x" "word_of_nat (unat x) = x" for x :: u64 by simp_all
  show ?thesis
    by (simp only: encode_def decode_def instruction.select_convs h ucast_small encode_decode_bits)
qed

text \<open>
  Decoding reads an instruction word as eight bits of opcode, eight bits of condition and three
  16-bit fields, from the top down: it is inverse to that layout on both sides, so no bit of a word
  is ignored and none is read twice.
\<close>

theorem decode_encode:
  assumes "opcode < 2 ^ 8" and "cond < 2 ^ 8" and "a < 2 ^ 16" and "b < 2 ^ 16" and "c < 2 ^ 16"
  shows "decode (encode opcode cond a b c) =
     \<lparr>ins_opcode = opcode, ins_condFlags = word_of_nat cond, ins_A = int a, ins_B = int b,
      ins_C = int c, ins_D = 0, ins_E = 0, ins_F = 0, ins_G = 0, ins_H = 0, ins_I = 0\<rparr> \<and>
     encode (ins_opcode (decode w)) (unat (ins_condFlags (decode w))) (nat (ins_A (decode w)))
       (nat (ins_B (decode w))) (nat (ins_C (decode w))) = w"
  using decode_of_encode[OF assms] encode_of_decode by blast

theorem decode_encode_witness:
  "decode (encode 0x0C 0 1 2 3) =
     \<lparr>ins_opcode = 0x0C, ins_condFlags = word_of_nat 0, ins_A = int 1, ins_B = int 2,
      ins_C = int 3, ins_D = 0, ins_E = 0, ins_F = 0, ins_G = 0, ins_H = 0, ins_I = 0\<rparr> \<and>
     encode (ins_opcode (decode 7)) (unat (ins_condFlags (decode 7))) (nat (ins_A (decode 7)))
       (nat (ins_B (decode 7))) (nat (ins_C (decode 7))) = 7"
  by (rule decode_encode) simp_all

text \<open>
  Conditional execution: the mask is the low half of the condition byte and the high half is
  ignored, so an instruction is skipped exactly when its low half is not zero and none of the flags
  it names is set. Skipping jumps past the initialisation of the increment, which is undefined.
\<close>

theorem conditional_skip:
  "(skips ins flags \<longleftrightarrow> ins_condFlags ins AND 0xF \<noteq> 0 \<and> flags AND (ins_condFlags ins AND 0xF) = 0) \<and>
   (cstates s cs = Some st \<longrightarrow> skips (decode (instructions ! nat pc)) (cs_flagRegister st) \<longrightarrow>
      exec_instruction ex exec co cs instructions pc s = Fault Indeterminate)"
proof
  let ?c = "ins_condFlags ins" and ?m = "ins_condFlags ins AND 0xF"
  have "NOT ((flags AND ?m) XOR (?c AND ?m)) AND ?m = flags AND ?m"
    by (rule bit_word_eqI) (auto simp: bit_simps)
  then show "skips ins flags \<longleftrightarrow> ?m \<noteq> 0 \<and> flags AND ?m = 0"
    by (auto simp: skips_def condFlagsMask_def Let_def)
qed (simp add: exec_instruction_def)

subsection \<open>The general stack of a frame\<close>

text \<open>The values from the bottom to the top; every cell above is cleared.\<close>

definition gs_items :: "call_state \<Rightarrow> value list" where
  "gs_items st = take (nat (cs_sp st)) (cs_generalStack st)"

definition frame_ok :: "call_state \<Rightarrow> bool" where
  "frame_ok st \<longleftrightarrow> 0 \<le> cs_sp st \<and> cs_sp st \<le> FLUFFYVM_GENERAL_STACK_SIZE \<and>
     VNotPresent \<notin> set (gs_items st) \<and>
     length (cs_generalStack st) = nat FLUFFYVM_GENERAL_STACK_SIZE \<and>
     cs_generalStack st = gs_items st
       @ replicate (nat FLUFFYVM_GENERAL_STACK_SIZE - nat (cs_sp st)) VNotPresent"

definition with_frame :: "vm \<Rightarrow> addr \<Rightarrow> call_state \<Rightarrow> vm" where
  "with_frame s cs st = s\<lparr>cstates := (cstates s)(cs \<mapsto> st)\<rparr>"

lemma with_frame_simps [simp]:
  "cstates (with_frame s cs st) = (cstates s)(cs \<mapsto> st)"
  "coros (with_frame s cs st) = coros s" "closures (with_frame s cs st) = closures s"
  "coroutinesStack (with_frame s cs st) = coroutinesStack s" "errMsg (with_frame s cs st) = errMsg s"
  "mem (with_frame s cs st) = mem s" "brk (with_frame s cs st) = brk s"
  "with_frame (with_frame s cs st) cs st' = with_frame s cs st'"
  by (simp_all add: with_frame_def)

lemma with_frame_same [simp]: "cstates s cs = Some st \<Longrightarrow> with_frame s cs st = s"
  by (cases s) (auto simp: with_frame_def fun_upd_idem)

lemma modify_cstate_Some [simp]:
  "cstates s cs = Some st \<Longrightarrow> modify_cstate cs f s = Ok () (with_frame s cs (f st))"
  by (simp add: modify_cstate_def with_frame_def)

definition with_stack :: "call_state \<Rightarrow> value list \<Rightarrow> call_state" where
  "with_stack st xs = st\<lparr>cs_sp := int (length xs),
     cs_generalStack := xs @ replicate (nat FLUFFYVM_GENERAL_STACK_SIZE - length xs) VNotPresent\<rparr>"

lemma stack_fields_commute:
  "st\<lparr>cs_generalStack := g, cs_sp := n\<rparr> = st\<lparr>cs_sp := n, cs_generalStack := g\<rparr>"
  by (cases st) simp

lemma with_stack_simps [simp]:
  "with_stack (with_stack st xs) ys = with_stack st ys"
  "cs_sp (with_stack st xs) = int (length xs)" "gs_items (with_stack st xs) = xs"
  "cs_closure (with_stack st xs) = cs_closure st" "cs_registers (with_stack st xs) = cs_registers st"
  "cs_owner (with_stack st xs) = cs_owner st"
  by (simp_all add: with_stack_def gs_items_def)

lemma frame_ok_with_stack:
  "length xs \<le> 256 \<Longrightarrow> VNotPresent \<notin> set xs \<Longrightarrow> frame_ok (with_stack st xs)"
  by (simp add: frame_ok_def config_defs) (simp add: with_stack_def config_defs)

lemma frame_okD:
  assumes "frame_ok st"
  shows "cs_sp st = int (length (gs_items st))" "length (gs_items st) \<le> 256"
    "VNotPresent \<notin> set (gs_items st)" "with_stack st (gs_items st) = st"
proof -
  have "nat (cs_sp st) \<le> 256" "length (cs_generalStack st) = 256"
    using assms by (auto simp add: frame_ok_def config_defs)
  then have l: "length (gs_items st) = nat (cs_sp st)" by (simp add: gs_items_def)
  then show "cs_sp st = int (length (gs_items st))" "length (gs_items st) \<le> 256"
    "VNotPresent \<notin> set (gs_items st)"
    using assms by (auto simp: frame_ok_def config_defs)
  then show "with_stack st (gs_items st) = st"
    using assms l by (simp add: frame_ok_def with_stack_def call_state.equality)
qed

lemma stack_cell_item:
  assumes "cstates s cs = Some st" and "frame_ok st" and "i < length (gs_items st)"
  shows "stack_cell cs (int i) s = Ok (gs_items st ! i) s"
proof -
  have "cs_generalStack st = gs_items st @ replicate (256 - length (gs_items st)) VNotPresent"
    using frame_okD(1)[OF assms(2)] assms(2) by (simp add: frame_ok_def config_defs)
  then have "cs_generalStack st ! i = gs_items st ! i" "i < length (cs_generalStack st)"
    using assms(3) by (simp_all add: nth_append)
  then show ?thesis using assms(1) by (simp add: stack_cell_def)
qed

lemma interpreter_push_room:
  assumes a: "cstates s cs = Some st" and ok: "frame_ok st" and n: "length (gs_items st) < 256"
    and v: "v \<noteq> VNotPresent"
  shows "interpreter_push cs v s = Ok True (with_frame s cs (with_stack st (gs_items st @ [v])))"
proof -
  note d = frame_okD[OF ok]
  have g: "cs_generalStack st = gs_items st @ replicate (256 - length (gs_items st)) VNotPresent"
    using d(1) ok by (simp add: frame_ok_def config_defs)
  have "256 - length (gs_items st) = Suc (255 - length (gs_items st))" using n by simp
  then have "(cs_generalStack st)[nat (cs_sp st) := v] =
      (gs_items st @ [v]) @ replicate (256 - length (gs_items st @ [v])) VNotPresent"
    by (simp add: g d(1) list_update_append)
  moreover have "stack_cell cs (cs_sp st) s = Ok VNotPresent s"
    using a n d(1) by (simp add: stack_cell_def g nth_append)
  ultimately show ?thesis
    using a n v d(1)
    by (simp add: interpreter_push_def with_stack_def config_defs add.commute
        stack_fields_commute)
qed

lemma interpreter_push_full:
  "cstates s cs = Some st \<Longrightarrow> frame_ok st \<Longrightarrow> length (gs_items st) = 256 \<Longrightarrow>
     interpreter_push cs v s = Ok False (set_static_errmsg s SS_stackOverflow)"
  using frame_okD(1)[of st] by (simp add: interpreter_push_def config_defs)

lemma interpreter_pop_top:
  assumes a: "cstates s cs = Some st" and ok: "frame_ok st" and i: "gs_items st = xs @ [x]"
  shows "interpreter_pop cs s = Ok (Some x) (with_frame s cs (with_stack st xs))"
proof -
  note d = frame_okD[OF ok, unfolded i]
  have g: "cs_generalStack st = (xs @ [x]) @ replicate (256 - length (xs @ [x])) VNotPresent"
    using d(1) ok i by (simp add: frame_ok_def config_defs)
  have c: "stack_cell cs (int (length xs)) s = Ok x s"
    using stack_cell_item[OF a ok, of "length xs"] i by simp
  have "256 - length xs = Suc (256 - Suc (length xs))" using d(2) by simp
  then have "(cs_generalStack st)[length xs := VNotPresent] =
      xs @ replicate (256 - length xs) VNotPresent"
    by (simp add: g list_update_append)
  then show ?thesis
    using a c d(1) not_sym[of x VNotPresent] d(3)
    by (auto simp: interpreter_pop_def with_stack_def config_defs Let_def
        stack_fields_commute)
qed

lemma interpreter_pop_empty:
  "cstates s cs = Some st \<Longrightarrow> frame_ok st \<Longrightarrow> gs_items st = [] \<Longrightarrow>
     interpreter_pop cs s = Ok None (set_static_errmsg s SS_stackUnderflow)"
  using frame_okD(1)[of st] by (simp add: interpreter_pop_def)

text \<open>The general stack keeps the contract of a bounded stack.\<close>

definition gs_inv :: "addr \<Rightarrow> vm \<Rightarrow> bool" where
  "gs_inv cs s \<longleftrightarrow> (\<exists>st. cstates s cs = Some st \<and> frame_ok st)"

definition gs_at :: "addr \<Rightarrow> vm \<Rightarrow> value list" where
  "gs_at cs s = (case cstates s cs of None \<Rightarrow> [] | Some st \<Rightarrow> gs_items st)"

definition gs_push :: "addr \<Rightarrow> value \<Rightarrow> vm \<Rightarrow> vm option" where
  "gs_push cs v s = (case interpreter_push cs v s of Ok True t \<Rightarrow> Some t | _ \<Rightarrow> None)"

definition gs_pop :: "addr \<Rightarrow> vm \<Rightarrow> (value \<times> vm) option" where
  "gs_pop cs s = (case interpreter_pop cs s of Ok (Some v) t \<Rightarrow> Some (v, t) | _ \<Rightarrow> None)"

interpretation gst: bounded_stack "gs_inv cs" "gs_at cs" "\<lambda>_. 256" "\<lambda>v. v \<noteq> VNotPresent"
    "gs_push cs" "gs_pop cs" for cs :: addr
proof (unfold_locales, goal_cases)
  case (1 s)
  then show ?case using frame_okD(2) by (auto simp: gs_inv_def gs_at_def)
next
  case (2 s v)
  then obtain st where st: "cstates s cs = Some st" "frame_ok st" "length (gs_items st) < 256"
    by (auto simp: gs_inv_def gs_at_def)
  have "frame_ok (with_stack st (gs_items st @ [v]))"
    using frame_okD(3)[OF st(2)] st(3) 2(2) by (intro frame_ok_with_stack) auto
  then show ?case
    using interpreter_push_room[OF st 2(2)] st(1) by (simp add: gs_push_def gs_inv_def gs_at_def)
next
  case (3 s v)
  then show ?case using interpreter_push_full by (auto simp: gs_push_def gs_inv_def gs_at_def)
next
  case (4 s xs x)
  then obtain st where st: "cstates s cs = Some st" "frame_ok st" "gs_items st = xs @ [x]"
    by (auto simp: gs_inv_def gs_at_def)
  have "frame_ok (with_stack st xs)"
    using frame_okD(2,3)[OF st(2)] st(3) by (intro frame_ok_with_stack) auto
  then show ?case
    using interpreter_pop_top[OF st] st(1) by (simp add: gs_pop_def gs_inv_def gs_at_def)
next
  case (5 s)
  then show ?case using interpreter_pop_empty by (auto simp: gs_pop_def gs_inv_def gs_at_def)
qed

text \<open>
  Pushing values that are present on the general stack of a frame succeeds exactly while it
  does not exceed 256 entries, and popping as often gives them back in reverse order and leaves the
  stack as it was.
\<close>

theorem general_stack_lifo:
  assumes "cstates s cs = Some st" and "frame_ok st" and "VNotPresent \<notin> set xs"
  shows "((\<exists>t. push_all (gs_push cs) xs s = Some t) \<longleftrightarrow> length (gs_items st) + length xs \<le> 256) \<and>
    (\<forall>t. push_all (gs_push cs) xs s = Some t \<longrightarrow>
      (\<exists>u. pop_n (gs_pop cs) (length xs) t = Some (rev xs, u) \<and> gs_at cs u = gs_items st))"
proof -
  have i: "gs_inv cs s" "\<forall>x \<in> set xs. x \<noteq> VNotPresent" "gs_at cs s = gs_items st"
    using assms by (auto simp: gs_inv_def gs_at_def)
  then show ?thesis
    using gst.push_all_iff[OF i(1,2)] gst.push_pop_reverse[OF i(1,2)] by simp
qed

subsection \<open>Concrete cases\<close>

text \<open>
  The machine of the coroutine cases with one frame, at 7, whose general stack holds \<open>xs\<close>, of a
  function with the instructions \<open>ws\<close>.
\<close>

definition lua_closure :: "u64 list \<Rightarrow> closure" where
  "lua_closure ws = plain_closure\<lparr>cl_prototype := Some (Prototype 0 ws [] [] VNil)\<rparr>"

definition vm_frame :: "u64 list \<Rightarrow> value list \<Rightarrow> vm" where
  "vm_frame ws xs = (vm_running [7] FIBER_RUNNING)
     \<lparr>cstates := [7 \<mapsto> with_stack (new_call_state 50 100 False) xs], closures := [50 \<mapsto> lua_closure ws]\<rparr>"

lemma vm_frame_simps [simp]:
  "coros (vm_frame ws xs) = [100 \<mapsto> coroutine_of [7] FIBER_RUNNING]"
  "cstates (vm_frame ws xs) = [7 \<mapsto> with_stack (new_call_state 50 100 False) xs]"
  "closures (vm_frame ws xs) = [50 \<mapsto> lua_closure ws]"
  "coroutinesStack (vm_frame ws xs) = stack_of FLUFFYVM_MAX_COROUTINE_NEST [100]"
  "always_mem (vm_frame ws xs)" "brk (vm_frame ws xs) = 0" "mem (vm_frame ws xs) n"
  by (simp_all add: vm_frame_def vm_running_def always_mem_def blank_vm_def)

lemma vm_frame_current:
  "current_frame 100 (vm_frame ws xs) =
     Ok (7, with_stack (new_call_state 50 100 False) xs, lua_closure ws) (vm_frame ws xs)"
  by (simp add: current_frame_def coroutine_of_def new_call_state_def)

theorem exec_more_fuel_witness:
  "interpreter_exec (\<lambda>f cs u s. Ok 0 s) sample_ext 9 100 (vm_frame [] []) =
     interpreter_exec (\<lambda>f cs u s. Ok 0 s) sample_ext 2 100 (vm_frame [] [])"
proof (rule exec_more_fuel)
  show "interpreter_exec (\<lambda>f cs u s. Ok 0 s) sample_ext 2 100 (vm_frame [] []) \<noteq> Fault OutOfFuel"
    by (simp add: numeral_2_eq_2 vm_frame_current lua_closure_def set_pc_def)
qed simp

theorem conditional_skip_witness:
  "exec_instruction sample_ext (Ok 0) 100 7 [encode 0 1 0 0 0] 0 (vm_frame [] []) = Fault Indeterminate"
proof -
  have "ins_condFlags (decode (encode 0 1 0 0 0)) = 1" by (simp add: decode_of_encode)
  then show ?thesis
    using conditional_skip[of "decode (encode 0 1 0 0 0)" 0 "vm_frame [] []" 7
        "with_stack (new_call_state 50 100 False) []" "[encode 0 1 0 0 0]" 0 sample_ext "Ok 0" 100]
    by (simp add: with_stack_def new_call_state_def)
qed

theorem general_stack_lifo_witness:
  "\<exists>t u. push_all (gs_push 7) [VNil, VBool True] (vm_frame [] [VLong 1]) = Some t \<and>
     pop_n (gs_pop 7) 2 t = Some ([VBool True, VNil], u) \<and> gs_at 7 u = [VLong 1]"
  using general_stack_lifo[of "vm_frame [] [VLong 1]" 7 "with_stack (new_call_state 50 100 False) [VLong 1]"
      "[VNil, VBool True]"] frame_ok_with_stack[of "[VLong 1]" "new_call_state 50 100 False"]
  by (auto simp: numeral_2_eq_2)

end
