(* ===== verification/Calls.thy ===== *)
theory Calls
  imports Interpreter
begin

text \<open>
  The contracts of the interpreter: registers, the bounds of the program counter, how a call moves
  arguments and results between the general stacks of two frames, and how a protected call unwinds
  the call stack.
\<close>

subsection \<open>Registers\<close>

definition regs_ok :: "call_state \<Rightarrow> bool" where
  "regs_ok st \<longleftrightarrow> (\<exists>rs. cs_registers st = Some rs \<and> length rs = nat FLUFFYVM_REGISTERS_NUM)"

lemma regs_ok_new [simp]: "regs_ok (new_call_state func co False)"
  by (simp add: regs_ok_def new_call_state_def)

lemma setRegister_plain:
  assumes "cstates s cs = Some st" and "cs_registers st = Some rs" and "v \<noteq> VNotPresent"
    and "0 \<le> i" and "i < FLUFFYVM_REGISTERS_NUM"
  shows "setRegister cs i v s = Ok () (with_frame s cs (st\<lparr>cs_registers := Some (rs[nat i := v])\<rparr>))"
  using assms by (simp add: setRegister_def register_defs config_defs)

text \<open>
  Registers: writing a present value to one of the 256 general registers succeeds; reading it
  gives the value back, every other general register keeps its value, and the three special
  registers still read as nil, the environment and the running function. A write to register
  0xFF00 is ignored, and any other index fails the assertion.
\<close>

theorem register_set_get:
  assumes "cstates s cs = Some st" and "regs_ok st" and "closures s (cs_closure st) = Some cl"
    and "v \<noteq> VNotPresent" and "0 \<le> i"
  shows "setRegister cs i v s =
     (if i < FLUFFYVM_REGISTERS_NUM then
        Ok () (with_frame s cs (st\<lparr>cs_registers := map_option (\<lambda>rs. rs[nat i := v]) (cs_registers st)\<rparr>))
      else if i = FLUFFYVM_INTERPRETER_RESERVED_START then Ok () s else Fault AssertFailed) \<and>
    (\<forall>t. i < FLUFFYVM_REGISTERS_NUM \<and> setRegister cs i v s = Ok () t \<longrightarrow>
       getRegister cs i t = Ok v t \<and>
       (\<forall>j w. j \<noteq> i \<and> getRegister cs j s = Ok w s \<longrightarrow> getRegister cs j t = Ok w t) \<and>
       getRegister cs FLUFFYVM_INTERPRETER_REGISTER_ALWAYS_NIL t = Ok VNil t \<and>
       getRegister cs FLUFFYVM_INTERPRETER_REGISTER_ENV t = Ok (cl_env cl) t \<and>
       getRegister cs FLUFFYVM_INTERPRETER_REGISTER_CURRENT t = Ok (cl_asValue cl) t)"
proof (cases "i < FLUFFYVM_REGISTERS_NUM")
  case True
  obtain rs where rs: "cs_registers st = Some rs" "length rs = 256"
    using assms(2) by (auto simp: regs_ok_def config_defs)
  let ?t = "with_frame s cs (st\<lparr>cs_registers := Some (rs[nat i := v])\<rparr>)"
  have set: "setRegister cs i v s = Ok () ?t"
    by (rule setRegister_plain[OF assms(1) rs(1) assms(4,5) True])
  have "getRegister cs i ?t = Ok v ?t"
    using rs assms True by (simp add: getRegister_def register_defs config_defs)
  moreover have "getRegister cs j ?t = Ok w ?t" if "j \<noteq> i" "getRegister cs j s = Ok w s" for j w
    using that rs assms True
    by (auto simp: getRegister_def register_defs config_defs assert_that_def nth_list_update
        split: if_splits)
  ultimately show ?thesis
    using set rs assms True by (simp add: getRegister_def register_defs)
next
  case False
  then show ?thesis
    using assms by (simp add: setRegister_def register_defs config_defs assert_that_def)
qed

theorem register_set_get_witness:
  "\<exists>t. setRegister 7 5 (VBool True) (vm_frame [] []) = Ok () t \<and> getRegister 7 5 t = Ok (VBool True) t"
proof -
  have ok: "regs_ok (with_stack (new_call_state 50 100 False) [])"
    by (simp add: regs_ok_def) (simp add: new_call_state_def)
  have cl: "closures (vm_frame [] []) (cs_closure (with_stack (new_call_state 50 100 False) [])) =
      Some (lua_closure [])"
    by simp (simp add: new_call_state_def)
  show ?thesis
    using register_set_get[OF _ ok cl, of 7 "VBool True" 5] by (simp add: config_defs)
qed

subsection \<open>The program counter\<close>

lemma incrementCount_one: "n < OPCODE_LAST \<Longrightarrow> incrementCount n = 1"
proof -
  have "list_all (\<lambda>n. incrementCount n = 1) [0..<21]" by code_simp
  then show "n < OPCODE_LAST \<Longrightarrow> incrementCount n = 1"
    by (simp add: OPCODE_LAST_def list_all_iff)
qed

text \<open>What a result satisfies if it is a return.\<close>

definition gives :: "('a \<Rightarrow> bool) \<Rightarrow> ('a, 's) res \<Rightarrow> bool" where
  "gives P m \<longleftrightarrow> (\<forall>x s. m = Ok x s \<longrightarrow> P x)"

lemma gives_simps [simp]:
  "gives P (Ok x s) = P x" "gives P (Throw s)" "gives P (Fault e)"
  by (simp_all add: gives_def)

lemma gives_rbind: "(\<And>x s. gives P (f x s)) \<Longrightarrow> gives P (rbind m f)"
  by (cases m) simp_all

lemma gives_after: "gives Q m \<Longrightarrow> (\<And>x s. Q x \<Longrightarrow> gives P (f x s)) \<Longrightarrow> gives P (rbind m f)"
  by (cases m) simp_all

lemma gives_errors [simp]:
  "gives P (goto_error cs pc s)" "gives P (goto_illegal cs pc w ins s)"
  "gives P (interpreter_error v s)"
  unfolding goto_illegal_def goto_error_def interpreter_error_def
  by (rule gives_rbind | simp)+

abbreviation stays :: "int \<Rightarrow> step_result \<Rightarrow> bool" where
  "stays pc r \<equiv> (case r of Continue pc' \<Rightarrow> pc' = pc | Return k \<Rightarrow> True)"

lemma plain_steps:
  "gives (stays pc) (op_mov cs pc ins s)"
  "gives (stays pc) (op_arith f cs pc ins s)"
  "gives (stays pc) (op_cmp ex cs pc ins s)"
  "gives (stays pc) (op_load_prototype cs pc ins s)"
  "gives (stays pc) (op_get_constant cs pc w ins s)"
  "gives (stays pc) (op_stack_gettop cs pc ins s)"
  "gives (stays pc) (op_stack_pop cs pc ins s)"
  "gives (stays pc) (op_stack_push cs pc ins s)"
  "gives (stays pc) (op_table_get ex cs pc ins s)"
  "gives (stays pc) (op_table_set ex cs pc ins s)"
  "gives (stays pc) (op_return cs ins s)"
  unfolding op_mov_def op_arith_def op_cmp_def op_load_prototype_def op_get_constant_def
    op_stack_gettop_def op_stack_pop_def op_stack_push_def op_table_get_def op_table_set_def
    op_return_def
  by (auto intro!: gives_rbind split: option.split)

lemma run_callee_step: "gives (stays pc) (run_callee exec co cs pc cl args va n s)"
  unfolding run_callee_def Let_def by (auto intro!: gives_rbind split: option.split)

lemma op_call_step: "gives (stays pc) (op_call exec co cs pc ins s)"
  unfolding op_call_def Let_def
  by (auto intro!: gives_rbind run_callee_step split: "value.split")

text \<open>Where an instruction at \<open>pc\<close> of \<open>len\<close> may lead, before the increment.\<close>

definition target_ok :: "int \<Rightarrow> step_result \<Rightarrow> bool" where
  "target_ok len r = (case r of Continue pc' \<Rightarrow> 0 \<le> pc' \<and> pc' < len | Return k \<Rightarrow> True)"

lemma stays_target: "0 \<le> pc \<Longrightarrow> pc < len \<Longrightarrow> gives (stays pc) m \<Longrightarrow> gives (target_ok len) m"
  by (auto simp: gives_def target_ok_def split: step_result.splits)

lemma jump_steps:
  "0 \<le> ins_A ins \<Longrightarrow> 0 \<le> pc \<Longrightarrow> gives (target_ok len) (op_jmp_forward cs len pc ins s)"
  "0 \<le> ins_A ins \<Longrightarrow> pc < len \<Longrightarrow> gives (target_ok len) (op_jmp_backward cs pc ins s)"
  by (auto simp: op_jmp_forward_def op_jmp_backward_def target_ok_def)

lemma dispatch_target:
  assumes "0 \<le> ins_A ins" and "0 \<le> pc" and "pc < int (length is)"
  shows "gives (target_ok (int (length is))) (dispatch ex exec co cs is pc ins s)"
  unfolding dispatch_def
  using assms
  by (cases "opcode_of (ins_opcode ins)")
     (simp_all add: jump_steps stays_target[OF assms(2,3)] plain_steps op_call_step target_ok_def)

text \<open>
  C14. The program counter stays inside the function: an instruction fetched inside it leads to a
  position from 1 to the number of instructions, whatever its operands are; so the loop never
  fetches outside the instructions.
\<close>

theorem exec_instruction_bounds:
  assumes "exec_instruction ex exec co cs is pc s = Ok (Continue pc') t"
    and "0 \<le> pc" and "pc < int (length is)"
  shows "0 < pc' \<and> pc' \<le> int (length is)"
proof -
  let ?ins = "decode (is ! nat pc)"
  have "0 \<le> ins_A ?ins" by (simp add: decode_def)
  then have d: "gives (target_ok (int (length is))) (dispatch ex exec co cs is pc ?ins u)" for u
    using dispatch_target assms(2,3) by simp
  have "gives (\<lambda>r. case r of Continue pc' \<Rightarrow> 0 < pc' \<and> pc' \<le> int (length is) | Return k \<Rightarrow> True)
      (exec_instruction ex exec co cs is pc s)"
    unfolding exec_instruction_def Let_def
    by (auto intro!: gives_rbind gives_after[OF d] simp: incrementCount_one not_le target_ok_def
        split: step_result.split)
  then show ?thesis using assms(1) by (simp add: gives_def)
qed

theorem exec_instruction_bounds_witness:
  "\<exists>pc' t. exec_instruction sample_ext (Ok 0) 100 7 [encode 18 0 1 0 0, 0, 0] 0 (vm_frame [] []) =
     Ok (Continue pc') t \<and> 0 < pc' \<and> pc' \<le> 3"
proof -
  let ?w = "encode 18 0 1 0 0"
  have "exec_instruction sample_ext (Ok 0) 100 7 [?w, 0, 0] 0 (vm_frame [] []) =
      Ok (Continue 2) (vm_frame [] [])"
    by (simp add: exec_instruction_def decode_of_encode skips_def condFlagsMask_def Let_def dispatch_def
        opcode_of_def opcodes_def OPCODE_LAST_def incrementCount_one op_jmp_forward_def)
  then show ?thesis
    using exec_instruction_bounds[of sample_ext "Ok 0" 100 7 "[?w, 0, 0]" 0 "vm_frame [] []"] by auto
qed

subsection \<open>Moving values between frames\<close>

lemma frame_grow:
  "frame_ok st \<Longrightarrow> length (gs_items st) < 256 \<Longrightarrow> v \<noteq> VNotPresent \<Longrightarrow>
     frame_ok (with_stack st (gs_items st @ [v]))"
  using frame_okD(3) by (intro frame_ok_with_stack) auto

lemma frame_shrink: "frame_ok st \<Longrightarrow> gs_items st = xs @ ys \<Longrightarrow> frame_ok (with_stack st xs)"
  using frame_okD(2,3)[of st] by (intro frame_ok_with_stack) auto

lemma copy_args_ok:
  assumes "src \<noteq> dest" and "cstates s src = Some st" and "frame_ok st"
    and "cstates s dest = Some d" and "frame_ok d"
    and "\<forall>n \<in> set ns. n < length (gs_items st)" and "length (gs_items d) + length ns \<le> 256"
  shows "copy_args dest src (map int ns) s =
     Ok True (with_frame s dest (with_stack d (gs_items d @ map ((!) (gs_items st)) ns)))"
  using assms(2-)
proof (induction ns arbitrary: s d)
  case Nil
  then show ?case by (simp add: frame_okD(4))
next
  case (Cons n ns)
  let ?v = "gs_items st ! n" and ?d = "with_stack d (gs_items d @ [gs_items st ! n])"
  have v: "?v \<noteq> VNotPresent" using Cons.prems(5) frame_okD(3)[OF Cons.prems(2)] nth_mem by fastforce
  have p: "interpreter_push dest ?v s = Ok True (with_frame s dest ?d)"
    using Cons.prems v by (intro interpreter_push_room) auto
  have "frame_ok ?d" using Cons.prems v by (intro frame_grow) auto
  then have "copy_args dest src (map int ns) (with_frame s dest ?d) =
      Ok True (with_frame s dest (with_stack d (gs_items d @ map ((!) (gs_items st)) (n # ns))))"
    using Cons.prems assms(1) Cons.IH[of "with_frame s dest ?d" ?d] by simp
  then show ?case using Cons.prems p stack_cell_item[OF Cons.prems(1,2)] by simp
qed

lemma pop_args_ok:
  assumes "cstates s cs = Some st" and "frame_ok st" and "gs_items st = xs @ ys"
  shows "pop_args cs (length ys) s = Ok True (with_frame s cs (with_stack st xs))"
  using assms
proof (induction ys arbitrary: s st rule: rev_induct)
  case Nil
  then have "with_stack st xs = st" using frame_okD(4)[of st] by simp
  then show ?case using Nil by simp
next
  case (snoc y ys)
  have p: "interpreter_pop cs s = Ok (Some y) (with_frame s cs (with_stack st (xs @ ys)))"
    using snoc.prems by (intro interpreter_pop_top) simp_all
  have "frame_ok (with_stack st (xs @ ys))"
    using snoc.prems frame_shrink[of st "xs @ ys" "[y]"] by simp
  then have "pop_args cs (length ys) (with_frame s cs (with_stack st (xs @ ys))) =
      Ok True (with_frame s cs (with_stack st xs))"
    using snoc.IH[of "with_frame s cs (with_stack st (xs @ ys))" "with_stack st (xs @ ys)"] by simp
  then show ?case using p by simp
qed

text \<open>What a callee that leaves \<open>vs\<close> on its stack and returns \<open>k\<close> hands over as \<open>n\<close> results.\<close>

definition results :: "nat \<Rightarrow> int \<Rightarrow> value list \<Rightarrow> value list" where
  "results n k vs = take n (drop (nat (int (length vs) - k)) vs @ replicate n VNil)"

definition result_at :: "nat \<Rightarrow> value list \<Rightarrow> nat \<Rightarrow> value" where
  "result_at p vs i = (if p + i < length vs then vs ! (p + i) else VNil)"

lemma result_at_nth: "i < n \<Longrightarrow> take n (drop p vs @ replicate n VNil) ! i = result_at p vs i"
  by (auto simp: result_at_def nth_append)

lemma results_map: "results n k vs = map (result_at (nat (int (length vs) - k)) vs) [0..<n]"
proof (rule nth_equalityI)
  fix i assume "i < length (results n k vs)"
  then have "i < n" by (simp add: results_def)
  then show "results n k vs ! i = map (result_at (nat (int (length vs) - k)) vs) [0..<n] ! i"
    unfolding results_def by (subst result_at_nth) simp_all
qed (simp add: results_def)

lemma results_present: "VNotPresent \<notin> set vs \<Longrightarrow> VNotPresent \<notin> set (results n k vs)"
  by (auto simp: results_def dest!: in_set_takeD dest: in_set_dropD)

lemma copy_returns_ok:
  assumes "callee \<noteq> dest" and "coros s co = Some c" and "co_currentCallState c = Some callee"
    and "cstates s callee = Some e" and "frame_ok e" and "closures s (cs_closure e) = Some cl"
    and "cstates s dest = Some d" and "frame_ok d" and "length (gs_items d) + length ns \<le> 256"
  shows "copy_returns co dest (int p) (map int ns) s =
     Ok True (with_frame s dest (with_stack d (gs_items d @ map (result_at p (gs_items e)) ns)))"
  using assms(2-)
proof (induction ns arbitrary: s d)
  case Nil
  then show ?case by (simp add: frame_okD(4))
next
  case (Cons n ns)
  let ?v = "result_at p (gs_items e) n"
  let ?d = "with_stack d (gs_items d @ [?v])"
  have v: "?v \<noteq> VNotPresent"
    using frame_okD(3)[OF Cons.prems(4)] nth_mem[of "p + n" "gs_items e"]
    by (auto simp: result_at_def simp del: nth_mem)
  have cur: "current_frame co s = Ok (callee, e, cl) s"
    using Cons.prems by (simp add: current_frame_def)
  have val: "(if int p + int n \<le> cs_sp e - 1 then stack_cell callee (int p + int n) s else Ok VNil s) = Ok ?v s"
    using stack_cell_item[OF Cons.prems(3,4), of "p + n"] frame_okD(1)[OF Cons.prems(4)]
    by (auto simp: result_at_def)
  have push: "interpreter_push dest ?v s = Ok True (with_frame s dest ?d)"
    using Cons.prems v by (intro interpreter_push_room) auto
  have "frame_ok ?d" using Cons.prems v by (intro frame_grow) auto
  then have "copy_returns co dest (int p) (map int ns) (with_frame s dest ?d) =
      Ok True (with_frame s dest (with_stack d (gs_items d @ map (result_at p (gs_items e)) (n # ns))))"
    using Cons.prems assms(1) Cons.IH[of "with_frame s dest ?d" ?d] by simp
  moreover have "copy_returns co dest (int p) (map int (n # ns)) s =
      copy_returns co dest (int p) (map int ns) (with_frame s dest ?d)"
    unfolding list.map copy_returns.simps cur rbind.simps prod.case val push by simp
  ultimately show ?case by simp
qed

lemma return_values_ok:
  assumes "callee \<noteq> dest" and "coros s co = Some c" and "co_currentCallState c = Some callee"
    and "cstates s callee = Some e" and "frame_ok e" and "closures s (cs_closure e) = Some cl"
    and "cstates s dest = Some d" and "frame_ok d"
    and "n = (if va then length (gs_items e) else nat nret)" and "length (gs_items d) + n \<le> 256"
  shows "return_values co dest va nret k s =
     Ok True (with_frame s dest (with_stack d (gs_items d @ results n k (gs_items e))))"
proof -
  have sp: "cs_sp e = int (length (gs_items e))" by (rule frame_okD(1)[OF assms(5)])
  have cur: "current_frame co s = Ok (callee, e, cl) s"
    using assms by (simp add: current_frame_def)
  have "map int [0..<n] = [0..int n - 1]" by (induction n) (simp_all add: upto_rec2)
  then have args: "[0..(if va then cs_sp e else nret) - 1] = map int [0..<n]"
    using assms(9) sp by (cases va; cases "0 \<le> nret") simp_all
  let ?p = "nat (int (length (gs_items e)) - k)"
  have start: "(if cs_sp e - k < 0 then 0 else cs_sp e - k) = int ?p" using sp by simp
  have "copy_returns co dest (int ?p) (map int [0..<n]) s =
      Ok True (with_frame s dest (with_stack d (gs_items d @ map (result_at ?p (gs_items e)) [0..<n])))"
    using assms(10) by (intro copy_returns_ok[OF assms(1-8)]) simp
  then show ?thesis
    unfolding return_values_def cur rbind.simps prod.case Let_def args start results_map .
qed

subsection \<open>The contract of a call\<close>

lemma new_frame [simp]:
  "gs_items (new_call_state func co b) = []" "frame_ok (new_call_state func co b)"
  "cs_closure (new_call_state func co b) = func"
  by (simp_all add: new_call_state_def gs_items_def frame_ok_def config_defs)

text \<open>
  What a callee is to do when it is called in a machine with the data of \<open>D\<close>: run in the new frame
  \<open>callee\<close>, the one number \<open>h\<close> of the executing coroutine \<open>co\<close>, the frame the prolog makes for \<open>func\<close> with \<open>args\<close> on its
  stack, it leaves \<open>vs\<close> there and returns \<open>k\<close>, with the coroutines and the frame of the caller as
  they were.
\<close>

definition same_heap :: "vm \<Rightarrow> vm \<Rightarrow> bool" where
  "same_heap s t \<longleftrightarrow> mem t = mem s \<and> strs t = strs s \<and> tabs t = tabs s \<and> bcs t = bcs s \<and>
     closures t = closures s \<and> staticStrings t = staticStrings s \<and> globalTable t = globalTable s"

definition called :: "vm \<Rightarrow> nat \<Rightarrow> vm \<Rightarrow> addr \<Rightarrow> addr \<Rightarrow> closure \<Rightarrow> addr \<Rightarrow> addr \<Rightarrow> value list \<Rightarrow> bool" where
  "called D h t co func cl caller callee args \<longleftrightarrow>
     (\<exists>c. running t co c \<and> \<not> co_callStackLock c \<and> length (frames c) = h \<and> frames c \<noteq> [] \<and>
        last (frames c) = callee) \<and>
     same_heap D t \<and> callee < brk t \<and> caller < brk t \<and> closures D func = Some cl \<and> callee \<noteq> caller \<and>
     cstates t callee = Some (with_stack (new_call_state func co (cl_func cl \<noteq> None)) args)"

definition callee_returns ::
    "(vm \<Rightarrow> (int, vm) res) \<Rightarrow> vm \<Rightarrow> nat \<Rightarrow> addr \<Rightarrow> addr \<Rightarrow> closure \<Rightarrow> addr \<Rightarrow> addr \<Rightarrow> value list \<Rightarrow> int \<Rightarrow>
     value list \<Rightarrow> bool" where
  "callee_returns exec D h co func cl caller callee args k vs \<longleftrightarrow>
     (\<forall>t. called D h t co func cl caller callee args \<longrightarrow>
       (\<exists>u e. exec t = Ok k u \<and> coros u = coros t \<and> coroutinesStack u = coroutinesStack t \<and>
          cstates u caller = cstates t caller \<and> cstates u callee = Some e \<and> frame_ok e \<and>
          gs_items e = vs \<and> closures u (cs_closure e) \<noteq> None))"

lemma same_heap_refl [simp]: "same_heap s s"
  by (simp add: same_heap_def)

lemma same_heap_frame [simp]: "same_heap s (with_frame t cs st) = same_heap s t"
  by (simp add: same_heap_def with_frame_def)

lemma same_heap_coros [simp]: "same_heap s (t\<lparr>coros := x\<rparr>) = same_heap s t"
  by (simp add: same_heap_def)

lemma same_heap_trans: "same_heap s t \<Longrightarrow> same_heap t u \<Longrightarrow> same_heap s u"
  by (simp add: same_heap_def)

lemma callee_returns_heap:
  "same_heap D D' \<Longrightarrow> callee_returns exec D' = callee_returns exec D"
  by (intro ext) (simp add: callee_returns_def called_def same_heap_def)

lemma pc_frame [simp]:
  "gs_items (st\<lparr>cs_pc := pc\<rparr>) = gs_items st" "frame_ok (st\<lparr>cs_pc := pc\<rparr>) = frame_ok st"
  by (simp_all add: gs_items_def frame_ok_def)

text \<open>Real callees: a native function does what the host says, a function without instructions nothing.\<close>

lemma called_frame:
  assumes "called D h t co func cl caller callee args"
  shows "current_frame co t = Ok (callee, with_stack (new_call_state func co (cl_func cl \<noteq> None)) args, cl) t"
  using assms by (auto simp: called_def same_heap_def running_def coro_ok_def current_frame_def)

lemma native_callee:
  assumes "cl_prototype cl = None" and "cl_func cl = Some f"
  shows "callee_returns (interpreter_exec host ex (Suc n) co) D h co func cl caller callee args k vs \<longleftrightarrow>
    callee_returns (host f callee (cl_udata cl)) D h co func cl caller callee args k vs"
  unfolding callee_returns_def using assms called_frame by (auto simp: called_frame)

lemma empty_callee:
  assumes "cl_prototype cl = Some p" and "p_instructions p = []" and "length args \<le> 256"
    and "VNotPresent \<notin> set args"
  shows "callee_returns (interpreter_exec host ex (Suc (Suc n)) co) D h co func cl caller callee args 0 args"
  unfolding callee_returns_def
proof (intro allI impI)
  fix t assume t: "called D h t co func cl caller callee args"
  let ?e = "(with_stack (new_call_state func co (cl_func cl \<noteq> None)) args)\<lparr>cs_pc := 0\<rparr>"
  have "interpreter_exec host ex (Suc (Suc n)) co t = Ok 0 (with_frame t callee ?e)"
    using called_frame[OF t] t assms(1,2) by (simp add: set_pc_def called_def)
  then show "\<exists>u e. interpreter_exec host ex (Suc (Suc n)) co t = Ok 0 u \<and> coros u = coros t \<and>
      coroutinesStack u = coroutinesStack t \<and> cstates u caller = cstates t caller \<and> cstates u callee = Some e \<and>
      frame_ok e \<and> gs_items e = args \<and> closures u (cs_closure e) \<noteq> None"
    using t frame_ok_with_stack[OF assms(3,4), of "new_call_state func co (cl_func cl \<noteq> None)"]
    by (intro exI[of _ "with_frame t callee ?e"] exI[of _ ?e]) (auto simp: called_def same_heap_def)
qed

lemma upto_args: "[int a..int a + int n - 1] = map int [a..<a + n]"
  by (induction n) (simp_all add: upto_rec2)

text \<open>Passing the arguments to the frame the prolog made.\<close>

lemma args_passed:
  assumes "callee \<noteq> cs" and "cstates s cs = Some st" and "frame_ok st" and "gs_items st = front @ args"
    and "cstates s callee = Some (new_call_state func co b)"
  shows "copy_args callee cs [int (length front)..int (length front) + int (length args) - 1] s =
     Ok True (with_frame s callee (with_stack (new_call_state func co b) args))"
proof -
  have m: "map ((!) (gs_items st)) [length front..<length front + length args] = args"
    using assms(4) by (intro nth_equalityI) (simp_all add: nth_append)
  show ?thesis
    using copy_args_ok[OF _ assms(2,3,5), of "[length front..<length front + length args]"]
      frame_okD(2)[OF assms(3)] assms(1,4) by (simp add: upto_args m[unfolded assms(4)])
qed

text \<open>Taking the results of the callee and leaving its frame.\<close>

lemma results_taken:
  assumes r: "running s co c" and l: "\<not> co_callStackLock c"
    and u: "coros u = (coros s)(co \<mapsto> c\<lparr>co_callStack := stk, co_currentCallState := Some callee\<rparr>)"
      "coroutinesStack u = coroutinesStack s"
    and stk: "stk_ok stk" "stk_items stk = frames c @ [callee]" "stk_size stk = stk_size (co_callStack c)"
    and e: "callee \<noteq> cs" "cstates u callee = Some e" "frame_ok e" "closures u (cs_closure e) \<noteq> None"
    and d: "cstates u cs = Some (with_stack st front)" "frame_ok (with_stack st front)"
    and n: "n = (if va then length (gs_items e) else nat nret)" "length front + n \<le> 256"
  obtains w where "return_values co cs va nret k u = Ok True w"
    "coroutine_function_epilog w = Ok () (w\<lparr>coros := coros s\<rparr>)"
    "w = with_frame u cs (with_stack st (front @ results n k (gs_items e)))"
proof -
  let ?w = "with_frame u cs (with_stack st (front @ results n k (gs_items e)))"
  obtain cl where cl: "closures u (cs_closure e) = Some cl" using e(4) by auto
  have "return_values co cs va nret k u = Ok True ?w"
    using return_values_ok[OF e(1) _ _ e(2,3) cl d n(1)] u(1) n(2) by simp
  moreover have "coroutine_function_epilog ?w = Ok () (?w\<lparr>coros := coros s\<rparr>)"
    using u by (intro epilog_undoes(2)[OF r l _ _ stk]) simp_all
  ultimately show ?thesis by (rule that) simp
qed

text \<open>The machine when a callee starts: the one before with the new frame and the caller's in state \<open>st\<close>.\<close>

definition entered_from :: "vm \<Rightarrow> addr \<Rightarrow> coroutine \<Rightarrow> addr \<Rightarrow> call_state \<Rightarrow> addr \<Rightarrow> closure \<Rightarrow> value list \<Rightarrow> vm \<Rightarrow> bool" where
  "entered_from s co c cs st func cl args t \<longleftrightarrow>
     (\<exists>stk. coros t = (coros s)(co \<mapsto> c\<lparr>co_callStack := stk, co_currentCallState := Some (brk s)\<rparr>) \<and>
        stk_ok stk \<and> stk_items stk = frames c @ [brk s] \<and> stk_size stk = stk_size (co_callStack c)) \<and>
     cstates t = (cstates s)(brk s \<mapsto> with_stack (new_call_state func co (cl_func cl \<noteq> None)) args, cs \<mapsto> st) \<and>
     coroutinesStack t = coroutinesStack s \<and> same_heap s t \<and> errMsg t = errMsg s \<and> brk s < brk t"

lemma entered_running:
  assumes "running s co c" and "\<not> co_callStackLock c" and "entered_from s co c cs st func cl args t"
  obtains d where "running t co d" "\<not> co_callStackLock d" "frames d = frames c @ [brk s]"
    "same_control d c"
proof -
  obtain stk where t: "coros t = (coros s)(co \<mapsto> c\<lparr>co_callStack := stk, co_currentCallState := Some (brk s)\<rparr>)"
      "stk_ok stk" "stk_items stk = frames c @ [brk s]" "stk_size stk = stk_size (co_callStack c)"
      "coroutinesStack t = coroutinesStack s"
    using assms(3) by (auto simp: entered_from_def)
  show ?thesis
    by (rule that[of "c\<lparr>co_callStack := stk, co_currentCallState := Some (brk s)\<rparr>"])
       (use assms(1,2) t in \<open>simp_all add: running_def coro_ok_def\<close>)
qed

text \<open>A call from native code in two halves: up to the start of the callee, and from its return on.\<close>

abbreviation native_end :: "addr \<Rightarrow> addr \<Rightarrow> int \<Rightarrow> int \<Rightarrow> vm \<Rightarrow> (unit, vm) res" where
  "native_end co cs nret k s \<equiv>
     rbind (return_values co cs (nret = -1) nret k s) (\<lambda>ok s.
       if \<not> ok then interpreter_error (fluffyvm_get_errmsg s) s else coroutine_function_epilog s)"

lemma interpreter_call_enters:
  assumes r: "running s co c" and l: "\<not> co_callStackLock c"
    and room: "int (length (frames c)) < FLUFFYVM_CALL_STACK_SIZE" and m: "always_mem s"
    and cur: "frames c \<noteq> []" "last (frames c) = cs" "cstates s cs = Some st" "frame_ok st"
      "closures s (cs_closure st) \<noteq> None" "cs < brk s"
    and args: "gs_items st = front @ args" "nargs = int (length args)"
    and f: "closures s func = Some cl"
  obtains t where "interpreter_call exec (VClosure func) nargs nret s = rbind (exec co t) (native_end co cs nret)"
    "entered_from s co c cs (with_stack st front) func cl args t"
proof -
  let ?new = "new_call_state func co (cl_func cl \<noteq> None)"
  obtain t stk where t: "coroutine_function_prolog func s = Ok (Some (brk s)) t"
    "coros t = (coros s)(co \<mapsto> c\<lparr>co_callStack := stk, co_currentCallState := Some (brk s)\<rparr>)"
    "cstates t = (cstates s)(brk s \<mapsto> ?new)"
    "stk_ok stk" "stk_items stk = frames c @ [brk s]" "stk_size stk = stk_size (co_callStack c)"
    "t = s\<lparr>coros := coros t, cstates := cstates t, brk := brk t\<rparr>" "brk s < brk t"
    by (rule prolog_pushes[OF r l room m f]) auto
  have st: "coroutinesStack t = coroutinesStack s" "closures t = closures s" "errMsg t = errMsg s"
    by (subst t(7), simp)+
  have heap: "same_heap s t" by (subst t(7)) (simp add: same_heap_def)
  obtain ccl where ccl: "closures s (cs_closure st) = Some ccl" using cur(5) by auto
  have "coro_ok c" and c: "coros s co = Some c" using r by (simp_all add: running_def)
  then have "co_currentCallState c = Some cs" using cur(1,2) by (simp add: coro_ok_def)
  then have cur1: "current_frame co s = Ok (cs, st, ccl) s"
    using c cur(3) ccl by (simp add: current_frame_def)
  have cur2: "current_frame co t = Ok (brk s, ?new, cl) t"
    using t(2,3) st f by (simp add: current_frame_def)
  have ne: "brk s \<noteq> cs" using cur(6) by simp
  have sp: "cs_sp st = int (length front) + int (length args)"
    using frame_okD(1)[OF cur(4)] args(1) by simp
  let ?t1 = "with_frame t (brk s) (with_stack ?new args)"
  have copy: "copy_args (brk s) cs [int (length front)..int (length front) + int (length args) - 1] t =
      Ok True ?t1"
    using ne t(3) cur(3,4) args(1) by (intro args_passed) auto
  have pop: "pop_args cs (length args) ?t1 = Ok True (with_frame ?t1 cs (with_stack st front))"
    using ne t(3) cur(3,4) args(1) by (intro pop_args_ok) auto
  have "executing_coroutine s = Ok co s" by (rule running_executing(2)[OF r])
  then have "interpreter_call exec (VClosure func) nargs nret s =
      rbind (exec co (with_frame ?t1 cs (with_stack st front))) (native_end co cs nret)"
    using cur1 cur2 t(1) copy pop sp args(2) by (simp add: interpreter_call_def Let_def)
  then show ?thesis by (rule that) (use t st heap in \<open>auto simp: entered_from_def\<close>)
qed

lemma interpreter_call_leaves:
  assumes r: "running s co c" and l: "\<not> co_callStackLock c" and ne: "cs \<noteq> brk s"
    and t: "entered_from s co c cs st func cl args t"
    and u: "coros u = coros t" "coroutinesStack u = coroutinesStack t" "cstates u cs = Some st"
      "cstates u (brk s) = Some e" "frame_ok e" "gs_items e = vs" "closures u (cs_closure e) \<noteq> None"
    and st: "frame_ok st" "gs_items st = front"
    and n: "n = (if nret = -1 then length vs else nat nret)" "length front + n \<le> 256"
  shows "native_end co cs nret k u =
    Ok () ((with_frame u cs (with_stack st (front @ results n k vs)))\<lparr>coros := coros s\<rparr>)"
proof -
  obtain stk where t': "coros u = (coros s)(co \<mapsto> c\<lparr>co_callStack := stk, co_currentCallState := Some (brk s)\<rparr>)"
      "coroutinesStack u = coroutinesStack s"
      "stk_ok stk" "stk_items stk = frames c @ [brk s]" "stk_size stk = stk_size (co_callStack c)"
    using t u(1,2) by (auto simp: entered_from_def)
  have fr: "frame_ok (with_stack st front)" "cstates u cs = Some (with_stack st front)"
    using frame_okD(4)[OF st(1)] st u(3) by simp_all
  obtain w where w: "return_values co cs (nret = -1) nret k u = Ok True w"
      "coroutine_function_epilog w = Ok () (w\<lparr>coros := coros s\<rparr>)"
      "w = with_frame u cs (with_stack st (front @ results n k (gs_items e)))"
    by (rule results_taken[where va = "nret = -1" and nret = nret, OF r l t' not_sym[OF ne] u(4,5,7) fr(2,1) _ n(2)])
       (use n u(6) in auto)
  then show ?thesis using u(6) by simp
qed

text \<open>A call from native code, for the properties that rest on it.\<close>

lemma interpreter_call_returns:
  assumes r: "running s co c" and l: "\<not> co_callStackLock c"
    and room: "int (length (frames c)) < FLUFFYVM_CALL_STACK_SIZE" and m: "always_mem s"
    and cur: "frames c \<noteq> []" "cstates s (last (frames c)) = Some st" "frame_ok st"
      "closures s (cs_closure st) \<noteq> None" "last (frames c) < brk s"
    and args: "gs_items st = front @ args" "nargs = int (length args)"
    and f: "closures s func = Some cl"
    and x: "callee_returns (exec co) s (Suc (length (frames c))) co func cl (last (frames c)) (brk s) args k vs"
    and n: "n = (if nret = -1 then length vs else nat nret)" "length front + n \<le> 256"
  shows "\<exists>u. interpreter_call exec (VClosure func) nargs nret s = Ok () u \<and> coros u = coros s \<and>
     coroutinesStack u = coroutinesStack s \<and>
     cstates u (last (frames c)) = Some (with_stack st (front @ results n k vs)) \<and> VNotPresent \<notin> set vs"
proof -
  let ?cs = "last (frames c)"
  obtain t where t: "interpreter_call exec (VClosure func) nargs nret s = rbind (exec co t) (native_end co ?cs nret)"
      "entered_from s co c ?cs (with_stack st front) func cl args t"
    by (rule interpreter_call_enters[OF r l room m cur(1) refl cur(2-5) args f])
  have ne: "?cs \<noteq> brk s" using cur(5) by simp
  obtain d where "running t co d" "\<not> co_callStackLock d" "frames d = frames c @ [brk s]"
    by (rule entered_running[OF r l t(2)])
  then have called: "called s (Suc (length (frames c))) t co func cl ?cs (brk s) args"
    using t(2) cur(5) f by (auto simp: entered_from_def called_def)
  obtain u e where u: "exec co t = Ok k u" "coros u = coros t" "coroutinesStack u = coroutinesStack t"
      "cstates u ?cs = Some (with_stack st front)" "cstates u (brk s) = Some e" "frame_ok e"
      "gs_items e = vs" "closures u (cs_closure e) \<noteq> None"
    using x[unfolded callee_returns_def, rule_format, OF called] t(2) by (auto simp: entered_from_def)
  from interpreter_call_leaves[OF r l ne t(2) u(2-8) frame_shrink[OF cur(3) args(1)] _ n]
  show ?thesis using t u(1,3) frame_okD(3)[OF u(6)] u(7) by (auto simp: entered_from_def)
qed

text \<open>
  The contract of a call from native code: with room for the frame and for the results, the
  arguments on top of the caller's stack are taken away and handed to the callee, and the results,
  the last ones the callee left, as many as it says it returned, padded with nil or cut to the
  number asked for (all of them for -1), are put in their place; every coroutine is as it was
  before the call.
\<close>

theorem interpreter_call_contract:
  assumes r: "running s co c" and l: "\<not> co_callStackLock c"
    and room: "int (length (frames c)) < FLUFFYVM_CALL_STACK_SIZE" and m: "always_mem s"
    and cur: "frames c \<noteq> []" "cstates s (last (frames c)) = Some st" "frame_ok st"
      "closures s (cs_closure st) \<noteq> None" "last (frames c) < brk s"
    and args: "gs_items st = front @ args" "nargs = int (length args)"
    and f: "closures s func = Some cl"
    and x: "callee_returns (exec co) s (Suc (length (frames c))) co func cl (last (frames c)) (brk s) args k vs"
    and n: "n = (if nret = -1 then length vs else nat nret)" "length front + n \<le> 256"
  shows "\<exists>u. interpreter_call exec (VClosure func) nargs nret s = Ok () u \<and> coros u = coros s \<and>
     coroutinesStack u = coroutinesStack s \<and>
     cstates u (last (frames c)) = Some (with_stack st (front @ results n k vs))"
  using interpreter_call_returns[where exec = exec, OF assms] by blast

text \<open>
  A CALL instruction in two halves: up to the start of the callee, and from its return on. In
  between the machine differs from the one before by the new frame and the recorded position.
\<close>

abbreviation call_end :: "addr \<Rightarrow> addr \<Rightarrow> int \<Rightarrow> nat \<Rightarrow> bool \<Rightarrow> int \<Rightarrow> int \<Rightarrow> vm \<Rightarrow> (step_result, vm) res" where
  "call_end co cs pc nargs va ret k s \<equiv>
     rbind (pop_args cs nargs s) (\<lambda>popped s.
       if \<not> popped then Fault Aborted
       else rbind (return_values co cs va ret k s) (\<lambda>ok s.
         if \<not> ok then rbind (coroutine_function_epilog s) (\<lambda>_ s. goto_error cs pc s)
         else rbind (coroutine_function_epilog s) (\<lambda>_ s. Ok (Continue pc) s)))"

lemma op_call_enters:
  assumes r: "running s co c" and l: "\<not> co_callStackLock c"
    and room: "int (length (frames c)) < FLUFFYVM_CALL_STACK_SIZE" and m: "always_mem s"
    and cur: "cstates s cs = Some st" "frame_ok st" "cs \<noteq> brk s"
    and args: "gs_items st = front @ args"
      "ins_C ins = (if args = [] then 0 else 1 + int (length args)) \<or> ins_C ins = 1 \<and> front = []"
    and f: "getRegister cs (ins_A ins) s = Ok (VClosure func) s" "closures s func = Some cl"
  obtains t where "op_call exec co cs pc ins s = rbind (exec t)
      (call_end co cs pc (length args) (ins_B ins = 1) (if ins_B ins - 1 < 0 then 0 else ins_B ins - 1))"
    "entered_from s co c cs (st\<lparr>cs_pc := pc\<rparr>) func cl args t"
proof -
  let ?new = "new_call_state func co (cl_func cl \<noteq> None)"
  let ?is = "[int (length front)..int (length front) + int (length args) - 1]"
  let ?ret = "if ins_B ins - 1 < 0 then 0 else ins_B ins - 1"
  obtain t stk where t: "coroutine_function_prolog func s = Ok (Some (brk s)) t"
    "coros t = (coros s)(co \<mapsto> c\<lparr>co_callStack := stk, co_currentCallState := Some (brk s)\<rparr>)"
    "cstates t = (cstates s)(brk s \<mapsto> ?new)"
    "stk_ok stk" "stk_items stk = frames c @ [brk s]" "stk_size stk = stk_size (co_callStack c)"
    "t = s\<lparr>coros := coros t, cstates := cstates t, brk := brk t\<rparr>" "brk s < brk t"
    by (rule prolog_pushes[OF r l room m f(2)]) auto
  have st: "coroutinesStack t = coroutinesStack s" "closures t = closures s" "errMsg t = errMsg s"
    by (subst t(7), simp)+
  have heap: "same_heap s t" by (subst t(7)) (simp add: same_heap_def)
  have cur2: "current_frame co t = Ok (brk s, ?new, cl) t"
    using t(2,3) st f(2) by (simp add: current_frame_def)
  have ne: "brk s \<noteq> cs" using cur(3) by simp
  have sp: "cs_sp st = int (length front) + int (length args)"
    using frame_okD(1)[OF cur(2)] args(1) by simp
  let ?t1 = "with_frame t (brk s) (with_stack ?new args)" and ?st = "st\<lparr>cs_pc := pc\<rparr>"
  have copy: "copy_args (brk s) cs ?is t = Ok True ?t1"
    using ne t(3) cur(1,2) args(1) by (intro args_passed) auto
  let ?t2 = "with_frame ?t1 cs ?st"
  have pc: "set_pc cs pc ?t1 = Ok () ?t2" using ne t(3) cur(1) by (simp add: set_pc_def)
  have "op_call exec co cs pc ins s = run_callee exec co cs pc func ?is (ins_B ins = 1) ?ret s"
    using cur(1) f(1) args sp by (cases args) (auto simp: op_call_def Let_def)
  also have "\<dots> = rbind (exec ?t2) (call_end co cs pc (length args) (ins_B ins = 1) ?ret)"
    using t(1) cur2 copy pc by (simp add: run_callee_def Let_def)
  finally show ?thesis
    by (rule that) (use t st heap in \<open>auto simp: entered_from_def\<close>)
qed

lemma op_call_leaves:
  assumes r: "running s co c" and l: "\<not> co_callStackLock c" and ne: "cs \<noteq> brk s"
    and t: "entered_from s co c cs st func cl args t"
    and u: "coros u = coros t" "coroutinesStack u = coroutinesStack t" "cstates u cs = Some st"
      "cstates u (brk s) = Some e" "frame_ok e" "gs_items e = vs" "closures u (cs_closure e) \<noteq> None"
    and st: "frame_ok st" "gs_items st = front @ args"
    and n: "n = (if va then length vs else nat ret)" "length front + n \<le> 256"
  shows "call_end co cs pc (length args) va ret k u =
    Ok (Continue pc) ((with_frame u cs (with_stack st (front @ results n k vs)))\<lparr>coros := coros s\<rparr>)"
proof -
  let ?u = "with_frame u cs (with_stack st front)"
  obtain stk where t': "coros ?u = (coros s)(co \<mapsto> c\<lparr>co_callStack := stk, co_currentCallState := Some (brk s)\<rparr>)"
      "coroutinesStack ?u = coroutinesStack s"
      "stk_ok stk" "stk_items stk = frames c @ [brk s]" "stk_size stk = stk_size (co_callStack c)"
    using t u(1,2) by (auto simp: entered_from_def)
  have fr: "frame_ok (with_stack st front)" by (rule frame_shrink[OF st])
  have pop: "pop_args cs (length args) u = Ok True ?u" by (rule pop_args_ok[OF u(3) st])
  have u': "cstates ?u (brk s) = Some e" "closures ?u (cs_closure e) \<noteq> None"
      "cstates ?u cs = Some (with_stack st front)" "n = (if va then length (gs_items e) else nat ret)"
    using u n(1) ne by simp_all
  obtain w where w: "return_values co cs va ret k ?u = Ok True w"
      "coroutine_function_epilog w = Ok () (w\<lparr>coros := coros s\<rparr>)"
      "w = with_frame ?u cs (with_stack st (front @ results n k (gs_items e)))"
    by (rule results_taken[OF r l t' not_sym[OF ne] u'(1) u(5) u'(2,3) fr u'(4) n(2)])
  then show ?thesis using pop u(6) by simp
qed

text \<open>
  C3. The contract of a CALL instruction, whose C operand gives the number of arguments plus one (1
  takes the whole stack, 0 none) and whose B operand the number of results plus one (1 takes all,
  0 none): with room for the frame and for the results, the arguments are taken from the caller's
  stack, the results padded with nil or cut are put in their place, the position is recorded, every
  coroutine is as it was and execution goes on behind the instruction.
\<close>

theorem op_call_contract:
  assumes r: "running s co c" and l: "\<not> co_callStackLock c"
    and room: "int (length (frames c)) < FLUFFYVM_CALL_STACK_SIZE" and m: "always_mem s"
    and cur: "cstates s cs = Some st" "frame_ok st" "cs < brk s"
    and args: "gs_items st = front @ args"
      "ins_C ins = (if args = [] then 0 else 1 + int (length args)) \<or> ins_C ins = 1 \<and> front = []"
    and f: "getRegister cs (ins_A ins) s = Ok (VClosure func) s" "closures s func = Some cl"
    and x: "callee_returns exec s (Suc (length (frames c))) co func cl cs (brk s) args k vs"
    and n: "n = (if ins_B ins = 1 then length vs else nat (ins_B ins - 1))" "length front + n \<le> 256"
  shows "\<exists>u. op_call exec co cs pc ins s = Ok (Continue pc) u \<and> coros u = coros s \<and>
     coroutinesStack u = coroutinesStack s \<and>
     cstates u cs = Some (with_stack (st\<lparr>cs_pc := pc\<rparr>) (front @ results n k vs))"
proof -
  let ?st = "st\<lparr>cs_pc := pc\<rparr>" and ?ret = "if ins_B ins - 1 < 0 then 0 else ins_B ins - 1"
  obtain t where t: "op_call exec co cs pc ins s =
      rbind (exec t) (call_end co cs pc (length args) (ins_B ins = 1) ?ret)"
      "entered_from s co c cs ?st func cl args t"
    by (rule op_call_enters[OF r l room m cur(1,2) _ args f]) (use cur(3) in simp)
  have ne: "brk s \<noteq> cs" using cur(3) by simp
  obtain d where "running t co d" "\<not> co_callStackLock d" "frames d = frames c @ [brk s]"
    by (rule entered_running[OF r l t(2)])
  then have called: "called s (Suc (length (frames c))) t co func cl cs (brk s) args"
    using t(2) cur(3) f(2) by (auto simp: entered_from_def called_def)
  obtain u e where u: "exec t = Ok k u" "coros u = coros t" "coroutinesStack u = coroutinesStack t"
      "cstates u cs = Some ?st" "cstates u (brk s) = Some e" "frame_ok e" "gs_items e = vs"
      "closures u (cs_closure e) \<noteq> None"
    using x[unfolded callee_returns_def, rule_format, OF called] t(2) by (auto simp: entered_from_def)
  have "n = (if ins_B ins = 1 then length vs else nat ?ret)" using n(1) by auto
  from op_call_leaves[OF r l not_sym[OF ne] t(2) u(2-8) _ _ this n(2)] show ?thesis
    using t u(1,3) cur(2) args(1) by (simp add: entered_from_def)
qed

definition call_machine :: "value list \<Rightarrow> vm" where
  "call_machine xs = (vm_frame [] xs)\<lparr>brk := 200\<rparr>"

lemma call_machine_simps [simp]:
  "coros (call_machine xs) = [100 \<mapsto> coroutine_of [7] FIBER_RUNNING]"
  "cstates (call_machine xs) = [7 \<mapsto> with_stack (new_call_state 50 100 False) xs]"
  "closures (call_machine xs) = [50 \<mapsto> lua_closure []]"
  "coroutinesStack (call_machine xs) = stack_of FLUFFYVM_MAX_COROUTINE_NEST [100]"
  "always_mem (call_machine xs)" "brk (call_machine xs) = 200"
  by (simp_all add: call_machine_def vm_frame_def vm_running_def always_mem_def blank_vm_def)

lemma call_machine_running:
  "running (call_machine xs) 100 (coroutine_of [7] FIBER_RUNNING)"
  "frames (coroutine_of [7] FIBER_RUNNING) = [7]"
  using vm_running_ok[of "[7]" FIBER_RUNNING] by (simp_all add: running_def)

text \<open>A callee that leaves two values and returns one.\<close>

definition two_values :: "vm \<Rightarrow> (int, vm) res" where
  "two_values t = Ok 1 (with_frame t 200 (with_stack (new_call_state 50 100 False) [VNil, VLong 9]))"

lemma two_values_returns: "caller \<noteq> 200 \<Longrightarrow> callee_returns two_values D h 100 50 (lua_closure []) caller 200 args 1 [VNil, VLong 9]"
  using frame_ok_with_stack[of "[VNil, VLong 9]" "new_call_state 50 100 False"]
  by (auto simp: callee_returns_def two_values_def called_def same_heap_def)

theorem interpreter_call_contract_witness:
  "\<exists>u. interpreter_call (\<lambda>co. two_values) (VClosure 50) 1 2 (call_machine [VLong 1, VBool True]) = Ok () u \<and>
     cstates u 7 = Some (with_stack (with_stack (new_call_state 50 100 False) [VLong 1, VBool True])
       [VLong 1, VLong 9, VNil])"
proof -
  have "results 2 1 [VNil, VLong 9] = [VLong 9, VNil]" by (simp add: results_def numeral_2_eq_2)
  then show ?thesis
    using interpreter_call_contract[of "call_machine [VLong 1, VBool True]" 100
        "coroutine_of [7] FIBER_RUNNING" "with_stack (new_call_state 50 100 False) [VLong 1, VBool True]"
        "[VLong 1]" "[VBool True]" 1 50 "lua_closure []" "\<lambda>co. two_values" 1 "[VNil, VLong 9]" 2 2]
      call_machine_running frame_ok_with_stack[of "[VLong 1, VBool True]" "new_call_state 50 100 False"]
      two_values_returns[of 7]
    by (auto simp: config_defs)
qed

theorem op_call_contract_witness:
  "\<exists>u. op_call two_values 100 7 4 ((decode 0)\<lparr>ins_A := 0xFFFD, ins_B := 1, ins_C := 2\<rparr>)
       (call_machine [VLong 1, VBool True]) = Ok (Continue 4) u \<and>
     cstates u 7 = Some (with_stack ((with_stack (new_call_state 50 100 False) [VLong 1, VBool True])
       \<lparr>cs_pc := 4\<rparr>) [VLong 1, VLong 9, VNil])"
proof -
  let ?ins = "(decode 0)\<lparr>ins_A := 0xFFFD, ins_B := 1, ins_C := 2\<rparr>"
  have "results 2 1 [VNil, VLong 9] = [VLong 9, VNil]" by (simp add: results_def numeral_2_eq_2)
  moreover have "getRegister 7 0xFFFD (call_machine [VLong 1, VBool True]) =
      Ok (VClosure 50) (call_machine [VLong 1, VBool True])"
    by (simp add: getRegister_def register_defs lua_closure_def plain_closure_def)
  ultimately show ?thesis
    using op_call_contract[of "call_machine [VLong 1, VBool True]" 100
        "coroutine_of [7] FIBER_RUNNING" 7 "with_stack (new_call_state 50 100 False) [VLong 1, VBool True]"
        "[VLong 1]" "[VBool True]" ?ins 50 "lua_closure []" two_values 1 "[VNil, VLong 9]" 2 4]
      call_machine_running frame_ok_with_stack[of "[VLong 1, VBool True]" "new_call_state 50 100 False"]
      two_values_returns[of 7]
    by (auto simp: config_defs)
qed

subsection \<open>Protected calls\<close>

lemma epilog_no_lock_pops:
  assumes r: "running s co c" and f: "frames c = fs @ [f]"
  obtains c' where "coroutine_function_epilog_no_lock s = Ok () (s\<lparr>coros := (coros s)(co \<mapsto> c')\<rparr>)"
    "running (s\<lparr>coros := (coros s)(co \<mapsto> c')\<rparr>) co c'" "frames c' = fs"
    "co_callStackLock c' = co_callStackLock c" "co_errorHandler c' = co_errorHandler c"
proof -
  have c: "coros s co = Some c" and ok: "coro_ok c" using r by (simp_all add: running_def)
  obtain st where st: "internal_function_epilog co s = Ok () (s\<lparr>coros := (coros s)(co \<mapsto>
      c\<lparr>co_callStack := st, co_currentCallState := (if fs = [] then None else Some (last fs))\<rparr>)\<rparr>)"
      "stk_ok st" "stk_items st = fs" "stk_size st = stk_size (co_callStack c)"
    by (rule internal_epilog_pops[OF c _ f]) (use ok in \<open>auto simp: coro_ok_def\<close>)
  let ?c = "c\<lparr>co_callStack := st, co_currentCallState := (if fs = [] then None else Some (last fs))\<rparr>"
  show ?thesis
    using st ok r running_executing(2)[OF r]
    by (intro that[of ?c]) (auto simp: coroutine_function_epilog_no_lock_def running_def coro_ok_def)
qed

lemma coro_twice:
  "s\<lparr>coros := (coros s)(co \<mapsto> c), coros := (coros (s\<lparr>coros := (coros s)(co \<mapsto> c)\<rparr>))(co \<mapsto> d)\<rparr> =
     s\<lparr>coros := (coros s)(co \<mapsto> d)\<rparr>"
  by (cases s) (simp del: fun_upd_apply)

text \<open>Unwinding gives back the frames below, when no frame above is the one it stops at.\<close>

lemma unwind_pops:
  assumes "running s co c" and "frames c = fs @ gs" and "length gs \<le> n"
    and "caller = (if fs = [] then None else Some (last fs))" and "\<forall>g \<in> set gs. caller \<noteq> Some g"
  shows "\<exists>c'. unwind n co caller s = Ok () (s\<lparr>coros := (coros s)(co \<mapsto> c')\<rparr>) \<and>
     running (s\<lparr>coros := (coros s)(co \<mapsto> c')\<rparr>) co c' \<and> frames c' = fs \<and>
     co_callStackLock c' = co_callStackLock c \<and> co_errorHandler c' = co_errorHandler c"
  using assms(1-3,5)
proof (induction gs arbitrary: s c n rule: rev_induct)
  case Nil
  then have c: "coros s co = Some c" "co_currentCallState c = caller"
    using assms(4) by (auto simp: running_def coro_ok_def)
  then have "unwind n co caller s = Ok () s" by (subst unwind.simps) simp
  then show ?case
    using Nil by (intro exI[of _ c], unfold coro_replace_same[OF c(1)]) simp
next
  case (snoc g gs)
  obtain m where n: "n = Suc m" using snoc.prems(3) by (cases n) auto
  have c: "coros s co = Some c" "co_currentCallState c = Some g"
    using snoc.prems(1,2) by (auto simp: running_def coro_ok_def)
  obtain c' where c': "coroutine_function_epilog_no_lock s = Ok () (s\<lparr>coros := (coros s)(co \<mapsto> c')\<rparr>)"
    "running (s\<lparr>coros := (coros s)(co \<mapsto> c')\<rparr>) co c'" "frames c' = fs @ gs"
    "co_callStackLock c' = co_callStackLock c" "co_errorHandler c' = co_errorHandler c"
    using epilog_no_lock_pops[OF snoc.prems(1), of "fs @ gs" g] snoc.prems(2) by auto
  let ?s = "s\<lparr>coros := (coros s)(co \<mapsto> c')\<rparr>"
  have "unwind n co caller s = unwind m co caller ?s"
    using c c'(1) snoc.prems(4) n by (subst unwind.simps) auto
  moreover have "length gs \<le> m" "\<forall>g \<in> set gs. caller \<noteq> Some g" using snoc.prems(3,4) n by simp_all
  from snoc.IH[OF c'(2,3) this, unfolded coro_twice] obtain d where
    "unwind m co caller ?s = Ok () (s\<lparr>coros := (coros s)(co \<mapsto> d)\<rparr>)"
    "running (s\<lparr>coros := (coros s)(co \<mapsto> d)\<rparr>) co d" "frames d = fs"
    "co_callStackLock d = co_callStackLock c'" "co_errorHandler d = co_errorHandler c'" by blast
  ultimately show ?case using c'(4,5) by (intro exI[of _ d]) (simp del: fun_upd_apply)
qed

lemma running_replace:
  "running s co c \<Longrightarrow> coro_ok d \<Longrightarrow> running (s\<lparr>coros := (coros s)(co \<mapsto> d)\<rparr>) co d"
  by (simp add: running_def)

lemma xpcall_caught:
  assumes r: "running s co c" and l: "\<not> co_callStackLock c"
    and x: "thing (s\<lparr>coros := (coros s)(co \<mapsto> c\<lparr>co_errorHandler :=
        Some (case co_errorHandler c of None \<Rightarrow> 0 | Some d \<Rightarrow> Suc d)\<rparr>)\<rparr>) = Throw t"
    and t: "running t co d" "\<not> co_callStackLock d" "frames d = frames c @ gs"
      "\<forall>g \<in> set gs. co_currentCallState c \<noteq> Some g"
  shows "\<exists>u e. interpreter_xpcall n thing None s = Ok False u \<and> running u co e \<and>
     frames e = frames c \<and> co_currentCallState e = co_currentCallState c \<and>
     co_errorHandler e = co_errorHandler c \<and> \<not> co_callStackLock e \<and> errMsg u = errMsg t"
proof -
  have c: "coros s co = Some c" "coro_ok c" and d: "coros t co = Some d" "coro_ok d"
    using r t(1) by (simp_all add: running_def)
  let ?d = "d\<lparr>co_callStackLock := True\<rparr>"
  let ?t = "t\<lparr>coros := (coros t)(co \<mapsto> ?d)\<rparr>"
  have rt: "running ?t co ?d"
    using d by (intro running_replace[OF t(1)]) (simp add: coro_ok_def)
  have sp: "nat (stk_sp (co_callStack d)) = length (frames d)"
    using stk_okD(1)[of "co_callStack d"] d(2) by (simp add: coro_ok_def)
  obtain e where e: "unwind (length (frames d)) co (co_currentCallState c) ?t =
      Ok () (?t\<lparr>coros := (coros ?t)(co \<mapsto> e)\<rparr>)" "running (?t\<lparr>coros := (coros ?t)(co \<mapsto> e)\<rparr>) co e"
      "frames e = frames c"
    using unwind_pops[OF rt, of "frames c" gs "length (frames d)" "co_currentCallState c"] t(3,4) c(2)
    by (auto simp: coro_ok_def)
  let ?e = "e\<lparr>co_callStackLock := False, co_errorHandler := co_errorHandler c\<rparr>"
  let ?u = "t\<lparr>coros := (coros t)(co \<mapsto> ?e)\<rparr>"
  have "interpreter_xpcall n thing None s = Ok False ?u"
    using running_executing(2)[OF r] c(1) x d(1) lock_free[OF d(1) t(2)] sp e(1)
    by (simp add: interpreter_xpcall_def modify_coro_Some Let_def unlock_Some)
  moreover have "coro_ok e" using e(2) by (simp add: running_def)
  then have "coro_ok ?e" "co_currentCallState ?e = co_currentCallState c"
    using e(3) c(2) by (simp_all add: coro_ok_def)
  moreover have "running ?u co ?e" by (rule running_replace[OF t(1)]) fact
  ultimately show ?thesis using e(3) by (intro exI[of _ ?u] exI[of _ ?e]) simp
qed

lemma xpcall_locked:
  assumes r: "running s co c"
    and x: "thing (s\<lparr>coros := (coros s)(co \<mapsto> c\<lparr>co_errorHandler :=
        Some (case co_errorHandler c of None \<Rightarrow> 0 | Some d \<Rightarrow> Suc d)\<rparr>)\<rparr>) = Throw t"
    and t: "running t co d" "co_callStackLock d"
  shows "interpreter_xpcall n thing None s = Fault Deadlock"
  using running_executing(2)[OF r] r x t
  by (simp add: interpreter_xpcall_def running_def modify_coro_Some Let_def lock_callStack_def)

lemma xpcall_returns:
  assumes r: "running s co c"
    and x: "thing (s\<lparr>coros := (coros s)(co \<mapsto> c\<lparr>co_errorHandler :=
        Some (case co_errorHandler c of None \<Rightarrow> 0 | Some d \<Rightarrow> Suc d)\<rparr>)\<rparr>) = Ok () t"
    and t: "coros t = (coros s)(co \<mapsto> c\<lparr>co_errorHandler :=
        Some (case co_errorHandler c of None \<Rightarrow> 0 | Some d \<Rightarrow> Suc d)\<rparr>)"
  shows "interpreter_xpcall n thing None s = Ok True (t\<lparr>coros := coros s\<rparr>)"
proof -
  have "(coros s)(co \<mapsto> c) = coros s" using r by (auto simp: running_def)
  then show ?thesis
    using running_executing(2)[OF r] r x t
    by (simp add: interpreter_xpcall_def running_def modify_coro_Some Let_def)
qed

text \<open>
  C7. A protected call catches an error: when the called block throws with frames left above those
  of the caller, the call returns false, the frames above are popped one by one until the frame of
  the caller is current again, the error message stays, the handler of the surrounding protected
  call is installed again and the call stack is unlocked.
\<close>

theorem xpcall_catches:
  assumes r: "running s co c" and l: "\<not> co_callStackLock c"
    and x: "thing (s\<lparr>coros := (coros s)(co \<mapsto> c\<lparr>co_errorHandler :=
        Some (case co_errorHandler c of None \<Rightarrow> 0 | Some d \<Rightarrow> Suc d)\<rparr>)\<rparr>) = Throw t"
    and t: "running t co d" "\<not> co_callStackLock d" "frames d = frames c @ gs"
      "\<forall>g \<in> set gs. co_currentCallState c \<noteq> Some g"
  shows "\<exists>u e. interpreter_xpcall n thing None s = Ok False u \<and> running u co e \<and>
     frames e = frames c \<and> co_currentCallState e = co_currentCallState c \<and>
     co_errorHandler e = co_errorHandler c \<and> \<not> co_callStackLock e \<and> errMsg u = errMsg t"
  by (rule xpcall_caught[where thing = thing, OF assms])

theorem xpcall_catches_witness:
  "\<exists>u e. interpreter_xpcall 0 (\<lambda>s. Throw ((vm_running [7, 8] FIBER_RUNNING)\<lparr>errMsg := Some (VLong 3)\<rparr>))
       None (vm_running [7] FIBER_RUNNING) = Ok False u \<and>
     running u 100 e \<and> frames e = [7] \<and> co_errorHandler e = None \<and> errMsg u = Some (VLong 3)"
proof -
  have f: "frames (coroutine_of [7, 8] FIBER_RUNNING) = [7] @ [8]" using vm_running_ok(2)[of "[7, 8]"] by simp
  have r: "running ((vm_running [7, 8] FIBER_RUNNING)\<lparr>errMsg := Some (VLong 3)\<rparr>) 100
      (coroutine_of [7, 8] FIBER_RUNNING)"
    using vm_running_ok(1)[of "[7, 8]" FIBER_RUNNING] by (simp add: running_def)
  show ?thesis
    using xpcall_catches[OF vm_running_ok(1)[of "[7]" FIBER_RUNNING] _ _ r,
        where gs = "[8]" and n = 0 and
        thing = "\<lambda>s. Throw ((vm_running [7, 8] FIBER_RUNNING)\<lparr>errMsg := Some (VLong 3)\<rparr>)"]
      vm_running_ok(2)[of "[7]" FIBER_RUNNING] f
    by (auto simp: coroutine_of_def)
qed

end
