(* ===== verification/Util.thy ===== *)
theory Util
  imports Prelude "HOL-Library.Signed_Division"
begin

text \<open>
  \<open>util/util.c\<close>: the rotation of an array that is only reached through a setter and a getter
  block, and the calendar arithmetic of \<open>util_timegm\<close>. Arithmetic on C \<open>int\<close> is arithmetic on
  integers in which a result outside the type is the fault \<open>SignedOverflow\<close>; division and
  remainder truncate.
\<close>

subsection \<open>Rotation\<close>

text \<open>The inner loop, over the indices \<open>len - 1\<close> down to 1.\<close>

fun shift_loop :: "(int \<Rightarrow> 'a \<Rightarrow> 's \<Rightarrow> (unit, 's) res) \<Rightarrow> (int \<Rightarrow> 's \<Rightarrow> ('a, 's) res) \<Rightarrow> int list \<Rightarrow>
    's \<Rightarrow> (unit, 's) res" where
  "shift_loop setter getter [] s = Ok () s"
| "shift_loop setter getter (j # js) s =
     rbind (getter (j - 1) s) (\<lambda>x s. rbind (setter j x s) (\<lambda>_ s. shift_loop setter getter js s))"

definition rotate_round :: "int \<Rightarrow> (int \<Rightarrow> 'a \<Rightarrow> 's \<Rightarrow> (unit, 's) res) \<Rightarrow>
    (int \<Rightarrow> 's \<Rightarrow> ('a, 's) res) \<Rightarrow> 's \<Rightarrow> (unit, 's) res" where
  "rotate_round len setter getter s =
     rbind (getter (len - 1) s) (\<lambda>last s.
     rbind (shift_loop setter getter (rev [1..len - 1]) s) (\<lambda>_ s. setter 0 last s))"

fun rotate_times :: "nat \<Rightarrow> int \<Rightarrow> (int \<Rightarrow> 'a \<Rightarrow> 's \<Rightarrow> (unit, 's) res) \<Rightarrow>
    (int \<Rightarrow> 's \<Rightarrow> ('a, 's) res) \<Rightarrow> 's \<Rightarrow> (unit, 's) res" where
  "rotate_times 0 len setter getter s = Ok () s"
| "rotate_times (Suc n) len setter getter s =
     rbind (rotate_round len setter getter s) (\<lambda>_ s. rotate_times n len setter getter s)"

definition util_collections_rotate :: "int \<Rightarrow> int \<Rightarrow> (int \<Rightarrow> 'a \<Rightarrow> 's \<Rightarrow> (unit, 's) res) \<Rightarrow>
    (int \<Rightarrow> 's \<Rightarrow> ('a, 's) res) \<Rightarrow> 's \<Rightarrow> (unit, 's) res" where
  "util_collections_rotate len n setter getter s =
     (if len = 0 then Fault DivByZero
      else if \<not> int_ok (n sdiv len) then Fault SignedOverflow
      else
        let distance = n smod len in
        if distance = 0 then Ok () s
        else rotate_times (nat (if distance < 0 then len + distance else distance))
               len setter getter s)"

lemma smod_to_mod:
  assumes "0 < (l::int)"
  shows "(if n smod l < 0 then l + n smod l else n smod l) = n mod l"
proof -
  have "0 \<le> n mod l" "n mod l < l" using assms by simp_all
  then show ?thesis by (auto simp: signed_modulo_int_eq_modulo_int)
qed

lemma sdiv_int_ok:
  assumes "int_ok n" and "0 < l"
  shows "int_ok (n sdiv l)"
proof -
  have "\<bar>n\<bar> div l \<le> \<bar>n\<bar>" "0 \<le> \<bar>n\<bar> div l"
    using assms(2) zdiv_mono2[of "\<bar>n\<bar>" 1 l] by (simp_all add: pos_imp_zdiv_nonneg_iff)
  then show ?thesis
    using assms by (cases n "0::int" rule: linorder_cases)
      (simp_all add: int_ok_def INT_MIN_def INT_MAX_def signed_divide_int_def)
qed

lemma left_steps:
  assumes "0 < l"
  shows "(nat (n mod int l) * (l - 1)) mod l = nat ((- n) mod int l)"
proof -
  have "int ((nat (n mod int l) * (l - 1)) mod l) = ((n mod int l) * (int l - 1)) mod int l"
    using assms by (simp add: zmod_int of_nat_diff)
  also have "\<dots> = (n * (int l - 1)) mod int l" by (rule mod_mult_left_eq)
  also have "\<dots> = (- n + n * int l) mod int l" by (simp add: algebra_simps)
  also have "\<dots> = (- n) mod int l" by (rule mod_mult_self1)
  finally show ?thesis by simp
qed

text \<open>
  What the blocks of a caller must provide: the array is a list \<open>items s\<close> of elements that may be
  stored, which the getter reads and the setter updates.
\<close>

locale array_access =
  fixes getter :: "int \<Rightarrow> 's \<Rightarrow> ('a, 's) res" and setter :: "int \<Rightarrow> 'a \<Rightarrow> 's \<Rightarrow> (unit, 's) res"
    and items :: "'s \<Rightarrow> 'a list" and put :: "'s \<Rightarrow> 'a list \<Rightarrow> 's" and valid :: "'s \<Rightarrow> bool"
    and storable :: "'a \<Rightarrow> bool"
  assumes get: "valid s \<Longrightarrow> i < length (items s) \<Longrightarrow> getter (int i) s = Ok (items s ! i) s"
    and set: "valid s \<Longrightarrow> i < length (items s) \<Longrightarrow> storable x \<Longrightarrow>
      setter (int i) x s = Ok () (put s ((items s)[i := x]))"
    and put_valid: "valid s \<Longrightarrow> length xs = length (items s) \<Longrightarrow> \<forall>x \<in> set xs. storable x \<Longrightarrow>
      valid (put s xs) \<and> items (put s xs) = xs"
    and put_put: "valid s \<Longrightarrow> put (put s xs) ys = put s ys"
    and put_items: "valid s \<Longrightarrow> put s (items s) = s"
    and stored: "valid s \<Longrightarrow> \<forall>x \<in> set (items s). storable x"
begin

lemma shift_down:
  assumes "valid s" and "k < length (items s)"
  shows "shift_loop setter getter (rev [1..int k]) s =
     Ok () (put s (hd (items s) # take k (items s) @ drop (k + 1) (items s)))"
  using assms
proof (induction k arbitrary: s)
  case 0
  then have "hd (items s) # take 0 (items s) @ drop (0 + 1) (items s) = items s"
    by (cases "items s") simp_all
  then show ?case using put_items[OF 0(1)] by simp
next
  case (Suc k)
  let ?xs = "items s" and ?t = "put s ((items s)[Suc k := items s ! k])"
  have st: "storable (?xs ! k)" using stored[OF Suc.prems(1)] Suc.prems(2) by simp
  have t: "valid ?t" "items ?t = ?xs[Suc k := ?xs ! k]"
    using put_valid[OF Suc.prems(1), of "?xs[Suc k := ?xs ! k]"] stored[OF Suc.prems(1)] st
    by (auto dest: set_update_subset_insert[THEN subsetD])
  have ih: "shift_loop setter getter (rev [1..int k]) ?t =
      Ok () (put ?t (hd (items ?t) # take k (items ?t) @ drop (k + 1) (items ?t)))"
    using t Suc.prems by (intro Suc.IH) simp_all
  have h: "hd (items ?t) = hd ?xs" using Suc.prems(2) unfolding t(2) by (cases ?xs) simp_all
  have "take k (items ?t) @ drop (k + 1) (items ?t) = take (Suc k) ?xs @ drop (Suc k + 1) ?xs"
    using Suc.prems(2) unfolding t(2)
    by (simp add: take_Suc_conv_app_nth upd_conv_take_nth_drop)
  then have l: "hd (items ?t) # take k (items ?t) @ drop (k + 1) (items ?t) =
      hd ?xs # take (Suc k) ?xs @ drop (Suc k + 1) ?xs" by (simp only: h)
  have r: "rev [1..int (Suc k)] = int (Suc k) # rev [1..int k]" by (simp add: upto_rec2)
  show ?case
    using get[OF Suc.prems(1), of k] set[OF Suc.prems(1,2) st] Suc.prems(2) ih[unfolded l put_put[OF Suc.prems(1)]]
    unfolding r by simp
qed

lemma round_right:
  assumes "valid s" and "items s = xs @ [x]"
  shows "rotate_round (int (length (items s))) setter getter s = Ok () (put s (x # xs))"
proof -
  let ?n = "length xs" and ?t = "put s (hd (items s) # xs)"
  have sh: "shift_loop setter getter (rev [1..int ?n]) s = Ok () ?t"
    using shift_down[OF assms(1), of ?n] assms(2) by simp
  have st: "\<forall>y \<in> set (items s). storable y" by (rule stored[OF assms(1)])
  have t: "valid ?t" "items ?t = hd (items s) # xs"
    using put_valid[OF assms(1), of "hd (items s) # xs"] st assms(2) by (cases xs; auto)+
  have x: "getter (int ?n) s = Ok x s" using get[OF assms(1), of ?n] assms(2) by simp
  have "setter 0 x ?t = Ok () (put ?t (x # xs))"
    using set[OF t(1), of 0 x] t(2) st assms(2) by simp
  then have "setter 0 x ?t = Ok () (put s (x # xs))" by (simp add: put_put[OF assms(1)])
  then show ?thesis using x sh assms(2) by (simp add: rotate_round_def)
qed

lemma times_right:
  assumes "valid s" and "items s \<noteq> []"
  shows "rotate_times n (int (length (items s))) setter getter s =
     Ok () (put s (rotate (n * (length (items s) - 1)) (items s)))"
  using assms
proof (induction n arbitrary: s)
  case 0
  then show ?case by (simp add: put_items)
next
  case (Suc n)
  let ?xs = "items s" and ?l = "length (items s)"
  obtain ys y where ys: "?xs = ys @ [y]" using Suc.prems(2) by (metis rev_exhaust)
  let ?t = "put s (y # ys)"
  have t: "valid ?t" "items ?t = y # ys"
    using put_valid[OF Suc.prems(1), of "y # ys"] stored[OF Suc.prems(1)] ys by auto
  have "rotate (length ys) (ys @ [y]) = [y] @ ys" by (rule rotate_append)
  then have one: "y # ys = rotate (?l - 1) ?xs" using ys by simp
  have len: "length (y # ys) = ?l" using ys by simp
  have "rotate_times (Suc n) (int ?l) setter getter s = rotate_times n (int (length (items ?t))) setter getter ?t"
    using round_right[OF Suc.prems(1) ys] t(2) ys by simp
  also have "\<dots> = Ok () (put ?t (rotate (n * (length (items ?t) - 1)) (items ?t)))"
    using t by (intro Suc.IH) simp_all
  also have "rotate (n * (length (items ?t) - 1)) (items ?t) = rotate (n * (?l - 1)) (y # ys)"
    unfolding t(2) len ..
  also have "\<dots> = rotate (Suc n * (?l - 1)) ?xs"
    unfolding one rotate_rotate by (simp add: add.commute)
  finally show ?case by (simp add: put_put[OF Suc.prems(1)])
qed

text \<open>Rotating to the right by \<open>n\<close>, to the left by \<open>- n\<close>.\<close>

lemma rotates:
  assumes "valid s" and "items s \<noteq> []" and "int_ok n"
  shows "util_collections_rotate (int (length (items s))) n setter getter s =
     Ok () (put s (rotate (nat ((- n) mod int (length (items s)))) (items s)))"
proof -
  let ?l = "length (items s)"
  let ?d = "n smod int ?l"
  let ?e = "if ?d < 0 then int ?l + ?d else ?d"
  have l: "0 < int ?l" using assms(2) by simp
  have e: "?e = n mod int ?l" by (rule smod_to_mod[OF l])
  have k: "int_ok (n sdiv int ?l)" by (rule sdiv_int_ok[OF assms(3) l])
  show ?thesis
  proof (cases "?d = 0")
    case True
    then have "int ?l dvd n" using e by auto
    then have "(- n) mod int ?l = 0" by simp
    then show ?thesis using True k assms(2) put_items[OF assms(1)] by (simp add: util_collections_rotate_def)
  next
    case False
    have "(nat (n mod int ?l) * (?l - 1)) mod ?l = nat ((- n) mod int ?l)"
      by (rule left_steps) (use assms(2) in simp)
    then have "rotate (nat (n mod int ?l) * (?l - 1)) (items s) = rotate (nat ((- n) mod int ?l)) (items s)"
      by (metis rotate_conv_mod)
    then show ?thesis
      using False k assms(2) times_right[OF assms(1,2), of "nat ?e"] unfolding e
      by (simp add: util_collections_rotate_def Let_def e)
  qed
qed

end

subsection \<open>The calendar\<close>

text \<open>\<open>int\<close> arithmetic: \<open>None\<close> is an overflow.\<close>

definition cint :: "int \<Rightarrow> int option" where
  "cint n = (if int_ok n then Some n else None)"

definition days_from_epoch :: "int \<Rightarrow> int \<Rightarrow> int \<Rightarrow> int option" where
  "days_from_epoch y m d =
     Option.bind (cint (y - (if m \<le> 2 then 1 else 0))) (\<lambda>y.
     let era = y sdiv 400;
         yoe = y - era * 400
     in Option.bind (cint (m + (if 2 < m then -3 else 9))) (\<lambda>mp.
        Option.bind (cint (153 * mp)) (\<lambda>x. Option.bind (cint (x + 2)) (\<lambda>x.
        Option.bind (cint (x sdiv 5 + d)) (\<lambda>x. Option.bind (cint (x - 1)) (\<lambda>doy.
        Option.bind (cint (yoe * 365 + yoe sdiv 4 - yoe sdiv 100 + doy)) (\<lambda>doe.
        Option.bind (cint (era * 146097)) (\<lambda>x. Option.bind (cint (x + doe)) (\<lambda>x.
          cint (x - 719468))))))))))"

record tm =
  tm_year :: int
  tm_mon :: int
  tm_mday :: int
  tm_hour :: int
  tm_min :: int
  tm_sec :: int

text \<open>The month is brought into a year; the seconds are computed in \<open>long\<close>.\<close>

definition util_timegm :: "tm \<Rightarrow> int option" where
  "util_timegm t =
     Option.bind (cint (tm_year t + 1900)) (\<lambda>year.
     let month = tm_mon t in
     Option.bind
       (if 11 < month then
          Option.bind (cint (year + month sdiv 12)) (\<lambda>year. Some (year, month smod 12))
        else if month < 0 then
          Option.bind (cint (11 - month)) (\<lambda>x.
            let years_diff = x sdiv 12 in
            Option.bind (cint (year - years_diff)) (\<lambda>year.
            Option.bind (cint (month + 12 * years_diff)) (\<lambda>month. Some (year, month))))
        else Some (year, month)) (\<lambda>(year, month).
     Option.bind (cint (month + 1)) (\<lambda>m.
     Option.bind (days_from_epoch year m (tm_mday t)) (\<lambda>days.
       Some (60 * (60 * (24 * days + tm_hour t) + tm_min t) + tm_sec t)))))"

text \<open>The Gregorian calendar.\<close>

definition leap :: "int \<Rightarrow> bool" where
  "leap y \<longleftrightarrow> 4 dvd y \<and> (\<not> 100 dvd y \<or> 400 dvd y)"

definition month_days :: "int \<Rightarrow> int \<Rightarrow> int" where
  "month_days y m =
     (if m = 2 then (if leap y then 29 else 28) else if m \<in> {4, 6, 9, 11} then 30 else 31)"

definition valid_date :: "int \<Rightarrow> int \<Rightarrow> int \<Rightarrow> bool" where
  "valid_date y m d \<longleftrightarrow> 1 \<le> m \<and> m \<le> 12 \<and> 1 \<le> d \<and> d \<le> month_days y m"

fun next_day :: "int \<times> int \<times> int \<Rightarrow> int \<times> int \<times> int" where
  "next_day (y, m, d) =
     (if d < month_days y m then (y, m, d + 1)
      else if m < 12 then (y, m + 1, 1)
      else (y + 1, 1, 1))"

text \<open>The formula without the overflow checks, which pass up to the year 5000000.\<close>

definition day_number :: "int \<Rightarrow> int \<Rightarrow> int \<Rightarrow> int" where
  "day_number y m d =
     (let y = y - (if m \<le> 2 then 1 else 0); yoe = y mod 400
      in y div 400 * 146097 + (yoe * 365 + yoe div 4 - yoe div 100
         + ((153 * (m + (if 2 < m then -3 else 9)) + 2) div 5 + d - 1)) - 719468)"

lemma sdiv_pos: "0 \<le> a \<Longrightarrow> 0 < b \<Longrightarrow> (a::int) sdiv b = a div b"
  by (simp add: signed_divide_int_def sgn_if)

lemma days_from_epoch_number:
  assumes "1 \<le> y" and "y \<le> 5000000" and "1 \<le> m" and "m \<le> 12" and "1 \<le> d" and "d \<le> 31"
  shows "days_from_epoch y m d = Some (day_number y m d)"
proof -
  let ?y = "y - (if m \<le> 2 then 1 else 0)" and ?m = "m + (if 2 < m then -3 else 9)"
  have y: "0 \<le> ?y" "?y \<le> 5000000" and m: "0 \<le> ?m" "?m \<le> 11" using assms by auto
  have ok: "int_ok n" if "-2000000000 \<le> n" "n \<le> 2000000000" for n
    using that by (simp add: int_ok_def INT_MIN_def INT_MAX_def)
  define Y M e r q where defs: "Y = ?y" "M = ?m" "e = Y div 400" "r = Y mod 400" "q = (153 * M + 2) div 5"
  have Y: "0 \<le> Y" "Y \<le> 5000000" and M: "0 \<le> M" "M \<le> 11" using y m by (simp_all only: defs)
  have e: "Y sdiv 400 = e" "Y - e * 400 = r" "0 \<le> e" "e \<le> 12500"
    using Y by (simp_all add: sdiv_pos defs(3,4) minus_div_mult_eq_mod pos_imp_zdiv_nonneg_iff div_le_dividend)
  have r: "0 \<le> r" "r \<le> 399" "r sdiv 4 = r div 4" "r sdiv 100 = r div 100"
    using defs(4) by (simp_all add: sdiv_pos)
  have q: "(153 * M + 2) sdiv 5 = q" "0 \<le> q" "q \<le> 400" using M by (simp_all add: sdiv_pos defs(5))
  have "0 \<le> r div 4" "r div 4 \<le> 100" "0 \<le> r div 100" "r div 100 \<le> 4" using r(1,2) by simp_all
  then have c: "cint Y = Some Y" "cint M = Some M" "cint (153 * M) = Some (153 * M)"
    "cint (153 * M + 2) = Some (153 * M + 2)" "cint (q + d) = Some (q + d)" "cint (q + d - 1) = Some (q + d - 1)"
    "cint (r * 365 + r div 4 - r div 100 + (q + d - 1)) = Some (r * 365 + r div 4 - r div 100 + (q + d - 1))"
    "cint (e * 146097) = Some (e * 146097)"
    "cint (e * 146097 + (r * 365 + r div 4 - r div 100 + (q + d - 1))) =
       Some (e * 146097 + (r * 365 + r div 4 - r div 100 + (q + d - 1)))"
    "cint (e * 146097 + (r * 365 + r div 4 - r div 100 + (q + d - 1)) - 719468) =
       Some (e * 146097 + (r * 365 + r div 4 - r div 100 + (q + d - 1)) - 719468)"
    using Y M e(3,4) r(1,2) q(2,3) assms(5,6) by (auto simp: cint_def intro!: ok)
  show ?thesis
    unfolding days_from_epoch_def day_number_def Let_def defs(1)[symmetric] defs(2)[symmetric] c
      Option.bind.simps e r(3,4) q(1) defs(3)[symmetric] defs(4)[symmetric] defs(5)[symmetric]
    by simp
qed


text \<open>Days before the March of a year.\<close>

definition year_number :: "int \<Rightarrow> int" where
  "year_number y = (let r = y mod 400 in y div 400 * 146097 + (r * 365 + r div 4 - r div 100))"

lemma div_step: "0 < (k::int) \<Longrightarrow> (z + 1) div k = z div k + (if k dvd z + 1 then 1 else 0)"
proof -
  assume k: "0 < k"
  define q m where defs: "q = z div k" "m = z mod k"
  have z: "z + 1 = k * q + (m + 1)" and m: "0 \<le> m" "m < k" using k by (simp_all add: defs)
  have "(z + 1) div k = q + (m + 1) div k" "k dvd z + 1 \<longleftrightarrow> k dvd m + 1"
    unfolding z using k by (simp_all add: dvd_add_right_iff)
  moreover have "m + 1 = k \<or> m + 1 < k" using m(2) by linarith
  ultimately show ?thesis
    using k m(1) zdvd_not_zless[of "m + 1" k] by (auto simp: defs(1))
qed

lemma year_number_step:
  "year_number y = year_number (y - 1) + 365 + (if leap y then 1 else 0)"
proof -
  define z q r where defs: "z = y - 1" "q = z div 400" "r = z mod 400"
  have y: "y = 400 * q + (r + 1)" and r: "0 \<le> r" "r < 400" by (simp_all add: defs)
  show ?thesis
  proof (cases "r = 399")
    case True
    then have "y div 400 = q + 1" "y mod 400 = 0" using y by simp_all
    moreover from this have "leap y" by (auto simp: leap_def)
    ultimately show ?thesis using True defs by (simp add: year_number_def)
  next
    case False
    then have d: "y div 400 = q" "y mod 400 = r + 1" using y r by simp_all
    have "leap y \<longleftrightarrow> 4 dvd r + 1 \<and> \<not> 100 dvd r + 1"
      using r False zdvd_not_zless[of "r + 1" 400] unfolding leap_def y
      by (auto simp: dvd_add_right_iff)
    moreover have "100 dvd r + 1 \<Longrightarrow> 4 dvd r + 1" by presburger
    moreover have "year_number y = q * 146097 + ((r + 1) * 365 + (r + 1) div 4 - (r + 1) div 100)"
      "year_number (y - 1) = q * 146097 + (r * 365 + r div 4 - r div 100)"
      unfolding year_number_def Let_def d defs by (rule refl)+
    ultimately show ?thesis using div_step[of 4 r] div_step[of 100 r] by (auto split: if_splits)
  qed
qed

lemma day_number_year:
  "day_number y m d = year_number (y - (if m \<le> 2 then 1 else 0))
     + ((153 * (m + (if 2 < m then -3 else 9)) + 2) div 5 + d - 1) - 719468"
  by (simp add: day_number_def year_number_def Let_def)

lemma day_number_next:
  assumes "valid_date y m d"
  shows "(case next_day (y, m, d) of (y', m', d') \<Rightarrow> day_number y' m' d') = day_number y m d + 1"
proof -
  have m: "m \<in> {1, 2, 3, 4, 5, 6, 7, 8, 9, 10, 11, 12}"
    using assms unfolding valid_date_def insert_iff empty_iff by presburger
  consider "d < month_days y m" | "d = month_days y m" "m = 12" | "d = month_days y m" "m = 2"
    | "d = month_days y m" "m \<noteq> 2" "m < 12"
    using assms unfolding valid_date_def by linarith
  then show ?thesis
  proof cases
    case 1
    then show ?thesis by (simp add: day_number_def Let_def)
  next
    case 2
    then show ?thesis by (simp add: day_number_def Let_def month_days_def)
  next
    case 3
    then show ?thesis
      using year_number_step[of y] by (simp add: day_number_year month_days_def)
  next
    case 4
    then show ?thesis using m by (auto simp: day_number_def Let_def month_days_def)
  qed
qed

lemma month_days_bounds: "28 \<le> month_days y m \<and> month_days y m \<le> 31"
  by (simp add: month_days_def)

text \<open>
  \<open>days_from_epoch\<close> counts days: 1970-01-01 is day 0, and in the years 1 to 5000000 the number
  of a date of the Gregorian calendar exists and the number of the following day is one more,
  through the ends of months, leap days, years and centuries.
\<close>

theorem days_from_epoch_counts:
  assumes "valid_date y m d" and "1 \<le> y" and "y < 5000000"
  shows "days_from_epoch 1970 1 1 = Some 0 \<and>
    (\<exists>n. days_from_epoch y m d = Some n \<and>
      (case next_day (y, m, d) of (y', m', d') \<Rightarrow> days_from_epoch y' m' d' = Some (n + 1)))"
proof -
  obtain y' m' d' where n: "next_day (y, m, d) = (y', m', d')" by (cases "next_day (y, m, d)") auto
  have b: "1 \<le> y'" "y' \<le> 5000000" "1 \<le> m'" "m' \<le> 12" "1 \<le> d'" "d' \<le> 31"
    using n assms month_days_bounds[of y m] by (auto simp: valid_date_def split: if_splits)
  have "days_from_epoch y m d = Some (day_number y m d)"
    using assms month_days_bounds[of y m] by (intro days_from_epoch_number) (simp_all add: valid_date_def)
  moreover have "days_from_epoch y' m' d' = Some (day_number y' m' d')" by (rule days_from_epoch_number[OF b])
  moreover have "day_number y' m' d' = day_number y m d + 1" using day_number_next[OF assms(1)] n by simp
  moreover have "days_from_epoch 1970 1 1 = Some 0"
    by (simp add: days_from_epoch_number day_number_def)
  ultimately show ?thesis using n by simp
qed

theorem days_from_epoch_counts_witness:
  "\<exists>n. days_from_epoch 2000 2 29 = Some n \<and> days_from_epoch 2000 3 1 = Some (n + 1)"
proof -
  have "valid_date 2000 2 29" by (simp add: valid_date_def month_days_def leap_def)
  then show ?thesis
    using days_from_epoch_counts[of 2000 2 29] by (simp add: month_days_def leap_def)
qed

text \<open>
  \<open>util_timegm\<close> brings a month outside the year into it: \<open>k\<close> years given as \<open>12 * k\<close> months,
  positive or negative, name the same second, which is the one the day number and the time of day
  give.
\<close>

theorem util_timegm_normalizes:
  assumes "1 \<le> y" and "y \<le> 5000000" and "1 \<le> m" and "m \<le> 12" and "1 \<le> d" and "d \<le> 31"
    and "\<bar>k\<bar> \<le> 1000000"
  shows "util_timegm \<lparr>tm_year = y - k - 1900, tm_mon = 12 * k + (m - 1), tm_mday = d, tm_hour = h,
      tm_min = mi, tm_sec = se\<rparr> =
    map_option (\<lambda>n. 86400 * n + 3600 * h + 60 * mi + se) (days_from_epoch y m d)"
proof -
  have c: "cint n = Some n" if "-2000000000 \<le> n" "n \<le> 2000000000" for n
    using that by (simp add: cint_def int_ok_def INT_MIN_def INT_MAX_def)
  have days: "days_from_epoch y m d = Some (day_number y m d)" using assms by (intro days_from_epoch_number)
  consider "0 < k" | "k = 0" | "k < 0" by linarith
  then show ?thesis
  proof cases
    case 1
    then have "(12 * k + (m - 1)) sdiv 12 = k" "(12 * k + (m - 1)) smod 12 = m - 1"
      using assms by (simp_all add: sdiv_pos smod_mod_positive)
    then show ?thesis using 1 assms c days by (simp add: util_timegm_def Let_def)
  next
    case 2
    then show ?thesis using assms c days by (simp add: util_timegm_def Let_def)
  next
    case 3
    have "(11 - (12 * k + (m - 1))) sdiv 12 = (12 * (- k) + (12 - m)) div 12"
      using 3 assms by (subst sdiv_pos) (simp_all add: algebra_simps)
    also have "\<dots> = - k" using assms by simp
    finally show ?thesis using 3 assms c days by (simp add: util_timegm_def Let_def)
  qed
qed

theorem util_timegm_normalizes_witness:
  "util_timegm \<lparr>tm_year = 71, tm_mon = -12, tm_mday = 1, tm_hour = 0, tm_min = 1, tm_sec = 0\<rparr> = Some 60"
  using util_timegm_normalizes[of 1970 1 1 "-1" 0 1 0]
  by (simp add: days_from_epoch_number day_number_def)

end
