(* ===== verification/Lua54.thy ===== *)
theory Lua54
  imports Calls Util
begin

text \<open>
  \<open>api_layer/lua54.c\<close>: the Lua 5.4 C API on top of the virtual machine. A \<open>lua_State\<close> is a
  coroutine, its stack the general stack of the current frame. C functions are parameters, known
  by their address; so are the addresses of the two trampolines. The status codes and the types of
  \<open>lua54.h\<close> are numbers in the code; the types are a datatype here, with their numbers.
\<close>

unbundle bit_operations_syntax

subsection \<open>The global table\<close>

definition fluffyvm_set_global :: "value \<Rightarrow> vm \<Rightarrow> (unit, vm) res" where
  "fluffyvm_set_global v s =
     (if v = VNotPresent then Fault Aborted else Ok () (s\<lparr>globalTable := v\<rparr>))"

definition fluffyvm_get_global :: "vm \<Rightarrow> (value, vm) res" where
  "fluffyvm_get_global s =
     (if globalTable s = VNotPresent then Fault Aborted else Ok (globalTable s) s)"

subsection \<open>Stack indices\<close>

definition LUA_MULTRET :: int where "LUA_MULTRET = -1"
definition LUA_OK :: int where "LUA_OK = 0"
definition LUA_ERRRUN :: int where "LUA_ERRRUN = 1"

definition FLUFFYVM_COMPAT_LAYER_IS_PSEUDO_INDEX :: "int \<Rightarrow> bool" where
  "FLUFFYVM_COMPAT_LAYER_IS_PSEUDO_INDEX idx \<longleftrightarrow> idx AND 0x8000000 \<noteq> 0"

text \<open>\<open>L->currentCallState\<close>, and the text \<open>__func__: ...\<close> of a message.\<close>

definition lua_frame :: "addr \<Rightarrow> vm \<Rightarrow> (addr \<times> call_state, vm) res" where
  "lua_frame L s =
     rbind (deref (coros s) L s) (\<lambda>c s.
       case co_currentCallState c of
         None \<Rightarrow> Fault NullDeref
       | Some cs \<Rightarrow> rbind (deref (cstates s) cs s) (\<lambda>st s. Ok (cs, st) s))"

definition api_message :: "string \<Rightarrow> string \<Rightarrow> byte list" where
  "api_message func text = bytes_of (''fluffyvm_compat_lua54_'' @ func @ '': '' @ text)"

definition raise_errmsg :: "vm \<Rightarrow> ('a, vm) res" where
  "raise_errmsg s = interpreter_error (fluffyvm_get_errmsg s) s"

definition raise_static :: "static_string \<Rightarrow> vm \<Rightarrow> ('a, vm) res" where
  "raise_static m s = interpreter_error (staticStrings s m) s"

definition lua_gettop :: "addr \<Rightarrow> vm \<Rightarrow> (int, vm) res" where
  "lua_gettop L s = rbind (lua_frame L s) (\<lambda>(cs, st) s. Ok (cs_sp st) s)"

definition lua_absindex :: "addr \<Rightarrow> int \<Rightarrow> vm \<Rightarrow> (int, vm) res" where
  "lua_absindex L idx s =
     (if idx = 0 then raise_static SS_invalidStackIndex s
      else rbind (lua_gettop L s) (\<lambda>sp s.
        let result = (if idx < 0 then sp + idx + 1 else idx) in
        if idx < 0 \<and> result \<le> 0 then raise_static SS_invalidStackIndex s
        else if sp < result then raise_static SS_invalidStackIndex s
        else Ok result s))"

definition getValueAtStackIndex :: "addr \<Rightarrow> int \<Rightarrow> vm \<Rightarrow> (value, vm) res" where
  "getValueAtStackIndex L idx s =
     (if FLUFFYVM_COMPAT_LAYER_IS_PSEUDO_INDEX idx \<and> 0 < idx then Fault Aborted
      else rbind (lua_absindex L idx s) (\<lambda>i s. rbind (lua_frame L s) (\<lambda>(cs, st) s.
        rbind (interpreter_peek cs (i - 1) s) (\<lambda>r s.
          case r of None \<Rightarrow> raise_errmsg s | Some v \<Rightarrow> Ok v s))))"

definition lua_checkstack :: "addr \<Rightarrow> int \<Rightarrow> vm \<Rightarrow> (bool, vm) res" where
  "lua_checkstack L n s =
     (if n < 0 then interpreter_error_printf
        (api_message ''lua_checkstack'' (''expect positive n got '' @ fmt_long n)) s
      else rbind (lua_frame L s) (\<lambda>(cs, st) s.
        if \<not> int_ok (cs_sp st + n) then Fault SignedOverflow
        else Ok (cs_sp st + n \<le> int (length (cs_generalStack st))) s))"

definition ensureStackFits :: "addr \<Rightarrow> int \<Rightarrow> vm \<Rightarrow> (unit, vm) res" where
  "ensureStackFits L n s =
     rbind (lua_checkstack L n s) (\<lambda>ok s. if \<not> ok then raise_static SS_stackOverflow s else Ok () s)"

subsection \<open>Moving values on the stack\<close>

definition store_cell :: "addr \<Rightarrow> int \<Rightarrow> value \<Rightarrow> vm \<Rightarrow> (unit, vm) res" where
  "store_cell cs i v s =
     rbind (stack_cell cs i s) (\<lambda>_ s. rbind (value_get_object_ptr v s) (\<lambda>_ s.
       modify_cstate cs (\<lambda>st. st\<lparr>cs_generalStack := (cs_generalStack st)[nat i := v]\<rparr>) s))"

definition lua_copy :: "addr \<Rightarrow> int \<Rightarrow> int \<Rightarrow> vm \<Rightarrow> (unit, vm) res" where
  "lua_copy L fromidx toidx s =
     rbind (lua_frame L s) (\<lambda>(cs, st) s. rbind (lua_absindex L toidx s) (\<lambda>dest s.
     rbind (getValueAtStackIndex L fromidx s) (\<lambda>v s. store_cell cs (dest - 1) v s)))"

fun pop_times :: "addr \<Rightarrow> nat \<Rightarrow> vm \<Rightarrow> (unit, vm) res" where
  "pop_times L 0 s = Ok () s"
| "pop_times L (Suc n) s =
     rbind (lua_frame L s) (\<lambda>(cs, st) s. rbind (interpreter_pop cs s) (\<lambda>r s.
       if r = None then raise_static SS_stackUnderflow s else pop_times L n s))"

definition lua_pop :: "addr \<Rightarrow> int \<Rightarrow> vm \<Rightarrow> (unit, vm) res" where
  "lua_pop L count s =
     (if count = 0 then Ok () s
      else if count < 0 then interpreter_error_printf
        (api_message ''lua_pop'' (''expected positive count got '' @ fmt_long count)) s
      else pop_times L (nat count) s)"

text \<open>The getter keeps the value alive by a root reference, which takes its object pointer.\<close>

definition rotate_get :: "addr \<Rightarrow> int \<Rightarrow> int \<Rightarrow> vm \<Rightarrow> (value, vm) res" where
  "rotate_get cs start idx s =
     rbind (stack_cell cs (start + idx) s) (\<lambda>v s. rbind (value_get_object_ptr v s) (\<lambda>_ s. Ok v s))"

definition rotate_set :: "addr \<Rightarrow> int \<Rightarrow> int \<Rightarrow> value \<Rightarrow> vm \<Rightarrow> (unit, vm) res" where
  "rotate_set cs start idx v s = store_cell cs (start + idx) v s"

definition lua_rotate :: "addr \<Rightarrow> int \<Rightarrow> int \<Rightarrow> vm \<Rightarrow> (unit, vm) res" where
  "lua_rotate L idx n s =
     rbind (lua_absindex L idx s) (\<lambda>i s. rbind (lua_gettop L s) (\<lambda>top s.
     rbind (lua_frame L s) (\<lambda>(cs, st) s.
       let start = i - 1; size = top - start
       in util_collections_rotate size n (rotate_set cs start) (rotate_get cs start) s)))"

definition lua_remove :: "addr \<Rightarrow> int \<Rightarrow> vm \<Rightarrow> (unit, vm) res" where
  "lua_remove L idx s = rbind (lua_rotate L idx (-1) s) (\<lambda>_ s. lua_pop L 1 s)"

definition lua_replace :: "addr \<Rightarrow> int \<Rightarrow> vm \<Rightarrow> (unit, vm) res" where
  "lua_replace L idx s = rbind (lua_copy L (-1) idx s) (\<lambda>_ s. lua_pop L 1 s)"

text \<open>Pushing behind \<open>ensureStackFits\<close>; the result of the push is not looked at.\<close>

definition push_top :: "addr \<Rightarrow> value \<Rightarrow> vm \<Rightarrow> (unit, vm) res" where
  "push_top L v s =
     rbind (lua_frame L s) (\<lambda>(cs, st) s. rbind (interpreter_push cs v s) (\<lambda>_ s. Ok () s))"

definition lua_pushvalue :: "addr \<Rightarrow> int \<Rightarrow> vm \<Rightarrow> (unit, vm) res" where
  "lua_pushvalue L idx s =
     rbind (ensureStackFits L 1 s) (\<lambda>_ s. rbind (getValueAtStackIndex L idx s) (\<lambda>v s.
       push_top L v s))"

definition lua_pushnil :: "addr \<Rightarrow> vm \<Rightarrow> (unit, vm) res" where
  "lua_pushnil L s = rbind (ensureStackFits L 1 s) (\<lambda>_ s. push_top L VNil s)"

definition lua_pushboolean :: "addr \<Rightarrow> int \<Rightarrow> vm \<Rightarrow> (unit, vm) res" where
  "lua_pushboolean L b s =
     rbind (ensureStackFits L 1 s) (\<lambda>_ s. push_top L (value_new_bool (b \<noteq> 0)) s)"

definition lua_pushinteger :: "addr \<Rightarrow> 64 word \<Rightarrow> vm \<Rightarrow> (unit, vm) res" where
  "lua_pushinteger L integer s =
     rbind (ensureStackFits L 1 s) (\<lambda>_ s. push_top L (value_new_long integer) s)"

definition lua_pushnumber :: "addr \<Rightarrow> dbl \<Rightarrow> vm \<Rightarrow> (unit, vm) res" where
  "lua_pushnumber L number s =
     rbind (ensureStackFits L 1 s) (\<lambda>_ s. push_top L (value_new_double number) s)"

text \<open>A string that found no memory is pushed all the same, where the assertion of the push fails.\<close>

definition push_string :: "addr \<Rightarrow> value \<times> vm \<Rightarrow> (unit, vm) res" where
  "push_string L r = (case r of (v, s) \<Rightarrow> push_top L v s)"

definition lua_pushstring :: "addr \<Rightarrow> byte list \<Rightarrow> vm \<Rightarrow> (byte list, vm) res" where
  "lua_pushstring L str s =
     rbind (ensureStackFits L 1 s) (\<lambda>_ s. rbind (push_string L (value_new_string s str)) (\<lambda>_ s. Ok str s))"

definition lua_pushliteral :: "addr \<Rightarrow> byte list \<Rightarrow> vm \<Rightarrow> (byte list, vm) res" where
  "lua_pushliteral L str s =
     rbind (ensureStackFits L 1 s) (\<lambda>_ s.
     rbind (push_string L (value_new_string_constant s str)) (\<lambda>_ s. Ok str s))"

definition lua_pushlstring :: "addr \<Rightarrow> byte list \<Rightarrow> vm \<Rightarrow> (byte list, vm) res" where
  "lua_pushlstring L str s =
     rbind (ensureStackFits L 1 s) (\<lambda>_ s. rbind (push_string L (value_new_string2 s str)) (\<lambda>_ s. Ok str s))"

definition lua_pushglobaltable :: "addr \<Rightarrow> vm \<Rightarrow> (unit, vm) res" where
  "lua_pushglobaltable L s =
     rbind (ensureStackFits L 1 s) (\<lambda>_ s. rbind (lua_frame L s) (\<lambda>(cs, st) s.
     rbind (deref (closures s) (cs_closure st) s) (\<lambda>cl s. push_top L (cl_env cl) s)))"

definition lua_pushthread :: "addr \<Rightarrow> vm \<Rightarrow> (bool, vm) res" where
  "lua_pushthread L s =
     rbind (ensureStackFits L 1 s) (\<lambda>_ s. rbind (push_top L (value_new_coroutine2 L) s) (\<lambda>_ s.
       Ok (mainThread s = Some L) s))"

definition lua_pushlightuserdata :: "addr \<Rightarrow> nat \<Rightarrow> vm \<Rightarrow> (unit, vm) res" where
  "lua_pushlightuserdata L ptr s =
     rbind (ensureStackFits L 1 s) (\<lambda>_ s.
     rbind (value_new_light_userdata s (luaModuleID s) (luaUserdataType s) ptr) (\<lambda>v s.
       push_top L v s))"

subsection \<open>Reading the stack\<close>

text \<open>
  \<open>lua_tolstring\<close> reads the cell itself, converts a number in place, and gives the bytes and the
  length. The number conversions give whether it was one and the number.
\<close>

definition number_in_place :: "ext \<Rightarrow> addr \<Rightarrow> int \<Rightarrow> value \<Rightarrow> vm \<Rightarrow> (value, vm) res" where
  "number_in_place ex cs location val s =
     rbind (value_tostring ex val s) (\<lambda>tmp s.
       if tmp = VNotPresent then raise_errmsg s
       else rbind (store_cell cs location tmp s) (\<lambda>_ s. Ok tmp s))"

definition lua_tolstring :: "ext \<Rightarrow> addr \<Rightarrow> int \<Rightarrow> vm \<Rightarrow> (byte list option \<times> u64, vm) res" where
  "lua_tolstring ex L idx s =
     rbind (lua_frame L s) (\<lambda>(cs, st) s. rbind (lua_absindex L idx s) (\<lambda>i s.
     rbind (stack_cell cs (i - 1) s) (\<lambda>val s.
     rbind (case type_tag val of
         TVALUE_STRING \<Rightarrow> Ok val s
       | TVALUE_LONG \<Rightarrow> number_in_place ex cs (i - 1) val s
       | TVALUE_DOUBLE \<Rightarrow> number_in_place ex cs (i - 1) val s
       | _ \<Rightarrow> rbind (typename_arg val s) (\<lambda>t s. interpreter_error_printf
           (api_message ''lua_tolstring'' ''expect long or number got '' @ t) s)) (\<lambda>val s.
     rbind (value_get_len val s) (\<lambda>len s. rbind (value_get_string val s) (\<lambda>str s.
       Ok (str, len) s))))))"

definition lua_tostring :: "ext \<Rightarrow> addr \<Rightarrow> int \<Rightarrow> vm \<Rightarrow> (byte list option, vm) res" where
  "lua_tostring ex L idx s = rbind (lua_tolstring ex L idx s) (\<lambda>(str, _) s. Ok str s)"

definition lua_topointer :: "addr \<Rightarrow> int \<Rightarrow> vm \<Rightarrow> (addr option, vm) res" where
  "lua_topointer L idx s =
     rbind (getValueAtStackIndex L idx s) (\<lambda>v s. value_get_unique_ptr v s)"

definition lua_tonumberx :: "ext \<Rightarrow> addr \<Rightarrow> int \<Rightarrow> vm \<Rightarrow> (bool \<times> dbl, vm) res" where
  "lua_tonumberx ex L idx s =
     rbind (getValueAtStackIndex L idx s) (\<lambda>v s. rbind (value_todouble ex v s) (\<lambda>number s.
       case number of
         VNotPresent \<Rightarrow> Ok (False, 0) s
       | VDouble d \<Rightarrow> Ok (True, d) s
       | _ \<Rightarrow> Fault TypeConfusion))"

definition lua_tonumber :: "ext \<Rightarrow> addr \<Rightarrow> int \<Rightarrow> vm \<Rightarrow> (dbl, vm) res" where
  "lua_tonumber ex L idx s = rbind (lua_tonumberx ex L idx s) (\<lambda>(_, d) s. Ok d s)"

text \<open>The conversion to an integer goes through a double; out of range it is undefined.\<close>

definition lua_tointegerx :: "ext \<Rightarrow> addr \<Rightarrow> int \<Rightarrow> vm \<Rightarrow> (bool \<times> 64 word, vm) res" where
  "lua_tointegerx ex L idx s =
     rbind (lua_tonumberx ex L idx s) (\<lambda>(isnum, d) s.
       case fp_to_int64 d of
         None \<Rightarrow> Fault SignedOverflow
       | Some n \<Rightarrow> Ok (isnum, word_of_int n) s)"

definition lua_tointeger :: "ext \<Rightarrow> addr \<Rightarrow> int \<Rightarrow> vm \<Rightarrow> (64 word, vm) res" where
  "lua_tointeger ex L idx s = rbind (lua_tointegerx ex L idx s) (\<lambda>(_, n) s. Ok n s)"

definition lua_touserdata :: "addr \<Rightarrow> int \<Rightarrow> vm \<Rightarrow> (addr option, vm) res" where
  "lua_touserdata L idx s =
     rbind (getValueAtStackIndex L idx s) (\<lambda>v s.
       case v of
         VFullUserdata a \<Rightarrow> rbind (deref (udatas s) a s) (\<lambda>u s. Ok (ud_data u) s)
       | VLightUserdata a \<Rightarrow> rbind (deref (udatas s) a s) (\<lambda>u s. Ok (ud_data u) s)
       | _ \<Rightarrow> Ok None s)"

definition lua_tothread :: "addr \<Rightarrow> int \<Rightarrow> vm \<Rightarrow> (addr option, vm) res" where
  "lua_tothread L idx s =
     rbind (getValueAtStackIndex L idx s) (\<lambda>v s.
       case v of VCoroutine a \<Rightarrow> Ok (Some a) s | _ \<Rightarrow> Ok None s)"

definition lua_toboolean :: "addr \<Rightarrow> int \<Rightarrow> vm \<Rightarrow> (bool, vm) res" where
  "lua_toboolean L idx s =
     rbind (getValueAtStackIndex L idx s) (\<lambda>v s. Ok (\<not> (v = VBool False \<or> v = VNil)) s)"

definition lua_tocfunction :: "addr \<Rightarrow> int \<Rightarrow> vm \<Rightarrow> (nat option, vm) res" where
  "lua_tocfunction L idx s =
     rbind (getValueAtStackIndex L idx s) (\<lambda>v s.
       case v of
         VClosure a \<Rightarrow> rbind (deref (closures s) a s) (\<lambda>cl s.
           Ok (if \<not> cl_isNative cl then None else cl_luaCFunction cl) s)
       | _ \<Rightarrow> Ok None s)"

subsection \<open>Types\<close>

datatype lua_Type =
    LUA_TNONE | LUA_TNIL | LUA_TNUMBER | LUA_TBOOLEAN | LUA_TSTRING | LUA_TTABLE | LUA_TFUNCTION
  | LUA_TUSERDATA | LUA_TTHREAD | LUA_TLIGHTUSERDATA

definition lua_types :: "lua_Type list" where
  "lua_types = [LUA_TNONE, LUA_TNIL, LUA_TNUMBER, LUA_TBOOLEAN, LUA_TSTRING, LUA_TTABLE,
     LUA_TFUNCTION, LUA_TUSERDATA, LUA_TTHREAD, LUA_TLIGHTUSERDATA]"

fun type_of_value :: "value_types \<Rightarrow> lua_Type option" where
  "type_of_value TVALUE_STRING = Some LUA_TSTRING"
| "type_of_value TVALUE_LONG = Some LUA_TNUMBER"
| "type_of_value TVALUE_DOUBLE = Some LUA_TNUMBER"
| "type_of_value TVALUE_TABLE = Some LUA_TTABLE"
| "type_of_value TVALUE_CLOSURE = Some LUA_TFUNCTION"
| "type_of_value TVALUE_FULL_USERDATA = Some LUA_TUSERDATA"
| "type_of_value TVALUE_BOOL = Some LUA_TBOOLEAN"
| "type_of_value TVALUE_LIGHT_USERDATA = Some LUA_TLIGHTUSERDATA"
| "type_of_value TVALUE_GARBAGE_COLLECTABLE_USERDATA = Some LUA_TLIGHTUSERDATA"
| "type_of_value TVALUE_NIL = Some LUA_TNIL"
| "type_of_value TVALUE_COROUTINE = Some LUA_TTHREAD"
| "type_of_value TVALUE_LAST = None"
| "type_of_value TVALUE_NOT_PRESENT = None"

definition lua_type :: "addr \<Rightarrow> int \<Rightarrow> vm \<Rightarrow> (lua_Type, vm) res" where
  "lua_type L idx s =
     rbind (lua_frame L s) (\<lambda>(cs, st) s.
       if idx = 0 then Ok LUA_TNONE s
       else if cs_sp st < idx then Ok LUA_TNONE s
       else if idx < 0 \<and> cs_sp st + idx + 1 < 0 then Ok LUA_TNONE s
       else rbind (getValueAtStackIndex L idx s) (\<lambda>v s.
         case type_of_value (type_tag v) of None \<Rightarrow> Fault Aborted | Some t \<Rightarrow> Ok t s))"

text \<open>\<open>None\<close> is the \<open>abort()\<close> for \<open>LUA_TNONE\<close> and for a number that is no type.\<close>

fun type_text :: "lua_Type \<Rightarrow> string option" where
  "type_text LUA_TBOOLEAN = Some ''boolean''"
| "type_text LUA_TNIL = Some ''nil''"
| "type_text LUA_TNUMBER = Some ''number''"
| "type_text LUA_TLIGHTUSERDATA = Some ''userdata''"
| "type_text LUA_TUSERDATA = Some ''userdata''"
| "type_text LUA_TTABLE = Some ''table''"
| "type_text LUA_TFUNCTION = Some ''function''"
| "type_text LUA_TSTRING = Some ''string''"
| "type_text LUA_TTHREAD = Some ''thread''"
| "type_text LUA_TNONE = None"

definition lua_typename :: "int \<Rightarrow> string option" where
  "lua_typename type =
     (if type < 0 \<or> int (length lua_types) \<le> type then None else type_text (lua_types ! nat type))"

definition lua_version :: dbl where "lua_version = fp_of_int 504"

definition has_type :: "lua_Type \<Rightarrow> addr \<Rightarrow> int \<Rightarrow> vm \<Rightarrow> (bool, vm) res" where
  "has_type t L idx s = rbind (lua_type L idx s) (\<lambda>t' s. Ok (t' = t) s)"

definition lua_isboolean where "lua_isboolean = has_type LUA_TBOOLEAN"
definition lua_isfunction where "lua_isfunction = has_type LUA_TFUNCTION"
definition lua_islightuserdata where "lua_islightuserdata = has_type LUA_TLIGHTUSERDATA"
definition lua_isnil where "lua_isnil = has_type LUA_TNIL"
definition lua_isnone where "lua_isnone = has_type LUA_TNONE"
definition lua_istable where "lua_istable = has_type LUA_TTABLE"
definition lua_isthread where "lua_isthread = has_type LUA_TTHREAD"

text \<open>\<open>||\<close>: the second test runs only when the first fails.\<close>

definition either_type :: "lua_Type \<Rightarrow> lua_Type \<Rightarrow> addr \<Rightarrow> int \<Rightarrow> vm \<Rightarrow> (bool, vm) res" where
  "either_type t u L idx s =
     rbind (has_type t L idx s) (\<lambda>b s. if b then Ok True s else has_type u L idx s)"

definition lua_isnoneornil where "lua_isnoneornil = either_type LUA_TNIL LUA_TNONE"
definition lua_isstring where "lua_isstring = either_type LUA_TSTRING LUA_TNUMBER"
definition lua_isuserdata where "lua_isuserdata = either_type LUA_TUSERDATA LUA_TLIGHTUSERDATA"

definition lua_iscfunction :: "addr \<Rightarrow> int \<Rightarrow> vm \<Rightarrow> (bool, vm) res" where
  "lua_iscfunction L idx s =
     rbind (has_type LUA_TFUNCTION L idx s) (\<lambda>b s.
       if \<not> b then Ok False s
       else rbind (getValueAtStackIndex L idx s) (\<lambda>v s.
         case v of
           VClosure a \<Rightarrow> rbind (deref (closures s) a s) (\<lambda>cl s.
             Ok (cl_isNative cl \<and> cl_luaCFunction cl \<noteq> None) s)
         | _ \<Rightarrow> Fault TypeConfusion))"

definition lua_isinteger :: "addr \<Rightarrow> int \<Rightarrow> vm \<Rightarrow> (bool, vm) res" where
  "lua_isinteger L idx s =
     rbind (has_type LUA_TNUMBER L idx s) (\<lambda>b s.
       if \<not> b then Ok False s
       else rbind (getValueAtStackIndex L idx s) (\<lambda>v s. Ok (type_tag v = TVALUE_LONG) s))"

definition lua_isnumber :: "ext \<Rightarrow> addr \<Rightarrow> int \<Rightarrow> vm \<Rightarrow> (bool, vm) res" where
  "lua_isnumber ex L idx s =
     rbind (lua_type L idx s) (\<lambda>t s.
       case t of
         LUA_TNUMBER \<Rightarrow> Ok True s
       | LUA_TSTRING \<Rightarrow> rbind (getValueAtStackIndex L idx s) (\<lambda>v s.
           rbind (value_todouble ex v s) (\<lambda>d s. Ok (type_tag d = TVALUE_DOUBLE) s))
       | _ \<Rightarrow> Ok False s)"

definition lua_isyieldable :: "addr \<Rightarrow> vm \<Rightarrow> (bool, vm) res" where
  "lua_isyieldable L s = rbind (deref (coros s) L s) (\<lambda>c s. Ok (coroutine_can_yield c) s)"

subsection \<open>Tables, lengths and globals\<close>

text \<open>No value has metamethods yet. A value that is neither a string nor a table pushes nothing.\<close>

definition triggerMetamethod :: "string \<Rightarrow> value \<Rightarrow> bool" where
  "triggerMetamethod name v = False"

definition lua_len :: "addr \<Rightarrow> int \<Rightarrow> vm \<Rightarrow> (unit, vm) res" where
  "lua_len L idx s =
     rbind (ensureStackFits L 1 s) (\<lambda>_ s. rbind (getValueAtStackIndex L idx s) (\<lambda>v s.
       if type_tag v = TVALUE_STRING then
         rbind (value_get_len v s) (\<lambda>n s. push_top L (value_new_long n) s)
       else if triggerMetamethod ''__len'' v then Ok () s
       else if type_tag v = TVALUE_TABLE then
         rbind (value_get_len v s) (\<lambda>n s. push_top L (value_new_long n) s)
       else Ok () s))"

definition lua_createtable :: "ext \<Rightarrow> addr \<Rightarrow> int \<Rightarrow> int \<Rightarrow> vm \<Rightarrow> (unit, vm) res" where
  "lua_createtable ex L narr nrec s =
     rbind (ensureStackFits L 1 s) (\<lambda>_ s.
     rbind (value_new_table ex FLUFFYVM_HASHTABLE_DEFAULT_LOAD_FACTOR nrec s) (\<lambda>v s.
       if v = VNotPresent then raise_errmsg s else push_top L v s))"

definition lua_newtable :: "ext \<Rightarrow> addr \<Rightarrow> vm \<Rightarrow> (unit, vm) res" where
  "lua_newtable ex L s = lua_createtable ex L 0 0 s"

definition set_named :: "ext \<Rightarrow> addr \<Rightarrow> value \<Rightarrow> byte list \<Rightarrow> value \<Rightarrow> vm \<Rightarrow> (unit, vm) res" where
  "set_named ex L table name v s =
     (case value_new_string s name of (key, s) \<Rightarrow>
        if key = VNotPresent then raise_errmsg s
        else rbind (value_table_set ex table key v s) (\<lambda>ok s.
          if \<not> ok then raise_errmsg s else lua_pop L 1 s))"

definition lua_setglobal :: "ext \<Rightarrow> addr \<Rightarrow> byte list \<Rightarrow> vm \<Rightarrow> (unit, vm) res" where
  "lua_setglobal ex L name s =
     rbind (getValueAtStackIndex L (-1) s) (\<lambda>v s. rbind (fluffyvm_get_global s) (\<lambda>global s.
       set_named ex L global name v s))"

definition lua_setfield :: "ext \<Rightarrow> addr \<Rightarrow> int \<Rightarrow> byte list \<Rightarrow> vm \<Rightarrow> (unit, vm) res" where
  "lua_setfield ex L tableIndex name s =
     rbind (getValueAtStackIndex L tableIndex s) (\<lambda>table s.
     rbind (getValueAtStackIndex L (-1) s) (\<lambda>v s. set_named ex L table name v s))"

text \<open>
  A C function becomes a native closure over the function at the address \<open>tramp\<close>, which is
  \<open>cFunctionTrampoline\<close>; \<open>cfun\<close> is what the C functions of the host do.
\<close>

definition cFunctionTrampoline :: "(nat \<Rightarrow> addr \<Rightarrow> vm \<Rightarrow> (int, vm) res) \<Rightarrow> addr \<Rightarrow> nat option \<Rightarrow> vm \<Rightarrow>
    (int, vm) res" where
  "cFunctionTrampoline cfun cs udata s =
     rbind (fluffyvm_get_executing_coroutine s) (\<lambda>r s.
       case (r, udata) of (Some L, Some f) \<Rightarrow> cfun f L s | _ \<Rightarrow> Fault NullDeref)"

definition lua_pushcfunction :: "nat \<Rightarrow> addr \<Rightarrow> nat option \<Rightarrow> vm \<Rightarrow> (unit, vm) res" where
  "lua_pushcfunction tramp L f s =
     rbind (ensureStackFits L 1 s) (\<lambda>_ s. rbind (lua_frame L s) (\<lambda>(cs, st) s.
     rbind (deref (closures s) (cs_closure st) s) (\<lambda>cl s.
     rbind (closure_from_cfunction (Some tramp) f (cl_env cl) s) (\<lambda>r s.
       case r of
         None \<Rightarrow> raise_errmsg s
       | Some a \<Rightarrow> rbind (deref (closures s) a s) (\<lambda>c s.
           push_top L (value_new_closure a)
             (s\<lparr>closures := (closures s)(a \<mapsto> c\<lparr>cl_luaCFunction := f\<rparr>)\<rparr>))))))"

definition lua_register :: "ext \<Rightarrow> nat \<Rightarrow> addr \<Rightarrow> byte list \<Rightarrow> nat option \<Rightarrow> vm \<Rightarrow> (unit, vm) res" where
  "lua_register ex tramp L name f s =
     rbind (lua_pushcfunction tramp L f s) (\<lambda>_ s. lua_setglobal ex L name s)"

subsection \<open>Calls and errors\<close>

definition lua_call :: "(addr \<Rightarrow> vm \<Rightarrow> (int, vm) res) \<Rightarrow> addr \<Rightarrow> int \<Rightarrow> int \<Rightarrow> vm \<Rightarrow> (unit, vm) res" where
  "lua_call exec L nargs nresults s =
     (if nresults < 0 \<and> nresults \<noteq> LUA_MULTRET then
        interpreter_error_printf (api_message ''lua_call''
          (''nresults ('' @ fmt_long nresults @ '') is invalid and not LUA_MULTRET'')) s
      else if nargs < 0 then
        interpreter_error_printf (api_message ''lua_call''
          (''nargs ('' @ fmt_long nargs @ '') is negative'')) s
      else rbind (lua_frame L s) (\<lambda>(cs, st) s.
        let funcPosition = cs_sp st - nargs - 1
        in rbind (interpreter_peek cs funcPosition s) (\<lambda>r s.
          case r of
            None \<Rightarrow> raise_errmsg s
          | Some func \<Rightarrow>
              rbind (interpreter_call exec func nargs nresults s) (\<lambda>_ s.
              rbind (lua_rotate L (funcPosition + 1) (-1) s) (\<lambda>_ s. lua_pop L 1 s)))))"

definition lua_error :: "addr \<Rightarrow> vm \<Rightarrow> ('a, vm) res" where
  "lua_error L s =
     rbind (lua_frame L s) (\<lambda>(cs, st) s. rbind (lua_gettop L s) (\<lambda>top s.
     rbind (interpreter_peek cs (top - 1) s) (\<lambda>r s.
       case r of
         None \<Rightarrow> raise_errmsg s
       | Some err \<Rightarrow> rbind (fluffyvm_get_executing_coroutine s) (\<lambda>co s.
           rbind (assert_that (co = Some L) s) (\<lambda>_ s. interpreter_error err s)))))"

subsection \<open>Threads\<close>

text \<open>
  The type of a new thread value is set before \<open>coroutine_new\<close> is asked, so a thread that could not
  be made is pushed as a coroutine without object.
\<close>

definition value_new_coroutine :: "addr \<Rightarrow> vm \<Rightarrow> (addr option, vm) res" where
  "value_new_coroutine closure s = coroutine_new closure s"

definition lua_newthread :: "addr \<Rightarrow> vm \<Rightarrow> (addr, vm) res" where
  "lua_newthread L s =
     rbind (ensureStackFits L 1 s) (\<lambda>_ s.
       case coroutineTrampoline s of
         None \<Rightarrow> Fault NullDeref
       | Some func \<Rightarrow> rbind (value_new_coroutine func s) (\<lambda>r s.
           case r of
             None \<Rightarrow> Fault NullDeref
           | Some co \<Rightarrow> rbind (push_top L (VCoroutine co) s) (\<lambda>_ s. Ok co s)))"

text \<open>
  The main function of a thread made by \<open>lua_newthread\<close>. The pointer it stores the number of
  results through is the box of the light userdata, whose low half is overwritten.
\<close>

definition store_int :: "addr \<Rightarrow> int \<Rightarrow> vm \<Rightarrow> (unit, vm) res" where
  "store_int a n s =
     rbind (deref (udatas s) a s) (\<lambda>u s.
       Ok () (s\<lparr>udatas := (udatas s)(a \<mapsto>
         u\<lparr>ud_cell := map_option (\<lambda>p. p div 2 ^ 32 * 2 ^ 32 + nat (n mod 2 ^ 32)) (ud_cell u)\<rparr>)\<rparr>))"

definition trampoline :: "ext \<Rightarrow> (addr \<Rightarrow> vm \<Rightarrow> (int, vm) res) \<Rightarrow> vm \<Rightarrow> (int, vm) res" where
  "trampoline ex exec s =
     rbind (fluffyvm_get_executing_coroutine s) (\<lambda>r s.
       case r of
         None \<Rightarrow> Fault NullDeref
       | Some L \<Rightarrow>
     rbind (lua_gettop L s) (\<lambda>top s.
     rbind (assert_that (2 \<le> top) s) (\<lambda>_ s.
     rbind (lua_topointer L (-2) s) (\<lambda>nresults s.
     rbind (lua_tonumber ex L (-1) s) (\<lambda>d s.
       case fp_to_int64 d of
         None \<Rightarrow> Fault SignedOverflow
       | Some nargs \<Rightarrow>
           if \<not> int_ok nargs then Fault SignedOverflow
           else rbind (lua_pop L 2 s) (\<lambda>_ s. rbind (lua_isfunction L 1 s) (\<lambda>is_fun s.
             rbind (if is_fun then Ok () s
                    else rbind (lua_pushliteral L (bytes_of ''main function is not present'') s)
                      (\<lambda>_ s. lua_error L s)) (\<lambda>_ s.
             rbind (lua_call exec L nargs LUA_MULTRET s) (\<lambda>_ s.
               case nresults of
                 None \<Rightarrow> Ok 0 s
               | Some a \<Rightarrow> rbind (lua_gettop L s) (\<lambda>top s.
                   rbind (store_int a top s) (\<lambda>_ s. Ok 0 s)))))))))))"

text \<open>\<open>L\<close> is asked for room, the values go to \<open>target\<close>; what the resume returns is not looked at.\<close>

definition lua_resume :: "(addr \<Rightarrow> vm \<Rightarrow> (unit, vm) res) \<Rightarrow> addr \<Rightarrow> addr \<Rightarrow> int \<Rightarrow> nat \<Rightarrow> vm \<Rightarrow>
    (int, vm) res" where
  "lua_resume body L target nargs nresults s =
     (if \<not> int_ok (8 + nargs) then Fault SignedOverflow
      else rbind (ensureStackFits L (8 + nargs) s) (\<lambda>_ s.
        rbind (lua_pushlightuserdata target nresults s) (\<lambda>_ s.
        rbind (lua_pushinteger target (word_of_int nargs) s) (\<lambda>_ s.
        rbind (coroutine_resume body target s) (\<lambda>_ s.
        rbind (deref (coros s) target s) (\<lambda>c s.
          Ok (if co_hasError c then LUA_ERRRUN else LUA_OK) s))))))"

fun push_cells :: "addr \<Rightarrow> addr \<Rightarrow> int list \<Rightarrow> vm \<Rightarrow> (unit, vm) res" where
  "push_cells L to [] s = Ok () s"
| "push_cells L to (i # is) s =
     rbind (lua_frame L s) (\<lambda>(cs, st) s. rbind (stack_cell cs i s) (\<lambda>v s.
     rbind (push_top to v s) (\<lambda>_ s. push_cells L to is s)))"

definition lua_xmove :: "addr \<Rightarrow> addr \<Rightarrow> int \<Rightarrow> vm \<Rightarrow> (unit, vm) res" where
  "lua_xmove L to n s =
     (if n < 0 then interpreter_error_printf
        (api_message ''lua_xmove'' (''expected positive n got '' @ fmt_long n)) s
      else rbind (get_fiber to s) (\<lambda>f s.
        if fb_state f = FIBER_RUNNING then raise_static SS_attemptToXmoveOnRunningCoroutine s
        else if fb_state f = FIBER_DEAD then raise_static SS_attemptToXmoveOnDeadCoroutine s
        else if n = 0 then Ok () s
        else rbind (lua_checkstack to 1 s) (\<lambda>ok s.
          if \<not> ok then raise_static SS_stackOverflow s
          else rbind (lua_gettop L s) (\<lambda>top s.
            let moveStart = top - n in
            if moveStart < 0 then raise_static SS_stackUnderflow s
            else rbind (push_cells L to [moveStart..moveStart + n - 1] s) (\<lambda>_ s. lua_pop L n s)))))"

text \<open>The module number comes from the counter \<open>next_module\<close>; \<open>tramp\<close> is \<open>trampoline\<close>.\<close>

definition fluffyvm_compat_layer_lua54_init :: "nat \<Rightarrow> int \<Rightarrow> vm \<Rightarrow> (bool, vm) res" where
  "fluffyvm_compat_layer_lua54_init tramp next_module s =
     rbind (closure_from_cfunction (Some tramp) None VNil s) (\<lambda>r s.
       case r of
         None \<Rightarrow> Ok False s
       | Some a \<Rightarrow> rbind (deref (closures s) a s) (\<lambda>c s.
           Ok True (s\<lparr>closures := (closures s)(a \<mapsto> c\<lparr>cl_env := VNotPresent\<rparr>),
             coroutineTrampoline := Some a, luaModuleID := next_module, luaUserdataType := 1\<rparr>)))"

end
