(* ===== verification/LuaContracts.thy ===== *)
theory LuaContracts
  imports Lua54
begin

text \<open>
  What the operations of \<open>lua54.c\<close> do to the stack of a \<open>lua_State\<close>: indices, pushing and popping,
  rotation (an instance of the array interface of \<open>util.c\<close>), calls, moving values between threads.
\<close>

subsection \<open>The stack of a state\<close>

text \<open>\<open>L\<close> is in the frame \<open>cs\<close>, whose state is \<open>st\<close>.\<close>

definition lua_at :: "vm \<Rightarrow> addr \<Rightarrow> addr \<Rightarrow> call_state \<Rightarrow> bool" where
  "lua_at s L cs st \<longleftrightarrow> (\<exists>c. coros s L = Some c \<and> co_currentCallState c = Some cs) \<and>
     cstates s cs = Some st \<and> frame_ok st"

lemma lua_at_frame:
  assumes "lua_at s L cs st"
  shows "lua_frame L s = Ok (cs, st) s" "lua_gettop L s = Ok (int (length (gs_items st))) s"
    "cstates s cs = Some st" "frame_ok st"
proof -
  show f: "lua_frame L s = Ok (cs, st) s" using assms by (auto simp: lua_at_def lua_frame_def)
  show "cstates s cs = Some st" "frame_ok st" using assms by (auto simp: lua_at_def)
  then show "lua_gettop L s = Ok (int (length (gs_items st))) s"
    using f frame_okD(1)[of st] by (simp add: lua_gettop_def)
qed

lemma lua_at_with:
  "lua_at s L cs st \<Longrightarrow> frame_ok st' \<Longrightarrow> lua_at (with_frame s cs st') L cs st'"
  by (auto simp: lua_at_def)

lemma with_frame_rest [simp]:
  "mainThread (with_frame s cs st) = mainThread s" "staticStrings (with_frame s cs st) = staticStrings s"
  "strs (with_frame s cs st) = strs s" "tabs (with_frame s cs st) = tabs s"
  by (simp_all add: with_frame_def)

lemma running_lua_at:
  "running s L c \<Longrightarrow> frames c \<noteq> [] \<Longrightarrow> cstates s (last (frames c)) = Some st \<Longrightarrow> frame_ok st \<Longrightarrow>
     lua_at s L (last (frames c)) st"
  by (auto simp: lua_at_def running_def coro_ok_def)

lemma running_raise:
  "running s co c \<Longrightarrow> co_errorHandler c \<noteq> None \<Longrightarrow>
     interpreter_error v s = Throw (fluffyvm_set_errmsg s v)"
  "running s co c \<Longrightarrow> co_errorHandler c \<noteq> None \<Longrightarrow>
     raise_static m s = Throw (set_static_errmsg s m)"
  using running_executing(2)[of s co c]
  by (simp_all add: raise_static_def interpreter_error_def errorCommon_def set_static_errmsg_def
      executing_coroutine_def fluffyvm_get_executing_coroutine_def running_def stack_peek_items)

subsection \<open>Indices\<close>

lemma absindex_at:
  assumes "lua_at s L cs st"
  shows "lua_absindex L idx s =
    (let n = int (length (gs_items st)) in
     if 1 \<le> \<bar>idx\<bar> \<and> \<bar>idx\<bar> \<le> n then Ok (if idx < 0 then n + idx + 1 else idx) s
     else raise_static SS_invalidStackIndex s)"
  using lua_at_frame(2)[OF assms] by (auto simp: lua_absindex_def Let_def abs_if)

lemma small_not_pseudo: "0 < idx \<Longrightarrow> idx \<le> 256 \<Longrightarrow> \<not> FLUFFYVM_COMPAT_LAYER_IS_PSEUDO_INDEX idx"
proof -
  assume "0 < idx" "idx \<le> 256"
  then have "idx AND 0x8000000 = take_bit 27 idx AND 2 ^ 27" by (simp add: take_bit_int_eq_self)
  also have "\<dots> = 0" by (rule bit_eqI) (simp only: bit_and_iff bit_take_bit_iff bit_exp_iff, auto)
  finally show ?thesis by (simp add: FLUFFYVM_COMPAT_LAYER_IS_PSEUDO_INDEX_def)
qed

text \<open>Positive indices count from the bottom of the stack, negative ones from the top.\<close>

definition indexed :: "value list \<Rightarrow> int \<Rightarrow> value option" where
  "indexed xs idx =
     (if 1 \<le> \<bar>idx\<bar> \<and> \<bar>idx\<bar> \<le> int (length xs)
      then Some (if 0 < idx then xs ! (nat idx - 1) else rev xs ! (nat (- idx) - 1)) else None)"

lemma value_at_index:
  assumes "lua_at s L cs st" and "indexed (gs_items st) idx = Some v"
  shows "getValueAtStackIndex L idx s = Ok v s"
proof -
  note a = lua_at_frame[OF assms(1)]
  let ?xs = "gs_items st"
  define i where "i = (if idx < 0 then length ?xs - nat (- idx) else nat idx - 1)"
  have r: "1 \<le> \<bar>idx\<bar>" "\<bar>idx\<bar> \<le> int (length ?xs)" using assms(2) by (auto simp: indexed_def split: if_splits)
  have i: "i < length ?xs" "lua_absindex L idx s = Ok (int i + 1) s"
    using r by (auto simp: i_def absindex_at[OF assms(1)] nat_less_iff)
  have v: "?xs ! i = v" using assms(2) r by (auto simp: indexed_def i_def rev_nth split: if_splits)
  have "\<not> (FLUFFYVM_COMPAT_LAYER_IS_PSEUDO_INDEX idx \<and> 0 < idx)"
    using r frame_okD(2)[OF a(4)] small_not_pseudo by auto
  moreover have "interpreter_peek cs (int i) s = Ok (Some v) s"
    using stack_cell_item[OF a(3,4) i(1)] v i(1) a(3) frame_okD(1)[OF a(4)]
    by (simp add: interpreter_peek_def)
  ultimately show ?thesis using a i by (simp add: getValueAtStackIndex_def)
qed

subsection \<open>Pushing and popping\<close>

lemma frame_cells: "frame_ok st \<Longrightarrow> length (cs_generalStack st) = 256"
  unfolding frame_ok_def config_defs by (elim conjE) simp

lemma ensure_room:
  assumes "lua_at s L cs st" and "0 \<le> n" and "int (length (gs_items st)) + n \<le> 256"
  shows "ensureStackFits L n s = Ok () s"
proof -
  note a = lua_at_frame[OF assms(1)]
  show ?thesis
    using a(1) frame_cells[OF a(4)] frame_okD(1)[OF a(4)] assms(2,3)
    by (simp add: ensureStackFits_def lua_checkstack_def int_ok_def INT_MIN_def INT_MAX_def)
qed

lemma push_top_room:
  assumes "lua_at s L cs st" and "length (gs_items st) < 256" and "v \<noteq> VNotPresent"
  shows "push_top L v s = Ok () (with_frame s cs (with_stack st (gs_items st @ [v])))"
  using lua_at_frame[OF assms(1)] interpreter_push_room[OF _ _ assms(2,3)] by (simp add: push_top_def)

lemma push_top_full:
  assumes "lua_at s L cs st" and "length (gs_items st) = 256"
  shows "push_top L v s = Ok () (set_static_errmsg s SS_stackOverflow)"
  using lua_at_frame[OF assms(1)] interpreter_push_full[OF _ _ assms(2)] by (simp add: push_top_def)

lemma pop_times_at:
  assumes "lua_at s L cs st" and "gs_items st = xs @ ys"
  shows "pop_times L (length ys) s = Ok () (with_frame s cs (with_stack st xs))"
  using assms
proof (induction ys arbitrary: s st rule: rev_induct)
  case Nil
  then show ?case using lua_at_frame(3,4)[OF Nil(1)] frame_okD(4)[of st] by simp
next
  case (snoc y ys)
  note a = lua_at_frame[OF snoc.prems(1)]
  let ?st = "with_stack st (xs @ ys)"
  have p: "interpreter_pop cs s = Ok (Some y) (with_frame s cs ?st)"
    using snoc.prems(2) by (intro interpreter_pop_top[OF a(3,4)]) simp
  have "lua_at (with_frame s cs ?st) L cs ?st"
    using frame_shrink[OF a(4), of "xs @ ys" "[y]"] snoc.prems(2) by (intro lua_at_with[OF snoc.prems(1)]) simp
  then show ?case using snoc.IH[of "with_frame s cs ?st" ?st] a(1) p by simp
qed

lemma lua_pop_at:
  "lua_at s L cs st \<Longrightarrow> gs_items st = xs @ ys \<Longrightarrow>
     lua_pop L (int (length ys)) s = Ok () (with_frame s cs (with_stack st xs))"
  using pop_times_at[of s L cs st xs ys] lua_at_frame(3,4)[of s L cs st] frame_okD(4)[of st]
  by (cases "ys = []") (simp_all add: lua_pop_def)

subsection \<open>Rotation\<close>

definition segment :: "addr \<Rightarrow> nat \<Rightarrow> vm \<Rightarrow> value list" where
  "segment cs start s = drop start (gs_at cs s)"

definition put_segment :: "addr \<Rightarrow> nat \<Rightarrow> vm \<Rightarrow> value list \<Rightarrow> vm" where
  "put_segment cs start s xs =
     (case cstates s cs of
        None \<Rightarrow> s
      | Some st \<Rightarrow> with_frame s cs (with_stack st (take start (gs_items st) @ xs)))"

definition has_segment :: "addr \<Rightarrow> nat \<Rightarrow> vm \<Rightarrow> bool" where
  "has_segment cs start s \<longleftrightarrow> gs_inv cs s \<and> start \<le> length (gs_at cs s)"

lemma object_ptr_present: "v \<noteq> VNotPresent \<Longrightarrow> \<exists>p. value_get_object_ptr v s = Ok p s"
  by (cases v) simp_all

lemma store_cell_item:
  assumes "cstates s cs = Some st" and "frame_ok st" and "i < length (gs_items st)" and "v \<noteq> VNotPresent"
  shows "store_cell cs (int i) v s = Ok () (with_frame s cs (with_stack st ((gs_items st)[i := v])))"
proof -
  obtain p where p: "value_get_object_ptr v s = Ok p s" using object_ptr_present[OF assms(4)] by auto
  have g: "cs_generalStack st = gs_items st @ replicate (256 - length (gs_items st)) VNotPresent"
    using frame_okD(1)[OF assms(2)] assms(2) by (simp add: frame_ok_def config_defs)
  have "st\<lparr>cs_generalStack := (cs_generalStack st)[i := v]\<rparr> = with_stack st ((gs_items st)[i := v])"
    using assms(3) frame_okD(1)[OF assms(2)]
    by (simp add: with_stack_def g list_update_append config_defs) 
  then show ?thesis
    using stack_cell_item[OF assms(1-3)] p assms(1) by (simp add: store_cell_def)
qed

interpretation seg: array_access "rotate_get cs (int start)" "rotate_set cs (int start)"
    "segment cs start" "put_segment cs start" "has_segment cs start" "\<lambda>v. v \<noteq> VNotPresent"
  for cs :: addr and start :: nat
proof (unfold_locales, goal_cases)
  case (1 s i)
  then obtain st where st: "cstates s cs = Some st" "frame_ok st" "start + i < length (gs_items st)"
    by (auto simp: has_segment_def segment_def gs_inv_def gs_at_def)
  moreover have "gs_items st ! (start + i) \<noteq> VNotPresent"
    using frame_okD(3)[OF st(2)] st(3) nth_mem by fastforce
  ultimately show ?case
    using stack_cell_item[OF st] object_ptr_present[of "gs_items st ! (start + i)" s]
    by (auto simp: rotate_get_def segment_def gs_at_def)
next
  case (2 s i x)
  then obtain st where st: "cstates s cs = Some st" "frame_ok st" "start + i < length (gs_items st)"
    by (auto simp: has_segment_def segment_def gs_inv_def gs_at_def)
  have "(gs_items st)[start + i := x] = take start (gs_items st) @ (drop start (gs_items st))[i := x]"
  proof -
    have "(take start (gs_items st) @ drop start (gs_items st))[start + i := x] =
        take start (gs_items st) @ (drop start (gs_items st))[i := x]"
      using st(3) by (subst list_update_append) (simp add: min_absorb2)
    then show ?thesis by (simp only: append_take_drop_id)
  qed
  then show ?case
    using store_cell_item[OF st 2(3)] st(1)
    by (simp add: rotate_set_def put_segment_def segment_def gs_at_def)
next
  case (3 s xs)
  then obtain st where st: "cstates s cs = Some st" "frame_ok st" "start + length xs = length (gs_items st)"
      "start \<le> length (gs_items st)"
    by (auto simp: has_segment_def segment_def gs_inv_def gs_at_def)
  have "frame_ok (with_stack st (take start (gs_items st) @ xs))"
    using frame_okD(2,3)[OF st(2)] st(3) 3(3)
    by (intro frame_ok_with_stack) (auto dest: in_set_takeD)
  then show ?case
    using st(1,4) by (simp add: has_segment_def put_segment_def segment_def gs_inv_def gs_at_def)
next
  case (4 s xs ys)
  then show ?case by (auto simp: has_segment_def put_segment_def gs_inv_def gs_at_def)
next
  case (5 s)
  then show ?case
    using frame_okD(4) by (auto simp: has_segment_def put_segment_def segment_def gs_inv_def gs_at_def)
next
  case (6 s)
  then show ?case
    using frame_okD(3) by (auto simp: has_segment_def segment_def gs_inv_def gs_at_def dest: in_set_dropD)
qed

lemma rotate_at:
  assumes a: "lua_at s L cs st" and i: "gs_items st = xs @ ys" and ys: "ys \<noteq> []" and n: "int_ok n"
    and idx: "idx = int (length xs) + 1 \<or> idx = - int (length ys)"
  shows "lua_rotate L idx n s =
     Ok () (with_frame s cs (with_stack st (xs @ rotate (nat ((- n) mod int (length ys))) ys)))"
proof -
  note b = lua_at_frame[OF a]
  let ?k = "length xs"
  have y: "1 \<le> length ys" using ys by (cases ys) simp_all
  have abs: "lua_absindex L idx s = Ok (int ?k + 1) s"
    using idx y i by (auto simp: absindex_at[OF a])
  have seg: "has_segment cs ?k s" "segment cs ?k s = ys"
    using b(3,4) i by (auto simp: has_segment_def segment_def gs_inv_def gs_at_def)
  have "util_collections_rotate (int (length ys)) n (rotate_set cs (int ?k)) (rotate_get cs (int ?k)) s =
      Ok () (put_segment cs ?k s (rotate (nat ((- n) mod int (length ys))) ys))"
    using seg.rotates[OF seg(1) _ n] seg(2) ys by simp
  then show ?thesis
    using abs b i by (simp add: lua_rotate_def Let_def put_segment_def)
qed

text \<open>Removing an element from the middle of the stack.\<close>

lemma remove_at:
  assumes "lua_at s L cs st" and "gs_items st = xs @ y # ys"
    and "idx = int (length xs) + 1 \<or> idx = - int (length ys) - 1"
  shows "rbind (lua_rotate L idx (-1) s) (\<lambda>_ s. lua_pop L 1 s) =
     Ok () (with_frame s cs (with_stack st (xs @ ys)))"
proof -
  note a = lua_at_frame[OF assms(1)]
  let ?st = "with_stack st (xs @ ys @ [y])"
  have "rotate (nat (1 mod int (length (y # ys)))) (y # ys) = rotate 1 (y # ys)"
    by (cases ys) (simp_all add: rotate1_hd_tl)
  then have r: "lua_rotate L idx (-1) s = Ok () (with_frame s cs ?st)"
    using rotate_at[OF assms(1,2), of "-1" idx] assms(3) by (auto simp: int_ok_def INT_MIN_def INT_MAX_def)
  have "frame_ok ?st"
    using frame_okD(2,3)[OF a(4)] assms(2) by (intro frame_ok_with_stack) auto
  then have "lua_pop L 1 (with_frame s cs ?st) = Ok () (with_frame s cs (with_stack st (xs @ ys)))"
    using lua_pop_at[OF lua_at_with[OF assms(1), of ?st], of "xs @ ys" "[y]"] by simp
  then show ?thesis using r by simp
qed

subsection \<open>Properties of the stack\<close>

lemma getValue_invalid:
  assumes "running s L c" and "co_errorHandler c \<noteq> None" and "lua_at s L cs st"
    and "indexed (gs_items st) idx = None" and "0 < idx \<Longrightarrow> \<not> FLUFFYVM_COMPAT_LAYER_IS_PSEUDO_INDEX idx"
  shows "getValueAtStackIndex L idx s = Throw (set_static_errmsg s SS_invalidStackIndex)"
  using assms(4,5)
  by (auto simp: running_raise(2)[OF assms(1,2)] getValueAtStackIndex_def absindex_at[OF assms(3)] indexed_def Let_def split: if_splits)

text \<open>
  C25. Stack indices of the C API: an index from 1 to the height of the stack names the element
  counted from the bottom, an index from -1 down to minus the height the element counted from the
  top, and with an error handler installed every other index raises the error for an invalid stack
  index, except for the positive ones that have bit 27 set, for which the process aborts.
\<close>

theorem stack_index_resolves:
  assumes "running s L c" and "co_errorHandler c \<noteq> None" and "lua_at s L cs st"
  shows "getValueAtStackIndex L idx s =
    (case indexed (gs_items st) idx of
       Some v \<Rightarrow> Ok v s
     | None \<Rightarrow> if 0 < idx \<and> idx AND 0x8000000 \<noteq> 0 then Fault Aborted
               else Throw (set_static_errmsg s SS_invalidStackIndex))"
proof (cases "indexed (gs_items st) idx")
  case None
  then show ?thesis
    using getValue_invalid[OF assms None]
    by (auto simp: getValueAtStackIndex_def FLUFFYVM_COMPAT_LAYER_IS_PSEUDO_INDEX_def)
qed (use value_at_index[OF assms(3)] in simp)

lemma indexed_last [simp]: "indexed (xs @ [v]) (-1) = Some v"
  by (simp add: indexed_def)

lemma indexed_below:
  "indexed xs idx = Some v \<Longrightarrow> 0 < idx \<Longrightarrow> indexed (xs @ [w]) idx = Some v"
  by (auto simp: indexed_def nth_append nat_less_iff split: if_splits)

text \<open>A push through the API, and what it leaves.\<close>

lemma pushed_at:
  assumes "lua_at s L cs st" and "length (gs_items st) < 256" and "v \<noteq> VNotPresent"
  shows "ensureStackFits L 1 s = Ok () s"
    "push_top L v s = Ok () (with_frame s cs (with_stack st (gs_items st @ [v])))"
    "lua_at (with_frame s cs (with_stack st (gs_items st @ [v]))) L cs (with_stack st (gs_items st @ [v]))"
  using ensure_room[OF assms(1), of 1] assms(2) push_top_room[OF assms]
    lua_at_with[OF assms(1) frame_grow[OF lua_at_frame(4)[OF assms(1)] assms(2,3)]] by simp_all

lemma ensure_full:
  assumes "running s L c" and "co_errorHandler c \<noteq> None" and "lua_at s L cs st" and "length (gs_items st) = 256"
  shows "ensureStackFits L 1 s = Throw (set_static_errmsg s SS_stackOverflow)"
  using lua_at_frame[OF assms(3)] frame_cells[of st] frame_okD(1)[of st] assms(4)
  by (simp add: running_raise(2)[OF assms(1,2)] ensureStackFits_def lua_checkstack_def int_ok_def INT_MIN_def INT_MAX_def)

text \<open>
  C24. What is pushed through the C API reads back from the top as what it was, the stack grows by
  one and the elements below keep their positive indices; on a full stack the push raises the error
  for a stack overflow.
\<close>

theorem lua_push_reads_back:
  assumes "running s L c" and "co_errorHandler c \<noteq> None" and "lua_at s L cs st"
  shows "if length (gs_items st) < 256 then
      (\<exists>t. lua_pushboolean L b s = Ok () t \<and> lua_toboolean L (-1) t = Ok (b \<noteq> 0) t \<and>
         lua_type L (-1) t = Ok LUA_TBOOLEAN t \<and> lua_gettop L t = Ok (int (length (gs_items st)) + 1) t) \<and>
      (\<exists>t. lua_pushnumber L d s = Ok () t \<and> lua_tonumberx ex L (-1) t = Ok (True, d) t \<and>
         lua_isinteger L (-1) t = Ok False t) \<and>
      (\<exists>t. lua_pushinteger L n s = Ok () t \<and>
         lua_tonumberx ex L (-1) t = Ok (True, fp_of_int (sint n)) t \<and> lua_isinteger L (-1) t = Ok True t) \<and>
      (\<exists>t. lua_pushthread L s = Ok (mainThread s = Some L) t \<and> lua_tothread L (-1) t = Ok (Some L) t) \<and>
      (\<exists>t. lua_pushnil L s = Ok () t \<and> lua_isnil L (-1) t = Ok True t \<and>
         (\<forall>i v. 0 < i \<and> indexed (gs_items st) i = Some v \<longrightarrow> getValueAtStackIndex L i t = Ok v t))
    else lua_pushnil L s = Throw (set_static_errmsg s SS_stackOverflow)"
proof (cases "length (gs_items st) < 256")
  case True
  let ?t = "\<lambda>v. with_frame s cs (with_stack st (gs_items st @ [v]))"
  have e: "ensureStackFits L 1 s = Ok () s" by (rule pushed_at(1)[OF assms(3) True, of VNil]) simp
  have p: "push_top L v s = Ok () (?t v)"
    "getValueAtStackIndex L (-1) (?t v) = Ok v (?t v)"
    "lua_gettop L (?t v) = Ok (int (length (gs_items st)) + 1) (?t v)"
    "lua_frame L (?t v) = Ok (cs, with_stack st (gs_items st @ [v])) (?t v)"
    if "v \<noteq> VNotPresent" for v
    using pushed_at[OF assms(3) True that] value_at_index[of "?t v" L cs _ "-1" v]
      lua_at_frame[of "?t v" L cs "with_stack st (gs_items st @ [v])"] by simp_all
  have ty: "lua_type L (-1) (?t v) = Ok ty (?t v)"
    if "v \<noteq> VNotPresent" "type_of_value (type_tag v) = Some ty" for v ty
    using p(2,4)[OF that(1)] that(2) by (simp add: lua_type_def)
  have below: "getValueAtStackIndex L i (?t VNil) = Ok v (?t VNil)"
    if "0 < i" "indexed (gs_items st) i = Some v" for i v
    using pushed_at(3)[OF assms(3) True, of VNil] indexed_below[OF that(2,1)]
    by (intro value_at_index[of _ L cs "with_stack st (gs_items st @ [VNil])"]) simp_all
  show ?thesis
    using True e p ty[of "VBool (b \<noteq> 0)"] ty[of "VDouble d"] ty[of "VLong n"] ty[of VNil] below
    by (simp add: lua_pushboolean_def value_new_bool_def lua_toboolean_def lua_pushnumber_def
        value_new_double_def lua_tonumberx_def value_todouble_def checkPresent_def lua_isinteger_def
        has_type_def lua_pushinteger_def value_new_long_def lua_pushthread_def value_new_coroutine2_def
        lua_tothread_def lua_pushnil_def lua_isnil_def)
next
  case False
  then have "length (gs_items st) = 256"
    using frame_okD(2)[OF lua_at_frame(4)[OF assms(3)]] by simp
  then show ?thesis using ensure_full[OF assms] False by (simp add: lua_pushnil_def)
qed

text \<open>
  C23. \<open>lua_rotate\<close> rotates the elements from an index to the top by \<open>n\<close> places towards the top,
  for any \<open>n\<close>, positive or negative and beyond the number of elements, and leaves the elements
  below alone.
\<close>

theorem lua_rotate_rotates:
  assumes "lua_at s L cs st" and "gs_items st = xs @ ys" and "ys \<noteq> []" and "int_ok n"
    and "idx = int (length xs) + 1 \<or> idx = - int (length ys)"
  shows "lua_rotate L idx n s =
     Ok () (with_frame s cs (with_stack st (xs @ rotate (nat ((- n) mod int (length ys))) ys)))"
  by (rule rotate_at[OF assms])

lemma results_length [simp]: "length (results n k vs) = n"
  by (simp add: results_def)

lemma lua_call_returns:
  assumes r: "running s L c" and l: "\<not> co_callStackLock c"
    and room: "int (length (frames c)) < FLUFFYVM_CALL_STACK_SIZE" and m: "always_mem s"
    and cur: "frames c \<noteq> []" "cstates s (last (frames c)) = Some st" "frame_ok st"
      "closures s (cs_closure st) \<noteq> None" "last (frames c) < brk s"
    and items: "gs_items st = front @ VClosure func # args" and f: "closures s func = Some cl"
    and x: "callee_returns (exec L) s (Suc (length (frames c))) L func cl (last (frames c)) (brk s) args k vs"
    and n: "n = (if nresults = LUA_MULTRET then length vs else nat nresults)" "LUA_MULTRET \<le> nresults"
      "length front + 1 + n \<le> 256"
  shows "\<exists>u. lua_call exec L (int (length args)) nresults s = Ok () u \<and> coros u = coros s \<and>
     coroutinesStack u = coroutinesStack s \<and>
     cstates u (last (frames c)) = Some (with_stack st (front @ results n k vs)) \<and> VNotPresent \<notin> set vs"
proof -
  let ?cs = "last (frames c)" and ?res = "results n k vs"
  let ?st = "with_stack st ((front @ [VClosure func]) @ ?res)"
  note a = running_lua_at[OF r cur(1-3)]
  have sp: "cs_sp st - int (length args) - 1 = int (length front)"
    using frame_okD(1)[OF cur(3)] items by simp
  have peek: "interpreter_peek ?cs (int (length front)) s = Ok (Some (VClosure func)) s"
    using stack_cell_item[OF cur(2,3), of "length front"] items cur(2) frame_okD(1)[OF cur(3)]
    by (simp add: interpreter_peek_def)
  have i: "gs_items st = (front @ [VClosure func]) @ args" using items by simp
  have n': "n = (if nresults = -1 then length vs else nat nresults)"
      "length (front @ [VClosure func]) + n \<le> 256"
    using n(1,3) by (simp_all add: LUA_MULTRET_def)
  obtain u where u: "interpreter_call exec (VClosure func) (int (length args)) nresults s = Ok () u"
      "coros u = coros s" "coroutinesStack u = coroutinesStack s" "cstates u ?cs = Some ?st" "VNotPresent \<notin> set vs"
    using interpreter_call_returns[where exec = exec, OF r l room m cur i refl f x n'] by blast
  have "frame_ok ?st"
    using n(3) frame_okD(3)[OF cur(3)] results_present[OF u(5)] items
    by (intro frame_ok_with_stack) auto
  then have "lua_at u L ?cs ?st" using u(2,4) a by (auto simp: lua_at_def)
  then have "rbind (lua_rotate L (int (length front) + 1) (-1) u) (\<lambda>_ s. lua_pop L 1 s) =
      Ok () (with_frame u ?cs (with_stack st (front @ ?res)))"
    using remove_at[of u L ?cs ?st front "VClosure func" ?res "int (length front) + 1"] by simp
  moreover have neg: "(nresults < 0 \<and> nresults \<noteq> LUA_MULTRET) = False"
    using n(2) by (auto simp: LUA_MULTRET_def)
  ultimately have "lua_call exec L (int (length args)) nresults s =
      Ok () (with_frame u ?cs (with_stack st (front @ ?res)))"
    using lua_at_frame(1)[OF a] peek u(1) sp unfolding lua_call_def neg if_False by (simp add: Let_def)
  then show ?thesis using u(2,3,5) by simp
qed

text \<open>
  C22. \<open>lua_call\<close>: with room for the frame and the results, a call of the function below \<open>nargs\<close>
  arguments takes the function and the arguments from the stack and puts the results, padded with
  nil or cut to \<open>nresults\<close> (all of them for \<open>LUA_MULTRET\<close>), in their place, with every coroutine
  as it was.
\<close>

theorem lua_call_contract:
  assumes r: "running s L c" and l: "\<not> co_callStackLock c"
    and room: "int (length (frames c)) < FLUFFYVM_CALL_STACK_SIZE" and m: "always_mem s"
    and cur: "frames c \<noteq> []" "cstates s (last (frames c)) = Some st" "frame_ok st"
      "closures s (cs_closure st) \<noteq> None" "last (frames c) < brk s"
    and items: "gs_items st = front @ VClosure func # args" and f: "closures s func = Some cl"
    and x: "callee_returns (exec L) s (Suc (length (frames c))) L func cl (last (frames c)) (brk s) args k vs"
    and n: "n = (if nresults = LUA_MULTRET then length vs else nat nresults)" "LUA_MULTRET \<le> nresults"
      "length front + 1 + n \<le> 256"
  shows "\<exists>u. lua_call exec L (int (length args)) nresults s = Ok () u \<and> coros u = coros s \<and>
     coroutinesStack u = coroutinesStack s \<and>
     cstates u (last (frames c)) = Some (with_stack st (front @ results n k vs))"
  using lua_call_returns[where exec = exec, OF assms] by blast

text \<open>What a move pushes: as many values as there is room for, the rest is lost.\<close>

lemma push_cells_at:
  assumes "cs \<noteq> cs'" and "lua_at s L cs st" and "lua_at s L' cs' st'"
    and "\<forall>i \<in> set is. i < length (gs_items st)"
  shows "\<exists>t. push_cells L L' (map int is) s = Ok () t \<and> coros t = coros s \<and>
     coroutinesStack t = coroutinesStack s \<and>
     cstates t = (cstates s)(cs' \<mapsto>
       with_stack st' (gs_items st' @ take (256 - length (gs_items st')) (map ((!) (gs_items st)) is)))"
  using assms(2-)
proof (induction "is" arbitrary: s st')
  case Nil
  then show ?case using lua_at_frame(3,4)[OF Nil(2)] frame_okD(4)[of st'] by (simp add: fun_upd_idem)
next
  case (Cons i "is")
  note a = lua_at_frame[OF Cons.prems(1)] and b = lua_at_frame[OF Cons.prems(2)]
  let ?v = "gs_items st ! i"
  have cell: "stack_cell cs (int i) s = Ok ?v s"
    using stack_cell_item[OF a(3,4)] Cons.prems(3) by simp
  have v: "?v \<noteq> VNotPresent" using frame_okD(3)[OF a(4)] Cons.prems(3) by (metis list.set_intros(1) nth_mem)
  show ?case
  proof (cases "length (gs_items st') < 256")
    case True
    let ?st = "with_stack st' (gs_items st' @ [?v])"
    let ?s = "with_frame s cs' ?st"
    have "lua_at ?s L cs st" "lua_at ?s L' cs' ?st"
      using Cons.prems(1) assms(1) pushed_at(3)[OF Cons.prems(2) True v] by (auto simp: lua_at_def)
    then obtain t where t: "push_cells L L' (map int is) ?s = Ok () t" "coros t = coros s"
        "coroutinesStack t = coroutinesStack s"
        "cstates t = (cstates s)(cs' \<mapsto> with_stack st' ((gs_items st' @ [?v]) @
           take (256 - length (gs_items st' @ [?v])) (map ((!) (gs_items st)) is)))"
      using Cons.IH[of ?s ?st] Cons.prems(3) by (auto simp del: fun_upd_apply)
    have "take (256 - length (gs_items st')) (?v # map ((!) (gs_items st)) is) =
        ?v # take (256 - length (gs_items st' @ [?v])) (map ((!) (gs_items st)) is)"
      using True by (simp add: take_Cons')
    then show ?thesis
      using t a(1) cell push_top_room[OF Cons.prems(2) True v]
      by (intro exI[of _ t]) (simp del: fun_upd_apply)
  next
    case False
    then have full: "length (gs_items st') = 256" using frame_okD(2)[OF b(4)] by simp
    let ?s = "set_static_errmsg s SS_stackOverflow"
    have "lua_at ?s L cs st" "lua_at ?s L' cs' st'" using Cons.prems(1,2) by (auto simp: lua_at_def)
    then obtain t where t: "push_cells L L' (map int is) ?s = Ok () t" "coros t = coros s"
        "coroutinesStack t = coroutinesStack s"
        "cstates t = (cstates s)(cs' \<mapsto> with_stack st' (gs_items st' @
           take (256 - length (gs_items st')) (map ((!) (gs_items st)) is)))"
      using Cons.IH[of ?s st'] Cons.prems(3) by (auto simp del: fun_upd_apply)
    then show ?thesis
      using full a(1) cell push_top_full[OF Cons.prems(2) full] by (simp del: fun_upd_apply)
  qed
qed

text \<open>
  C26. \<open>lua_xmove\<close> to another suspended thread that has room for one value: the \<open>n\<close> values on top
  leave the stack and are pushed in the same order on the stack of the other thread as far as it
  has room; the values beyond its 256 entries are lost without an error.
\<close>

theorem lua_xmove_moves:
  assumes "lua_at s L cs st" and "lua_at s L' cs' st'" and "cs \<noteq> cs'"
    and "coros s L' = Some c" and "co_fiber c = Some f" and "fb_state f = FIBER_SUSPENDED"
    and "gs_items st = xs @ ys" and "length (gs_items st') < 256"
  shows "\<exists>t. lua_xmove L L' (int (length ys)) s = Ok () t \<and> coros t = coros s \<and>
     cstates t cs = Some (with_stack st xs) \<and>
     cstates t cs' = Some (with_stack st' (gs_items st' @ take (256 - length (gs_items st')) ys))"
proof -
  note a = lua_at_frame[OF assms(1)] and b = lua_at_frame[OF assms(2)]
  have fib: "get_fiber L' s = Ok f s" using assms(4,5) by (simp add: get_fiber_def)
  show ?thesis
  proof (cases "ys = []")
    case True
    then show ?thesis
      using fib assms(6,7) a(3,4) b(3,4) frame_okD(4)[of st] frame_okD(4)[of st'] by (simp add: lua_xmove_def)
  next
    case False
    let ?is = "[length xs..<length xs + length ys]"
    have check: "lua_checkstack L' 1 s = Ok True s"
      using b(1) frame_cells[OF b(4)] frame_okD(1)[OF b(4)] assms(8)
      by (simp add: lua_checkstack_def int_ok_def INT_MIN_def INT_MAX_def)
    have vals: "map ((!) (gs_items st)) ?is = ys"
      using assms(7) by (intro nth_equalityI) (simp_all add: nth_append)
    have "\<forall>i \<in> set ?is. i < length (gs_items st)" using assms(7) by simp
    from push_cells_at[OF assms(3,1,2) this] obtain t where
      t: "push_cells L L' (map int ?is) s = Ok () t" "coros t = coros s"
        "cstates t = (cstates s)(cs' \<mapsto> with_stack st' (gs_items st' @ take (256 - length (gs_items st')) ys))"
      unfolding vals by blast
    have "lua_at t L cs st" using assms(1,3) t(2,3) by (auto simp: lua_at_def)
    then have pop: "lua_pop L (int (length ys)) t = Ok () (with_frame t cs (with_stack st xs))"
      by (rule lua_pop_at) (rule assms(7))
    have idx: "[int (length xs)..int (length xs) + int (length ys) - 1] = map int ?is" by (rule upto_args)
    have "lua_xmove L L' (int (length ys)) s = Ok () (with_frame t cs (with_stack st xs))"
      using fib assms(6,7) a(2) check False t(1) pop by (simp add: lua_xmove_def Let_def idx)
    then show ?thesis using t(2,3) assms(3) by simp
  qed
qed

text \<open>
  \<open>lua_newtable\<close> never makes a table: it asks for capacity 0, which is no power of two, and
  raises the error for missing memory, whatever memory there is.
\<close>

theorem lua_newtable_fails:
  assumes "running s L c" and "co_errorHandler c \<noteq> None" and "lua_at s L cs st"
    and "length (gs_items st) < 256" and "staticStrings s SS_outOfMemory \<noteq> VNotPresent"
  shows "\<exists>t. lua_newtable ex L s = Throw t \<and> errMsg t = Some (staticStrings s SS_outOfMemory) \<and>
     tabs t = tabs s \<and> cstates t = cstates s"
proof -
  let ?s = "set_static_errmsg s SS_invalidCapacity"
  let ?t = "set_static_errmsg ?s SS_outOfMemory"
  have "value_new_table ex FLUFFYVM_HASHTABLE_DEFAULT_LOAD_FACTOR 0 s = Ok VNotPresent ?t"
    using assms(5) by (simp add: value_new_table_def hashtable_new_def not_power_of_two_def outOfMemory_errmsg_def)
  moreover have "running ?t L c" using assms(1) by (simp add: running_def)
  then have "raise_errmsg ?t = Throw (fluffyvm_set_errmsg ?t (fluffyvm_get_errmsg ?t))"
    for r :: "(unit, vm) res"
    using running_raise(1)[OF _ assms(2)] by (simp add: raise_errmsg_def)
  moreover have "fluffyvm_get_errmsg ?t = staticStrings s SS_outOfMemory"
    using assms(5) by (simp add: set_static_errmsg_def fluffyvm_set_errmsg_def fluffyvm_get_errmsg_def)
  ultimately have "lua_newtable ex L s = Throw (fluffyvm_set_errmsg ?t (staticStrings s SS_outOfMemory))"
    using ensure_room[OF assms(3), of 1] assms(4) by (simp add: lua_newtable_def lua_createtable_def)
  then show ?thesis using assms(5) by simp (simp add: fluffyvm_set_errmsg_def)
qed

subsection \<open>Concrete cases\<close>

text \<open>
  A machine that runs the coroutine 100 in the frame 7, with an error handler, beside the suspended
  coroutine 101 with the frame 8.
\<close>

definition api_machine :: "value list \<Rightarrow> value list \<Rightarrow> vm" where
  "api_machine xs ys = (call_machine xs)
     \<lparr>coros := [100 \<mapsto> (coroutine_of [7] FIBER_RUNNING)\<lparr>co_errorHandler := Some 0\<rparr>,
                101 \<mapsto> coroutine_of [8] FIBER_SUSPENDED],
      cstates := [7 \<mapsto> with_stack (new_call_state 50 100 False) xs,
                  8 \<mapsto> with_stack (new_call_state 50 101 False) ys]\<rparr>"

lemma api_machine_simps [simp]:
  "coros (api_machine xs ys) = [100 \<mapsto> (coroutine_of [7] FIBER_RUNNING)\<lparr>co_errorHandler := Some 0\<rparr>,
     101 \<mapsto> coroutine_of [8] FIBER_SUSPENDED]"
  "cstates (api_machine xs ys) = [7 \<mapsto> with_stack (new_call_state 50 100 False) xs,
     8 \<mapsto> with_stack (new_call_state 50 101 False) ys]"
  "closures (api_machine xs ys) = [50 \<mapsto> lua_closure []]" "brk (api_machine xs ys) = 200"
  "coroutinesStack (api_machine xs ys) = stack_of FLUFFYVM_MAX_COROUTINE_NEST [100]"
  "always_mem (api_machine xs ys)" "staticStrings (api_machine xs ys) m = VNil"
  by (simp_all add: api_machine_def call_machine_def vm_frame_def vm_running_def always_mem_def blank_vm_def)

lemma api_machine_at:
  assumes "length xs \<le> 256" and "VNotPresent \<notin> set xs" and "length ys \<le> 256" and "VNotPresent \<notin> set ys"
  shows "running (api_machine xs ys) 100 ((coroutine_of [7] FIBER_RUNNING)\<lparr>co_errorHandler := Some 0\<rparr>)"
    "lua_at (api_machine xs ys) 100 7 (with_stack (new_call_state 50 100 False) xs)"
    "lua_at (api_machine xs ys) 101 8 (with_stack (new_call_state 50 101 False) ys)"
  using frame_ok_with_stack[OF assms(1,2), of "new_call_state 50 100 False"]
    frame_ok_with_stack[OF assms(3,4), of "new_call_state 50 101 False"]
  by (simp_all add: running_def coro_ok_def config_defs lua_at_def) (simp_all add: coroutine_of_def)

theorem stack_index_resolves_witness:
  "getValueAtStackIndex 100 (-2) (api_machine [VNil, VLong 4] []) = Ok VNil (api_machine [VNil, VLong 4] []) \<and>
   getValueAtStackIndex 100 3 (api_machine [VNil, VLong 4] []) =
     Throw (set_static_errmsg (api_machine [VNil, VLong 4] []) SS_invalidStackIndex)"
  using stack_index_resolves[OF api_machine_at(1) _ api_machine_at(2), of "[VNil, VLong 4]" "[]"]
  by (simp add: indexed_def)

theorem lua_push_reads_back_witness:
  "\<exists>t. lua_pushthread 100 (api_machine [] []) = Ok (mainThread (api_machine [] []) = Some 100) t \<and>
     lua_tothread 100 (-1) t = Ok (Some 100) t"
  using lua_push_reads_back[OF api_machine_at(1) _ api_machine_at(2), of "[]" "[]"] by simp

theorem lua_rotate_rotates_witness:
  "lua_rotate 100 2 (-5) (api_machine [VNil, VLong 1, VLong 2, VLong 3] []) =
     Ok () (with_frame (api_machine [VNil, VLong 1, VLong 2, VLong 3] []) 7
       (with_stack (new_call_state 50 100 False) [VNil, VLong 3, VLong 1, VLong 2]))"
  using lua_rotate_rotates[OF api_machine_at(2)[of "[VNil, VLong 1, VLong 2, VLong 3]" "[]"],
      of "[VNil]" "[VLong 1, VLong 2, VLong 3]" "-5" 2]
  by (simp add: int_ok_def INT_MIN_def INT_MAX_def numeral_2_eq_2)

theorem lua_call_contract_witness:
  "\<exists>u. lua_call (\<lambda>co. two_values) 100 1 2 (api_machine [VLong 1, VClosure 50, VBool True] []) = Ok () u \<and>
     cstates u 7 = Some (with_stack (with_stack (new_call_state 50 100 False)
       [VLong 1, VClosure 50, VBool True]) [VLong 1, VLong 9, VNil])"
proof -
  let ?xs = "[VLong 1, VClosure 50, VBool True]"
  have "results 2 1 [VNil, VLong 9] = [VLong 9, VNil]" by (simp add: results_def numeral_2_eq_2)
  then show ?thesis
    using lua_call_contract[OF api_machine_at(1)[of ?xs "[]"], of "with_stack (new_call_state 50 100 False) ?xs"
        "[VLong 1]" 50 "[VBool True]" "lua_closure []" "\<lambda>co. two_values" 1 "[VNil, VLong 9]" 2 2]
      frame_ok_with_stack[of ?xs "new_call_state 50 100 False"] two_values_returns[of 7]
    by (auto simp: config_defs LUA_MULTRET_def)
qed

theorem lua_xmove_moves_witness:
  "\<exists>t. lua_xmove 100 101 2 (api_machine [VNil, VLong 1, VLong 2] [VBool True]) = Ok () t \<and>
     cstates t 7 = Some (with_stack (with_stack (new_call_state 50 100 False) [VNil, VLong 1, VLong 2]) [VNil]) \<and>
     cstates t 8 = Some (with_stack (with_stack (new_call_state 50 101 False) [VBool True])
       [VBool True, VLong 1, VLong 2])"
  using lua_xmove_moves[OF api_machine_at(2,3)[of "[VNil, VLong 1, VLong 2]" "[VBool True]"],
      of "coroutine_of [8] FIBER_SUSPENDED" _ "[VNil]" "[VLong 1, VLong 2]"]
  by auto

theorem lua_newtable_fails_witness:
  "\<exists>t. lua_newtable sample_ext 100 (api_machine [] []) = Throw t \<and> errMsg t = Some VNil"
  using lua_newtable_fails[OF api_machine_at(1) _ api_machine_at(2), of "[]" "[]" sample_ext] by auto

end
