(* ===== verification/DoubleFacts.thy ===== *)
theory DoubleFacts
  imports Doubles
begin

text \<open>
  Integers of at most 53 bits as doubles: the conversion is exact, so truncation gives the integer
  back. Needed where the source passes integers through a \<open>double\<close>.
\<close>

unbundle bit_operations_syntax

subsection \<open>Fields of a pattern\<close>

lemma fields_uint:
  "int (fp_exp x) = uint x div 2 ^ 52 mod 2048" "int (fp_frac x) = uint x mod 2 ^ 52"
proof -
  have m: "(0x7FF :: 64 word) = mask 11" "(0xFFFFFFFFFFFFF :: 64 word) = mask 52"
    by (simp_all add: mask_eq_exp_minus_1)
  show "int (fp_exp x) = uint x div 2 ^ 52 mod 2048"
    unfolding fp_exp_def m
    by (simp add: uint_nat[symmetric] take_bit_eq_mask[symmetric] drop_bit_eq_div take_bit_eq_mod
        uint_div uint_mod)
  show "int (fp_frac x) = uint x mod 2 ^ 52"
    unfolding fp_frac_def m
    by (simp add: uint_nat[symmetric] take_bit_eq_mask[symmetric] take_bit_eq_mod uint_mod)
qed

lemma fields_pack:
  assumes "e < 2047" and "f < 2 ^ 52"
  shows "fp_exp (word_of_nat (e * 2 ^ 52 + f)) = e" "fp_frac (word_of_nat (e * 2 ^ 52 + f)) = f"
    "\<not> fp_neg (word_of_nat (e * 2 ^ 52 + f))"
proof -
  have b: "e * 2 ^ 52 + f < 2 ^ 63" using assms by simp
  then have u: "uint (word_of_nat (e * 2 ^ 52 + f) :: 64 word) = int (e * 2 ^ 52 + f)"
    by (simp add: unsigned_of_nat take_bit_nat_eq_self flip: of_nat_add of_nat_mult)
  have "int (fp_exp (word_of_nat (e * 2 ^ 52 + f))) = int e" "int (fp_frac (word_of_nat (e * 2 ^ 52 + f))) = int f"
    unfolding fields_uint u using assms by simp_all
  then show "fp_exp (word_of_nat (e * 2 ^ 52 + f)) = e" "fp_frac (word_of_nat (e * 2 ^ 52 + f)) = f"
    by simp_all
  show "\<not> fp_neg (word_of_nat (e * 2 ^ 52 + f))"
  proof -
    have "bit (word_of_nat (e * 2 ^ 52 + f) :: 64 word) 63 \<longleftrightarrow> bit (int (e * 2 ^ 52 + f)) 63"
      unfolding u[symmetric] by (simp add: bit_uint_iff)
    moreover have "int (e * 2 ^ 52 + f) div 2 ^ 63 = 0" using b by (intro div_pos_pos_trivial) simp_all
    ultimately show ?thesis unfolding fp_neg_def by (simp only: bit_iff_odd even_zero simp_thms)
  qed
qed

subsection \<open>Exact conversion\<close>

lemma round_exact:
  assumes "0 < n" and "n < 2 ^ 53"
  defines "k \<equiv> floorlog 2 n - 1"
  shows "fp_round s n 1 0 = fp_pack s ((k + 1022) * 2 ^ 52 + n * 2 ^ (52 - k))"
    "2 ^ 52 \<le> n * 2 ^ (52 - k)" "n * 2 ^ (52 - k) < 2 ^ 53" "k \<le> 52"
proof -
  have l: "2 ^ (floorlog 2 n - 1) \<le> n" "n < 2 ^ floorlog 2 n" using floorlog_bounds[of n 2] assms(1) by simp_all
  then obtain m where m: "floorlog 2 n = Suc m" using assms(1) by (cases "floorlog 2 n") simp_all
  then have b: "2 ^ k \<le> n" "n < 2 ^ Suc k" "0 < floorlog 2 n" using l by (simp_all add: k_def)
  have "2 ^ k < (2::nat) ^ 53" using b(1) assms(2) by simp
  then have "k < 53" by (rule power_less_imp_less_exp[rotated]) simp
  then show k: "k \<le> 52" by simp
  have p: "(2::nat) ^ 52 = 2 ^ k * 2 ^ (52 - k)" "(2::nat) ^ 53 = 2 ^ Suc k * 2 ^ (52 - k)"
    using k by (simp_all flip: power_add power_Suc)
  show "2 ^ 52 \<le> n * 2 ^ (52 - k)" unfolding p using b(1) by simp
  show "n * 2 ^ (52 - k) < 2 ^ 53" unfolding p using b(2) by simp
  have f: "floorlog 2 n = Suc k" "floorlog 2 (Suc 0) = 1" using b(3) by (simp_all add: k_def compute_floorlog)
  show "fp_round s n 1 0 = fp_pack s ((k + 1022) * 2 ^ 52 + n * 2 ^ (52 - k))"
    using b(1) k
    by (simp add: fp_round_def fp_round_lead_def f fp_round_exp_def fp_round_shift_def fp_round_ratio_def
        fp_round_quotient_def nat_diff_distrib nat_add_distrib)
qed

lemma of_int_pattern:
  assumes "0 < n" and "n < 2 ^ 53"
  obtains k f where "fp_of_int (int n) = word_of_nat ((k + 1023) * 2 ^ 52 + f)" "k \<le> 52" "f < 2 ^ 52"
    "2 ^ 52 + f = n * 2 ^ (52 - k)"
proof -
  let ?k = "floorlog 2 n - 1"
  note r = round_exact[OF assms]
  let ?x = "(?k + 1022) * 2 ^ 52 + n * 2 ^ (52 - ?k)" and ?f = "n * 2 ^ (52 - ?k) - 2 ^ 52"
  have x: "?x = (?k + 1023) * 2 ^ 52 + ?f" using r(2) by simp
  have "?x < 2047 * 2 ^ 52" using r(3,4) unfolding x by simp
  then have "fp_pack False ?x = word_of_nat ?x" by (simp only: fp_pack_def fp_signed_def if_True if_False)
  moreover have "fp_of_int (int n) = fp_pack False ?x"
    using assms(1) r(1)[of False] by (simp add: fp_of_int_def fp_round_int_def)
  ultimately have "fp_of_int (int n) = word_of_nat ((?k + 1023) * 2 ^ 52 + ?f)" by (simp only: x)
  then show ?thesis using r(2-4) by (intro that[of ?k "n * 2 ^ (52 - ?k) - 2 ^ 52"]) simp_all
qed

lemma of_int_exact:
  assumes "0 \<le> n" and "n < 2 ^ 53"
  shows "fp_trunc (fp_of_int n) = n" "\<not> fp_neg (fp_of_int n)" "fp_exp (fp_of_int n) < 2047"
proof -
  have "fp_trunc (fp_of_int n) = n \<and> \<not> fp_neg (fp_of_int n) \<and> fp_exp (fp_of_int n) < 2047"
  proof (cases "n = 0")
    case True
    then show ?thesis
      by (simp add: fp_of_int_def fp_round_int_def fp_trunc_def fp_neg_def fp_exp_def fp_mant_def fp_frac_def
        fp_scale_def Let_def)
  next
    case False
    have "0 < nat n" "nat n < 2 ^ 53" using False assms by simp_all
    then obtain k f where w: "fp_of_int (int (nat n)) = word_of_nat ((k + 1023) * 2 ^ 52 + f)" "k \<le> 52"
      "f < 2 ^ 52" "2 ^ 52 + f = nat n * 2 ^ (52 - k)"
      by (rule of_int_pattern)
    have x: "fp_of_int n = word_of_nat ((k + 1023) * 2 ^ 52 + f)" using w(1) assms(1) by simp
    have "k + 1023 < 2047" using w(2) by simp
    note p = fields_pack[OF this w(3), folded x]
    have "fp_scale (fp_of_int n) = k + 1023" "fp_mant (fp_of_int n) = nat n * 2 ^ (52 - k)"
      using w(4) by (simp_all add: fp_scale_def fp_mant_def p)
    then show ?thesis
      using p w(2) assms(1) by (cases "k = 52") (simp_all add: fp_trunc_def nat_diff_distrib')
  qed
  then show "fp_trunc (fp_of_int n) = n" "\<not> fp_neg (fp_of_int n)" "fp_exp (fp_of_int n) < 2047"
    by simp_all
qed

end
