(* ===== verification/JsonLoader.thy ===== *)
theory JsonLoader
  imports Bytecode DoubleFacts
begin

text \<open>
  \<open>loader/bytecode/json.c\<close>: bytecode written as JSON is checked, turned into the protobuf message
  of \<open>bytecode.proto\<close>, packed, and given to \<open>bytecode_load\<close>. The JSON parser (cJSON) and the
  protobuf packer are libraries outside this repository and parameters; \<open>json\<close> is the tree a
  \<open>cJSON\<close> node is, and the accessors are the documented ones of cJSON: a type test of a missing
  item fails, an item is found by its name without regard to case and the first one counts, a
  number is a double, and what an accessor gives for a string, and compares a name with, is a C string,
  which ends at the first zero byte (an escape in the text can put one there).
\<close>

unbundle bit_operations_syntax

subsection \<open>The tree\<close>

datatype json =
    JNull
  | JBool bool
  | JNumber dbl
  | JString "byte list"
  | JArray "json list"
  | JObject "(byte list \<times> json) list"

definition lower :: "byte \<Rightarrow> byte" where
  "lower b = (if 0x41 \<le> b \<and> b \<le> 0x5A then b + 0x20 else b)"

fun cJSON_GetObjectItem :: "json \<Rightarrow> string \<Rightarrow> json option" where
  "cJSON_GetObjectItem (JObject members) name =
     map_option snd (find (\<lambda>(k, v). map lower (cstr k) = map lower (bytes_of name)) members)"
| "cJSON_GetObjectItem j name = None"

definition cJSON_IsObject :: "json option \<Rightarrow> bool" where
  "cJSON_IsObject j = (case j of Some (JObject ms) \<Rightarrow> True | _ \<Rightarrow> False)"

definition cJSON_IsArray :: "json option \<Rightarrow> bool" where
  "cJSON_IsArray j = (case j of Some (JArray js) \<Rightarrow> True | _ \<Rightarrow> False)"

definition cJSON_IsString :: "json option \<Rightarrow> bool" where
  "cJSON_IsString j = (case j of Some (JString s) \<Rightarrow> True | _ \<Rightarrow> False)"

definition cJSON_IsNumber :: "json option \<Rightarrow> bool" where
  "cJSON_IsNumber j = (case j of Some (JNumber d) \<Rightarrow> True | _ \<Rightarrow> False)"

fun array_items :: "json option \<Rightarrow> json list" where
  "array_items (Some (JArray js)) = js"
| "array_items j = []"

definition cJSON_GetNumberValue :: "json option \<Rightarrow> dbl" where
  "cJSON_GetNumberValue j = (case j of Some (JNumber d) \<Rightarrow> d | _ \<Rightarrow> fp_NaN)"

definition cJSON_GetStringValue :: "json option \<Rightarrow> byte list" where
  "cJSON_GetStringValue j = (case j of Some (JString s) \<Rightarrow> cstr s | _ \<Rightarrow> [])"

text \<open>The items of an array are smaller than the object that has it: the recursion ends.\<close>

lemma item_size:
  assumes "cJSON_GetObjectItem j name = Some k"
  shows "size k < size j"
proof (cases j)
  case (JObject ms)
  then obtain p where p: "find (\<lambda>(k, v). map lower (cstr k) = map lower (bytes_of name)) ms = Some p" "k = snd p"
    using assms by auto
  then have "p \<in> set ms" by (metis find_Some_iff nth_mem)
  then have "size_prod (\<lambda>x. 0) size p \<le> size_list (size_prod (\<lambda>x. 0) size) ms" by (rule size_list_estimation') simp
  then show ?thesis using JObject p(2) by (cases p) simp
qed (use assms in simp_all)

lemma array_size: "k \<in> set (array_items j) \<Longrightarrow> j = Some a \<Longrightarrow> size k < size a"
  using size_list_estimation'[of k _ "size k" size] by (cases a) fastforce+

lemma child_size:
  "k \<in> set (array_items (cJSON_GetObjectItem j name)) \<Longrightarrow> size k < size j"
  using array_size item_size less_trans by (cases "cJSON_GetObjectItem j name") fastforce+

subsection \<open>Validation\<close>

text \<open>\<open>floor\<close> of the C library, and the loops that stop at the first error message.\<close>

definition fp_floor :: "dbl \<Rightarrow> dbl" where
  "fp_floor x =
     (if fp_exp x = 2047 then x
      else let t = fp_trunc x in fp_of_int (if fp_less x (fp_of_int t) then t - 1 else t))"

fun first_error :: "('a \<Rightarrow> string option) \<Rightarrow> 'a list \<Rightarrow> string option" where
  "first_error f [] = None"
| "first_error f (x # xs) = (case f x of Some e \<Rightarrow> Some e | None \<Rightarrow> first_error f xs)"

lemma first_error_cong [fundef_cong]:
  "xs = ys \<Longrightarrow> (\<And>x. x \<in> set ys \<Longrightarrow> f x = g x) \<Longrightarrow> first_error f xs = first_error g ys"
  by (induction ys arbitrary: xs) (auto split: option.split)

lemma first_error_None: "first_error f xs = None \<longleftrightarrow> (\<forall>x \<in> set xs. f x = None)"
  by (induction xs) (auto split: option.split)

definition UINT32_MAX :: dbl where "UINT32_MAX = fp_of_int 4294967295"

definition bad_word :: "dbl \<Rightarrow> bool" where
  "bad_word d \<longleftrightarrow> fp_less d 0 \<or> fp_less UINT32_MAX d \<or> \<not> fp_eq (fp_floor d) d"

definition validate_instruction :: "json \<Rightarrow> string option" where
  "validate_instruction current =
     (let high = cJSON_GetObjectItem current ''high''; low = cJSON_GetObjectItem current ''low'' in
      if \<not> cJSON_IsObject (Some current) then Some ''instruction is not object''
      else if \<not> cJSON_IsNumber high then Some ''instruction.high is not number''
      else if \<not> cJSON_IsNumber low then Some ''instruction.low is not number''
      else if bad_word (cJSON_GetNumberValue low) then Some ''instruction.low is invalid''
      else if bad_word (cJSON_GetNumberValue high) then Some ''instruction.high is invalid''
      else None)"

definition validate_line :: "json \<Rightarrow> string option" where
  "validate_line current =
     (if \<not> cJSON_IsNumber (Some current) then Some ''invalid line info array'' else None)"

function validatePrototype :: "json \<Rightarrow> string option" where
  "validatePrototype prototype =
     (let prototypes = cJSON_GetObjectItem prototype ''prototypes'';
          instructions = cJSON_GetObjectItem prototype ''instructions'';
          lineInfo = cJSON_GetObjectItem prototype ''lineInfo'';
          sourceFile = cJSON_GetObjectItem prototype ''sourceFile'' in
      if \<not> cJSON_IsObject (Some prototype) then Some ''prototype is not object''
      else if \<not> cJSON_IsString sourceFile then Some ''prototype.sourceFile is not array''
      else if \<not> cJSON_IsArray prototypes then Some ''prototype.prototypes is not array''
      else if \<not> cJSON_IsArray instructions then Some ''prototype.instructions is not array''
      else if \<not> cJSON_IsArray lineInfo then Some ''prototype.lineInfo is not array''
      else case first_error validate_instruction (array_items instructions) of
        Some e \<Rightarrow> Some e
      | None \<Rightarrow> (case first_error validate_line (array_items lineInfo) of
          Some e \<Rightarrow> Some e
        | None \<Rightarrow> first_error validatePrototype (array_items prototypes)))"
  by auto
termination by (relation "measure size") (use child_size in auto)

declare validatePrototype.simps [simp del]

definition validate_constant :: "json \<Rightarrow> string option" where
  "validate_constant current =
     (let type = cJSON_GetObjectItem current ''type''; data = cJSON_GetObjectItem current ''data'';
          name = cJSON_GetStringValue type in
      if \<not> cJSON_IsObject (Some current) then Some ''invalid constant expect JSON object''
      else if \<not> cJSON_IsString type then Some ''invalid constant.type expect string''
      else if name = bytes_of ''string'' then
        (if \<not> cJSON_IsString data then Some ''invalid constant.data expect string'' else None)
      else if name = bytes_of ''integer'' \<or> name = bytes_of ''float'' then
        (if \<not> cJSON_IsNumber data then Some ''invalid constant.data expect number'' else None)
      else Some ''unknown constant.type'')"

subsection \<open>The message\<close>

text \<open>
  A conversion of a \<open>double\<close> that is outside the integer type is undefined, which is \<open>None\<close> here
  and a fault of the loader. The loops that convert every item:
\<close>

fun collect :: "('a \<Rightarrow> 'b option) \<Rightarrow> 'a list \<Rightarrow> 'b list option" where
  "collect f [] = Some []"
| "collect f (x # xs) =
     Option.bind (f x) (\<lambda>y. Option.bind (collect f xs) (\<lambda>ys. Some (y # ys)))"

lemma collect_cong [fundef_cong]:
  "xs = ys \<Longrightarrow> (\<And>x. x \<in> set ys \<Longrightarrow> f x = g x) \<Longrightarrow> collect f xs = collect g ys"
  by (induction ys arbitrary: xs) auto

lemma collect_map: "(\<And>x. x \<in> set xs \<Longrightarrow> f (g x) = Some (h x)) \<Longrightarrow> collect f (map g xs) = Some (map h xs)"
  by (induction xs) auto

definition to_uint64 :: "dbl \<Rightarrow> u64 option" where
  "to_uint64 d =
     (if fp_exp d = 2047 \<or> fp_trunc d < 0 \<or> 2 ^ 64 \<le> fp_trunc d then None
      else Some (word_of_int (fp_trunc d)))"

definition to_int32 :: "dbl \<Rightarrow> int option" where
  "to_int32 d = (if fp_exp d = 2047 \<or> \<not> int_ok (fp_trunc d) then None else Some (fp_trunc d))"

definition load_instruction :: "json \<Rightarrow> u64 option" where
  "load_instruction current =
     Option.bind (to_uint64 (cJSON_GetNumberValue (cJSON_GetObjectItem current ''low''))) (\<lambda>low.
     Option.bind (to_uint64 (cJSON_GetNumberValue (cJSON_GetObjectItem current ''high''))) (\<lambda>high.
       Some (push_bit 32 high OR low)))"

definition load_line :: "json \<Rightarrow> int option" where
  "load_line current = to_int32 (cJSON_GetNumberValue (Some current))"

function json_loadPrototype :: "json \<Rightarrow> pb_prototype option" where
  "json_loadPrototype j =
     (let prototypes = cJSON_GetObjectItem j ''prototypes'';
          instructions = cJSON_GetObjectItem j ''instructions'';
          lineInfo = cJSON_GetObjectItem j ''lineInfo'';
          sourceFile = cJSON_GetObjectItem j ''sourceFile'' in
      Option.bind (collect json_loadPrototype (array_items prototypes)) (\<lambda>ps.
      Option.bind (collect load_instruction (array_items instructions)) (\<lambda>is.
      Option.bind (collect load_line (array_items lineInfo)) (\<lambda>ls.
        Some (Pb_Prototype is ps ls (cJSON_GetStringValue sourceFile))))))"
  by auto
termination by (relation "measure size") (use child_size in auto)

declare json_loadPrototype.simps [simp del]

text \<open>A constant that passed the validation is of one of the three types.\<close>

definition json_load_constant :: "json \<Rightarrow> pb_constant option" where
  "json_load_constant current =
     (let name = cJSON_GetStringValue (cJSON_GetObjectItem current ''type'');
          data = cJSON_GetObjectItem current ''data'' in
      if name = bytes_of ''string'' then
        Some \<lparr>pbc_type = STRING, pbc_data = Data_str (cJSON_GetStringValue data)\<rparr>
      else if name = bytes_of ''integer'' then
        map_option (\<lambda>n. \<lparr>pbc_type = LONG, pbc_data = Data_longNum (word_of_int n)\<rparr>)
          (fp_to_int64 (cJSON_GetNumberValue data))
      else Some \<lparr>pbc_type = DOUBLE, pbc_data = Data_doubleNum (cJSON_GetNumberValue data)\<rparr>)"

subsection \<open>Loading\<close>

text \<open>
  The mutex around cJSON is \<open>locked\<close>; the loader gives its state beside the result. The label
  \<open>error\<close> unlocks only when there is a tree. \<open>malloc\<close> and \<open>calloc\<close> succeed.
\<close>

definition load_error :: "bool \<Rightarrow> string \<Rightarrow> vm \<Rightarrow> (bool \<times> addr option, vm) res" where
  "load_error parsed msg s =
     (case value_new_string s (bytes_of msg) of
        (v, s) \<Rightarrow>
          let s = (if v \<noteq> VNotPresent then fluffyvm_set_errmsg s v
                   else set_static_errmsg s SS_outOfMemoryWhileAnErrorOccured)
          in Ok (\<not> parsed, None) s)"

definition bytecode_loader_json_load ::
    "(byte list \<Rightarrow> json option) \<Rightarrow> (pb_bytecode \<Rightarrow> byte list) \<Rightarrow> pb_unpack \<Rightarrow> bool \<Rightarrow> byte list \<Rightarrow> vm \<Rightarrow>
     (bool \<times> addr option, vm) res" where
  "bytecode_loader_json_load parse pack unpack locked buffer s =
     (if locked then Fault Deadlock
      else case parse buffer of
        None \<Rightarrow> load_error False ''Error parsing'' s
      | Some json \<Rightarrow>
          let constants = cJSON_GetObjectItem json ''constants'';
              mainPrototype = cJSON_GetObjectItem json ''mainPrototype'' in
          if \<not> cJSON_IsObject (Some json) then load_error True ''JSON not object'' s
          else if \<not> cJSON_IsArray constants then load_error True ''root.constants is not array'' s
          else case first_error validate_constant (array_items constants) of
            Some e \<Rightarrow> load_error True e s
          | None \<Rightarrow>
              (case mainPrototype of
                 None \<Rightarrow> load_error True ''prototype is not object'' s
               | Some main \<Rightarrow> (case validatePrototype main of
                   Some e \<Rightarrow> load_error True e s
                 | None \<Rightarrow>
                     (case (collect json_load_constant (array_items constants), json_loadPrototype main) of
                        (Some cs, Some p) \<Rightarrow>
                          rbind (bytecode_load unpack (pack \<lparr>pb_version = 1, pb_constants = cs,
                              pb_mainPrototype = Some p\<rparr>) s) (\<lambda>r s. Ok (False, r) s)
                      | _ \<Rightarrow> Fault SignedOverflow))))"

subsection \<open>Messages written as JSON\<close>

definition json_of_word :: "u64 \<Rightarrow> json" where
  "json_of_word w = JObject
     [(bytes_of ''high'', JNumber (fp_of_int (uint (drop_bit 32 w)))),
      (bytes_of ''low'', JNumber (fp_of_int (uint (take_bit 32 w))))]"

fun json_of_prototype :: "pb_prototype \<Rightarrow> json" where
  "json_of_prototype (Pb_Prototype is ps ls src) = JObject
     [(bytes_of ''prototypes'', JArray (map json_of_prototype ps)),
      (bytes_of ''instructions'', JArray (map json_of_word is)),
      (bytes_of ''lineInfo'', JArray (map (\<lambda>n. JNumber (fp_of_int n)) ls)),
      (bytes_of ''sourceFile'', JString src)]"

fun json_of_data :: "constant_data \<Rightarrow> json" where
  "json_of_data (Data_str bs) = JObject
     [(bytes_of ''type'', JString (bytes_of ''string'')), (bytes_of ''data'', JString bs)]"
| "json_of_data (Data_longNum n) = JObject
     [(bytes_of ''type'', JString (bytes_of ''integer'')), (bytes_of ''data'', JNumber (fp_of_int (sint n)))]"
| "json_of_data (Data_doubleNum d) = JObject
     [(bytes_of ''type'', JString (bytes_of ''float'')), (bytes_of ''data'', JNumber d)]"
| "json_of_data Data_not_set = JNull"

definition json_of_message :: "pb_constant list \<Rightarrow> pb_prototype \<Rightarrow> json" where
  "json_of_message cs p = JObject
     [(bytes_of ''constants'', JArray (map (\<lambda>c. json_of_data (pbc_data c)) cs)),
      (bytes_of ''mainPrototype'', json_of_prototype p)]"

text \<open>The message that arrives: a string with an embedded zero byte ends there.\<close>

fun cut_prototype :: "pb_prototype \<Rightarrow> pb_prototype" where
  "cut_prototype (Pb_Prototype is ps ls src) = Pb_Prototype is (map cut_prototype ps) ls (cstr src)"

definition cut_constant :: "pb_constant \<Rightarrow> pb_constant" where
  "cut_constant c = c\<lparr>pbc_data := (case pbc_data c of Data_str bs \<Rightarrow> Data_str (cstr bs) | d \<Rightarrow> d)\<rparr>"

text \<open>What the format can hold: line numbers from 0, integers of 53 bits from 0.\<close>

fun lines_ok :: "pb_prototype \<Rightarrow> bool" where
  "lines_ok (Pb_Prototype is ps ls src) \<longleftrightarrow>
     (\<forall>n \<in> set ls. 0 \<le> n \<and> n \<le> INT_MAX) \<and> (\<forall>p \<in> set ps. lines_ok p)"

definition constant_ok :: "pb_constant \<Rightarrow> bool" where
  "constant_ok c \<longleftrightarrow> constant_typed c \<and>
     (\<forall>n. pbc_data c = Data_longNum n \<longrightarrow> 0 \<le> sint n \<and> sint n < 2 ^ 53)"

lemma key_names [simp]:
  "map lower (bytes_of ''high'') \<noteq> map lower (bytes_of ''low'')"
  "map lower (bytes_of ''prototypes'') \<noteq> map lower (bytes_of ''instructions'')"
  "map lower (bytes_of ''prototypes'') \<noteq> map lower (bytes_of ''lineInfo'')"
  "map lower (bytes_of ''prototypes'') \<noteq> map lower (bytes_of ''sourceFile'')"
  "map lower (bytes_of ''instructions'') \<noteq> map lower (bytes_of ''lineInfo'')"
  "map lower (bytes_of ''instructions'') \<noteq> map lower (bytes_of ''sourceFile'')"
  "map lower (bytes_of ''lineInfo'') \<noteq> map lower (bytes_of ''sourceFile'')"
  "map lower (bytes_of ''constants'') \<noteq> map lower (bytes_of ''mainPrototype'')"
  "map lower (bytes_of ''type'') \<noteq> map lower (bytes_of ''data'')"
  "bytes_of ''integer'' \<noteq> bytes_of ''string''" "bytes_of ''float'' \<noteq> bytes_of ''string''"
  "bytes_of ''float'' \<noteq> bytes_of ''integer''"
  by code_simp+

lemma key_cstr [simp]:
  "cstr (bytes_of ''high'') = bytes_of ''high''" "cstr (bytes_of ''low'') = bytes_of ''low''"
  "cstr (bytes_of ''prototypes'') = bytes_of ''prototypes''"
  "cstr (bytes_of ''instructions'') = bytes_of ''instructions''"
  "cstr (bytes_of ''lineInfo'') = bytes_of ''lineInfo''" "cstr (bytes_of ''sourceFile'') = bytes_of ''sourceFile''"
  "cstr (bytes_of ''constants'') = bytes_of ''constants''"
  "cstr (bytes_of ''mainPrototype'') = bytes_of ''mainPrototype''"
  "cstr (bytes_of ''type'') = bytes_of ''type''" "cstr (bytes_of ''data'') = bytes_of ''data''"
  "cstr (bytes_of ''string'') = bytes_of ''string''" "cstr (bytes_of ''integer'') = bytes_of ''integer''"
  "cstr (bytes_of ''float'') = bytes_of ''float''"
  by (simp_all add: cstr_def bytes_of_def)

lemmas key_names_sym [simp] = key_names(10-12)[THEN not_sym]

lemma pattern_key:
  assumes "e < 2047" and "f < 2 ^ 52"
  shows "fp_key (word_of_nat (e * 2 ^ 52 + f)) = int (e * 2 ^ 52 + f)"
    "\<not> fp_is_nan (word_of_nat (e * 2 ^ 52 + f))"
proof -
  have b: "e * 2 ^ 52 + f < 2 ^ 63" using assms by simp
  then have "uint (word_of_nat (e * 2 ^ 52 + f) :: 64 word) = int (e * 2 ^ 52 + f)"
    by (simp add: unsigned_of_nat take_bit_nat_eq_self flip: of_nat_add of_nat_mult)
  moreover have "(0x7FFFFFFFFFFFFFFF :: 64 word) = mask 63" by (simp add: mask_eq_exp_minus_1)
  ultimately show "fp_key (word_of_nat (e * 2 ^ 52 + f)) = int (e * 2 ^ 52 + f)"
    using fields_pack(3)[OF assms] b
    by (simp only: fp_key_def Let_def if_False take_bit_eq_mask[symmetric] unsigned_take_bit_eq
        take_bit_int_eq_self_iff) (simp add: take_bit_int_eq_self)
  show "\<not> fp_is_nan (word_of_nat (e * 2 ^ 52 + f))"
    using fields_pack(1)[OF assms] assms(1) by (simp add: fp_is_nan_def)
qed

lemma word_pattern:
  assumes "0 \<le> n" and "n < 2 ^ 32"
  shows "0 \<le> fp_key (fp_of_int n)" "fp_key (fp_of_int n) \<le> 1054 * 2 ^ 52 + (4294967295 * 2 ^ 21 - 2 ^ 52)"
    "\<not> fp_is_nan (fp_of_int n)"
proof -
  have "0 \<le> fp_key (fp_of_int n) \<and> fp_key (fp_of_int n) \<le> 1054 * 2 ^ 52 + (4294967295 * 2 ^ 21 - 2 ^ 52) \<and>
      \<not> fp_is_nan (fp_of_int n)"
  proof (cases "n = 0")
    case True
    then show ?thesis
      by (simp add: fp_of_int_def fp_round_int_def fp_key_def fp_neg_def fp_is_nan_def fp_exp_def)
  next
    case False
    have n: "0 < nat n" "nat n < 2 ^ 53" using False assms by simp_all
    obtain k f where w: "fp_of_int (int (nat n)) = word_of_nat ((k + 1023) * 2 ^ 52 + f)" "k \<le> 52"
        "f < 2 ^ 52" "2 ^ 52 + f = nat n * 2 ^ (52 - k)" by (rule of_int_pattern[OF n])
    have x: "fp_of_int n = word_of_nat ((k + 1023) * 2 ^ 52 + f)" using w(1) assms(1) by simp
    have "k + 1023 < 2047" using w(2) by simp
    note key = pattern_key[OF this w(3), folded x]
    have m: "nat n \<le> 4294967295" using assms by simp
    have k: "k \<le> 31"
    proof (rule ccontr)
      assume "\<not> k \<le> 31"
      then have "(2::nat) ^ (52 - k) \<le> 2 ^ 20" using w(2) by (intro power_increasing) simp_all
      then have "nat n * 2 ^ (52 - k) \<le> 4294967295 * 2 ^ 20" using m by (rule mult_le_mono[rotated])
      then show False using w(4) by simp
    qed
    have "(k + 1023) * 2 ^ 52 + f \<le> 1054 * 2 ^ 52 + (4294967295 * 2 ^ 21 - 2 ^ 52)"
    proof (cases "k = 31")
      case True
      have "nat n * 2 ^ 21 \<le> 4294967295 * 2 ^ 21" using m by (rule mult_le_mono1)
      then have "2 ^ 52 + f \<le> 4294967295 * 2 ^ 21" using w(4) True by (simp only: w(4)) simp
      then show ?thesis using True by simp
    qed (use k w(3) in simp)
    then show ?thesis using key by simp
  qed
  then show "0 \<le> fp_key (fp_of_int n)" "fp_key (fp_of_int n) \<le> 1054 * 2 ^ 52 + (4294967295 * 2 ^ 21 - 2 ^ 52)"
    "\<not> fp_is_nan (fp_of_int n)" by simp_all
qed

lemma max_key: "fp_key UINT32_MAX = 1054 * 2 ^ 52 + (4294967295 * 2 ^ 21 - 2 ^ 52)"
  by (simp add: UINT32_MAX_def fp_eval)

lemma word_accepted:
  assumes "0 \<le> n" and "n < 2 ^ 32"
  shows "\<not> bad_word (fp_of_int n)" "to_uint64 (fp_of_int n) = Some (word_of_int n)"
proof -
  have "n < 2 ^ 53" using assms by simp
  note x = of_int_exact[OF assms(1) this] and k = word_pattern[OF assms]
  have "fp_key 0 = 0" by (simp add: fp_key_def fp_neg_def)
  moreover have "fp_floor (fp_of_int n) = fp_of_int n" using x by (simp add: fp_floor_def fp_less_def)
  ultimately show "\<not> bad_word (fp_of_int n)"
    using k by (simp add: bad_word_def fp_less_def fp_eq_refl max_key)
  show "to_uint64 (fp_of_int n) = Some (word_of_int n)" using x assms by (simp add: to_uint64_def)
qed

lemma uint_halves: "uint (drop_bit 32 w) < 2 ^ 32" "uint (take_bit 32 w) < 2 ^ 32" for w :: u64
proof -
  have "uint w < 2 ^ 64" using uint_bounded[of w] by simp
  then show "uint (drop_bit 32 w) < 2 ^ 32" by (simp add: drop_bit_eq_div uint_div)
  show "uint (take_bit 32 w) < 2 ^ 32" using take_bit_int_less_exp[of 32 "uint w"] by (simp add: unsigned_take_bit_eq)
qed

lemma word_roundtrip:
  "validate_instruction (json_of_word w) = None" "load_instruction (json_of_word w) = Some w"
proof -
  have "push_bit 32 (drop_bit 32 w) OR take_bit 32 w = w"
    by (rule bit_word_eqI) (auto simp: bit_simps)
  moreover have "0 \<le> uint (drop_bit 32 w)" "0 \<le> uint (take_bit 32 w)" by simp_all
  note a = word_accepted[OF this(1) uint_halves(1)] word_accepted[OF this(2) uint_halves(2)]
  ultimately show "validate_instruction (json_of_word w) = None" "load_instruction (json_of_word w) = Some w"
    by (simp_all add: json_of_word_def validate_instruction_def load_instruction_def Let_def
        cJSON_IsObject_def cJSON_IsNumber_def cJSON_GetNumberValue_def a)
qed

lemma line_roundtrip:
  assumes "0 \<le> n" and "n \<le> INT_MAX"
  shows "validate_line (JNumber (fp_of_int n)) = None" "load_line (JNumber (fp_of_int n)) = Some n"
proof -
  have "n < 2 ^ 53" using assms by (simp add: INT_MAX_def)
  note x = of_int_exact[OF assms(1) this]
  show "validate_line (JNumber (fp_of_int n)) = None" by (simp add: validate_line_def cJSON_IsNumber_def)
  show "load_line (JNumber (fp_of_int n)) = Some n"
    using x assms by (simp add: load_line_def to_int32_def cJSON_GetNumberValue_def int_ok_def INT_MIN_def)
qed

lemma prototype_roundtrip:
  "lines_ok p \<Longrightarrow> validatePrototype (json_of_prototype p) = None \<and>
     json_loadPrototype (json_of_prototype p) = Some (cut_prototype p)"
proof (induction p)
  case (Pb_Prototype "is" ps ls src)
  have "validatePrototype (json_of_prototype (Pb_Prototype is ps ls src)) = None"
    using Pb_Prototype word_roundtrip line_roundtrip
    by (subst validatePrototype.simps)
       (auto simp: Let_def cJSON_IsObject_def cJSON_IsString_def cJSON_IsArray_def first_error_None
        split: option.split)
  moreover have "json_loadPrototype (json_of_prototype (Pb_Prototype is ps ls src)) =
      Some (cut_prototype (Pb_Prototype is ps ls src))"
    using Pb_Prototype collect_map[where g = json_of_word and h = id and f = load_instruction and xs = "is"]
      collect_map[where g = "\<lambda>n. JNumber (fp_of_int n)" and h = id and f = load_line and xs = ls]
      collect_map[where g = json_of_prototype and h = cut_prototype and f = json_loadPrototype and xs = ps]
    by (subst json_loadPrototype.simps)
       (simp add: Let_def word_roundtrip line_roundtrip cJSON_GetStringValue_def)
  ultimately show ?case ..
qed

lemma constant_roundtrip:
  assumes "constant_ok c"
  shows "validate_constant (json_of_data (pbc_data c)) = None"
    "json_load_constant (json_of_data (pbc_data c)) = Some (cut_constant c)"
proof -
  have l: "fp_to_int64 (fp_of_int (sint n)) = Some (sint n)" if "0 \<le> sint n" "sint n < 2 ^ 53" for n :: u64
    using of_int_exact[OF that] that by (simp add: fp_to_int64_def)
  show "validate_constant (json_of_data (pbc_data c)) = None"
    using assms
    by (auto simp: constant_ok_def constant_typed_def validate_constant_def Let_def cJSON_IsObject_def
        cJSON_IsString_def cJSON_IsNumber_def cJSON_GetStringValue_def
        split: constant_type.splits constant_data.splits)
  show "json_load_constant (json_of_data (pbc_data c)) = Some (cut_constant c)"
    using assms l
    by (cases c) (auto simp: cut_constant_def constant_ok_def constant_typed_def json_load_constant_def Let_def
        cJSON_GetStringValue_def cJSON_GetNumberValue_def
        split: constant_type.splits constant_data.splits)
qed

text \<open>
  C27. Bytecode written as JSON, every instruction as its high and low half, every constant with
  its type, loads as the message it was written from: the validation accepts it, the message is
  rebuilt exactly (any 64 bit instruction, line numbers and integers the format can hold, every string
  up to its first zero byte), and the loader does what \<open>bytecode_load\<close> does with the packed message,
  with the cJSON lock released.
\<close>

theorem json_load_roundtrip:
  assumes "parse buffer = Some (json_of_message cs p)" and "lines_ok p"
    and "\<forall>c \<in> set cs. constant_ok c"
  shows "bytecode_loader_json_load parse pack unpack False buffer s =
     rbind (bytecode_load unpack
         (pack \<lparr>pb_version = 1, pb_constants = map cut_constant cs, pb_mainPrototype = Some (cut_prototype p)\<rparr>) s)
       (\<lambda>r s. Ok (False, r) s)"
proof -
  have "first_error validate_constant (map (\<lambda>c. json_of_data (pbc_data c)) cs) = None"
    using assms(3) constant_roundtrip(1) by (simp add: first_error_None)
  moreover have "collect json_load_constant (map (\<lambda>c. json_of_data (pbc_data c)) cs) = Some (map cut_constant cs)"
    using assms(3) constant_roundtrip(2) by (intro collect_map) simp
  ultimately show ?thesis
    using assms(1) prototype_roundtrip[OF assms(2)]
    by (simp add: bytecode_loader_json_load_def json_of_message_def Let_def cJSON_IsObject_def
        cJSON_IsArray_def)
qed

text \<open>
  C28. The cJSON lock: a document that is parsed releases it, whatever the validation says, but a
  document that is not leaves it taken, so that every later load waits for ever.
\<close>

theorem json_lock:
  assumes "bytecode_loader_json_load parse pack unpack False buffer s = Ok (locked, r) t"
  shows "(locked \<longleftrightarrow> parse buffer = None) \<and> (locked \<longrightarrow> r = None \<and>
     bytecode_loader_json_load parse pack unpack locked buffer' t = Fault Deadlock)"
proof -
  have e: "load_error b msg u = Ok (l, r) v \<Longrightarrow> l = (\<not> b) \<and> r = None" for b msg u l r v
    by (auto simp: load_error_def Let_def split: prod.splits)
  show ?thesis
    using assms
    by (auto simp: bytecode_loader_json_load_def Let_def res_simps dest!: e
        split: option.splits if_splits)
qed

subsection \<open>Concrete cases\<close>

theorem json_load_roundtrip_witness:
  "bytecode_loader_json_load
     (\<lambda>_. Some (json_of_message [\<lparr>pbc_type = LONG, pbc_data = Data_longNum 7\<rparr>]
        (Pb_Prototype [0x0C00000100020003] [Pb_Prototype [] [] [] []] [10] [97])))
     (\<lambda>m. [word_of_nat (length (pb_constants m))]) (\<lambda>_. None) False [123, 125] blank_vm =
   Ok (False, None) (set_static_errmsg (blank_vm\<lparr>brk := 1\<rparr>) SS_protobufFailedToUnpackData)"
proof -
  let ?c = "\<lparr>pbc_type = LONG, pbc_data = Data_longNum 7\<rparr>"
  let ?p = "Pb_Prototype [0x0C00000100020003] [Pb_Prototype [] [] [] []] [10] [97]"
  have "constant_ok ?c" by (simp add: constant_ok_def constant_typed_def)
  moreover have "lines_ok ?p" by (simp add: INT_MAX_def)
  ultimately show ?thesis
    using json_load_roundtrip[of "\<lambda>_. Some (json_of_message [?c] ?p)" "[123, 125]" "[?c]" ?p
        "\<lambda>m. [word_of_nat (length (pb_constants m))]" "\<lambda>_. None" blank_vm]
    by (simp add: bytecode_load_def gc_alloc_def blank_vm_def)
qed

theorem json_lock_witness:
  "\<exists>t. bytecode_loader_json_load (\<lambda>_. None) (\<lambda>m. []) (\<lambda>_. None) False [] blank_vm = Ok (True, None) t \<and>
     bytecode_loader_json_load (\<lambda>_. None) (\<lambda>m. []) (\<lambda>_. None) True [1] t = Fault Deadlock"
proof -
  obtain t where t: "bytecode_loader_json_load (\<lambda>_. None) (\<lambda>m. []) (\<lambda>_. None) False [] blank_vm = Ok (True, None) t"
    by (cases "value_new_string blank_vm (bytes_of ''Error parsing'')")
       (auto simp: bytecode_loader_json_load_def load_error_def Let_def)
  then show ?thesis using json_lock[OF t] by simp
qed

end
