(* ===== verification/Machine.thy ===== *)
theory Machine
  imports LuaContracts
begin

text \<open>
  \<open>fluffyvm.c\<close>: bringing a machine up and starting threads in it. \<open>desc\<close> tells for which
  components the collector registers its descriptors, \<open>created\<close> whether \<open>pthread_create\<close> succeeds,
  \<open>tramp\<close> is the address of the trampoline of \<open>lua54.c\<close> and \<open>modules\<close> the module counter of the
  process. A thread's own data (error message, nesting of coroutines) is what the record \<open>vm\<close>
  shows of the thread that runs; a new thread gets its own. What the routine of a new thread does
  after its initialisation runs beside the starter and is not modelled.
\<close>

subsection \<open>Components\<close>

definition all_static_strings :: "static_string list" where
  "all_static_strings =
     [SS_outOfMemory, SS_outOfMemoryWhileAnErrorOccured, SS_strtodDidNotProcessAllTheData,
      SS_typenames_nil, SS_typenames_string, SS_typenames_doubleNum, SS_typenames_longNum,
      SS_typenames_table, SS_typenames_closure, SS_typenames_light_userdata,
      SS_typenames_full_userdata, SS_typenames_garbage_collectable_userdata, SS_typenames_bool,
      SS_typenames_coroutine, SS_invalidCapacity, SS_badKey, SS_protobufFailedToUnpackData,
      SS_unsupportedBytecode, SS_pthreadCreateError, SS_invalidBytecode,
      SS_cannotResumeDeadCoroutine, SS_cannotResumeRunningCoroutine,
      SS_cannotSuspendTopLevelCoroutine, SS_stackOverflow, SS_stackUnderflow, SS_notInCoroutine,
      SS_coroutineNestTooDeep, SS_attemptToLoadNonExistentPrototype, SS_attemptToCallNilValue,
      SS_invalidRemoveCall, SS_invalidStackIndex, SS_bool_true, SS_bool_false,
      SS_nativeFunctionExplicitlyDisabledYieldingForThisCoroutine,
      SS_attemptToXmoveOnRunningCoroutine, SS_attemptToXmoveOnDeadCoroutine]"

fun init_strings :: "static_string list \<Rightarrow> vm \<Rightarrow> bool \<times> vm" where
  "init_strings [] s = (True, s)"
| "init_strings (m # ms) s =
     (case value_new_string_constant s (bytes_of (static_text m)) of (v, s) \<Rightarrow>
        if v = VNotPresent then (False, s)
        else init_strings ms (s\<lparr>staticStrings := (staticStrings s)(m := v)\<rparr>))"

definition statics_init :: "vm \<Rightarrow> (bool, vm) res" where
  "statics_init s =
     (case init_strings all_static_strings (s\<lparr>staticStrings := \<lambda>_. VNotPresent\<rparr>) of (ok, s) \<Rightarrow> Ok ok s)"

definition global_table_init :: "ext \<Rightarrow> vm \<Rightarrow> (bool, vm) res" where
  "global_table_init ex s =
     rbind (value_new_table ex FLUFFYVM_HASHTABLE_DEFAULT_LOAD_FACTOR 16 s) (\<lambda>v s.
       if v = VNotPresent then Ok False s
       else rbind (fluffyvm_set_global v s) (\<lambda>_ s. Ok True s))"

definition string_cache_new :: "vm \<Rightarrow> bool \<times> vm" where
  "string_cache_new s = alloc_or SS_outOfMemory s"

definition caches_init :: "vm \<Rightarrow> (bool, vm) res" where
  "caches_init s = (case string_cache_new s of (ok, s) \<Rightarrow> Ok ok (s\<lparr>stringCache := ok\<rparr>))"

text \<open>The coroutine a thread starts in, over a closure without function.\<close>

definition lateInit :: "vm \<Rightarrow> (bool, vm) res" where
  "lateInit s =
     rbind (fluffyvm_get_global s) (\<lambda>g s. rbind (closure_from_cfunction None None g s) (\<lambda>r s.
       case r of
         None \<Rightarrow> Ok False s
       | Some dummyClosure \<Rightarrow> rbind (coroutine_new dummyClosure s) (\<lambda>r s.
           case r of
             None \<Rightarrow> Ok False s
           | Some main \<Rightarrow>
               rbind (fluffyvm_push_current_coroutine main s) (\<lambda>_ s.
               rbind (get_fiber main s) (\<lambda>f s.
               rbind (modify_coro main (\<lambda>c. c\<lparr>co_fiber := Some (f\<lparr>fb_state := FIBER_RUNNING\<rparr>),
                 co_isNativeThread := True\<rparr>) s) (\<lambda>_ s.
                 Ok True (s\<lparr>mainThread := Some main\<rparr>)))))))"

text \<open>
  Starting a thread, up to the end of its initialisation: \<open>lateInit\<close> runs with the error message
  and the nesting of the new thread, and the starter goes on with its own. A thread whose
  initialisation fails frees the arguments the starter then reads and frees again. \<open>malloc\<close> succeeds.
\<close>

definition fluffyvm_start_thread :: "bool \<Rightarrow> vm \<Rightarrow> (bool, vm) res" where
  "fluffyvm_start_thread created s =
     (case alloc_or SS_outOfMemory s of
        (False, s) \<Rightarrow> Ok False s
      | (True, s) \<Rightarrow> (case stack_new FLUFFYVM_MAX_COROUTINE_NEST s of
          (None, s) \<Rightarrow> Ok False (set_static_errmsg s SS_outOfMemory)
        | (Some stack, s) \<Rightarrow>
            if \<not> created then Ok False (set_static_errmsg s SS_pthreadCreateError)
            else rbind (lateInit (s\<lparr>errMsg := None, coroutinesStack := stack\<rparr>)) (\<lambda>ok t.
              if ok then Ok True (t\<lparr>errMsg := errMsg s, coroutinesStack := coroutinesStack s\<rparr>)
              else Fault Dangling)))"

text \<open>
  The component list, in order: each is initialised by registering its descriptors, or as above.
\<close>

definition component_inits ::
    "ext \<Rightarrow> (string \<Rightarrow> bool) \<Rightarrow> bool \<Rightarrow> nat \<Rightarrow> int \<Rightarrow> (vm \<Rightarrow> (bool, vm) res) list" where
  "component_inits ex desc created tramp modules =
     [Ok (desc ''stack''), Ok (desc ''value''), statics_init, Ok (desc ''hashtable''),
      global_table_init ex, Ok (desc ''string_cache''), caches_init, Ok (desc ''bytecode''),
      Ok True, Ok (desc ''closure''), Ok (desc ''coroutine''),
      fluffyvm_compat_layer_lua54_init tramp (modules + 1), fluffyvm_start_thread created]"

fun init_components :: "(vm \<Rightarrow> (bool, vm) res) list \<Rightarrow> vm \<Rightarrow> (bool, vm) res" where
  "init_components [] s = Ok True s"
| "init_components (f # fs) s =
     rbind (f s) (\<lambda>ok s. if \<not> ok then Ok False s else init_components fs s)"

text \<open>
  \<open>fluffyvm_new\<close> gives whether a machine is returned, and the machine, or where none is returned
  its state when the cleanup begins. Without a root or a stack to bootstrap with,
  the cleanup reads members that were never stored. The result of \<open>lateInit\<close> is not looked at.
\<close>

definition fluffyvm_new ::
    "ext \<Rightarrow> (string \<Rightarrow> bool) \<Rightarrow> bool \<Rightarrow> nat \<Rightarrow> int \<Rightarrow> vm \<Rightarrow> (bool, vm) res" where
  "fluffyvm_new ex desc created tramp modules s =
     (case gc_alloc (s\<lparr>errMsg := None, stringCache := False\<rparr>) of
        (None, s) \<Rightarrow> Fault Indeterminate
      | (Some newRoot, s) \<Rightarrow> (case stack_new FLUFFYVM_MAX_COROUTINE_NEST s of
          (None, s) \<Rightarrow> Fault Indeterminate
        | (Some stack, s) \<Rightarrow>
            rbind (init_components (component_inits ex desc created tramp modules)
                (s\<lparr>coroutinesStack := stack\<rparr>)) (\<lambda>ok s.
              if \<not> ok then Ok False s
              else rbind (lateInit s) (\<lambda>_ s. Ok True s))))"

subsection \<open>Static strings\<close>

lemma new_constant_mem:
  "always_mem s \<Longrightarrow> value_new_string_constant s bs =
     (VString (brk s), s\<lparr>brk := Suc (brk s),
        strs := (strs s)(brk s \<mapsto> \<lparr>vs_hashCode = 0, vs_bytes = cstr bs\<rparr>)\<rparr>)"
  by (simp add: value_new_string_constant_def new_string_mem)

definition has_text :: "vm \<Rightarrow> static_string \<Rightarrow> bool" where
  "has_text s m \<longleftrightarrow> is_string s (staticStrings s m) (cstr (bytes_of (static_text m)))"

lemma init_strings_mem:
  assumes "always_mem s" and "distinct ms"
  shows "\<exists>t. init_strings ms s = (True, t) \<and> (\<forall>m \<in> set ms. has_text t m) \<and>
     (\<forall>m. m \<notin> set ms \<longrightarrow> staticStrings t m = staticStrings s m) \<and> strings_grow s t \<and>
     t = s\<lparr>strs := strs t, brk := brk t, staticStrings := staticStrings t\<rparr>"
  using assms
proof (induction ms arbitrary: s)
  case (Cons m ms)
  let ?s = "s\<lparr>brk := Suc (brk s),
      strs := (strs s)(brk s \<mapsto> \<lparr>vs_hashCode = 0, vs_bytes = cstr (bytes_of (static_text m))\<rparr>),
      staticStrings := (staticStrings s)(m := VString (brk s))\<rparr>"
  have "always_mem ?s" using Cons.prems(1) by (simp add: always_mem_def)
  then obtain t where t: "init_strings ms ?s = (True, t)" "\<forall>m \<in> set ms. has_text t m"
      "\<forall>k. k \<notin> set ms \<longrightarrow> staticStrings t k = staticStrings ?s k" "strings_grow ?s t"
      "t = ?s\<lparr>strs := strs t, brk := brk t, staticStrings := staticStrings t\<rparr>"
    using Cons.IH[of ?s] Cons.prems(2) by auto
  have g: "strings_grow s ?s" by (simp add: strings_grow_def)
  have "is_string ?s (VString (brk s)) (cstr (bytes_of (static_text m)))" by (simp add: is_string_def)
  then have "has_text t m"
    using t(3) Cons.prems(2) is_string_grow[OF t(4)] by (simp add: has_text_def)
  moreover have "init_strings (m # ms) s = (True, t)" using new_constant_mem[OF Cons.prems(1)] t(1) by simp
  moreover have "t = s\<lparr>strs := strs t, brk := brk t, staticStrings := staticStrings t\<rparr>"
    by (subst t(5)) simp
  ultimately show ?case
    using t(2,3) strings_grow_trans[OF g t(4)] by auto
qed simp

subsection \<open>Coroutines and threads\<close>

text \<open>A coroutine that was just made: suspended, with the one frame of its function.\<close>

definition new_coroutine :: "coroutine \<Rightarrow> addr \<Rightarrow> bool" where
  "new_coroutine c cs \<longleftrightarrow> coro_ok c \<and> frames c = [cs] \<and> co_currentCallState c = Some cs \<and>
     \<not> co_callStackLock c \<and> co_errorHandler c = None \<and> \<not> co_hasError c"

lemma coroutine_new_ok:
  assumes m: "always_mem s" and n: "stk_ok (coroutinesStack s)"
    and room: "length (stk_items (coroutinesStack s)) < nat (stk_size (coroutinesStack s))"
    and f: "closures s func = Some cl"
  obtains t c cs where "coroutine_new func s = Ok (Some (brk s)) t"
    "coros t = (coros s)(brk s \<mapsto> c)" "new_coroutine c cs" "co_fiber c = Some fiber_new"
    "cstates t = (cstates s)(cs \<mapsto> new_call_state func (brk s) (cl_func cl \<noteq> None))"
    "t = s\<lparr>coros := coros t, cstates := cstates t, brk := brk t\<rparr>" "brk s < cs" "cs < brk t"
proof -
  define c0 where "c0 = \<lparr>co_isNativeThread = False, co_isYieldable = False, co_fiber = None,
    co_currentCallState = None, co_errorHandler = None, co_callStackLock = False,
    co_callStack = \<lparr>stk_sp = 0, stk_size = FLUFFYVM_CALL_STACK_SIZE,
      stk_arr = replicate (nat FLUFFYVM_CALL_STACK_SIZE) None\<rparr>,
    co_hasError = False, co_thrownedError = VNotPresent, co_gc_stack = GC_callStack\<rparr>"
  define s1 where "s1 = s\<lparr>brk := Suc (Suc (Suc (brk s))), coros := (coros s)(brk s \<mapsto> c0)\<rparr>"
  have c0: "coro_ok c0" "frames c0 = []" "\<not> co_callStackLock c0"
    using stk_okI[of "co_callStack c0" "[]"] by (simp_all add: coro_ok_def c0_def config_defs)
  have s1: "coroutinesStack s1 = coroutinesStack s" "always_mem s1" "closures s1 = closures s"
      "coros s1 = (coros s)(brk s \<mapsto> c0)" "cstates s1 = cstates s"
    using m by (simp_all add: s1_def always_mem_def)
  obtain st where st: "fluffyvm_push_current_coroutine (brk s) s1 = Ok True (s1\<lparr>coroutinesStack := st\<rparr>)"
      "stk_ok st" "stk_items st = stk_items (coroutinesStack s) @ [brk s]"
      "stk_size st = stk_size (coroutinesStack s)"
    by (rule push_current_room[of s1 "brk s"]) (use n room s1 in simp_all)
  define s2 where "s2 = s1\<lparr>coroutinesStack := st\<rparr>"
  have r: "running s2 (brk s) c0" using st c0 s1 by (simp add: running_def s2_def)
  obtain t st' cs where t: "coroutine_function_prolog func s2 = Ok (Some cs) t"
      "coros t = (coros s2)(brk s \<mapsto> c0\<lparr>co_callStack := st', co_currentCallState := Some cs\<rparr>)"
      "cstates t = (cstates s2)(cs \<mapsto> new_call_state func (brk s) (cl_func cl \<noteq> None))"
      "stk_ok st'" "stk_items st' = frames c0 @ [cs]" "stk_size st' = stk_size (co_callStack c0)"
      "t = s2\<lparr>coros := coros t, cstates := cstates t, brk := brk t\<rparr>" "brk s2 < brk t" "cs = brk s2"
    by (rule prolog_pushes[OF r c0(3), of func cl])
       (use c0 s1 f in \<open>simp_all add: s2_def always_mem_def config_defs\<close>)
  have s2: "coros s2 = (coros s)(brk s \<mapsto> c0)" "brk s2 = Suc (Suc (Suc (brk s)))"
    by (simp_all add: s2_def s1_def)
  have "coroutinesStack t = st" by (subst t(7)) (simp add: s2_def)
  then have pop: "fluffyvm_pop_current_coroutine t = Ok () (t\<lparr>coroutinesStack := coroutinesStack s\<rparr>)"
    by (rule nest_pop[OF n st(2) _ st(3,4)])
  define c where "c = c0\<lparr>co_callStack := st', co_currentCallState := Some cs, co_isYieldable := True,
    co_isNativeThread := False, co_hasError := False, co_errorHandler := None, co_fiber := Some fiber_new\<rparr>"
  define u where "u = t\<lparr>coroutinesStack := coroutinesStack s, coros := (coros s)(brk s \<mapsto> c)\<rparr>"
  have "coroutine_new func s = Ok (Some (brk s)) u"
    using st(1) t(1) pop m t(2) s2
    by (simp add: coroutine_new_def gc_alloc_def always_mem_def stack_new_def s1_def[symmetric] c0_def[symmetric]
        Let_def s2_def[symmetric] modify_coro_Some u_def c_def)
  moreover have "new_coroutine c cs" "co_fiber c = Some fiber_new"
    using t(4-6) c0 by (simp_all add: new_coroutine_def coro_ok_def c_def)
  moreover have "cstates u = (cstates s)(cs \<mapsto> new_call_state func (brk s) (cl_func cl \<noteq> None))"
    using t(3) by (simp add: u_def s2_def s1)
  moreover have "u = s\<lparr>coros := coros u, cstates := cstates u, brk := brk u\<rparr>"
    unfolding u_def by (subst t(7)) (simp add: s2_def s1_def)
  ultimately show ?thesis
    using t(8,9) s2(2) by (intro that[of u c cs]) (simp_all add: u_def)
qed

text \<open>What initialising a thread may change.\<close>

definition thread_made :: "vm \<Rightarrow> vm \<Rightarrow> bool" where
  "thread_made s t \<longleftrightarrow> t = s\<lparr>closures := closures t, coros := coros t, cstates := cstates t,
     brk := brk t, coroutinesStack := coroutinesStack t, mainThread := mainThread t\<rparr> \<and> brk s \<le> brk t"

lemma thread_madeD:
  assumes "thread_made s t"
  shows "mem t = mem s" "strs t = strs s" "tabs t = tabs s" "staticStrings t = staticStrings s"
    "errMsg t = errMsg s" "globalTable t = globalTable s" "brk s \<le> brk t"
    "stringCache t = stringCache s"
proof -
  have e: "t = s\<lparr>closures := closures t, coros := coros t, cstates := cstates t,
     brk := brk t, coroutinesStack := coroutinesStack t, mainThread := mainThread t\<rparr>"
    using assms by (simp add: thread_made_def)
  show "mem t = mem s" by (subst e) simp
  show "strs t = strs s" by (subst e) simp
  show "tabs t = tabs s" by (subst e) simp
  show "staticStrings t = staticStrings s" by (subst e) simp
  show "errMsg t = errMsg s" by (subst e) simp
  show "globalTable t = globalTable s" by (subst e) simp
  show "stringCache t = stringCache s" by (subst e) simp
  show "brk s \<le> brk t" using assms by (simp add: thread_made_def)
qed

definition main_coroutine :: "coroutine \<Rightarrow> addr \<Rightarrow> bool" where
  "main_coroutine c cs \<longleftrightarrow> new_coroutine c cs \<and> co_isNativeThread c \<and>
     co_fiber c = Some (fiber_new\<lparr>fb_state := FIBER_RUNNING\<rparr>)"

lemma lateInit_ok:
  assumes m: "always_mem s" and g: "globalTable s \<noteq> VNotPresent"
    and n: "stk_ok (coroutinesStack s)"
    and room: "length (stk_items (coroutinesStack s)) < nat (stk_size (coroutinesStack s))"
  obtains t main c cs where "lateInit s = Ok True t" "thread_made s t" "running t main c"
    "main_coroutine c cs" "mainThread t = Some main"
    "stk_items (coroutinesStack t) = stk_items (coroutinesStack s) @ [main]"
    "\<forall>a < brk s. coros t a = coros s a" "brk s \<le> main"
proof -
  obtain q where q: "value_get_object_ptr (globalTable s) s' = Ok q s'" for s' :: vm
    using g by (cases "globalTable s") auto
  define cl where "cl = \<lparr>cl_prototype = None, cl_func = None, cl_udata = None, cl_isNative = True,
    cl_env = globalTable s, cl_asValue = value_new_closure (brk s), cl_luaCFunction = None\<rparr>"
  define s1 where "s1 = s\<lparr>brk := Suc (brk s), closures := (closures s)(brk s \<mapsto> cl)\<rparr>"
  have s1: "coroutinesStack s1 = coroutinesStack s" "always_mem s1" "closures s1 (brk s) = Some cl"
      "coros s1 = coros s" "brk s1 = Suc (brk s)"
    using m by (simp_all add: s1_def always_mem_def)
  have a: "closure_from_cfunction None None (globalTable s) s = Ok (Some (brk s)) s1"
    using m q by (simp add: closure_from_cfunction_def closure_new_common_def gc_alloc_def
        always_mem_def s1_def cl_def)
  obtain t c cs where t: "coroutine_new (brk s) s1 = Ok (Some (brk s1)) t"
    "coros t = (coros s1)(brk s1 \<mapsto> c)" "new_coroutine c cs" "co_fiber c = Some fiber_new"
    "cstates t = (cstates s1)(cs \<mapsto> new_call_state (brk s) (brk s1) (cl_func cl \<noteq> None))"
    "t = s1\<lparr>coros := coros t, cstates := cstates t, brk := brk t\<rparr>" "brk s1 < cs" "cs < brk t"
    by (rule coroutine_new_ok[OF s1(2) _ _ s1(3)]) (use s1(1) n room in simp_all)
  have tn: "coroutinesStack t = coroutinesStack s" by (subst t(6)) (simp add: s1)
  have tt: "t = s\<lparr>coros := coros t, cstates := cstates t, brk := brk t, closures := closures s1\<rparr>"
    by (subst t(6)) (simp add: s1_def)
  obtain st where st: "fluffyvm_push_current_coroutine (brk s1) t = Ok True (t\<lparr>coroutinesStack := st\<rparr>)"
      "stk_ok st" "stk_items st = stk_items (coroutinesStack s) @ [brk s1]"
      "stk_size st = stk_size (coroutinesStack s)"
    by (rule push_current_room[of t "brk s1"]) (use n room tn in simp_all)
  define d where "d = c\<lparr>co_fiber := Some (fiber_new\<lparr>fb_state := FIBER_RUNNING\<rparr>), co_isNativeThread := True\<rparr>"
  define u where "u = t\<lparr>coroutinesStack := st, coros := (coros t)(brk s1 \<mapsto> d), mainThread := Some (brk s1)\<rparr>"
  have "lateInit s = Ok True u"
    using a g t(1,2,4) st(1)
    by (simp add: lateInit_def fluffyvm_get_global_def get_fiber_def modify_coro_Some u_def d_def)
  moreover have "u = s\<lparr>closures := closures u, coros := coros u, cstates := cstates u,
     brk := brk u, coroutinesStack := coroutinesStack u, mainThread := mainThread u\<rparr>"
    unfolding u_def by (subst tt) (subst (2) tt, simp)
  moreover have "brk s \<le> brk u" using t(7,8) s1(5) by (simp add: u_def)
  moreover have "main_coroutine d cs" using t(3) by (simp add: main_coroutine_def new_coroutine_def coro_ok_def d_def)
  moreover have "running u (brk s1) d"
    using t(3) st by (simp add: running_def u_def d_def new_coroutine_def coro_ok_def)
  moreover have "\<forall>a < brk s. coros u a = coros s a" using t(2) s1 by (simp add: u_def)
  ultimately show ?thesis
    using st(3) s1(5) by (intro that[of u "brk s1" d cs]) (simp_all add: thread_made_def u_def)
qed

subsection \<open>Booting\<close>

definition empty_table :: "dbl \<Rightarrow> nat \<Rightarrow> hashtable" where
  "empty_table lf n = \<lparr>ht_capacity = int n, ht_loadFactor = lf, ht_usage = 0, ht_table = replicate n []\<rparr>"

lemma all_static_strings_complete: "m \<in> set all_static_strings" "distinct all_static_strings"
  by (cases m) (simp_all add: all_static_strings_def)

lemma statics_init_mem:
  assumes "always_mem s"
  obtains t where "statics_init s = Ok True t" "\<forall>m. has_text t m"
    "t = s\<lparr>strs := strs t, brk := brk t, staticStrings := staticStrings t\<rparr>" "always_mem t"
proof -
  let ?s = "s\<lparr>staticStrings := \<lambda>_. VNotPresent\<rparr>"
  have "always_mem ?s" using assms by (simp add: always_mem_def)
  from init_strings_mem[OF this all_static_strings_complete(2)]
  obtain t where t: "init_strings all_static_strings ?s = (True, t)"
      "\<forall>m \<in> set all_static_strings. has_text t m"
      "t = ?s\<lparr>strs := strs t, brk := brk t, staticStrings := staticStrings t\<rparr>" by blast
  have e: "t = s\<lparr>strs := strs t, brk := brk t, staticStrings := staticStrings t\<rparr>"
    by (subst t(3)) simp
  have "mem t = mem s" by (subst e) simp
  then show ?thesis
    using t(1,2) e assms all_static_strings_complete(1)
    by (intro that[of t]) (simp_all add: statics_init_def always_mem_def)
qed

lemma global_table_init_mem:
  assumes "always_mem s"
  shows "global_table_init ex s = Ok True (s\<lparr>brk := Suc (Suc (brk s)),
     tabs := (tabs s)(brk s \<mapsto> empty_table FLUFFYVM_HASHTABLE_DEFAULT_LOAD_FACTOR 16),
     globalTable := VTable (brk s)\<rparr>)"
proof -
  have p: "\<not> not_power_of_two 16" "int_ok 16" "int_ok 15"
    using power_of_two[of 4] power_ok[of 4] by simp_all
  show ?thesis
    using assms p
    by (simp add: global_table_init_def value_new_table_def hashtable_new_def resize_def gc_alloc_def
        always_mem_def empty_table_def fluffyvm_set_global_def)
qed

lemma caches_init_mem:
  "always_mem s \<Longrightarrow> caches_init s = Ok True (s\<lparr>brk := Suc (brk s), stringCache := True\<rparr>)"
  by (simp add: caches_init_def string_cache_new_def alloc_or_mem)

lemma lua54_init_mem:
  assumes "always_mem s"
  obtains c where "fluffyvm_compat_layer_lua54_init tramp n s =
    Ok True (s\<lparr>brk := Suc (brk s), closures := (closures s)(brk s \<mapsto> c),
      coroutineTrampoline := Some (brk s), luaModuleID := n, luaUserdataType := 1\<rparr>)"
  using assms
  by (auto simp: fluffyvm_compat_layer_lua54_init_def closure_from_cfunction_def closure_new_common_def
      gc_alloc_def always_mem_def)

lemma stack_new_mem:
  "always_mem s \<Longrightarrow> stack_new n s = (Some \<lparr>stk_sp = 0, stk_size = n, stk_arr = replicate (nat n) None\<rparr>,
     s\<lparr>brk := Suc (Suc (brk s))\<rparr>)"
  by (simp add: stack_new_def gc_alloc_def always_mem_def)

lemma empty_nesting:
  "stk_ok \<lparr>stk_sp = 0, stk_size = FLUFFYVM_MAX_COROUTINE_NEST,
     stk_arr = replicate (nat FLUFFYVM_MAX_COROUTINE_NEST) None\<rparr>"
  "stk_items \<lparr>stk_sp = 0, stk_size = FLUFFYVM_MAX_COROUTINE_NEST,
     stk_arr = replicate (nat FLUFFYVM_MAX_COROUTINE_NEST) None\<rparr> = []"
  using stk_okI[of "\<lparr>stk_sp = 0, stk_size = FLUFFYVM_MAX_COROUTINE_NEST,
     stk_arr = replicate (nat FLUFFYVM_MAX_COROUTINE_NEST) None\<rparr>" "[]"]
  by (simp_all add: config_defs)

lemma start_thread_mem:
  assumes m: "always_mem s" and g: "globalTable s \<noteq> VNotPresent"
  obtains t main where "fluffyvm_start_thread True s = Ok True t" "thread_made s t"
    "coroutinesStack t = coroutinesStack s" "mainThread t = Some main" "coros t main \<noteq> None"
    "\<forall>a < brk s. coros t a = coros s a" "brk s \<le> main"
proof -
  let ?st = "\<lparr>stk_sp = 0, stk_size = FLUFFYVM_MAX_COROUTINE_NEST,
     stk_arr = replicate (nat FLUFFYVM_MAX_COROUTINE_NEST) None\<rparr>"
  define s1 where "s1 = s\<lparr>brk := Suc (Suc (Suc (brk s))), errMsg := None, coroutinesStack := ?st\<rparr>"
  have s1: "always_mem s1" "globalTable s1 = globalTable s" "coroutinesStack s1 = ?st"
      "coros s1 = coros s" "brk s1 = Suc (Suc (Suc (brk s)))"
    using m by (simp_all add: s1_def always_mem_def)
  have n: "stk_ok (coroutinesStack s1)"
      "length (stk_items (coroutinesStack s1)) < nat (stk_size (coroutinesStack s1))"
    unfolding s1(3) empty_nesting(2) using empty_nesting(1) by (simp_all add: config_defs)
  obtain t main c cs where t: "lateInit s1 = Ok True t" "thread_made s1 t" "running t main c"
      "mainThread t = Some main" "\<forall>a < brk s1. coros t a = coros s1 a" "brk s1 \<le> main"
    by (rule lateInit_ok[OF s1(1) _ n]) (use g s1(2) in simp_all)
  define u where "u = t\<lparr>errMsg := errMsg s, coroutinesStack := coroutinesStack s\<rparr>"
  have m1: "always_mem (s\<lparr>brk := Suc (brk s)\<rparr>)" using m by (simp add: always_mem_def)
  have "fluffyvm_start_thread True s = Ok True u"
    using t(1)
    by (simp add: fluffyvm_start_thread_def alloc_or_mem[OF m] stack_new_mem[OF m1] s1_def Let_def u_def)
  moreover have "thread_made s u"
  proof -
    have e: "t = s1\<lparr>closures := closures t, coros := coros t, cstates := cstates t,
       brk := brk t, coroutinesStack := coroutinesStack t, mainThread := mainThread t\<rparr>"
      using t(2) by (simp add: thread_made_def)
    have "u = s\<lparr>closures := closures t, coros := coros t, cstates := cstates t,
       brk := brk t, coroutinesStack := coroutinesStack s, mainThread := mainThread t\<rparr>"
      unfolding u_def by (subst e) (simp add: s1_def)
    then show ?thesis using t(2) s1(5) by (simp add: thread_made_def u_def)
  qed
  ultimately show ?thesis
    using t(3-6) s1 by (intro that[of u main]) (simp_all add: u_def running_def)
qed

text \<open>The components up to the last one, with all their requests granted.\<close>

lemma components_ok:
  assumes m: "always_mem s" and d: "\<forall>n. desc n"
  obtains u g where "init_components (component_inits ex desc created tramp n) s =
      rbind (fluffyvm_start_thread created u) (\<lambda>ok t. Ok ok t)"
    "always_mem u" "globalTable u = VTable g" "\<forall>k. has_text u k"
    "tabs u g = Some (empty_table FLUFFYVM_HASHTABLE_DEFAULT_LOAD_FACTOR 16)"
    "errMsg u = errMsg s" "coroutinesStack u = coroutinesStack s"
proof -
  obtain t where t: "statics_init s = Ok True t" "\<forall>m. has_text t m"
      "t = s\<lparr>strs := strs t, brk := brk t, staticStrings := staticStrings t\<rparr>" "always_mem t"
    by (rule statics_init_mem[OF m])
  define t1 where "t1 = t\<lparr>brk := Suc (Suc (brk t)),
     tabs := (tabs t)(brk t \<mapsto> empty_table FLUFFYVM_HASHTABLE_DEFAULT_LOAD_FACTOR 16),
     globalTable := VTable (brk t)\<rparr>"
  define t2 where "t2 = t1\<lparr>brk := Suc (brk t1), stringCache := True\<rparr>"
  have ms: "always_mem t1" "always_mem t2" using t(4) by (simp_all add: t1_def t2_def always_mem_def)
  obtain c where c: "fluffyvm_compat_layer_lua54_init tramp (n + 1) t2 =
    Ok True (t2\<lparr>brk := Suc (brk t2), closures := (closures t2)(brk t2 \<mapsto> c),
      coroutineTrampoline := Some (brk t2), luaModuleID := n + 1, luaUserdataType := 1\<rparr>)"
    by (rule lua54_init_mem[OF ms(2)])
  define u where "u = t2\<lparr>brk := Suc (brk t2), closures := (closures t2)(brk t2 \<mapsto> c),
      coroutineTrampoline := Some (brk t2), luaModuleID := n + 1, luaUserdataType := 1\<rparr>"
  have r: "rbind m (\<lambda>ok s. if \<not> ok then Ok False s else Ok True s) = rbind m (\<lambda>ok s. Ok ok s)"
    for m :: "(bool, vm) res" by (cases m) simp_all
  have "init_components (component_inits ex desc created tramp n) s =
      rbind (fluffyvm_start_thread created u) (\<lambda>ok t. Ok ok t)"
    using t(1) d global_table_init_mem[OF t(4), of ex] caches_init_mem[OF ms(1)] c
    by (simp add: component_inits_def t1_def[symmetric] t2_def[symmetric] u_def[symmetric] r
        cong: if_cong)
  moreover have "errMsg t = errMsg s" "coroutinesStack t = coroutinesStack s"
    by (subst t(3), simp)+
  moreover have "has_text u k" for k
    using t(2)[THEN spec, of k] by (auto simp: has_text_def is_string_def u_def t2_def t1_def)
  moreover have "always_mem u" using t(4) by (simp add: u_def t2_def t1_def always_mem_def)
  ultimately show ?thesis
    by (intro that[of u "brk t"]) (simp_all add: u_def t2_def t1_def)
qed

lemma new_unfolds:
  fixes s :: vm
  defines "s0 \<equiv> s\<lparr>errMsg := None, stringCache := False, brk := Suc (Suc (Suc (brk s))),
     coroutinesStack := \<lparr>stk_sp = 0, stk_size = FLUFFYVM_MAX_COROUTINE_NEST,
       stk_arr = replicate (nat FLUFFYVM_MAX_COROUTINE_NEST) None\<rparr>\<rparr>"
  assumes "always_mem s"
  shows "fluffyvm_new ex desc created tramp n s =
      rbind (init_components (component_inits ex desc created tramp n) s0)
        (\<lambda>ok s. if \<not> ok then Ok False s else rbind (lateInit s) (\<lambda>_ s. Ok True s))" and "always_mem s0"
  using assms by (simp_all add: fluffyvm_new_def gc_alloc_def stack_new_def always_mem_def)

text \<open>What a booted machine is.\<close>

definition booted :: "vm \<Rightarrow> addr \<Rightarrow> coroutine \<Rightarrow> addr \<Rightarrow> addr \<Rightarrow> bool" where
  "booted t main c cs g \<longleftrightarrow>
     running t main c \<and> stk_items (coroutinesStack t) = [main] \<and> mainThread t = Some main \<and>
     frames c = [cs] \<and> co_isNativeThread c \<and>
     co_fiber c = Some (fiber_new\<lparr>fb_state := FIBER_RUNNING\<rparr>) \<and>
     co_errorHandler c = None \<and> globalTable t = VTable g \<and>
     tabs t g = Some (empty_table FLUFFYVM_HASHTABLE_DEFAULT_LOAD_FACTOR 16) \<and>
     (\<forall>k. has_text t k) \<and> errMsg t = None"

lemma new_machine:
  assumes "always_mem s" and "\<forall>n. desc n"
  obtains t main c cs g where "fluffyvm_new ex desc True tramp n s = Ok True t" "booted t main c cs g"
proof -
  define st where "st = (\<lparr>stk_sp = 0, stk_size = FLUFFYVM_MAX_COROUTINE_NEST,
     stk_arr = replicate (nat FLUFFYVM_MAX_COROUTINE_NEST) None\<rparr> :: addr fluffyvm_stack)"
  define s0 where "s0 = s\<lparr>errMsg := None, stringCache := False, brk := Suc (Suc (Suc (brk s))),
     coroutinesStack := st\<rparr>"
  note new = new_unfolds[OF assms(1), folded st_def, folded s0_def]
  obtain u g where u: "init_components (component_inits ex desc True tramp n) s0 =
      rbind (fluffyvm_start_thread True u) (\<lambda>ok t. Ok ok t)"
    "always_mem u" "globalTable u = VTable g" "\<forall>k. has_text u k"
    "tabs u g = Some (empty_table FLUFFYVM_HASHTABLE_DEFAULT_LOAD_FACTOR 16)"
    "errMsg u = errMsg s0" "coroutinesStack u = coroutinesStack s0"
    by (rule components_ok[OF new(2) assms(2)])
  obtain v where v: "fluffyvm_start_thread True u = Ok True v" "thread_made u v"
      "coroutinesStack v = coroutinesStack u"
    by (rule start_thread_mem[OF u(2)]) (use u(3) in simp_all)
  note vd = thread_madeD[OF v(2)]
  have nest: "coroutinesStack v = st" using v(3) u(7) by (simp add: s0_def)
  have nok: "stk_ok (coroutinesStack v)" "stk_items (coroutinesStack v) = []"
      "length (stk_items (coroutinesStack v)) < nat (stk_size (coroutinesStack v))"
    unfolding nest st_def empty_nesting(2) using empty_nesting(1) by (simp_all add: config_defs)
  obtain t main c cs where t: "lateInit v = Ok True t" "thread_made v t" "running t main c"
      "main_coroutine c cs" "mainThread t = Some main"
      "stk_items (coroutinesStack t) = stk_items (coroutinesStack v) @ [main]"
    by (rule lateInit_ok[OF _ _ nok(1,3)]) (use u(2,3) vd in \<open>simp_all add: always_mem_def\<close>)
  note td = thread_madeD[OF t(2)]
  have "has_text t k" for k
    using u(4)[THEN spec, of k] vd td by (auto simp: has_text_def is_string_def)
  then have "booted t main c cs g"
    using t(3-6) nok(2) u(3,5,6) vd td
    by (simp add: booted_def main_coroutine_def new_coroutine_def s0_def)
  moreover have "fluffyvm_new ex desc True tramp n s = Ok True t"
    using u(1) v(1) t(1) by (simp add: new(1))
  ultimately show ?thesis using that by blast
qed

text \<open>
  C29. A machine boots: when every component registers its descriptors and memory is granted,
  \<open>fluffyvm_new\<close> returns a machine whose static strings all hold their texts, whose global table is
  an empty table of 16 buckets, which has a string cache and no error message, and whose starting
  thread executes the main coroutine, alone on its nesting, running, native and with the one frame
  of the closure without function. If no thread can be created it returns none, and the error
  message set before the cleanup is the one for it.
\<close>

theorem fluffyvm_new_boots:
  assumes "always_mem s" and "\<forall>n. desc n"
  shows "(\<exists>t main c cs g. fluffyvm_new ex desc True tramp n s = Ok True t \<and> booted t main c cs g) \<and>
     (\<exists>t. fluffyvm_new ex desc False tramp n s = Ok False t \<and> has_text t SS_pthreadCreateError \<and>
       errMsg t = Some (staticStrings t SS_pthreadCreateError))"
proof
  show "\<exists>t main c cs g. fluffyvm_new ex desc True tramp n s = Ok True t \<and> booted t main c cs g"
    using new_machine[OF assms] by metis
  define s0 where "s0 = s\<lparr>errMsg := None, stringCache := False, brk := Suc (Suc (Suc (brk s))),
     coroutinesStack := \<lparr>stk_sp = 0, stk_size = FLUFFYVM_MAX_COROUTINE_NEST,
       stk_arr = replicate (nat FLUFFYVM_MAX_COROUTINE_NEST) None\<rparr>\<rparr>"
  note new = new_unfolds[OF assms(1), folded s0_def]
  obtain u where u: "init_components (component_inits ex desc False tramp n) s0 =
      rbind (fluffyvm_start_thread False u) (\<lambda>ok t. Ok ok t)" "always_mem u" "\<forall>k. has_text u k"
    by (rule components_ok[OF new(2) assms(2)])
  have mu: "always_mem (u\<lparr>brk := Suc (brk u)\<rparr>)" using u(2) by (simp add: always_mem_def)
  define w where "w = u\<lparr>brk := Suc (Suc (Suc (brk u)))\<rparr>"
  have "fluffyvm_start_thread False u = Ok False (set_static_errmsg w SS_pthreadCreateError)"
    by (simp add: fluffyvm_start_thread_def alloc_or_mem[OF u(2)] stack_new_mem[OF mu] w_def)
  then have "fluffyvm_new ex desc False tramp n s = Ok False (set_static_errmsg w SS_pthreadCreateError)"
    using u(1) by (simp add: new(1))
  moreover have h: "has_text w SS_pthreadCreateError"
    using u(3)[THEN spec, of SS_pthreadCreateError] by (auto simp: has_text_def is_string_def w_def)
  moreover have "staticStrings w SS_pthreadCreateError \<noteq> VNotPresent"
    using h by (auto simp: has_text_def is_string_def)
  ultimately show "\<exists>t. fluffyvm_new ex desc False tramp n s = Ok False t \<and>
      has_text t SS_pthreadCreateError \<and> errMsg t = Some (staticStrings t SS_pthreadCreateError)"
    by (simp add: has_text_def is_string_def set_static_errmsg_def fluffyvm_set_errmsg_def)
qed

theorem fluffyvm_new_boots_witness:
  "(\<exists>t main c cs g. fluffyvm_new sample_ext (\<lambda>_. True) True 7 0 blank_vm = Ok True t \<and>
       booted t main c cs g) \<and>
     (\<exists>t. fluffyvm_new sample_ext (\<lambda>_. True) False 7 0 blank_vm = Ok False t \<and>
       has_text t SS_pthreadCreateError \<and> errMsg t = Some (staticStrings t SS_pthreadCreateError))"
  by (rule fluffyvm_new_boots) (simp_all add: always_mem_def blank_vm_def)

text \<open>
  Starting a thread hands the starter everything back but \<open>mainThread\<close>: with memory granted and
  the thread created, the call returns true with the starter's error message, nesting and
  coroutines as they were, and \<open>mainThread\<close> then is the coroutine of the new thread, also when a
  main coroutine had been stored before.
\<close>

theorem start_thread_replaces_main:
  assumes "always_mem s" and "globalTable s \<noteq> VNotPresent" and "m < brk s"
  shows "\<exists>t m'. fluffyvm_start_thread True s = Ok True t \<and> mainThread t = Some m' \<and> m' \<noteq> m \<and>
     errMsg t = errMsg s \<and> coroutinesStack t = coroutinesStack s \<and>
     (\<forall>a < brk s. coros t a = coros s a) \<and> tabs t = tabs s \<and> globalTable t = globalTable s"
proof -
  obtain t m' where t: "fluffyvm_start_thread True s = Ok True t" "thread_made s t"
      "coroutinesStack t = coroutinesStack s" "mainThread t = Some m'" "coros t m' \<noteq> None"
      "\<forall>a < brk s. coros t a = coros s a" "brk s \<le> m'"
    by (rule start_thread_mem[OF assms(1,2)])
  then show ?thesis
    using thread_madeD[OF t(2)] assms(3) by (intro exI[of _ t] exI[of _ m']) auto
qed

theorem start_thread_replaces_main_witness:
  "\<exists>t m'. fluffyvm_start_thread True (blank_vm\<lparr>brk := 9, mainThread := Some 3\<rparr>) = Ok True t \<and>
     mainThread t = Some m' \<and> m' \<noteq> 3 \<and> errMsg t = None"
  using start_thread_replaces_main[of "blank_vm\<lparr>brk := 9, mainThread := Some 3\<rparr>" 3]
  by (fastforce simp: always_mem_def blank_vm_def)

end
