(* ===== verification/Host.thy ===== *)
theory Host
  imports JsonLoader Machine
begin

text \<open>
  The host of the machine, \<open>main.c\<close>: the functions it registers, and what it runs on a thread of
  the machine, which loads a program, resumes a coroutine with it and cleans the stack. The text the
  host prints is a part of the state (\<open>console\<close>). Statistics of the collector are not printed here.
\<close>

subsection \<open>What is printed\<close>

type_synonym console = "byte list \<times> vm"

fun at_console :: "byte list \<Rightarrow> ('a, vm) res \<Rightarrow> ('a, console) res" where
  "at_console out (Ok x s) = Ok x (out, s)"
| "at_console out (Throw s) = Throw (out, s)"
| "at_console out (Fault e) = Fault e"

definition silently :: "(vm \<Rightarrow> ('a, vm) res) \<Rightarrow> console \<Rightarrow> ('a, console) res" where
  "silently f c = at_console (fst c) (f (snd c))"

definition put_text :: "byte list \<Rightarrow> console \<Rightarrow> (unit, console) res" where
  "put_text bs c = Ok () (fst c @ bs, snd c)"

text \<open>The characters \<open>%s\<close> prints, up to the first zero byte.\<close>

definition c_text :: "byte list option \<Rightarrow> 's \<Rightarrow> (byte list, 's) res" where
  "c_text r s = (case r of None \<Rightarrow> Fault NullDeref | Some bs \<Rightarrow> Ok (cstr bs) s)"

subsection \<open>Functions for programs\<close>

text \<open>
  \<open>print\<close>: the height of the stack is asked for before every argument. Nothing in the loop changes
  it, so its first value is fuel for the rest.
\<close>

fun print_loop :: "ext \<Rightarrow> addr \<Rightarrow> nat \<Rightarrow> int \<Rightarrow> console \<Rightarrow> (unit, console) res" where
  "print_loop ex L n i c =
     rbind (silently (lua_gettop L) c) (\<lambda>top c.
       if i < top then
         (case n of
            0 \<Rightarrow> Fault OutOfFuel
          | Suc n \<Rightarrow> rbind (silently (lua_tostring ex L (i + 1)) c) (\<lambda>str c.
              rbind (c_text str c) (\<lambda>text c. rbind (put_text (9 # text) c) (\<lambda>_ c.
                print_loop ex L n (i + 1) c))))
       else Ok () c)"

declare print_loop.simps [simp del]

definition stdlib_print :: "ext \<Rightarrow> addr \<Rightarrow> console \<Rightarrow> (int, console) res" where
  "stdlib_print ex L c =
     rbind (silently (lua_gettop L) c) (\<lambda>top c.
     rbind (print_loop ex L (nat top) 0 c) (\<lambda>_ c. Ok 0 c))"

text \<open>Strings are printed in their order, each behind a tab.\<close>

lemma print_loop_strings:
  assumes "lua_at s L cs st" and "gs_items st = map VString (bs @ as)"
    and "\<forall>a \<in> set as. strs s a \<noteq> None"
  shows "print_loop ex L (length as) (int (length bs)) (out, s) =
    Ok () (out @ concat (map (\<lambda>a. 9 # cstr (vs_bytes (the (strs s a)))) as), s)"
  using assms(2,3)
proof (induction as arbitrary: bs out)
  case Nil
  then show ?case
    using lua_at_frame(2)[OF assms(1)] by (subst print_loop.simps) (simp add: silently_def)
next
  case (Cons a as)
  note f = lua_at_frame[OF assms(1)]
  obtain x where x: "strs s a = Some x" using Cons.prems(2) by auto
  have "stack_cell cs (int (length bs)) s = Ok (VString a) s"
    using stack_cell_item[OF f(3,4), of "length bs"] Cons.prems(1) by (simp add: nth_append)
  moreover have "lua_absindex L (int (length bs) + 1) s = Ok (int (length bs) + 1) s"
    using absindex_at[OF assms(1)] Cons.prems(1) by simp
  ultimately have "lua_tostring ex L (int (length bs) + 1) s = Ok (Some (vs_bytes x)) s"
    using f(1) x by (simp add: lua_tostring_def lua_tolstring_def value_get_len_def value_get_string_def checkPresent_def)
  then have "print_loop ex L (length (a # as)) (int (length bs)) (out, s) =
      print_loop ex L (length as) (int (length (bs @ [a]))) (out @ 9 # cstr (vs_bytes x), s)"
    using f(2) Cons.prems(1)
    by (subst print_loop.simps) (simp add: silently_def c_text_def put_text_def add.commute)
  then show ?case using Cons.IH[of "bs @ [a]"] Cons.prems x by simp
qed

lemma stdlib_print_strings:
  assumes "lua_at s L cs st" and "gs_items st = map VString as" and "\<forall>a \<in> set as. strs s a \<noteq> None"
  shows "stdlib_print ex L (out, s) =
    Ok 0 (out @ concat (map (\<lambda>a. 9 # cstr (vs_bytes (the (strs s a)))) as), s)"
  using print_loop_strings[OF assms(1) _ assms(3), of "[]"] lua_at_frame(2)[OF assms(1)] assms(2)
  by (simp add: stdlib_print_def silently_def)

definition stdlib_error :: "addr \<Rightarrow> vm \<Rightarrow> (int, vm) res" where
  "stdlib_error L s = rbind (lua_error L s :: (unit, vm) res) (\<lambda>_ s. Ok 0 s)"

text \<open>The time is \<open>tv_sec\<close> and \<open>tv_nsec\<close> of the clock of the thread, which the system gives.\<close>

definition stdlib_getCPUTime :: "int \<Rightarrow> int \<Rightarrow> addr \<Rightarrow> vm \<Rightarrow> (int, vm) res" where
  "stdlib_getCPUTime tv_sec tv_nsec L s =
     (let currentTime = fp_add (fp_of_int tv_sec) (fp_div (fp_of_int tv_nsec) (fp_of_int 1000000000))
      in rbind (lua_pushnumber L currentTime s) (\<lambda>_ s. Ok 1 s))"

subsection \<open>The routine of a thread\<close>

text \<open>
  Loading and making a closure of the main prototype over the global table. The loader gives
  whether it left its lock taken and the bytecode, as \<open>bytecode_loader_json_load\<close> does.
\<close>

definition load_closure :: "(vm \<Rightarrow> (bool \<times> addr option, vm) res) \<Rightarrow> vm \<Rightarrow> (bool \<times> addr option, vm) res" where
  "load_closure load s =
     rbind (load s) (\<lambda>(locked, r) s.
       case r of
         None \<Rightarrow> Ok (locked, None) s
       | Some a \<Rightarrow> rbind (deref (bcs s) a s) (\<lambda>bc s. rbind (fluffyvm_get_global s) (\<lambda>env s.
           rbind (closure_new (bc_mainPrototype bc) env s) (\<lambda>c s. Ok (locked, c) s))))"

definition pop_all :: "addr \<Rightarrow> vm \<Rightarrow> (unit, vm) res" where
  "pop_all L s = rbind (lua_gettop L s) (\<lambda>top s. lua_pop L top s)"

text \<open>The line of a frame in the trace; it is not printed here, but its texts must be there.\<close>

definition print_frame :: "call_frame \<Rightarrow> vm \<Rightarrow> (bool, vm) res" where
  "print_frame frame s = rbind (c_text (cf_source frame) s) (\<lambda>_ s. Ok True s)"

definition stdlib_print_stacktrace :: "addr \<Rightarrow> vm \<Rightarrow> (unit, vm) res" where
  "stdlib_print_stacktrace co s = coroutine_iterate_call_stack co True print_frame s"

definition routine_error :: "addr \<Rightarrow> vm \<Rightarrow> (unit, vm) res" where
  "routine_error L s =
     rbind (pop_all L s) (\<lambda>_ s.
     rbind (if fluffyvm_is_errmsg_present s
            then rbind (string_arg (fluffyvm_get_errmsg s) s) (\<lambda>_ s. Ok () s)
            else Ok () s) (\<lambda>_ s. Ok () (fluffyvm_clear_errmsg s)))"

text \<open>Resuming a new thread with the closure; the number of its results goes to a null pointer.\<close>

definition run_closure :: "(addr \<Rightarrow> vm \<Rightarrow> (int, vm) res) \<Rightarrow> addr \<Rightarrow> addr \<Rightarrow> vm \<Rightarrow> (unit, vm) res" where
  "run_closure exec L c s =
     rbind (lua_newthread L s) (\<lambda>L2 s.
     rbind (push_top L (value_new_closure c) s) (\<lambda>_ s.
     rbind (lua_xmove L L2 1 s) (\<lambda>_ s.
     rbind (lua_resume (entryPoint exec) L L2 0 0 s) (\<lambda>status s.
       if status \<noteq> LUA_OK then
         rbind (deref (coros s) L2 s) (\<lambda>d s.
         rbind (string_arg (co_thrownedError d) s) (\<lambda>_ s.
         rbind (stdlib_print_stacktrace L2 s) (\<lambda>_ s. routine_error L s)))
       else rbind (pop_all L s) (\<lambda>_ s. Ok () (fluffyvm_clear_errmsg s))))))"

definition thread_routine :: "(vm \<Rightarrow> (bool \<times> addr option, vm) res) \<Rightarrow>
    (addr \<Rightarrow> vm \<Rightarrow> (int, vm) res) \<Rightarrow> vm \<Rightarrow> (bool, vm) res" where
  "thread_routine load exec s =
     rbind (fluffyvm_get_executing_coroutine s) (\<lambda>r s.
       case r of
         None \<Rightarrow> Fault NullDeref
       | Some L \<Rightarrow>
           rbind (load_closure load s) (\<lambda>(locked, c) s.
           rbind (case c of None \<Rightarrow> routine_error L s | Some c \<Rightarrow> run_closure exec L c s) (\<lambda>_ s.
             Ok locked s)))"

end
