(* ===== verification/WellFormed.thy ===== *)
theory WellFormed
  imports Calls
begin

text \<open>
  The invariant of the control state: every frame has a general stack of 256 cells, cleared above a
  stack pointer inside it, and 256 registers or none; the call stack of every coroutine is a
  bounded stack of frames that exist, whose top is its current frame; the nesting is a bounded
  stack. Operations on data leave the control state alone (\<open>keeps\<close>); those of the interpreter and of
  coroutines preserve the invariant, on return and on a throw alike.
\<close>

subsection \<open>Operations on data\<close>

definition ctl :: "vm \<Rightarrow> (addr \<Rightarrow> call_state option) \<times> (addr \<Rightarrow> coroutine option) \<times> addr fluffyvm_stack" where
  "ctl s = (cstates s, coros s, coroutinesStack s)"

definition keeps :: "vm \<Rightarrow> vm \<Rightarrow> bool" where
  "keeps s t \<longleftrightarrow> ctl t = ctl s"

named_theorems keeps_simps \<open>updates of data\<close>
named_theorems keeps_intros \<open>operations that leave the control state alone\<close>

lemma keeps_refl [keeps_simps]: "keeps s s"
  by (simp add: keeps_def)

lemma keeps_update [keeps_simps]:
  "keeps r (s\<lparr>brk := n\<rparr>) = keeps r s" "keeps r (s\<lparr>strs := m1\<rparr>) = keeps r s"
  "keeps r (s\<lparr>udatas := m2\<rparr>) = keeps r s" "keeps r (s\<lparr>tabs := m3\<rparr>) = keeps r s"
  "keeps r (s\<lparr>bcs := m4\<rparr>) = keeps r s" "keeps r (s\<lparr>closures := m5\<rparr>) = keeps r s"
  "keeps r (s\<lparr>errMsg := e\<rparr>) = keeps r s" "keeps r (s\<lparr>globalTable := v\<rparr>) = keeps r s"
  "keeps r (s\<lparr>mainThread := mt\<rparr>) = keeps r s" "keeps r (s\<lparr>stringCache := b\<rparr>) = keeps r s"
  by (simp_all add: keeps_def ctl_def)

lemma keeps_errmsg [keeps_simps]:
  "keeps r (fluffyvm_set_errmsg s v) = keeps r s" "keeps r (set_static_errmsg s m) = keeps r s"
  "keeps r (fluffyvm_clear_errmsg s) = keeps r s" "keeps r (outOfMemory_errmsg s) = keeps r s"
  by (simp_all add: keeps_def ctl_def fluffyvm_clear_errmsg_def outOfMemory_errmsg_def)

lemmas new_string_defs = value_new_string_def value_new_string2_def value_new_string2_constant_def
  value_new_string_constant_def string_cache_create_string_def value_string_allocator_def gc_alloc_def

lemma keeps_errmsg_printf [keeps_simps]: "keeps r (fluffyvm_set_errmsg_printf s msg) = keeps r s"
  by (simp add: fluffyvm_set_errmsg_printf_def new_string_defs keeps_simps)

lemma keeps_new_string:
  "value_new_string s b = (v, t) \<Longrightarrow> keeps r s \<Longrightarrow> keeps r t"
  "value_new_string2 s b = (v, t) \<Longrightarrow> keeps r s \<Longrightarrow> keeps r t"
  "value_new_string2_constant s b = (v, t) \<Longrightarrow> keeps r s \<Longrightarrow> keeps r t"
  "value_string_allocator s b = (v, t) \<Longrightarrow> keeps r s \<Longrightarrow> keeps r t"
  "alloc_or m s = (ok, t) \<Longrightarrow> keeps r s \<Longrightarrow> keeps r t"
  "gc_alloc s = (p, t) \<Longrightarrow> keeps r s \<Longrightarrow> keeps r t"
  by (auto simp: new_string_defs alloc_or_def keeps_simps split: if_splits)

lemmas leaves_splits = option.split "value.split" prod.split if_split list.split

lemma keeps_values [keeps_intros]:
  assumes "keeps r s"
  shows "leaves (keeps r) (checkPresent v s)" "leaves (keeps r) (value_get_string v s)"
    "leaves (keeps r) (value_get_len v s)" "leaves (keeps r) (value_typename v s)"
    "leaves (keeps r) (value_is_numeric v s)" "leaves (keeps r) (value_table_is_indexable v s)"
    "leaves (keeps r) (value_is_callable v s)" "leaves (keeps r) (value_get_object_ptr v s)"
    "leaves (keeps r) (hash_bytes ex bs s)" "leaves (keeps r) (userdata_hash ex a s)"
    "leaves (keeps r) (userdata_data_eq a b s)" "leaves (keeps r) (long_result n s)"
    "leaves (keeps r) (long_div m n s)" "leaves (keeps r) (long_mod m n s)"
proof -
  show "leaves (keeps r) (checkPresent v s)" using assms by (simp add: checkPresent_def)
  show "leaves (keeps r) (value_get_string v s)"
    using assms by (auto simp: value_get_string_def checkPresent_def intro!: leaves_rbind split: leaves_splits)
  show "leaves (keeps r) (value_get_len v s)"
    using assms by (auto simp: value_get_len_def checkPresent_def intro!: leaves_rbind split: leaves_splits)
  show "leaves (keeps r) (value_typename v s)" using assms by (simp add: value_typename_def split: option.split)
  show "leaves (keeps r) (value_is_numeric v s)" "leaves (keeps r) (value_table_is_indexable v s)"
    "leaves (keeps r) (value_is_callable v s)" "leaves (keeps r) (value_get_object_ptr v s)"
    using assms by (cases v; simp)+
  have h: "leaves (keeps r) (hash_bytes ex bs s)" for bs
    using assms by (simp add: hash_bytes_def split: option.split)
  show "leaves (keeps r) (hash_bytes ex bs s)" by (rule h)
  show "leaves (keeps r) (userdata_hash ex a s)"
    using assms h by (auto simp: userdata_hash_def deref_def split: option.split)
  show "leaves (keeps r) (userdata_data_eq a b s)"
    using assms by (auto simp: userdata_data_eq_def intro!: leaves_rbind split: leaves_splits)
  show "leaves (keeps r) (long_result n s)" "leaves (keeps r) (long_div m n s)"
    "leaves (keeps r) (long_mod m n s)"
    using assms by (simp_all add: long_result_def long_div_def long_mod_def)
qed

lemma keeps_names [keeps_intros]:
  assumes "keeps r s"
  shows "leaves (keeps r) (string_arg v s)" "leaves (keeps r) (typename_arg v s)"
proof -
  have string_arg: "leaves (keeps r) (string_arg v s)" if "keeps r s" for v s
    unfolding string_arg_def
    by (rule leaves_rbind[OF keeps_values(2)[OF that]]) (simp split: option.split)
  then show "leaves (keeps r) (string_arg v s)" using assms .
  show "leaves (keeps r) (typename_arg v s)"
    unfolding typename_arg_def by (rule leaves_rbind[OF keeps_values(4)[OF assms] string_arg])
qed

lemma keeps_hash [keeps_intros]: "keeps r s \<Longrightarrow> leaves (keeps r) (value_hash_code ex v s)"
  by (cases v) (auto simp: keeps_simps intro!: leaves_rbind keeps_intros)

lemma keeps_string_equals: "keeps r s \<Longrightarrow> leaves (keeps r) (string_equals ex a b s)"
  unfolding string_equals_def
  by (auto simp del: value_hash_code.simps intro!: leaves_rbind keeps_intros)

lemma keeps_equals [keeps_intros]: "keeps r s \<Longrightarrow> leaves (keeps r) (value_equals ex v w s)"
  unfolding value_equals_def
  by (cases v; cases w) (auto intro!: leaves_rbind keeps_intros keeps_string_equals)

lemma keeps_todouble [keeps_intros]: "keeps r s \<Longrightarrow> leaves (keeps r) (value_todouble ex v s)"
  unfolding value_todouble_def
  by (cases v) (auto simp: keeps_simps intro!: leaves_rbind keeps_intros
      split: prod.split dest: keeps_new_string(1))

lemma keeps_tostring [keeps_intros]: "keeps r s \<Longrightarrow> leaves (keeps r) (value_tostring ex v s)"
  unfolding value_tostring_def
  by (cases v) (auto simp: keeps_simps tostring_text_def intro!: leaves_rbind keeps_intros
      split: prod.split option.split dest: keeps_new_string(4))

lemma keeps_mathCommon: "keeps r s \<Longrightarrow> leaves (keeps r) (mathCommon ex op v w s)"
  unfolding mathCommon_def by (auto simp: keeps_simps intro!: leaves_rbind keeps_intros)

lemma keeps_value_math:
  assumes "keeps r s" and "\<And>m n s. keeps r s \<Longrightarrow> leaves (keeps r) (f m n s)"
  shows "leaves (keeps r) (value_math ex op f g v w s)"
  unfolding value_math_def
  by (rule leaves_rbind[OF keeps_mathCommon[OF assms(1)]])
     (auto simp: assms(2) split: option.split "value.split" prod.split)

lemma keeps_math [keeps_intros]:
  assumes "keeps r s"
  shows "leaves (keeps r) (value_math_add ex v w s)" "leaves (keeps r) (value_math_sub ex v w s)"
    "leaves (keeps r) (value_math_mul ex v w s)" "leaves (keeps r) (value_math_div ex v w s)"
    "leaves (keeps r) (value_math_mod ex v w s)" "leaves (keeps r) (value_math_pow ex v w s)"
proof -
  show "leaves (keeps r) (value_math_add ex v w s)" "leaves (keeps r) (value_math_sub ex v w s)"
    "leaves (keeps r) (value_math_mul ex v w s)" "leaves (keeps r) (value_math_div ex v w s)"
    unfolding value_math_add_def value_math_sub_def value_math_mul_def value_math_div_def
    by (intro keeps_value_math[OF assms] keeps_intros; assumption)+
  show "leaves (keeps r) (value_math_mod ex v w s)" "leaves (keeps r) (value_math_pow ex v w s)"
    unfolding value_math_mod_def value_math_pow_def
    by (auto intro!: leaves_rbind keeps_mathCommon keeps_intros keeps_value_math assms
        split: option.split "value.split" prod.split)
qed

lemma keeps_compare [keeps_intros]:
  assumes "keeps r s"
  shows "leaves (keeps r) (value_is_equal ex v w s)" "leaves (keeps r) (value_is_less ex v w s)"
  using assms
  by (auto simp: value_is_equal_def value_is_less_def intro!: leaves_rbind keeps_mathCommon keeps_intros
      split: option.split "value.split" prod.split)

lemma keeps_chains [keeps_intros]:
  assumes "keeps r s"
  shows "leaves (keeps r) (chain_overwrite ex h k v ps s)" "leaves (keeps r) (chain_remove ex h k pre ps s)"
    "leaves (keeps r) (chain_skip ex k found ps s)"
proof -
  show "leaves (keeps r) (chain_overwrite ex h k v ps s)"
    using assms by (induction ps arbitrary: s) (auto intro!: leaves_rbind keeps_intros)
  show "leaves (keeps r) (chain_remove ex h k pre ps s)"
    using assms
    by (induction ps arbitrary: s pre) (auto simp: pair_write_next_def intro!: leaves_rbind keeps_intros)
  show "leaves (keeps r) (chain_skip ex k found ps s)"
    using assms by (induction ps arbitrary: s found) (auto intro!: leaves_rbind keeps_intros)
qed

lemma keeps_chain_find:
  assumes "keeps r s" and "\<And>v s. keeps r s \<Longrightarrow> leaves (keeps r) (eq v s)"
  shows "leaves (keeps r) (chain_find ex h eq ps s)"
  using assms(1) by (induction ps arbitrary: s) (auto intro!: leaves_rbind keeps_intros assms(2))

lemma keeps_set_entry [keeps_intros]: "keeps r s \<Longrightarrow> leaves (keeps r) (set_entry ex T c k v s)"
  unfolding set_entry_def
  by (auto simp: Let_def new_pair_def gc_alloc_def pair_write_next_def keeps_simps
      intro!: leaves_rbind keeps_intros split: option.split prod.split)

lemma keeps_rehash [keeps_intros]: "keeps r s \<Longrightarrow> leaves (keeps r) (rehash ex T c ps s)"
  by (induction ps arbitrary: s T) (auto intro!: leaves_rbind keeps_intros)

lemma keeps_resize [keeps_intros]: "keeps r s \<Longrightarrow> leaves (keeps r) (resize ex ht c d s)"
  unfolding resize_def
  by (auto simp: gc_alloc_def keeps_simps intro!: leaves_rbind keeps_intros)

lemma keeps_tables [keeps_intros]:
  assumes "keeps r s"
  shows "leaves (keeps r) (hashtable_new ex lf c s)" "leaves (keeps r) (hashtable_set ex a k v s)"
    "leaves (keeps r) (hashtable_get ex a k s)" "leaves (keeps r) (hashtable_remove ex a k s)"
proof -
  show "leaves (keeps r) (hashtable_new ex lf c s)"
    using assms by (auto simp: hashtable_new_def gc_alloc_def keeps_simps intro!: leaves_rbind keeps_intros)
  show "leaves (keeps r) (hashtable_set ex a k v s)"
    using assms by (auto simp: hashtable_set_def keeps_simps intro!: leaves_rbind keeps_intros)
  show "leaves (keeps r) (hashtable_get ex a k s)"
    using assms by (auto simp: hashtable_get_def internal_get_def Let_def intro!: leaves_rbind keeps_intros keeps_chain_find)
  show "leaves (keeps r) (hashtable_remove ex a k s)"
    using assms by (auto simp: hashtable_remove_def Let_def keeps_simps intro!: leaves_rbind keeps_intros split: option.split)
qed

lemma keeps_value_tables [keeps_intros]:
  assumes "keeps r s"
  shows "leaves (keeps r) (value_new_table ex lf c s)" "leaves (keeps r) (value_table_set ex tb k v s)"
    "leaves (keeps r) (value_table_get ex tb k s)"
proof -
  have i: "leaves (keeps r) (attempt_to_index v s)" if "keeps r s" for v s
    using that by (auto simp: attempt_to_index_def keeps_simps intro!: leaves_rbind keeps_intros)
  show "leaves (keeps r) (value_new_table ex lf c s)"
    using assms by (auto simp: value_new_table_def keeps_simps intro!: leaves_rbind keeps_intros split: option.split)
  show "leaves (keeps r) (value_table_set ex tb k v s)"
    using assms by (cases tb) (auto simp: value_table_set_def intro!: leaves_rbind keeps_intros i)
  show "leaves (keeps r) (value_table_get ex tb k s)"
    using assms by (cases tb) (auto simp: value_table_get_def intro!: leaves_rbind keeps_intros i)
qed

lemma keeps_closures [keeps_intros]:
  assumes "keeps r s"
  shows "leaves (keeps r) (closure_new p env s)" "leaves (keeps r) (closure_from_cfunction fn u env s)"
proof -
  have c: "leaves (keeps r) (closure_new_common env s)" if "keeps r s" for s
    using that by (auto simp: closure_new_common_def gc_alloc_def keeps_simps intro!: leaves_rbind keeps_intros)
  show "leaves (keeps r) (closure_new p env s)" "leaves (keeps r) (closure_from_cfunction fn u env s)"
    unfolding closure_new_def closure_from_cfunction_def
    by (auto simp: keeps_simps intro!: leaves_rbind c assms split: option.split)
qed

subsection \<open>The invariant\<close>

definition frame_wf :: "call_state \<Rightarrow> bool" where
  "frame_wf st \<longleftrightarrow> frame_ok st \<and>
     (\<forall>rs. cs_registers st = Some rs \<longrightarrow> length rs = nat FLUFFYVM_REGISTERS_NUM)"

definition stack_wf :: "coroutine \<Rightarrow> bool" where
  "stack_wf c \<longleftrightarrow> stk_ok (co_callStack c) \<and> stk_size (co_callStack c) = FLUFFYVM_CALL_STACK_SIZE"

text \<open>
  All of the invariant, except that the current frame of one coroutine may not be the top of its
  call stack and that the frames of \<open>X\<close> may not exist yet: what holds inside a prolog.
\<close>

definition wf_but :: "addr option \<Rightarrow> addr set \<Rightarrow> vm \<Rightarrow> bool" where
  "wf_but b X s \<longleftrightarrow> (\<forall>cs st. cstates s cs = Some st \<longrightarrow> frame_wf st) \<and>
     (\<forall>co c. coros s co = Some c \<longrightarrow> stack_wf c \<and> set (frames c) \<subseteq> dom (cstates s) \<union> X \<and>
        (b \<noteq> Some co \<longrightarrow> coro_ok c)) \<and>
     stk_ok (coroutinesStack s) \<and> stk_size (coroutinesStack s) = FLUFFYVM_MAX_COROUTINE_NEST"

definition vm_wf :: "vm \<Rightarrow> bool" where
  "vm_wf s \<longleftrightarrow> wf_but None {} s"

lemma coro_ok_stack: "coro_ok c \<longleftrightarrow> stack_wf c \<and>
    co_currentCallState c = (if frames c = [] then None else Some (last (frames c)))"
  by (auto simp: coro_ok_def stack_wf_def)

lemma keeps_fields: "keeps s t \<longleftrightarrow> cstates t = cstates s \<and> coros t = coros s \<and> coroutinesStack t = coroutinesStack s"
  by (auto simp: keeps_def ctl_def)

lemma keeps_wf_but: "keeps s t \<Longrightarrow> wf_but b X s \<Longrightarrow> wf_but b X t"
  by (simp add: wf_but_def keeps_fields)

lemma keeps_wf: "keeps s t \<Longrightarrow> vm_wf s \<Longrightarrow> vm_wf t"
  by (simp add: vm_wf_def keeps_wf_but)

text \<open>An operation on data preserves the invariant.\<close>

lemma leaves_data:
  assumes "vm_wf s" and "\<And>r. keeps r s \<Longrightarrow> leaves (keeps r) m"
  shows "leaves vm_wf m"
  by (rule leaves_mono[OF assms(2)[OF keeps_refl[of s]]]) (rule keeps_wf[OF _ assms(1)])

lemma wf_data:
  assumes "keeps s t"
  shows "vm_wf t = vm_wf s"
  using keeps_wf[OF assms] keeps_wf[of t s] assms by (auto simp: keeps_def)

lemma wf_updates [simp]:
  "vm_wf (fluffyvm_set_errmsg s v) = vm_wf s" "vm_wf (set_static_errmsg s m) = vm_wf s"
  "vm_wf (fluffyvm_clear_errmsg s) = vm_wf s" "vm_wf (fluffyvm_set_errmsg_printf s msg) = vm_wf s"
  "vm_wf (s\<lparr>brk := n\<rparr>) = vm_wf s"
  by (rule wf_data, simp add: keeps_simps)+

lemma vm_wfD:
  assumes "vm_wf s"
  shows "cstates s cs = Some st \<Longrightarrow> frame_wf st" "coros s co = Some c \<Longrightarrow> coro_ok c"
    "coros s co = Some c \<Longrightarrow> set (frames c) \<subseteq> dom (cstates s)"
    "stk_ok (coroutinesStack s)" "stk_size (coroutinesStack s) = FLUFFYVM_MAX_COROUTINE_NEST"
  using assms unfolding vm_wf_def wf_but_def by auto

named_theorems wf_intros \<open>operations that preserve the invariant\<close>

lemma wf_with_frame:
  assumes "vm_wf s" and "frame_wf st"
  shows "vm_wf (with_frame s cs st)"
proof -
  have "set (frames c) \<subseteq> insert cs (dom (cstates s))" if "coros s co = Some c" for co c
    using vm_wfD(3)[OF assms(1) that] by blast
  then show ?thesis
    using assms by (simp add: vm_wf_def wf_but_def)
qed

lemma wf_modify_cstate:
  assumes "vm_wf s" and "\<And>st. cstates s cs = Some st \<Longrightarrow> frame_wf st \<Longrightarrow> frame_wf (f st)"
  shows "leaves vm_wf (modify_cstate cs f s)"
proof (cases "cstates s cs")
  case None
  then show ?thesis by (simp add: modify_cstate_def deref_def)
next
  case (Some st)
  then show ?thesis
    using wf_with_frame[OF assms(1) assms(2)[OF Some vm_wfD(1)[OF assms(1) Some]]] by simp
qed

lemma wf_modify_coro:
  assumes "vm_wf s" and "\<And>c. coros s co = Some c \<Longrightarrow> coro_ok c \<Longrightarrow> coro_ok (f c) \<and> set (frames (f c)) \<subseteq> set (frames c)"
  shows "leaves vm_wf (modify_coro co f s)"
proof (cases "coros s co")
  case None
  then show ?thesis by (simp add: modify_coro_def deref_def)
next
  case (Some c)
  note c = vm_wfD(2,3)[OF assms(1) Some]
  have "vm_wf (s\<lparr>coros := (coros s)(co \<mapsto> f c)\<rparr>)"
    using assms(1) assms(2)[OF Some c(1)] c(2)
    by (auto simp: vm_wf_def wf_but_def coro_ok_stack)
  then show ?thesis using Some by (simp add: modify_coro_def)
qed

subsection \<open>Frames\<close>

lemma frame_wf_with_stack:
  "frame_wf st \<Longrightarrow> length xs \<le> 256 \<Longrightarrow> VNotPresent \<notin> set xs \<Longrightarrow> frame_wf (with_stack st xs)"
  by (simp add: frame_wf_def frame_ok_with_stack)

lemma wf_push [wf_intros]:
  assumes "vm_wf s"
  shows "leaves vm_wf (interpreter_push cs v s)"
proof (cases "cstates s cs")
  case None
  then show ?thesis by (simp add: interpreter_push_def deref_def)
next
  case (Some st)
  note w = vm_wfD(1)[OF assms Some]
  then have ok: "frame_ok st" by (simp add: frame_wf_def)
  note d = frame_okD[OF ok]
  consider "length (gs_items st) = 256" | "length (gs_items st) < 256" "v \<noteq> VNotPresent"
    | "length (gs_items st) < 256" "v = VNotPresent" using d(2) by linarith
  then show ?thesis
  proof cases
    case 1
    then show ?thesis using interpreter_push_full[OF Some ok] assms by simp
  next
    case 2
    then have "frame_wf (with_stack st (gs_items st @ [v]))"
      using d by (intro frame_wf_with_stack[OF w]) auto
    then show ?thesis using interpreter_push_room[OF Some ok 2] wf_with_frame[OF assms] by simp
  next
    case 3
    then show ?thesis using Some d(1) by (simp add: interpreter_push_def config_defs assert_that_def)
  qed
qed

lemma wf_pop [wf_intros]:
  assumes "vm_wf s"
  shows "leaves vm_wf (interpreter_pop cs s)"
proof (cases "cstates s cs")
  case None
  then show ?thesis by (simp add: interpreter_pop_def deref_def)
next
  case (Some st)
  note w = vm_wfD(1)[OF assms Some]
  then have ok: "frame_ok st" by (simp add: frame_wf_def)
  note d = frame_okD[OF ok]
  show ?thesis
  proof (cases "gs_items st" rule: rev_cases)
    case Nil
    then show ?thesis using interpreter_pop_empty[OF Some ok] assms by simp
  next
    case (snoc xs x)
    then have "frame_wf (with_stack st xs)" using d by (intro frame_wf_with_stack[OF w]) auto
    then show ?thesis using interpreter_pop_top[OF Some ok snoc] wf_with_frame[OF assms] by simp
  qed
qed

lemma frame_wf_fields [simp]:
  "frame_wf (st\<lparr>cs_pc := pc\<rparr>) = frame_wf st" "frame_wf (st\<lparr>cs_flagRegister := fl\<rparr>) = frame_wf st"
  "frame_wf (st\<lparr>cs_debugSource := a\<rparr>) = frame_wf st"
  "frame_wf (st\<lparr>cs_debugFuncName := b\<rparr>) = frame_wf st"
  "frame_wf (st\<lparr>cs_debugLine := l\<rparr>) = frame_wf st"
  by (simp_all add: frame_wf_def frame_ok_def gs_items_def)

lemma frame_wf_register:
  "frame_wf st \<Longrightarrow> cs_registers st = Some rs \<Longrightarrow> frame_wf (st\<lparr>cs_registers := Some (rs[i := v])\<rparr>)"
  by (simp add: frame_wf_def frame_ok_def gs_items_def)

lemma wf_with_register:
  "vm_wf s \<Longrightarrow> cstates s cs = Some st \<Longrightarrow> cs_registers st = Some rs \<Longrightarrow>
     vm_wf (with_frame s cs (st\<lparr>cs_registers := Some (rs[i := v])\<rparr>))"
  by (intro wf_with_frame frame_wf_register) (auto dest: vm_wfD(1))

lemma wf_setRegister [wf_intros]: "vm_wf s \<Longrightarrow> leaves vm_wf (setRegister cs i v s)"
  unfolding setRegister_def
  by (auto intro!: leaves_rbind wf_with_register simp: deref_def split: option.splits)

lemma leaves_peek: "P s \<Longrightarrow> leaves P (stack_peek st s)"
  by (simp add: stack_peek_def Let_def split: option.split)

lemma wf_reads [wf_intros]:
  assumes "vm_wf s"
  shows "leaves vm_wf (getRegister cs i s)" "leaves vm_wf (stack_cell cs j s)"
    "leaves vm_wf (current_frame co s)" "leaves vm_wf (executing_coroutine s)"
    "leaves vm_wf (fluffyvm_get_executing_coroutine s)"
proof -
  show "leaves vm_wf (getRegister cs i s)"
    using assms unfolding getRegister_def by (auto intro!: leaves_rbind split: option.split)
  show "leaves vm_wf (stack_cell cs j s)"
    using assms unfolding stack_cell_def by (auto intro!: leaves_rbind)
  show "leaves vm_wf (current_frame co s)"
    using assms unfolding current_frame_def by (auto intro!: leaves_rbind split: option.split)
  show g: "leaves vm_wf (fluffyvm_get_executing_coroutine s)"
    unfolding fluffyvm_get_executing_coroutine_def by (rule leaves_peek[where P = vm_wf, OF assms])
  show "leaves vm_wf (executing_coroutine s)"
    unfolding executing_coroutine_def by (auto intro!: leaves_rbind g split: option.split)
qed

lemma wf_set_pc [wf_intros]: "vm_wf s \<Longrightarrow> leaves vm_wf (set_pc cs pc s)"
  "vm_wf s \<Longrightarrow> leaves vm_wf (set_flag cs fl b s)"
  unfolding set_pc_def set_flag_def by (auto intro!: wf_modify_cstate)

subsection \<open>Entering and leaving frames\<close>

lemma wf_weaken: "vm_wf s \<Longrightarrow> wf_but (Some co) {} s"
  by (simp add: vm_wf_def wf_but_def)

lemma wf_but_fields [simp]:
  "wf_but b X (fluffyvm_set_errmsg s v) = wf_but b X s" "wf_but b X (set_static_errmsg s m) = wf_but b X s"
  "wf_but b X (s\<lparr>brk := n\<rparr>) = wf_but b X s"
  by (simp_all add: wf_but_def)

lemma coro_ok_fields [simp]:
  "coro_ok (c\<lparr>co_callStackLock := l\<rparr>) = coro_ok c" "coro_ok (c\<lparr>co_errorHandler := h\<rparr>) = coro_ok c"
  "coro_ok (c\<lparr>co_fiber := f\<rparr>) = coro_ok c" "coro_ok (c\<lparr>co_isYieldable := y\<rparr>) = coro_ok c"
  "coro_ok (c\<lparr>co_isNativeThread := y\<rparr>) = coro_ok c" "coro_ok (c\<lparr>co_hasError := y\<rparr>) = coro_ok c"
  "coro_ok (c\<lparr>co_thrownedError := v\<rparr>) = coro_ok c"
  "coro_ok (c\<lparr>co_gc_stack := g\<rparr>) = coro_ok c"
  by (simp_all add: coro_ok_def)

lemma wf_locks [wf_intros]:
  assumes "vm_wf s"
  shows "leaves vm_wf (lock_callStack co s)" "leaves vm_wf (unlock_callStack co s)"
proof -
  have m: "leaves vm_wf (modify_coro co (\<lambda>c. c\<lparr>co_callStackLock := b\<rparr>) s)" if "vm_wf s" for b s
    by (rule wf_modify_coro[OF that]) simp
  then show "leaves vm_wf (lock_callStack co s)" "leaves vm_wf (unlock_callStack co s)"
    using assms unfolding lock_callStack_def unlock_callStack_def by (auto intro!: leaves_rbind)
qed

lemma wf_but_coro:
  assumes "wf_but (Some co) X s" and "coro_ok c" and "set (frames c) \<subseteq> dom (cstates s) \<union> X"
  shows "wf_but None X (s\<lparr>coros := (coros s)(co \<mapsto> c)\<rparr>)"
  using assms by (auto simp: wf_but_def coro_ok_stack)

lemma wf_internal_epilog:
  assumes "wf_but (Some co) {} s"
  shows "leaves vm_wf (internal_function_epilog co s)"
proof (cases "coros s co")
  case None
  then show ?thesis by (simp add: internal_function_epilog_def deref_def)
next
  case (Some c)
  then have c: "stack_wf c" "set (frames c) \<subseteq> dom (cstates s)"
    using assms by (auto simp: wf_but_def)
  show ?thesis
  proof (cases "frames c" rule: rev_cases)
    case Nil
    then show ?thesis
      using Some c(1) stack_pop_empty[of "co_callStack c" False s]
      by (simp add: internal_function_epilog_def stack_wf_def assert_that_def)
  next
    case (snoc fs f)
    obtain st where st: "internal_function_epilog co s = Ok () (s\<lparr>coros := (coros s)(co \<mapsto>
        c\<lparr>co_callStack := st, co_currentCallState := (if fs = [] then None else Some (last fs))\<rparr>)\<rparr>)"
      "stk_ok st" "stk_items st = fs" "stk_size st = stk_size (co_callStack c)"
      by (rule internal_epilog_pops[OF Some _ snoc]) (use c in \<open>simp add: stack_wf_def\<close>)
    have "wf_but None {} (s\<lparr>coros := (coros s)(co \<mapsto>
        c\<lparr>co_callStack := st, co_currentCallState := (if fs = [] then None else Some (last fs))\<rparr>)\<rparr>)"
      by (rule wf_but_coro[OF assms]) (use st c snoc in \<open>auto simp: coro_ok_stack stack_wf_def\<close>)
    then show ?thesis using st(1) by (simp add: vm_wf_def)
  qed
qed

lemma wf_epilogs [wf_intros]:
  assumes "vm_wf s"
  shows "leaves vm_wf (coroutine_function_epilog s)" "leaves vm_wf (coroutine_function_epilog_no_lock s)"
  using assms unfolding coroutine_function_epilog_def coroutine_function_epilog_no_lock_def
  by (auto intro!: leaves_rbind wf_intros wf_internal_epilog intro: wf_weaken)

lemma frame_wf_new: "frame_wf (new_call_state func co native)"
  by (auto simp: frame_wf_def frame_ok_def new_call_state_def gs_items_def config_defs)

text \<open>A frame that was pushed but is neither stored nor current yet, and the same once it is stored.\<close>

lemma wf_prolog_push:
  assumes "vm_wf s" and "coros s co = Some c" and "stk_ok st" and "stk_items st = frames c @ [obj]"
    and "stk_size st = stk_size (co_callStack c)"
  shows "wf_but (Some co) {} (s\<lparr>coros := (coros s)(co \<mapsto> c\<lparr>co_callStack := st, co_callStackLock := l\<rparr>),
    cstates := (cstates s)(obj \<mapsto> new_call_state func co native)\<rparr>)"
proof -
  have "set (frames d) \<subseteq> insert obj (dom (cstates s))" if "coros s co' = Some d" for co' d
    using vm_wfD(3)[OF assms(1) that] by blast
  then show ?thesis
    using assms by (simp add: vm_wf_def wf_but_def stack_wf_def frame_wf_new)
qed

lemma wf_current:
  assumes "wf_but (Some co) {} s" and "coros s co = Some c" and "frames c = fs @ [obj]"
  shows "leaves vm_wf (modify_coro co (\<lambda>c. c\<lparr>co_currentCallState := Some obj\<rparr>) s)"
proof -
  have "stack_wf c" "set (frames c) \<subseteq> dom (cstates s)" using assms(1,2) by (auto simp: wf_but_def)
  then have "wf_but None {} (s\<lparr>coros := (coros s)(co \<mapsto> c\<lparr>co_currentCallState := Some obj\<rparr>)\<rparr>)"
    using assms(3) by (intro wf_but_coro[OF assms(1)]) (auto simp: coro_ok_stack stack_wf_def)
  then show ?thesis using assms(2) by (simp add: modify_coro_Some vm_wf_def)
qed

text \<open>The state of a prolog between the push and the last allocation.\<close>

definition entering :: "addr \<Rightarrow> addr \<Rightarrow> vm \<Rightarrow> bool" where
  "entering co obj s \<longleftrightarrow> wf_but (Some co) {} s \<and>
     (\<exists>c fs. coros s co = Some c \<and> frames c = fs @ [obj])"

lemma entering_alloc: "alloc_or m s = (ok, t) \<Longrightarrow> entering co obj s \<Longrightarrow> entering co obj t"
  by (auto simp: alloc_or_def gc_alloc_def entering_def split: if_splits)

lemma entering_leaves:
  assumes "entering co obj s"
  shows "leaves vm_wf (internal_function_epilog co s)"
    "leaves vm_wf (modify_coro co (\<lambda>c. c\<lparr>co_currentCallState := Some obj\<rparr>) s)"
  using assms wf_internal_epilog wf_current unfolding entering_def by blast+

lemma entering_end:
  assumes "entering co obj s"
  shows "leaves vm_wf (case (if native then (True, s) else alloc_or SS_outOfMemory s) of
      (False, s) \<Rightarrow> rbind (internal_function_epilog co s) (\<lambda>_ s. Ok None s)
    | (True, s) \<Rightarrow> (case alloc_or SS_outOfMemory s of
        (False, s) \<Rightarrow> rbind (internal_function_epilog co s) (\<lambda>_ s. Ok None s)
      | (True, s) \<Rightarrow> rbind (modify_coro co (\<lambda>c. c\<lparr>co_currentCallState := Some obj\<rparr>) s) (\<lambda>_ s. Ok (Some obj) s)))"
  using assms
  by (auto intro!: leaves_rbind entering_leaves dest: entering_alloc split: prod.split bool.split)

lemma wf_prolog [wf_intros]:
  assumes "vm_wf s"
  shows "leaves vm_wf (coroutine_function_prolog func s)"
proof (cases "executing_coroutine s")
  case (Ok co s1)
  have w1: "vm_wf s1" using wf_reads(4)[OF assms] Ok by simp
  show ?thesis
  proof (cases "mem s1 (brk s1)")
    case False
    then show ?thesis using Ok w1 by (simp add: coroutine_function_prolog_def gc_alloc_def)
  next
    case m: True
    define s2 where "s2 = s1\<lparr>brk := Suc (brk s1)\<rparr>"
    have w2: "vm_wf s2" using w1 by (simp add: s2_def)
    show ?thesis
    proof (cases "coros s2 co")
      case None
      then show ?thesis using Ok m
        by (simp add: coroutine_function_prolog_def gc_alloc_def s2_def[symmetric] lock_callStack_def deref_def)
    next
      case (Some c)
      have ok: "stk_ok (co_callStack c)" using vm_wfD(2)[OF w2 Some] by (simp add: coro_ok_def)
      define s3 where "s3 = s2\<lparr>coros := (coros s2)(co \<mapsto> c\<lparr>co_callStackLock := True\<rparr>)\<rparr>"
      show ?thesis
      proof (cases "co_callStackLock c")
        case True
        then show ?thesis using Ok m Some
          by (simp add: coroutine_function_prolog_def gc_alloc_def s2_def[symmetric] lock_callStack_def)
      next
        case False
        note l = lock_free[OF Some False, folded s3_def]
        have w3: "vm_wf s3" using wf_locks(1)[OF w2, of co] l by simp
        show ?thesis
        proof (cases "nat (stk_size (co_callStack c)) \<le> length (frames c)")
          case True
          show ?thesis using Ok m Some l stack_push_full[OF ok True] wf_weaken[OF w3]
            by (auto simp: coroutine_function_prolog_def gc_alloc_def s2_def[symmetric] s3_def
                intro!: leaves_rbind wf_internal_epilog)
        next
          case room: False
          obtain st where st: "stack_push (brk s1) (co_callStack c) s3 = Ok (True, st) s3"
              "stk_ok st" "stk_size st = stk_size (co_callStack c)" "stk_items st = frames c @ [brk s1]"
            by (rule stack_push_room[OF ok, of "brk s1" s3]) (use room in auto)
          show ?thesis
          proof (cases "closures s3 func")
            case None
            then show ?thesis using Ok m Some l st(1)
              by (simp add: coroutine_function_prolog_def gc_alloc_def s2_def[symmetric] s3_def
                  modify_coro_Some unlock_Some deref_def)
          next
            case (Some cl)
            let ?s = "s2\<lparr>coros := (coros s2)(co \<mapsto> c\<lparr>co_callStack := st, co_callStackLock := False\<rparr>),
              cstates := (cstates s2)(brk s1 \<mapsto> new_call_state func co (cl_func cl \<noteq> None))\<rparr>"
            have "entering co (brk s1) ?s"
              using wf_prolog_push[OF w2 \<open>coros s2 co = Some c\<close> st(2,4,3)] st(4) by (simp add: entering_def)
            note e = entering_end[OF this, of "cl_func cl \<noteq> None"]
            show ?thesis
            proof (cases "cl_func cl")
              case f: None
              show ?thesis using Ok m \<open>coros s2 co = Some c\<close> l st(1) Some e f
                by (simp add: coroutine_function_prolog_def gc_alloc_def s2_def[symmetric] s3_def
                    modify_coro_Some unlock_Some Let_def)
            next
              case f: (Some x)
              show ?thesis using Ok m \<open>coros s2 co = Some c\<close> l st(1) Some e f
                by (simp add: coroutine_function_prolog_def gc_alloc_def s2_def[symmetric] s3_def
                    modify_coro_Some unlock_Some Let_def)
            qed
          qed
        qed
      qed
    qed
  qed
next
  case (Throw t)
  then show ?thesis using wf_reads(4)[OF assms] by (simp add: coroutine_function_prolog_def)
qed (simp add: coroutine_function_prolog_def)

subsection \<open>Instructions\<close>

lemma wf_data_ops [wf_intros]:
  assumes "vm_wf s"
  shows "leaves vm_wf (value_is_callable v s)" "leaves vm_wf (value_table_is_indexable v s)"
    "leaves vm_wf (typename_arg v s)" "leaves vm_wf (value_math_add ex v w s)"
    "leaves vm_wf (value_math_sub ex v w s)" "leaves vm_wf (value_math_mul ex v w s)"
    "leaves vm_wf (value_math_div ex v w s)" "leaves vm_wf (value_math_mod ex v w s)"
    "leaves vm_wf (value_math_pow ex v w s)" "leaves vm_wf (value_is_equal ex v w s)"
    "leaves vm_wf (value_is_less ex v w s)" "leaves vm_wf (value_table_set ex tb k v s)"
    "leaves vm_wf (value_table_get ex tb k s)" "leaves vm_wf (closure_new p env s)"
    "leaves vm_wf (closure_from_cfunction fn ud env s)" "leaves vm_wf (value_get_object_ptr v s)"
    "leaves vm_wf (value_new_table ex lf n s)" "leaves vm_wf (value_tostring ex v s)"
    "leaves vm_wf (value_todouble ex v s)" "leaves vm_wf (value_get_len v s)"
  by (rule leaves_data[OF assms], erule keeps_intros)+

lemma wf_new_string:
  "value_new_string s b = (v, t) \<Longrightarrow> vm_wf s \<Longrightarrow> vm_wf t"
  "value_new_string2 s b = (v, t) \<Longrightarrow> vm_wf s \<Longrightarrow> vm_wf t"
  "alloc_or m s = (ok, t) \<Longrightarrow> vm_wf s \<Longrightarrow> vm_wf t"
  by (blast intro: keeps_wf keeps_new_string keeps_refl)+

lemma wf_errors [wf_intros]:
  assumes "vm_wf s"
  shows "leaves vm_wf (errorCommon v s)" "leaves vm_wf (interpreter_error v s)"
    "leaves vm_wf (interpreter_error_printf msg s)"
proof -
  have e: "leaves vm_wf (errorCommon v s)" if "vm_wf s" for v s
    using that unfolding errorCommon_def by (auto simp: Let_def intro!: leaves_rbind wf_intros)
  show "leaves vm_wf (errorCommon v s)" using e assms .
  show "leaves vm_wf (interpreter_error v s)"
    unfolding interpreter_error_def by (auto intro!: leaves_rbind wf_intros e assms)
  show "leaves vm_wf (interpreter_error_printf msg s)"
    unfolding interpreter_error_printf_def
    by (auto intro!: leaves_rbind wf_intros e assms dest: wf_new_string(1) split: prod.split)
qed

lemma wf_gotos [wf_intros]:
  assumes "vm_wf s"
  shows "leaves vm_wf (goto_error cs pc s)" "leaves vm_wf (goto_illegal cs pc w ins s)"
  using assms unfolding goto_error_def goto_illegal_def
  by (auto intro!: leaves_rbind wf_intros)

lemma wf_pop2 [wf_intros]: "vm_wf s \<Longrightarrow> leaves vm_wf (interpreter_pop2 cs d s)"
  unfolding interpreter_pop2_def by (auto intro!: leaves_rbind wf_intros split: option.split)

lemma wf_copies [wf_intros]:
  assumes "vm_wf s"
  shows "leaves vm_wf (copy_args dest src is s)" "leaves vm_wf (pop_args cs n s)"
    "leaves vm_wf (copy_returns co dest sp is s)" "leaves vm_wf (push_registers cs is s)"
proof -
  show "leaves vm_wf (copy_args dest src is s)"
    using assms by (induction "is" arbitrary: s) (auto intro!: leaves_rbind wf_intros)
  show "leaves vm_wf (pop_args cs n s)"
    using assms by (induction n arbitrary: s) (auto intro!: leaves_rbind wf_intros)
  show "leaves vm_wf (copy_returns co dest sp is s)"
    using assms by (induction "is" arbitrary: s) (auto intro!: leaves_rbind wf_intros)
  show "leaves vm_wf (push_registers cs is s)"
    using assms by (induction "is" arbitrary: s) (auto intro!: leaves_rbind wf_intros)
qed

lemma wf_return_values [wf_intros]: "vm_wf s \<Longrightarrow> leaves vm_wf (return_values co dest va n k s)"
  unfolding return_values_def by (auto simp: Let_def intro!: leaves_rbind wf_intros)

lemma wf_plain_ops [wf_intros]:
  assumes "vm_wf s"
  shows "leaves vm_wf (op_jmp_forward cs n pc ins s)" "leaves vm_wf (op_jmp_backward cs pc ins s)"
    "leaves vm_wf (op_cmp ex cs pc ins s)" "leaves vm_wf (op_load_prototype cs pc ins s)"
    "leaves vm_wf (op_get_constant cs pc w ins s)" "leaves vm_wf (op_stack_gettop cs pc ins s)"
    "leaves vm_wf (op_stack_pop cs pc ins s)" "leaves vm_wf (op_stack_push cs pc ins s)"
    "leaves vm_wf (op_table_get ex cs pc ins s)" "leaves vm_wf (op_table_set ex cs pc ins s)"
    "leaves vm_wf (op_return cs ins s)" "leaves vm_wf (op_mov cs pc ins s)"
  using assms
  unfolding op_jmp_forward_def op_jmp_backward_def op_cmp_def op_load_prototype_def op_get_constant_def
    op_stack_gettop_def op_stack_pop_def op_stack_push_def op_table_get_def op_table_set_def op_return_def
    op_mov_def
  by (auto intro!: leaves_rbind wf_intros split: option.split)

lemma wf_arith:
  assumes "vm_wf s" and "\<And>v w s. vm_wf s \<Longrightarrow> leaves vm_wf (f v w s)"
  shows "leaves vm_wf (op_arith f cs pc ins s)"
  unfolding op_arith_def by (auto intro!: leaves_rbind wf_intros assms)

lemma wf_call [wf_intros]:
  assumes "vm_wf s" and "\<And>s. vm_wf s \<Longrightarrow> leaves vm_wf (exec s)"
  shows "leaves vm_wf (run_callee exec co cs pc func args va n s)" "leaves vm_wf (op_call exec co cs pc ins s)"
proof -
  have c: "leaves vm_wf (run_callee exec co cs pc func args va n s)" if "vm_wf s" for func args va n s
    using that unfolding run_callee_def
    by (auto simp: Let_def intro!: leaves_rbind wf_intros assms(2) split: option.split)
  show "leaves vm_wf (run_callee exec co cs pc func args va n s)" by (rule c[OF assms(1)])
  show "leaves vm_wf (op_call exec co cs pc ins s)"
    using assms(1) unfolding op_call_def
    by (auto simp: Let_def intro!: leaves_rbind wf_intros c split: "value.split")
qed

lemma wf_dispatch [wf_intros]:
  assumes "vm_wf s" and "\<And>s. vm_wf s \<Longrightarrow> leaves vm_wf (exec s)"
  shows "leaves vm_wf (dispatch ex exec co cs is pc ins s)"
  unfolding dispatch_def
  by (cases "opcode_of (ins_opcode ins)") (auto intro!: wf_intros wf_arith assms)

lemma wf_exec_instruction:
  assumes "vm_wf s" and "\<And>s. vm_wf s \<Longrightarrow> leaves vm_wf (exec s)"
  shows "leaves vm_wf (exec_instruction ex exec co cs is pc s)"
  using assms(1) unfolding exec_instruction_def
  by (auto simp: Let_def intro!: leaves_rbind wf_intros assms(2) split: option.split step_result.split)

lemma wf_exec:
  assumes "\<And>f cs u s. vm_wf s \<Longrightarrow> leaves vm_wf (host f cs u s)"
  shows "vm_wf s \<Longrightarrow> leaves vm_wf (interpreter_exec host ex n co s)"
    and "vm_wf s' \<Longrightarrow> leaves vm_wf (exec_loop host ex n co' cs is pc s')"
proof (induction n arbitrary: co s co' cs "is" pc s')
  case (Suc n)
  {
    case 1
    then show ?case
      by (subst interpreter_exec.simps(2))
         (auto simp del: exec_loop.simps intro!: leaves_rbind wf_intros Suc.IH(2) assms split: option.split)
  next
    case 2
    then show ?case
      by (subst exec_loop.simps(2))
         (auto simp del: exec_loop.simps interpreter_exec.simps
            intro!: leaves_rbind wf_intros wf_exec_instruction Suc.IH split: step_result.split)
  }
qed simp_all

end
