(* ===== verification/ControlInvariant.thy ===== *)
theory ControlInvariant
  imports WellFormed Host
begin

text \<open>
  The invariant of the control state, for native calls, protected calls, coroutines, the Lua C API
  and the boot of a machine: booting establishes it, and every operation preserves it.
\<close>

subsection \<open>Native calls\<close>

lemma wf_interpreter_call [wf_intros]:
  assumes "vm_wf s" and "\<And>co s. vm_wf s \<Longrightarrow> leaves vm_wf (exec co s)"
  shows "leaves vm_wf (interpreter_call exec func nargs nret s)"
  using assms(1) unfolding interpreter_call_def
  by (auto simp: Let_def intro!: leaves_rbind wf_intros assms(2) split: "value.split" option.split)

lemma wf_unwind [wf_intros]: "vm_wf s \<Longrightarrow> leaves vm_wf (unwind n co cs s)"
proof (induction n arbitrary: s)
  case 0
  then show ?case by (subst unwind.simps) (auto intro!: leaves_rbind wf_intros)
next
  case (Suc n)
  then show ?case by (subst unwind.simps) (auto intro!: leaves_rbind wf_intros)
qed

lemma wf_handler:
  assumes "\<And>s h. handler = Some h \<Longrightarrow> vm_wf s \<Longrightarrow> leaves vm_wf (h s)"
  shows "vm_wf s \<Longrightarrow> leaves vm_wf (xpcall_handler n handler s)"
proof (cases handler)
  case (Some h)
  have r: "leaves vm_wf (xpcall_handler n (Some h) s)" if "vm_wf s"
    using that
  proof (induction n arbitrary: s)
    case (0 s)
    have "leaves vm_wf (h s)" by (rule assms[OF Some 0])
    then show ?case by (subst xpcall_handler.simps(2)) (cases "h s"; simp)
  next
    case (Suc n s)
    have "leaves vm_wf (h s)" by (rule assms[OF Some Suc.prems])
    then show ?case by (subst xpcall_handler.simps(2)) (cases "h s"; simp add: Suc.IH)
  qed
  then show "vm_wf s \<Longrightarrow> leaves vm_wf (xpcall_handler n handler s)" using Some by simp
qed simp

lemma wf_coro_fields [wf_intros]:
  assumes "vm_wf s"
  shows "leaves vm_wf (modify_coro co (\<lambda>c. c\<lparr>co_errorHandler := h\<rparr>) s)"
    "leaves vm_wf (modify_coro co (\<lambda>c. c\<lparr>co_isYieldable := b\<rparr>) s)"
    "leaves vm_wf (modify_coro co (\<lambda>c. c\<lparr>co_fiber := f\<rparr>) s)"
    "leaves vm_wf (modify_coro co (\<lambda>c. c\<lparr>co_fiber := f, co_isNativeThread := b\<rparr>) s)"
    "leaves vm_wf (modify_coro co (\<lambda>c. c\<lparr>co_isYieldable := b, co_isNativeThread := b', co_hasError := e,
       co_errorHandler := h, co_fiber := f\<rparr>) s)"
    "leaves vm_wf (modify_coro co (\<lambda>c. c\<lparr>co_thrownedError := v, co_gc_stack := g, co_hasError := e, co_errorHandler := h\<rparr>) s)"
  by (rule wf_modify_coro[OF assms], simp)+

lemma wf_deref [wf_intros]: "vm_wf s \<Longrightarrow> leaves vm_wf (deref m a s)"
  by simp

lemma wf_xpcall [wf_intros]:
  assumes "vm_wf s" and thing: "\<And>s. vm_wf s \<Longrightarrow> leaves vm_wf (thing s)"
    and handler: "\<And>s h. handler = Some h \<Longrightarrow> vm_wf s \<Longrightarrow> leaves vm_wf (h s)"
  shows "leaves vm_wf (interpreter_xpcall n thing handler s)"
proof -
  have t: "leaves vm_wf (case thing s of
      Ok _ s \<Rightarrow> rbind (restore s) (\<lambda>_ s. Ok True s)
    | Throw s \<Rightarrow> rbind (xpcall_handler n handler s) (\<lambda>_ s.
        rbind (lock_callStack co s) (\<lambda>_ s. rbind (deref (coros s) co s) (\<lambda>c s.
        rbind (unwind (nat (stk_sp (co_callStack c))) co cs s) (\<lambda>_ s.
        rbind (unlock_callStack co s) (\<lambda>_ s. rbind (restore s) (\<lambda>_ s. Ok False s))))))
    | Fault e \<Rightarrow> Fault e)"
    if "vm_wf s" and r: "\<And>s. vm_wf s \<Longrightarrow> leaves vm_wf (restore s :: (unit, vm) res)" for co cs restore s
  proof (cases "thing s")
    case (Ok u s1)
    then show ?thesis using thing[OF that(1)] by (auto intro!: leaves_rbind r)
  next
    case (Throw s1)
    then have "vm_wf s1" using thing[OF that(1)] by simp
    then have "leaves vm_wf (xpcall_handler n handler s1)" by (intro wf_handler handler)
    then show ?thesis using Throw by (auto intro!: leaves_rbind wf_intros r)
  qed simp
  show ?thesis
    using assms(1) unfolding interpreter_xpcall_def
    by (auto simp: Let_def intro!: leaves_rbind wf_intros t)
qed

subsection \<open>Coroutines\<close>

lemma wf_fibers [wf_intros]:
  assumes "vm_wf s"
  shows "leaves vm_wf (get_fiber co s)" "leaves vm_wf (set_fiber co f s)"
    "leaves vm_wf (set_yieldable b s)" "leaves vm_wf (coroutine_disallow_yield s)"
    "leaves vm_wf (coroutine_allow_yield s)"
proof -
  show "leaves vm_wf (get_fiber co s)" "leaves vm_wf (set_fiber co f s)"
    using assms unfolding get_fiber_def set_fiber_def
    by (auto intro!: leaves_rbind wf_intros split: option.split)
  have y: "leaves vm_wf (set_yieldable b s)" for b
    using assms unfolding set_yieldable_def by (auto intro!: leaves_rbind wf_intros split: option.split)
  show "leaves vm_wf (set_yieldable b s)" "leaves vm_wf (coroutine_disallow_yield s)"
    "leaves vm_wf (coroutine_allow_yield s)"
    unfolding coroutine_disallow_yield_def coroutine_allow_yield_def by (rule y)+
qed

lemma wf_with_nesting:
  assumes "vm_wf s" and "stk_ok st" and "stk_size st = FLUFFYVM_MAX_COROUTINE_NEST"
  shows "vm_wf (s\<lparr>coroutinesStack := st\<rparr>)"
  using assms by (simp add: vm_wf_def wf_but_def)

lemma wf_nesting [wf_intros]:
  assumes "vm_wf s"
  shows "leaves vm_wf (fluffyvm_push_current_coroutine co s)" "leaves vm_wf (fluffyvm_pop_current_coroutine s)"
proof -
  note d = vm_wfD(4,5)[OF assms]
  show "leaves vm_wf (fluffyvm_push_current_coroutine co s)"
  proof (cases "nat (stk_size (coroutinesStack s)) \<le> length (stk_items (coroutinesStack s))")
    case True
    then show ?thesis
      using stack_push_full[OF d(1) True] assms d
      by (auto simp: fluffyvm_push_current_coroutine_def intro!: wf_with_nesting)
  next
    case False
    then have "length (stk_items (coroutinesStack s)) < nat (stk_size (coroutinesStack s))" by simp
    then obtain st where "stack_push co (coroutinesStack s) s = Ok (True, st) s" "stk_ok st"
        "stk_size st = stk_size (coroutinesStack s)"
      using stack_push_room[OF d(1), of co s] by metis
    then show ?thesis
      using assms d by (simp add: fluffyvm_push_current_coroutine_def wf_with_nesting)
  qed
  show "leaves vm_wf (fluffyvm_pop_current_coroutine s)"
  proof (cases "stk_items (coroutinesStack s)" rule: rev_cases)
    case Nil
    then show ?thesis
      using stack_pop_empty[OF d(1) Nil, of False s]
      by (simp add: fluffyvm_pop_current_coroutine_def assert_that_def)
  next
    case (snoc xs x)
    obtain st where "stack_pop False (coroutinesStack s) s = Ok (None, True, st) s" "stk_ok st"
        "stk_size st = stk_size (coroutinesStack s)"
      by (rule stack_pop_items[OF d(1) snoc, of False s]) auto
    then show ?thesis
      using assms d by (simp add: fluffyvm_pop_current_coroutine_def wf_with_nesting)
  qed
qed

lemma wf_resume [wf_intros]:
  assumes "vm_wf s" and body: "\<And>co s. vm_wf s \<Longrightarrow> leaves vm_wf (body co s)"
  shows "leaves vm_wf (coroutine_resume body co s)"
proof -
  have f: "leaves vm_wf (fiber_resume body co s)" if "vm_wf s" for s
    using that unfolding fiber_resume_def
    by (auto intro!: leaves_rbind wf_intros body split: prod.split bool.split)
  show ?thesis
    using assms(1) unfolding coroutine_resume_def
    by (auto intro!: leaves_rbind wf_intros f split: fiber_state.split)
qed

lemma wf_yield [wf_intros]:
  assumes "vm_wf s" and rest: "\<And>s. vm_wf s \<Longrightarrow> leaves vm_wf (rest s)"
  shows "leaves vm_wf (coroutine_yield rest s)"
proof -
  have e: "leaves vm_wf (fiber_yield_enter f s)" if "vm_wf s" for f s
    using that by (simp add: fiber_yield_enter_def)
  show ?thesis
    using assms(1) unfolding coroutine_yield_def fiber_yield_def
    by (auto intro!: leaves_rbind wf_intros e rest split: option.split)
qed

lemma wf_task [wf_intros]:
  assumes "vm_wf s" and exec: "\<And>co s. vm_wf s \<Longrightarrow> leaves vm_wf (exec co s)"
  shows "leaves vm_wf (coroutine_task exec co s)" "leaves vm_wf (entryPoint exec co s)"
proof -
  let ?run = "\<lambda>s. rbind (modify_coro co (\<lambda>c. c\<lparr>co_errorHandler := Some 0\<rparr>) s) (\<lambda>_ s.
      rbind (exec co s) (\<lambda>_ s. rbind (coroutine_function_epilog s) (\<lambda>_ s.
        modify_coro co (\<lambda>c. c\<lparr>co_errorHandler := None\<rparr>) s)))"
  have "leaves vm_wf (?run s)" using assms(1) by (auto intro!: leaves_rbind wf_intros exec)
  then show t: "leaves vm_wf (coroutine_task exec co s)"
    unfolding coroutine_task_def by (auto intro!: leaves_rbind wf_intros split: res.split)
  show "leaves vm_wf (entryPoint exec co s)"
    unfolding entryPoint_def by (auto intro!: leaves_rbind wf_intros t)
qed

lemma wf_data_fields [simp]:
  "vm_wf (s\<lparr>staticStrings := m0\<rparr>) = vm_wf s" "vm_wf (s\<lparr>coroutineTrampoline := t0\<rparr>) = vm_wf s"
  "vm_wf (s\<lparr>luaModuleID := n1\<rparr>) = vm_wf s" "vm_wf (s\<lparr>luaUserdataType := n2\<rparr>) = vm_wf s"
  "vm_wf (s\<lparr>closures := m5\<rparr>) = vm_wf s" "vm_wf (s\<lparr>udatas := m6\<rparr>) = vm_wf s"
  "vm_wf (s\<lparr>errMsg := e\<rparr>) = vm_wf s" "vm_wf (s\<lparr>globalTable := v\<rparr>) = vm_wf s"
  "vm_wf (s\<lparr>mainThread := mt\<rparr>) = vm_wf s" "vm_wf (s\<lparr>stringCache := b\<rparr>) = vm_wf s"
  by (rule wf_data, simp add: keeps_fields)+

lemma wf_oom [simp]: "vm_wf (outOfMemory_errmsg s) = vm_wf s"
  by (rule wf_data) (simp add: keeps_simps)

lemma wf_new_constant:
  "value_new_string2_constant s b = (v, t) \<Longrightarrow> vm_wf s \<Longrightarrow> vm_wf t"
  "value_new_string_constant s b = (v, t) \<Longrightarrow> vm_wf s \<Longrightarrow> vm_wf t"
  unfolding value_new_string_constant_def by (blast intro: keeps_wf keeps_new_string keeps_refl)+

lemma wf_add_coro:
  "vm_wf s \<Longrightarrow> coro_ok c \<Longrightarrow> frames c = [] \<Longrightarrow> vm_wf (s\<lparr>coros := (coros s)(co \<mapsto> c)\<rparr>)"
  by (auto simp: vm_wf_def wf_but_def coro_ok_stack)

lemma wf_allocs:
  assumes "vm_wf s"
  shows "gc_alloc s = (p, t) \<Longrightarrow> vm_wf t" "stack_new n s = (st, t) \<Longrightarrow> vm_wf t"
  using assms by (auto simp: gc_alloc_def stack_new_def split: if_splits)

lemma wf_coroutine_new [wf_intros]:
  assumes "vm_wf s"
  shows "leaves vm_wf (coroutine_new func s)"
proof -
  have new: "vm_wf (s\<lparr>coros := (coros s)(co \<mapsto> \<lparr>co_isNativeThread = False, co_isYieldable = False, co_fiber = None,
      co_currentCallState = None, co_errorHandler = None, co_callStackLock = False,
      co_callStack = st, co_hasError = False, co_thrownedError = VNotPresent, co_gc_stack = GC_callStack\<rparr>)\<rparr>)"
    if "vm_wf s" "stack_new FLUFFYVM_CALL_STACK_SIZE s0 = (Some st, s1)" for s s0 s1 co st
    using that(1) stack_new_ok[OF _ that(2)] by (intro wf_add_coro) (auto simp: coro_ok_def config_defs)
  show ?thesis
    using assms unfolding coroutine_new_def
    by (auto simp: Let_def intro!: leaves_rbind wf_intros new dest: wf_allocs
        split: prod.split option.split)
qed

subsection \<open>The Lua C API\<close>

lemma wf_lua_frame:
  assumes "vm_wf s" and "lua_frame L s = Ok (cs, st) t"
  shows "t = s" "lua_at s L cs st" "frame_wf st"
proof -
  obtain c where "coros s L = Some c" "co_currentCallState c = Some cs" "cstates s cs = Some st" "t = s"
    using assms(2) by (auto simp: lua_frame_def res_simps split: option.splits)
  then show "t = s" "lua_at s L cs st" "frame_wf st"
    using vm_wfD(1)[OF assms(1)] by (auto simp: lua_at_def frame_wf_def)
qed

lemma wf_lua_reads [wf_intros]:
  assumes "vm_wf s"
  shows "leaves vm_wf (lua_frame L s)" "leaves vm_wf (lua_gettop L s)" "leaves vm_wf (raise_errmsg s)"
    "leaves vm_wf (raise_static m s)" "leaves vm_wf (lua_absindex L idx s)"
    "leaves vm_wf (interpreter_peek cs i s)" "leaves vm_wf (getValueAtStackIndex L idx s)"
    "leaves vm_wf (lua_checkstack L n s)" "leaves vm_wf (ensureStackFits L n s)"
proof -
  have fr: "leaves vm_wf (lua_frame L s)" if "vm_wf s" for s
    using that unfolding lua_frame_def by (auto intro!: leaves_rbind split: option.split)
  have gt: "leaves vm_wf (lua_gettop L s)" if "vm_wf s" for s
    using that unfolding lua_gettop_def by (auto intro!: leaves_rbind fr)
  have re: "leaves vm_wf (raise_errmsg s)" "leaves vm_wf (raise_static m s)" if "vm_wf s" for s m
    using that unfolding raise_errmsg_def raise_static_def by (rule wf_errors)+
  have ab: "leaves vm_wf (lua_absindex L idx s)" if "vm_wf s" for s
    using that unfolding lua_absindex_def by (auto simp: Let_def intro!: leaves_rbind gt re)
  have pk: "leaves vm_wf (interpreter_peek cs i s)" if "vm_wf s" for cs i s
    using that unfolding interpreter_peek_def by (auto intro!: leaves_rbind wf_intros)
  have ck: "leaves vm_wf (lua_checkstack L n s)" if "vm_wf s" for s
    using that unfolding lua_checkstack_def by (auto intro!: leaves_rbind wf_intros fr)
  show "leaves vm_wf (lua_frame L s)" "leaves vm_wf (lua_gettop L s)" "leaves vm_wf (raise_errmsg s)"
    "leaves vm_wf (raise_static m s)" "leaves vm_wf (lua_absindex L idx s)"
    "leaves vm_wf (interpreter_peek cs i s)" "leaves vm_wf (lua_checkstack L n s)"
    using assms by (rule fr gt re ab pk ck)+
  show "leaves vm_wf (getValueAtStackIndex L idx s)"
    using assms unfolding getValueAtStackIndex_def
    by (auto intro!: leaves_rbind fr ab pk re split: option.split)
  show "leaves vm_wf (ensureStackFits L n s)"
    using assms unfolding ensureStackFits_def by (auto intro!: leaves_rbind ck re)
qed

lemma wf_push_top [wf_intros]: "vm_wf s \<Longrightarrow> leaves vm_wf (push_top L v s)"
  unfolding push_top_def by (auto intro!: leaves_rbind wf_intros)

lemma wf_lua_pop [wf_intros]: "vm_wf s \<Longrightarrow> leaves vm_wf (lua_pop L n s)"
proof -
  have "leaves vm_wf (pop_times L k s)" if "vm_wf s" for k s
    using that by (induction k arbitrary: s) (auto intro!: leaves_rbind wf_intros)
  then show "vm_wf s \<Longrightarrow> leaves vm_wf (lua_pop L n s)"
    unfolding lua_pop_def by (auto intro!: wf_intros)
qed

text \<open>Storing into a cell below the top.\<close>

lemma wf_store_cell:
  assumes "vm_wf s" and "lua_at s L cs st" and "0 \<le> i" and "i < int (length (gs_items st))"
  shows "leaves vm_wf (store_cell cs i v s)"
proof (cases "v = VNotPresent")
  case True
  then show ?thesis
    using assms(1) unfolding store_cell_def by (auto intro!: leaves_rbind wf_intros)
next
  case False
  note a = lua_at_frame[OF assms(2)] and w = vm_wfD(1)[OF assms(1) lua_at_frame(3)[OF assms(2)]]
  have "VNotPresent \<notin> set ((gs_items st)[nat i := v])"
    using frame_okD(3)[OF a(4)] False set_update_subset_insert[of "gs_items st" "nat i" v] by auto
  then have "frame_wf (with_stack st ((gs_items st)[nat i := v]))"
    using frame_okD(2)[OF a(4)] by (intro frame_wf_with_stack[OF w]) simp_all
  then show ?thesis
    using store_cell_item[OF a(3,4) _ False, of "nat i"] assms(3,4) wf_with_frame[OF assms(1)]
    by (simp add: nat_less_iff)
qed

lemma raise_not_Ok: "raise_static m s \<noteq> Ok x t" "raise_errmsg s \<noteq> Ok x t"
  by (auto simp: raise_static_def raise_errmsg_def interpreter_error_def errorCommon_def res_simps
      Let_def split: option.splits if_splits)

lemma absindex_Ok:
  assumes "vm_wf s" and "lua_at s L cs st" and "lua_absindex L idx s = Ok i t"
  shows "t = s" "0 < i" "i \<le> int (length (gs_items st))"
  using assms(3) unfolding absindex_at[OF assms(2)]
  by (auto simp: Let_def raise_not_Ok split: if_splits)

lemma getValue_Ok: "getValueAtStackIndex L idx s = Ok v t \<Longrightarrow> t = s"
  by (auto simp: getValueAtStackIndex_def lua_absindex_def lua_gettop_def lua_frame_def
      interpreter_peek_def stack_cell_def res_simps raise_not_Ok Let_def split: if_splits option.splits)

lemma leaves_lua_frame:
  assumes "vm_wf s"
    and "\<And>cs st. lua_at s L cs st \<Longrightarrow> frame_wf st \<Longrightarrow> leaves vm_wf (f (cs, st) s)"
  shows "leaves vm_wf (rbind (lua_frame L s) f)"
  using assms(2) by (auto intro!: leaves_rbind wf_lua_reads assms(1) dest: wf_lua_frame[OF assms(1)])

lemma leaves_absindex:
  assumes "vm_wf s" and "lua_at s L cs st"
    and "\<And>i. 0 < i \<Longrightarrow> i \<le> int (length (gs_items st)) \<Longrightarrow> leaves vm_wf (f i s)"
  shows "leaves vm_wf (rbind (lua_absindex L idx s) f)"
  using assms(3) by (auto intro!: leaves_rbind wf_lua_reads assms(1) dest: absindex_Ok[OF assms(1,2)])

lemma wf_lua_copy [wf_intros]: "vm_wf s \<Longrightarrow> leaves vm_wf (lua_copy L f i s)"
  unfolding lua_copy_def
  by (auto intro!: leaves_lua_frame leaves_absindex)
     (auto intro!: leaves_rbind wf_intros wf_store_cell dest!: getValue_Ok)

lemma wf_lua_rotate [wf_intros]:
  assumes "vm_wf s" and "int_ok n"
  shows "leaves vm_wf (lua_rotate L idx n s)"
proof (cases "lua_frame L s")
  case (Ok p t)
  obtain cs st where p: "p = (cs, st)" by (cases p)
  note at = wf_lua_frame[OF assms(1) Ok[unfolded p]]
  let ?xs = "gs_items st"
  show ?thesis
  proof (cases "1 \<le> \<bar>idx\<bar> \<and> \<bar>idx\<bar> \<le> int (length ?xs)")
    case True
    define k where "k = (if 0 < idx then nat idx - 1 else length ?xs - nat (- idx))"
    have k: "k < length ?xs" "idx = int k + 1 \<or> idx = - int (length ?xs - k)"
      using True by (auto simp: k_def)
    let ?r = "rotate (nat ((- n) mod int (length (drop k ?xs)))) (drop k ?xs)"
    have "lua_rotate L idx n s = Ok () (with_frame s cs (with_stack st (take k ?xs @ ?r)))"
      using k by (intro rotate_at[OF at(2) _ _ assms(2)]) auto
    moreover have "frame_wf (with_stack st (take k ?xs @ ?r))"
      using frame_okD(2,3)[OF lua_at_frame(4)[OF at(2)]] k
      by (intro frame_wf_with_stack[OF at(3)]) (auto dest: in_set_takeD in_set_dropD)
    ultimately show ?thesis using wf_with_frame[OF assms(1)] by simp
  next
    case False
    then have "lua_absindex L idx s = raise_static SS_invalidStackIndex s"
      using absindex_at[OF at(2), of idx] by (auto simp: Let_def)
    moreover have "leaves vm_wf (raise_static SS_invalidStackIndex s)" by (rule wf_lua_reads[OF assms(1)])
    ultimately show ?thesis
      by (auto simp: lua_rotate_def raise_not_Ok intro!: leaves_rbind)
  qed
qed (use assms(1) wf_lua_reads(1)[OF assms(1), of L] in \<open>auto simp: lua_rotate_def lua_absindex_def lua_gettop_def raise_not_Ok
    intro!: leaves_rbind wf_intros\<close>)

lemma wf_number_in_place:
  assumes "vm_wf s" and "lua_at s L cs st" and "0 \<le> i" and "i < int (length (gs_items st))"
  shows "leaves vm_wf (number_in_place ex cs i v s)"
proof -
  have "lua_at t L cs st" if "keeps s t" for t
    using that assms(2) by (simp add: keeps_fields lua_at_def)
  moreover have "leaves (keeps s) (value_tostring ex v s)" by (intro keeps_intros keeps_refl)
  ultimately show ?thesis
    using assms unfolding number_in_place_def
    by (cases "value_tostring ex v s")
       (auto simp: wf_data intro!: leaves_rbind wf_intros wf_store_cell)
qed

lemma stack_cell_Ok: "stack_cell cs i s = Ok v t \<Longrightarrow> t = s"
  by (auto simp: stack_cell_def res_simps split: if_splits)

lemma wf_data_reads [wf_intros]:
  assumes "vm_wf s"
  shows "leaves vm_wf (value_get_string v s)" "leaves vm_wf (checkPresent v s)"
  by (rule leaves_data[OF assms], erule keeps_intros)+

lemma wf_lua_tolstring [wf_intros]: "vm_wf s \<Longrightarrow> leaves vm_wf (lua_tolstring ex L idx s)"
  unfolding lua_tolstring_def
  by (auto intro!: leaves_lua_frame leaves_absindex)
     (auto intro!: leaves_rbind wf_intros wf_number_in_place dest!: stack_cell_Ok split: value_types.split)

lemma wf_light_userdata [wf_intros]:
  assumes "vm_wf s"
  shows "leaves vm_wf (value_new_light_userdata s m n d)"
proof -
  have "vm_wf t" if "value_new_full_userdata s m n = (v, t)" for v t
    using assms that by (auto simp: value_new_full_userdata_def gc_alloc_def split: if_splits)
  then show ?thesis
    unfolding value_new_light_userdata_def
    by (auto intro!: leaves_rbind split: prod.split "value.split")
qed

lemma wf_lua_pushes [wf_intros]:
  assumes "vm_wf s"
  shows "leaves vm_wf (lua_pushvalue L i s)" "leaves vm_wf (lua_pushnil L s)"
    "leaves vm_wf (lua_pushboolean L b s)" "leaves vm_wf (lua_pushinteger L n s)"
    "leaves vm_wf (lua_pushnumber L d s)" "leaves vm_wf (lua_pushstring L str s)"
    "leaves vm_wf (lua_pushliteral L str s)" "leaves vm_wf (lua_pushlstring L str s)"
    "leaves vm_wf (lua_pushglobaltable L s)" "leaves vm_wf (lua_pushthread L s)"
    "leaves vm_wf (lua_pushlightuserdata L p s)" "leaves vm_wf (lua_pushcfunction tramp L f s)"
proof -
  have str: "leaves vm_wf (push_string L r)" if "vm_wf (snd r)" for r
    using that unfolding push_string_def by (auto intro!: wf_intros split: prod.split)
  have new: "vm_wf (snd (value_new_string s str))" "vm_wf (snd (value_new_string2 s str))"
    "vm_wf (snd (value_new_string_constant s str))" if "vm_wf s" for s
    using that by (blast intro: wf_new_string wf_new_constant prod.collapse[symmetric])+
  show "leaves vm_wf (lua_pushvalue L i s)" "leaves vm_wf (lua_pushnil L s)"
    "leaves vm_wf (lua_pushboolean L b s)" "leaves vm_wf (lua_pushinteger L n s)"
    "leaves vm_wf (lua_pushnumber L d s)" "leaves vm_wf (lua_pushstring L str s)"
    "leaves vm_wf (lua_pushliteral L str s)" "leaves vm_wf (lua_pushlstring L str s)"
    "leaves vm_wf (lua_pushglobaltable L s)" "leaves vm_wf (lua_pushthread L s)"
    "leaves vm_wf (lua_pushlightuserdata L p s)" "leaves vm_wf (lua_pushcfunction tramp L f s)"
    using assms
    unfolding lua_pushvalue_def lua_pushnil_def lua_pushboolean_def lua_pushinteger_def
      lua_pushnumber_def lua_pushstring_def lua_pushliteral_def lua_pushlstring_def
      lua_pushglobaltable_def lua_pushthread_def lua_pushlightuserdata_def lua_pushcfunction_def
    by (auto intro!: leaves_rbind wf_intros str new split: option.split)
qed

lemma wf_lua_moves [wf_intros]:
  assumes "vm_wf s"
  shows "leaves vm_wf (lua_remove L i s)" "leaves vm_wf (lua_replace L i s)"
    "leaves vm_wf (lua_error L s)" "leaves vm_wf (lua_xmove L L' n s)"
proof -
  have i: "int_ok (-1)" by (simp add: int_ok_def INT_MIN_def INT_MAX_def)
  have c: "leaves vm_wf (push_cells L L' is s)" if "vm_wf s" for "is" s
    using that by (induction "is" arbitrary: s) (auto intro!: leaves_rbind wf_intros)
  show "leaves vm_wf (lua_remove L i s)" "leaves vm_wf (lua_replace L i s)"
    "leaves vm_wf (lua_error L s)" "leaves vm_wf (lua_xmove L L' n s)"
    using assms i unfolding lua_remove_def lua_replace_def lua_error_def lua_xmove_def
    by (auto simp: Let_def intro!: leaves_rbind wf_intros c split: option.split)
qed

lemma wf_lua_conversions [wf_intros]:
  assumes "vm_wf s"
  shows "leaves vm_wf (lua_tostring ex L i s)" "leaves vm_wf (lua_topointer L i s)"
    "leaves vm_wf (lua_tonumberx ex L i s)" "leaves vm_wf (lua_tonumber ex L i s)"
    "leaves vm_wf (lua_tointegerx ex L i s)" "leaves vm_wf (lua_tointeger ex L i s)"
    "leaves vm_wf (lua_touserdata L i s)" "leaves vm_wf (lua_tothread L i s)"
    "leaves vm_wf (lua_toboolean L i s)" "leaves vm_wf (lua_tocfunction L i s)"
    "leaves vm_wf (lua_type L i s)" "leaves vm_wf (has_type t L i s)"
    "leaves vm_wf (lua_isfunction L i s)"
proof -
  have u: "leaves vm_wf (value_get_unique_ptr v s)" if "vm_wf s" for v s
    using that unfolding value_get_unique_ptr_def
    by (auto intro!: leaves_rbind wf_intros split: "value.split")
  show "leaves vm_wf (lua_tostring ex L i s)" "leaves vm_wf (lua_topointer L i s)"
    "leaves vm_wf (lua_tonumberx ex L i s)" "leaves vm_wf (lua_tonumber ex L i s)"
    "leaves vm_wf (lua_tointegerx ex L i s)" "leaves vm_wf (lua_tointeger ex L i s)"
    "leaves vm_wf (lua_touserdata L i s)" "leaves vm_wf (lua_tothread L i s)"
    "leaves vm_wf (lua_toboolean L i s)" "leaves vm_wf (lua_tocfunction L i s)"
    "leaves vm_wf (lua_type L i s)" "leaves vm_wf (has_type t L i s)"
    "leaves vm_wf (lua_isfunction L i s)"
    using assms
    unfolding lua_tostring_def lua_topointer_def lua_tointegerx_def lua_tointeger_def lua_tonumber_def
      lua_tonumberx_def lua_touserdata_def lua_tothread_def lua_toboolean_def lua_tocfunction_def
      has_type_def lua_isfunction_def lua_type_def
    by (auto intro!: leaves_rbind wf_intros u split: option.split "value.split")
qed

lemma wf_lua_tables [wf_intros]:
  assumes "vm_wf s"
  shows "leaves vm_wf (lua_len L i s)" "leaves vm_wf (lua_createtable ex L m n s)"
    "leaves vm_wf (lua_newtable ex L s)" "leaves vm_wf (lua_setglobal ex L name s)"
    "leaves vm_wf (lua_setfield ex L i name s)" "leaves vm_wf (lua_register ex tramp L name f s)"
proof -
  have n: "leaves vm_wf (set_named ex L t name v s)" if "vm_wf s" for t v s
    using that unfolding set_named_def
    by (auto intro!: leaves_rbind wf_intros dest: wf_new_string split: prod.split)
  have g: "leaves vm_wf (fluffyvm_get_global s)" if "vm_wf s" for s
    using that by (simp add: fluffyvm_get_global_def)
  have c: "leaves vm_wf (lua_createtable ex L m n s)" for m n
    using assms unfolding lua_createtable_def by (auto intro!: leaves_rbind wf_intros)
  have sg: "leaves vm_wf (lua_setglobal ex L name s)" if "vm_wf s" for s
    using that unfolding lua_setglobal_def by (auto intro!: leaves_rbind wf_intros n g)
  show "leaves vm_wf (lua_len L i s)" "leaves vm_wf (lua_createtable ex L m n s)"
    "leaves vm_wf (lua_newtable ex L s)" "leaves vm_wf (lua_setglobal ex L name s)"
    "leaves vm_wf (lua_setfield ex L i name s)" "leaves vm_wf (lua_register ex tramp L name f s)"
    using assms c sg unfolding lua_len_def lua_newtable_def lua_setfield_def lua_register_def
    by (auto intro!: leaves_rbind wf_intros n)
qed

lemma wf_lua_call [wf_intros]:
  assumes "vm_wf s" and exec: "\<And>co s. vm_wf s \<Longrightarrow> leaves vm_wf (exec co s)"
  shows "leaves vm_wf (lua_call exec L nargs nresults s)"
proof -
  have "int_ok (-1)" by (simp add: int_ok_def INT_MIN_def INT_MAX_def)
  then show ?thesis
    using assms(1) unfolding lua_call_def
    by (auto simp: Let_def intro!: leaves_rbind wf_intros exec split: option.split)
qed

lemma wf_lua_threads [wf_intros]:
  assumes "vm_wf s"
  shows "leaves vm_wf (lua_newthread L s)" "leaves vm_wf (store_int a n s)"
  using assms unfolding lua_newthread_def value_new_coroutine_def store_int_def
  by (auto intro!: leaves_rbind wf_intros split: option.split)

lemma wf_lua_resume [wf_intros]:
  assumes "vm_wf s" and body: "\<And>co s. vm_wf s \<Longrightarrow> leaves vm_wf (body co s)"
  shows "leaves vm_wf (lua_resume body L target nargs nresults s)"
  using assms(1) unfolding lua_resume_def
  by (auto intro!: leaves_rbind wf_intros body)

lemma wf_trampolines [wf_intros]:
  assumes "vm_wf s"
  shows "(\<And>co s. vm_wf s \<Longrightarrow> leaves vm_wf (exec co s)) \<Longrightarrow> leaves vm_wf (trampoline ex exec s)"
    "(\<And>f L s. vm_wf s \<Longrightarrow> leaves vm_wf (cfun f L s)) \<Longrightarrow> leaves vm_wf (cFunctionTrampoline cfun cs ud s)"
  using assms unfolding trampoline_def cFunctionTrampoline_def
  by (auto intro!: leaves_rbind wf_intros split: option.split)

subsection \<open>Booting\<close>

lemma wf_init_strings: "vm_wf s \<Longrightarrow> init_strings ms s = (ok, t) \<Longrightarrow> vm_wf t"
proof (induction ms arbitrary: s)
  case (Cons m ms)
  obtain v s1 where s1: "value_new_string_constant s (bytes_of (static_text m)) = (v, s1)"
    by (cases "value_new_string_constant s (bytes_of (static_text m))")
  have "vm_wf s1" by (rule wf_new_constant(2)[OF s1 Cons.prems(1)])
  then show ?case
    using Cons.IH[of "s1\<lparr>staticStrings := (staticStrings s1)(m := v)\<rparr>"] Cons.prems(2) s1
    by (simp split: if_splits)
qed simp

lemma wf_late_init [wf_intros]: "vm_wf s \<Longrightarrow> leaves vm_wf (lateInit s)"
  unfolding lateInit_def fluffyvm_get_global_def
  by (auto intro!: leaves_rbind wf_intros split: option.split)

lemma wf_start_thread [wf_intros]:
  assumes "vm_wf s"
  shows "leaves vm_wf (fluffyvm_start_thread created s)"
proof -
  have own: "leaves vm_wf (rbind (lateInit (s1\<lparr>errMsg := None, coroutinesStack := st\<rparr>)) (\<lambda>ok t.
      if ok then Ok True (t\<lparr>errMsg := errMsg s1, coroutinesStack := coroutinesStack s1\<rparr>)
      else Fault Dangling))"
    if "vm_wf s0" "stack_new FLUFFYVM_MAX_COROUTINE_NEST s0 = (Some st, s1)" for s0 s1 st
  proof -
    have s1: "vm_wf s1" by (rule wf_allocs(2)[OF that])
    have "stk_ok st" "stk_size st = FLUFFYVM_MAX_COROUTINE_NEST"
      using stack_new_ok(1,3)[OF _ that(2)] by (simp_all add: config_defs)
    then have "vm_wf (s1\<lparr>errMsg := None, coroutinesStack := st\<rparr>)"
      using wf_with_nesting[of "s1\<lparr>errMsg := None\<rparr>"] s1 by simp
    then show ?thesis
      using vm_wfD(4,5)[OF s1] by (auto intro!: leaves_rbind wf_intros wf_with_nesting)
  qed
  show ?thesis
    using assms unfolding fluffyvm_start_thread_def
    by (auto intro: own dest: wf_new_string wf_allocs split: prod.split option.split bool.split)
qed

lemma wf_inits [wf_intros]:
  assumes "vm_wf s"
  shows "leaves vm_wf (statics_init s)" "leaves vm_wf (global_table_init ex s)"
    "leaves vm_wf (caches_init s)" "leaves vm_wf (fluffyvm_compat_layer_lua54_init tramp n s)"
  using assms wf_init_strings[of "s\<lparr>staticStrings := \<lambda>_. VNotPresent\<rparr>"]
  unfolding statics_init_def global_table_init_def caches_init_def string_cache_new_def
    fluffyvm_compat_layer_lua54_init_def fluffyvm_set_global_def
  by (auto intro!: leaves_rbind wf_intros dest: wf_new_string split: prod.split option.split)

lemma wf_components: "vm_wf s \<Longrightarrow> (\<And>f s. f \<in> set fs \<Longrightarrow> vm_wf s \<Longrightarrow> leaves vm_wf (f s)) \<Longrightarrow>
    leaves vm_wf (init_components fs s)"
  by (induction fs arbitrary: s) (auto intro!: leaves_rbind)

lemma wf_boot:
  assumes "coros s = Map.empty" and "cstates s = Map.empty"
  shows "leaves vm_wf (fluffyvm_new ex desc created tramp modules s)"
proof -
  have empty: "vm_wf s1" if "coros s1 = Map.empty" "cstates s1 = Map.empty" "stk_ok (coroutinesStack s1)"
      "stk_size (coroutinesStack s1) = FLUFFYVM_MAX_COROUTINE_NEST" for s1
    using that by (simp add: vm_wf_def wf_but_def)
  have "leaves vm_wf (init_components (component_inits ex desc created tramp modules) s1)" if "vm_wf s1" for s1
    by (rule wf_components[OF that]) (auto simp: component_inits_def intro: wf_intros)
  then have boot: "leaves vm_wf (rbind (init_components (component_inits ex desc created tramp modules) s1)
      (\<lambda>ok s. if \<not> ok then Ok False s else rbind (lateInit s) (\<lambda>_ s. Ok True s)))" if "vm_wf s1" for s1
    using that by (auto intro!: leaves_rbind wf_intros)
  show ?thesis
    unfolding fluffyvm_new_def
    by (auto simp: stack_new_def gc_alloc_def assms config_defs
        intro!: boot empty stk_okI[of _ "[]"])
qed

subsection \<open>Loading\<close>

text \<open>What a host does with a program: load a message, push a closure of its main prototype.\<close>

definition push_main :: "(vm \<Rightarrow> (bool \<times> addr option, vm) res) \<Rightarrow> addr \<Rightarrow> vm \<Rightarrow> (unit, vm) res" where
  "push_main load L s =
     rbind (load_closure load s) (\<lambda>(_, c) s.
       case c of None \<Rightarrow> Ok () s | Some c \<Rightarrow> push_top L (value_new_closure c) s)"

definition message_loader :: "pb_unpack \<Rightarrow> byte list \<Rightarrow> vm \<Rightarrow> (bool \<times> addr option, vm) res" where
  "message_loader unpack data s = rbind (bytecode_load unpack data s) (\<lambda>r s. Ok (False, r) s)"

lemma keeps_pairs:
  assumes "keeps r s"
  shows "(\<And>x t. keeps r t \<Longrightarrow> leaves (keeps r) (f x t)) \<Longrightarrow>
      leaves (keeps r) (case gc_alloc s of (x, t) \<Rightarrow> f x t)"
    "(\<And>ok t. keeps r t \<Longrightarrow> leaves (keeps r) (g ok t)) \<Longrightarrow>
      leaves (keeps r) (case alloc_or m s of (ok, t) \<Rightarrow> g ok t)"
    "(\<And>v t. keeps r t \<Longrightarrow> leaves (keeps r) (h v t)) \<Longrightarrow>
      leaves (keeps r) (case value_new_string2_constant s bs of (v, t) \<Rightarrow> h v t)"
  by (rule leaves_pair[where Q = "keeps r"], erule keeps_new_string, rule assms, assumption)+

lemma keeps_loadPrototype: "keeps r s \<Longrightarrow> leaves (keeps r) (loadPrototype bc p s)"
proof (induction p arbitrary: s)
  case (Pb_Prototype instructions prototypes lineinfo sourcefile)
  have name: "leaves (keeps r) (source_file_name sourcefile s)" if "keeps r s" for s
    using that unfolding source_file_name_def by (auto intro!: keeps_pairs leaves_rbind keeps_intros)
  have ps: "leaves (keeps r) (loadPrototypes bc ps s)" if "keeps r s" "set ps \<subseteq> set prototypes" for ps s
    using that by (induction ps arbitrary: s) (auto intro!: leaves_rbind Pb_Prototype.IH split: option.split)
  show ?case
    using Pb_Prototype.prems
    by (cases "lineinfo = []")
       (auto intro!: keeps_pairs leaves_rbind name ps split: bool.split option.split)
qed

lemma keeps_load_constants: "keeps r s \<Longrightarrow> load_constants cs s = (vs, t) \<Longrightarrow> keeps r t"
proof (induction cs arbitrary: s vs)
  case (Cons c cs)
  have "keeps r u" if "load_constant c s = (v, u)" for v u
    using that Cons.prems(1)
    by (auto simp: load_constant_def Let_def keeps_simps dest: keeps_new_string(3)
        split: constant_type.splits constant_data.splits prod.splits if_splits)
  then show ?case using Cons.prems(2) Cons.IH by (auto split: prod.splits option.splits)
qed simp

lemma wf_load [wf_intros]:
  assumes "vm_wf s"
  shows "leaves vm_wf (bytecode_load unpack data s)" "leaves vm_wf (push_main (message_loader unpack data) L s)"
proof -
  have c: "leaves (keeps r) (case load_constants cs s of (vs, t) \<Rightarrow> f vs t)"
    if "keeps r s" "\<And>vs t. keeps r t \<Longrightarrow> leaves (keeps r) (f vs t)"
    for r cs s and f :: "value list option \<Rightarrow> vm \<Rightarrow> (addr option, vm) res"
    using that by (auto intro: leaves_pair[where Q = "keeps r"] keeps_load_constants)
  have l: "leaves (keeps r) (bytecode_load unpack data s)" if "keeps r s" for r s
    using that unfolding bytecode_load_def
    by (auto simp: keeps_simps intro!: leaves_rbind keeps_loadPrototype keeps_pairs c
        split: option.split bool.split)
  show w: "leaves vm_wf (bytecode_load unpack data s)" by (rule leaves_data[OF assms l])
  show "leaves vm_wf (push_main (message_loader unpack data) L s)"
    unfolding push_main_def load_closure_def message_loader_def fluffyvm_get_global_def
    by (auto intro!: leaves_rbind w wf_intros split: option.split)
qed

subsection \<open>A machine in use\<close>

text \<open>
  What native code can ask of a machine: the C API on the state \<open>L\<close> it runs in, and the calls that
  hand control over. \<open>Api_call\<close> and \<open>Api_exec\<close> run bytecode; the continuation of a context switch
  and the two parts of a protected call are sequences of calls. \<open>Api_load\<close> loads a message, whatever
  the decoder makes of it.
\<close>

datatype api_call =
    Api_gettop | Api_absindex int | Api_checkstack int | Api_type int
  | Api_pushvalue int | Api_pushnil | Api_pushboolean int | Api_pushinteger "64 word"
  | Api_pushnumber dbl | Api_pushstring "byte list" | Api_pushliteral "byte list"
  | Api_pushlstring "byte list" | Api_pushglobaltable | Api_pushthread | Api_pushlightuserdata nat
  | Api_pushcfunction "nat option"
  | Api_copy int int | Api_pop int | Api_rotate int "32 word" | Api_remove int | Api_replace int
  | Api_tolstring int | Api_topointer int | Api_tonumberx int | Api_tointegerx int
  | Api_touserdata int | Api_tothread int | Api_toboolean int | Api_tocfunction int
  | Api_len int | Api_createtable int int | Api_setglobal "byte list" | Api_setfield int "byte list"
  | Api_register "byte list" "nat option"
  | Api_call int int | Api_exec | Api_error | Api_protected "api_call list" "api_call list"
  | Api_newthread | Api_xmove addr int | Api_start addr int nat
  | Api_resume addr int nat "api_call list" | Api_yield addr "api_call list"
  | Api_disallow_yield | Api_allow_yield | Api_start_thread bool | Api_load "pb_bytecode option"

abbreviation quiet :: "('a, vm) res \<Rightarrow> (unit, vm) res" where
  "quiet m \<equiv> rbind m (\<lambda>_ s. Ok () s)"

fun perform :: "host \<Rightarrow> ext \<Rightarrow> nat \<Rightarrow> nat \<Rightarrow> api_call \<Rightarrow> addr \<Rightarrow> vm \<Rightarrow> (unit, vm) res"
and performs :: "host \<Rightarrow> ext \<Rightarrow> nat \<Rightarrow> nat \<Rightarrow> api_call list \<Rightarrow> addr \<Rightarrow> vm \<Rightarrow> (unit, vm) res" where
  "perform host ex tramp n Api_gettop L s = quiet (lua_gettop L s)"
| "perform host ex tramp n (Api_absindex i) L s = quiet (lua_absindex L i s)"
| "perform host ex tramp n (Api_checkstack k) L s = quiet (lua_checkstack L k s)"
| "perform host ex tramp n (Api_type i) L s = quiet (lua_type L i s)"
| "perform host ex tramp n (Api_pushvalue i) L s = lua_pushvalue L i s"
| "perform host ex tramp n Api_pushnil L s = lua_pushnil L s"
| "perform host ex tramp n (Api_pushboolean b) L s = lua_pushboolean L b s"
| "perform host ex tramp n (Api_pushinteger k) L s = lua_pushinteger L k s"
| "perform host ex tramp n (Api_pushnumber d) L s = lua_pushnumber L d s"
| "perform host ex tramp n (Api_pushstring str) L s = quiet (lua_pushstring L str s)"
| "perform host ex tramp n (Api_pushliteral str) L s = quiet (lua_pushliteral L str s)"
| "perform host ex tramp n (Api_pushlstring str) L s = quiet (lua_pushlstring L str s)"
| "perform host ex tramp n Api_pushglobaltable L s = lua_pushglobaltable L s"
| "perform host ex tramp n Api_pushthread L s = quiet (lua_pushthread L s)"
| "perform host ex tramp n (Api_pushlightuserdata p) L s = lua_pushlightuserdata L p s"
| "perform host ex tramp n (Api_pushcfunction f) L s = lua_pushcfunction tramp L f s"
| "perform host ex tramp n (Api_copy i j) L s = lua_copy L i j s"
| "perform host ex tramp n (Api_pop k) L s = lua_pop L k s"
| "perform host ex tramp n (Api_rotate i k) L s = lua_rotate L i (sint k) s"
| "perform host ex tramp n (Api_remove i) L s = lua_remove L i s"
| "perform host ex tramp n (Api_replace i) L s = lua_replace L i s"
| "perform host ex tramp n (Api_tolstring i) L s = quiet (lua_tolstring ex L i s)"
| "perform host ex tramp n (Api_topointer i) L s = quiet (lua_topointer L i s)"
| "perform host ex tramp n (Api_tonumberx i) L s = quiet (lua_tonumberx ex L i s)"
| "perform host ex tramp n (Api_tointegerx i) L s = quiet (lua_tointegerx ex L i s)"
| "perform host ex tramp n (Api_touserdata i) L s = quiet (lua_touserdata L i s)"
| "perform host ex tramp n (Api_tothread i) L s = quiet (lua_tothread L i s)"
| "perform host ex tramp n (Api_toboolean i) L s = quiet (lua_toboolean L i s)"
| "perform host ex tramp n (Api_tocfunction i) L s = quiet (lua_tocfunction L i s)"
| "perform host ex tramp n (Api_len i) L s = lua_len L i s"
| "perform host ex tramp n (Api_createtable a b) L s = lua_createtable ex L a b s"
| "perform host ex tramp n (Api_setglobal name) L s = lua_setglobal ex L name s"
| "perform host ex tramp n (Api_setfield i name) L s = lua_setfield ex L i name s"
| "perform host ex tramp n (Api_register name f) L s = lua_register ex tramp L name f s"
| "perform host ex tramp n (Api_call a r) L s = lua_call (interpreter_exec host ex n) L a r s"
| "perform host ex tramp n Api_exec L s = quiet (interpreter_exec host ex n L s)"
| "perform host ex tramp n Api_error L s = lua_error L s"
| "perform host ex tramp n (Api_protected body handler) L s =
     quiet (interpreter_xpcall n (performs host ex tramp n body L)
       (Some (performs host ex tramp n handler L)) s)"
| "perform host ex tramp n Api_newthread L s = quiet (lua_newthread L s)"
| "perform host ex tramp n (Api_xmove M k) L s = lua_xmove L M k s"
| "perform host ex tramp n (Api_start M k p) L s =
     quiet (lua_resume (entryPoint (interpreter_exec host ex n)) L M k p s)"
| "perform host ex tramp n (Api_resume M k p body) L s =
     quiet (lua_resume (performs host ex tramp n body) L M k p s)"
| "perform host ex tramp n (Api_yield M rest) L s =
     quiet (coroutine_yield (performs host ex tramp n rest M) s)"
| "perform host ex tramp n Api_disallow_yield L s = coroutine_disallow_yield s"
| "perform host ex tramp n Api_allow_yield L s = coroutine_allow_yield s"
| "perform host ex tramp n (Api_start_thread created) L s = quiet (fluffyvm_start_thread created s)"
| "perform host ex tramp n (Api_load msg) L s = push_main (message_loader (\<lambda>_. msg) []) L s"
| "performs host ex tramp n [] L s = Ok () s"
| "performs host ex tramp n (c # cs) L s =
     rbind (perform host ex tramp n c L s) (\<lambda>_ s. performs host ex tramp n cs L s)"

lemma sint_int_ok: "int_ok (sint (k :: 32 word))"
  using sint_greater_eq[of k] sint_less[of k] by (simp add: int_ok_def INT_MIN_def INT_MAX_def)

lemma wf_perform:
  shows "\<forall>f cs u s. vm_wf s \<longrightarrow> leaves vm_wf (host f cs u s) \<Longrightarrow> vm_wf s \<Longrightarrow>
      leaves vm_wf (perform host ex tramp n c L s)"
    and "\<forall>f cs u s. vm_wf s \<longrightarrow> leaves vm_wf (host f cs u s) \<Longrightarrow> vm_wf s' \<Longrightarrow>
      leaves vm_wf (performs host ex tramp n cs L' s')"
proof (induction host ex tramp n c L s and host ex tramp n cs L' s' rule: perform_performs.induct)
qed (auto intro!: leaves_rbind wf_intros wf_exec(1) sint_int_ok)

text \<open>
  The states a machine can get into: it is booted in a process that has no machine yet, then native
  code makes calls in any state, each of which returns or throws.
\<close>

inductive machine_reaches :: "host \<Rightarrow> ext \<Rightarrow> nat \<Rightarrow> vm \<Rightarrow> bool" for host ex tramp where
  booting: "coros s = Map.empty \<Longrightarrow> cstates s = Map.empty \<Longrightarrow> strs s = Map.empty \<Longrightarrow>
     fluffyvm_new ex desc created tramp modules s = Ok True t \<Longrightarrow> machine_reaches host ex tramp t"
| returned: "machine_reaches host ex tramp s \<Longrightarrow> perform host ex tramp n c L s = Ok () t \<Longrightarrow>
     machine_reaches host ex tramp t"
| thrown: "machine_reaches host ex tramp s \<Longrightarrow> perform host ex tramp n c L s = Throw t \<Longrightarrow>
     machine_reaches host ex tramp t"

text \<open>
  C12. In every state a machine gets into, provided that native functions preserve the same, the
  control state is well formed: every frame has 256 stack cells, cleared above a stack pointer
  within them, and 256 registers or, for a native function, none; the frames on the call stack of
  every coroutine exist, at most 512 of them, and the top one is the coroutine's current frame; at
  most 64 coroutines are nested. This holds after calls that return and after errors that are
  thrown, whatever memory is refused.
\<close>

theorem control_state_well_formed:
  assumes "\<And>f cs u s. vm_wf s \<Longrightarrow> leaves vm_wf (host f cs u s)" and "machine_reaches host ex tramp s"
  shows "vm_wf s"
  using assms(2)
proof induction
  case (booting s desc created modules t)
  then show ?case using wf_boot[OF booting(1,2), of ex desc created tramp modules] by simp
next
  case (returned s n c L t)
  then show ?case using wf_perform(1)[of host s ex tramp n c L] assms(1) by simp
next
  case (thrown s n c L t)
  then show ?case using wf_perform(1)[of host s ex tramp n c L] assms(1) by simp
qed

theorem control_state_well_formed_witness:
  "\<exists>t u main. fluffyvm_new sample_ext (\<lambda>_. True) True 7 0 blank_vm = Ok True t \<and>
     perform (\<lambda>_ _ _ s. Ok 0 s) sample_ext 7 1 Api_disallow_yield main t = Ok () u \<and> vm_wf u"
proof -
  let ?host = "\<lambda>_ _ _ s. Ok 0 s"
  obtain t main c cs g where t: "fluffyvm_new sample_ext (\<lambda>_. True) True 7 0 blank_vm = Ok True t"
      "booted t main c cs g"
    by (rule new_machine[of blank_vm "\<lambda>_. True" sample_ext 7 0]) (simp_all add: always_mem_def blank_vm_def)
  have b: "machine_reaches ?host sample_ext 7 t"
    by (rule machine_reaches.booting[OF _ _ _ t(1)]) (simp_all add: blank_vm_def)
  have r: "running t main c" using t(2) by (simp add: booted_def)
  define u where "u = t\<lparr>coros := (coros t)(main \<mapsto> c\<lparr>co_isYieldable := False\<rparr>)\<rparr>"
  have u: "perform ?host sample_ext 7 1 Api_disallow_yield main t = Ok () u"
    using running_executing(1)[OF r] r
    by (simp add: coroutine_disallow_yield_def set_yieldable_def modify_coro_Some u_def running_def)
  have "machine_reaches ?host sample_ext 7 u" by (rule machine_reaches.returned[OF b u])
  then have "vm_wf u" by (rule control_state_well_formed[rotated]) simp
  then show ?thesis using t(1) u by (intro exI[of _ t] exI[of _ u] exI[of _ main]) simp
qed

end
