(* ===== verification/HeapProperty.thy ===== *)
theory HeapProperty
  imports ControlInvariant
begin

text \<open>
  Properties of the heap that hold whatever is stored where: the interface \<open>heap_property\<close> asks of a
  property that it survives new objects and changed ones, a new string, and the hash code a string
  caches. Every operation of the machine then preserves it, on return and on a throw.
\<close>

text \<open>Addresses are given out upwards, and no object goes away; strings are left out.\<close>

definition heap_grows :: "vm \<Rightarrow> vm \<Rightarrow> bool" where
  "heap_grows s t \<longleftrightarrow> brk s \<le> brk t \<and> dom (udatas s) \<subseteq> dom (udatas t) \<and> dom (tabs s) \<subseteq> dom (tabs t) \<and>
     dom (bcs s) \<subseteq> dom (bcs t) \<and> dom (closures s) \<subseteq> dom (closures t) \<and>
     dom (cstates s) \<subseteq> dom (cstates t) \<and> dom (coros s) \<subseteq> dom (coros t)"

text \<open>The hash code of the first bytes of a string, as many as its length in a \<open>size_t\<close> says.\<close>

definition string_hash :: "ext \<Rightarrow> byte list \<Rightarrow> u64" where
  "string_hash ex bs = hashing_hash_xxhash ex (take (unat (word_of_nat (length bs) :: u64)) bs)"

named_theorems heap_intros \<open>operations that preserve a property of the heap\<close>

locale heap_property =
  fixes ex :: ext and P :: "vm \<Rightarrow> bool"
  assumes grow: "P s \<Longrightarrow> heap_grows s t \<Longrightarrow> strs t = strs s \<Longrightarrow> P t"
    and new_string: "P s \<Longrightarrow>
      P (s\<lparr>brk := Suc (brk s), strs := (strs s)(brk s \<mapsto> \<lparr>vs_hashCode = 0, vs_bytes = bs\<rparr>)\<rparr>)"
    and cache: "P s \<Longrightarrow> strs s a = Some vs \<Longrightarrow>
      P (s\<lparr>strs := (strs s)(a \<mapsto> vs\<lparr>vs_hashCode := string_hash ex (vs_bytes vs)\<rparr>)\<rparr>)"
begin

subsection \<open>Updates\<close>

lemma fields [simp]:
  "P (s\<lparr>errMsg := e\<rparr>) = P s" "P (s\<lparr>coroutinesStack := st\<rparr>) = P s" "P (s\<lparr>globalTable := v\<rparr>) = P s"
  "P (s\<lparr>mainThread := m\<rparr>) = P s" "P (s\<lparr>staticStrings := ss\<rparr>) = P s" "P (s\<lparr>stringCache := b\<rparr>) = P s"
  "P (s\<lparr>coroutineTrampoline := t\<rparr>) = P s" "P (s\<lparr>luaModuleID := i\<rparr>) = P s" "P (s\<lparr>luaUserdataType := j\<rparr>) = P s"
  by (rule iffI; erule grow; simp add: heap_grows_def)+

lemma errmsgs [simp]:
  "P (fluffyvm_set_errmsg s v) = P s" "P (set_static_errmsg s m) = P s" "P (fluffyvm_clear_errmsg s) = P s"
  "P (outOfMemory_errmsg s) = P s"
  by (simp_all add: fluffyvm_set_errmsg_def set_static_errmsg_def fluffyvm_clear_errmsg_def outOfMemory_errmsg_def)

lemma stores [heap_intros]:
  assumes "P s"
  shows "brk s \<le> n \<Longrightarrow> P (s\<lparr>brk := n\<rparr>)" "dom (udatas s) \<subseteq> dom m1 \<Longrightarrow> P (s\<lparr>udatas := m1\<rparr>)"
    "dom (tabs s) \<subseteq> dom m2 \<Longrightarrow> P (s\<lparr>tabs := m2\<rparr>)" "dom (bcs s) \<subseteq> dom m3 \<Longrightarrow> P (s\<lparr>bcs := m3\<rparr>)"
    "dom (closures s) \<subseteq> dom m4 \<Longrightarrow> P (s\<lparr>closures := m4\<rparr>)" "dom (cstates s) \<subseteq> dom m5 \<Longrightarrow> P (s\<lparr>cstates := m5\<rparr>)"
    "dom (coros s) \<subseteq> dom m6 \<Longrightarrow> P (s\<lparr>coros := m6\<rparr>)"
  by (rule grow[OF assms]; simp add: heap_grows_def)+

lemma allocator: "value_string_allocator s b = (v, t) \<Longrightarrow> P s \<Longrightarrow> P t"
  using new_string[of s b] stores(1)[of s "Suc (brk s)"]
  by (auto simp: value_string_allocator_def gc_alloc_def split: if_splits)

lemma new_stringD: "value_new_string s b = (v, t) \<Longrightarrow> P s \<Longrightarrow> P t"
  unfolding value_new_string_def value_new_string2_def by (rule allocator)

text \<open>What gives a value and a state, and what follows it.\<close>

lemma pairs [heap_intros]:
  assumes "P s"
  shows "(\<And>x t. P t \<Longrightarrow> leaves P (f1 x t)) \<Longrightarrow> leaves P (case gc_alloc s of (x, t) \<Rightarrow> f1 x t)"
    "(\<And>x t. P t \<Longrightarrow> leaves P (f2 x t)) \<Longrightarrow> leaves P (case alloc_or m s of (x, t) \<Rightarrow> f2 x t)"
    "(\<And>x t. P t \<Longrightarrow> leaves P (f3 x t)) \<Longrightarrow> leaves P (case value_string_allocator s bs of (x, t) \<Rightarrow> f3 x t)"
    "(\<And>x t. P t \<Longrightarrow> leaves P (f4 x t)) \<Longrightarrow> leaves P (case value_new_string s bs of (x, t) \<Rightarrow> f4 x t)"
    "(\<And>x t. P t \<Longrightarrow> leaves P (f5 x t)) \<Longrightarrow> leaves P (case value_new_string2 s bs of (x, t) \<Rightarrow> f5 x t)"
    "(\<And>x t. P t \<Longrightarrow> leaves P (f6 x t)) \<Longrightarrow> leaves P (case value_new_string2_constant s bs of (x, t) \<Rightarrow> f6 x t)"
    "(\<And>x t. P t \<Longrightarrow> leaves P (f7 x t)) \<Longrightarrow> leaves P (case stack_new n s of (x, t) \<Rightarrow> f7 x t)"
proof -
  have b: "P (s\<lparr>brk := Suc (brk s)\<rparr>)" if "P s" for s using that by (rule stores) simp
  have g: "gc_alloc s = (x, t) \<Longrightarrow> P t" for x t using b[OF assms] by (auto simp: gc_alloc_def split: if_splits)
  have a: "alloc_or m s = (x, t) \<Longrightarrow> P t" for x t
    using b[OF assms] by (auto simp: alloc_or_def gc_alloc_def split: if_splits)
  have st: "stack_new n s = (x, t) \<Longrightarrow> P t" for x :: "'x fluffyvm_stack option" and t
    using b[OF assms] b[OF b[OF assms]] by (auto simp: stack_new_def gc_alloc_def split: if_splits)
  have s: "value_string_allocator s bs = (x, t) \<Longrightarrow> P t" for bs x t by (rule allocator[OF _ assms])
  show "(\<And>x t. P t \<Longrightarrow> leaves P (f1 x t)) \<Longrightarrow> leaves P (case gc_alloc s of (x, t) \<Rightarrow> f1 x t)"
    by (rule leaves_pair[where Q = P, OF g])
  show "(\<And>x t. P t \<Longrightarrow> leaves P (f2 x t)) \<Longrightarrow> leaves P (case alloc_or m s of (x, t) \<Rightarrow> f2 x t)"
    by (rule leaves_pair[where Q = P, OF a])
  show "(\<And>x t. P t \<Longrightarrow> leaves P (f7 x t)) \<Longrightarrow> leaves P (case stack_new n s of (x, t) \<Rightarrow> f7 x t)"
    by (rule leaves_pair[where Q = P, OF st])
  show "(\<And>x t. P t \<Longrightarrow> leaves P (f3 x t)) \<Longrightarrow> leaves P (case value_string_allocator s bs of (x, t) \<Rightarrow> f3 x t)"
    "(\<And>x t. P t \<Longrightarrow> leaves P (f4 x t)) \<Longrightarrow> leaves P (case value_new_string s bs of (x, t) \<Rightarrow> f4 x t)"
    "(\<And>x t. P t \<Longrightarrow> leaves P (f5 x t)) \<Longrightarrow> leaves P (case value_new_string2 s bs of (x, t) \<Rightarrow> f5 x t)"
    "(\<And>x t. P t \<Longrightarrow> leaves P (f6 x t)) \<Longrightarrow> leaves P (case value_new_string2_constant s bs of (x, t) \<Rightarrow> f6 x t)"
    unfolding value_new_string_def value_new_string2_def value_new_string2_constant_def
      string_cache_create_string_def if_cancel
    by (rule leaves_pair[where Q = P, OF s], assumption+)+
qed

lemma errmsg_printf [simp]: "P s \<Longrightarrow> P (fluffyvm_set_errmsg_printf s msg)"
proof -
  assume "P s"
  then have "P t" if "value_new_string s msg = (v, t)" for v t
    using that allocator by (simp add: value_new_string_def value_new_string2_def)
  then show ?thesis by (cases "value_new_string s msg") (simp add: fluffyvm_set_errmsg_printf_def)
qed

subsection \<open>Values and tables\<close>

lemma data_values [heap_intros]:
  assumes "P s"
  shows "leaves P (checkPresent v s)" "leaves P (value_get_string v s)"
    "leaves P (value_get_len v s)" "leaves P (value_typename v s)"
    "leaves P (value_is_numeric v s)" "leaves P (value_table_is_indexable v s)"
    "leaves P (value_is_callable v s)" "leaves P (value_get_object_ptr v s)"
    "leaves P (hash_bytes ex bs s)" "leaves P (userdata_hash ex a s)"
    "leaves P (userdata_data_eq a b s)" "leaves P (long_result n s)"
    "leaves P (long_div m n s)" "leaves P (long_mod m n s)"
proof -
  show "leaves P (checkPresent v s)" using assms by (simp add: checkPresent_def)
  show "leaves P (value_get_string v s)"
    using assms by (auto simp: value_get_string_def checkPresent_def intro!: leaves_rbind split: option.split "value.split" prod.split if_split list.split)
  show "leaves P (value_get_len v s)"
    using assms by (auto simp: value_get_len_def checkPresent_def intro!: leaves_rbind split: option.split "value.split" prod.split if_split list.split)
  show "leaves P (value_typename v s)" using assms by (simp add: value_typename_def split: option.split)
  show "leaves P (value_is_numeric v s)" "leaves P (value_table_is_indexable v s)"
    "leaves P (value_is_callable v s)" "leaves P (value_get_object_ptr v s)"
    using assms by (cases v; simp)+
  have h: "leaves P (hash_bytes ex bs s)" for bs
    using assms by (simp add: hash_bytes_def split: option.split)
  show "leaves P (hash_bytes ex bs s)" by (rule h)
  show "leaves P (userdata_hash ex a s)"
    using assms h by (auto simp: userdata_hash_def deref_def split: option.split)
  show "leaves P (userdata_data_eq a b s)"
    using assms by (auto simp: userdata_data_eq_def intro!: leaves_rbind split: option.split "value.split" prod.split if_split list.split)
  show "leaves P (long_result n s)" "leaves P (long_div m n s)"
    "leaves P (long_mod m n s)"
    using assms by (simp_all add: long_result_def long_div_def long_mod_def)
qed

lemma data_names [heap_intros]:
  assumes "P s"
  shows "leaves P (string_arg v s)" "leaves P (typename_arg v s)"
proof -
  have string_arg: "leaves P (string_arg v s)" if "P s" for v s
    unfolding string_arg_def
    by (rule leaves_rbind[OF data_values(2)[OF that]]) (simp split: option.split)
  then show "leaves P (string_arg v s)" using assms .
  show "leaves P (typename_arg v s)"
    unfolding typename_arg_def by (rule leaves_rbind[OF data_values(4)[OF assms] string_arg])
qed

lemma data_hash [heap_intros]:
  assumes "P s"
  shows "leaves P (value_hash_code ex v s)"
proof (cases v)
  case (VString a)
  have "P (s\<lparr>strs := (strs s)(a \<mapsto> vs\<lparr>vs_hashCode :=
      hashing_hash_xxhash ex (take (unat (word_of_nat (length (vs_bytes vs)) :: u64)) (vs_bytes vs))\<rparr>)\<rparr>)"
    if "strs s a = Some vs" for vs
    using cache[OF assms that] by (simp add: string_hash_def)
  then show ?thesis
    using VString assms by (auto simp: value_get_len_def deref_def split: option.split)
qed (use assms in \<open>auto intro!: heap_intros\<close>)

lemma data_string_equals: "P s \<Longrightarrow> leaves P (string_equals ex a b s)"
  unfolding string_equals_def
  by (auto simp del: value_hash_code.simps intro!: leaves_rbind heap_intros)

lemma data_equals [heap_intros]: "P s \<Longrightarrow> leaves P (value_equals ex v w s)"
  unfolding value_equals_def
  by (cases v; cases w) (auto intro!: leaves_rbind heap_intros data_string_equals)

lemma data_todouble [heap_intros]: "P s \<Longrightarrow> leaves P (value_todouble ex v s)"
  unfolding value_todouble_def
  by (cases v) (auto intro!: leaves_rbind heap_intros dest: new_stringD split: prod.split)

lemma data_tostring [heap_intros]: "P s \<Longrightarrow> leaves P (value_tostring ex v s)"
  unfolding value_tostring_def
  by (cases v) (auto simp: tostring_text_def intro!: leaves_rbind heap_intros split: option.split)

lemma data_mathCommon: "P s \<Longrightarrow> leaves P (mathCommon ex op v w s)"
  unfolding mathCommon_def by (auto intro!: leaves_rbind heap_intros)

lemma data_value_math:
  assumes "P s" and "\<And>m n s. P s \<Longrightarrow> leaves P (f m n s)"
  shows "leaves P (value_math ex op f g v w s)"
  unfolding value_math_def
  by (rule leaves_rbind[OF data_mathCommon[OF assms(1)]])
     (auto simp: assms(2) split: option.split "value.split" prod.split)

lemma data_math [heap_intros]:
  assumes "P s"
  shows "leaves P (value_math_add ex v w s)" "leaves P (value_math_sub ex v w s)"
    "leaves P (value_math_mul ex v w s)" "leaves P (value_math_div ex v w s)"
    "leaves P (value_math_mod ex v w s)" "leaves P (value_math_pow ex v w s)"
proof -
  show "leaves P (value_math_add ex v w s)" "leaves P (value_math_sub ex v w s)"
    "leaves P (value_math_mul ex v w s)" "leaves P (value_math_div ex v w s)"
    unfolding value_math_add_def value_math_sub_def value_math_mul_def value_math_div_def
    by (intro data_value_math[OF assms] heap_intros; assumption)+
  show "leaves P (value_math_mod ex v w s)" "leaves P (value_math_pow ex v w s)"
    unfolding value_math_mod_def value_math_pow_def
    by (auto intro!: leaves_rbind data_mathCommon heap_intros data_value_math assms
        split: option.split "value.split" prod.split)
qed

lemma data_compare [heap_intros]:
  assumes "P s"
  shows "leaves P (value_is_equal ex v w s)" "leaves P (value_is_less ex v w s)"
  using assms
  by (auto simp: value_is_equal_def value_is_less_def intro!: leaves_rbind data_mathCommon heap_intros
      split: option.split "value.split" prod.split)

lemma data_chains [heap_intros]:
  assumes "P s"
  shows "leaves P (chain_overwrite ex h k v ps s)" "leaves P (chain_remove ex h k pre ps s)"
    "leaves P (chain_skip ex k found ps s)"
proof -
  show "leaves P (chain_overwrite ex h k v ps s)"
    using assms by (induction ps arbitrary: s) (auto intro!: leaves_rbind heap_intros)
  show "leaves P (chain_remove ex h k pre ps s)"
    using assms
    by (induction ps arbitrary: s pre) (auto simp: pair_write_next_def intro!: leaves_rbind heap_intros)
  show "leaves P (chain_skip ex k found ps s)"
    using assms by (induction ps arbitrary: s found) (auto intro!: leaves_rbind heap_intros)
qed

lemma data_chain_find:
  assumes "P s" and "\<And>v s. P s \<Longrightarrow> leaves P (eq v s)"
  shows "leaves P (chain_find ex h eq ps s)"
  using assms(1) by (induction ps arbitrary: s) (auto intro!: leaves_rbind heap_intros assms(2))

lemma data_set_entry [heap_intros]: "P s \<Longrightarrow> leaves P (set_entry ex T c k v s)"
  unfolding set_entry_def
  by (auto simp: Let_def new_pair_def gc_alloc_def pair_write_next_def 
      intro!: leaves_rbind heap_intros split: option.split prod.split)

lemma data_rehash [heap_intros]: "P s \<Longrightarrow> leaves P (rehash ex T c ps s)"
  by (induction ps arbitrary: s T) (auto intro!: leaves_rbind heap_intros)

lemma data_resize [heap_intros]: "P s \<Longrightarrow> leaves P (resize ex ht c d s)"
  unfolding resize_def
  by (auto simp: gc_alloc_def intro!: leaves_rbind heap_intros)

lemma data_tables [heap_intros]:
  assumes "P s"
  shows "leaves P (hashtable_new ex lf c s)" "leaves P (hashtable_set ex a k v s)"
    "leaves P (hashtable_get ex a k s)" "leaves P (hashtable_remove ex a k s)"
proof -
  show "leaves P (hashtable_new ex lf c s)"
    using assms by (auto simp: hashtable_new_def gc_alloc_def intro!: leaves_rbind heap_intros)
  show "leaves P (hashtable_set ex a k v s)"
    using assms by (auto simp: hashtable_set_def intro!: leaves_rbind heap_intros)
  show "leaves P (hashtable_get ex a k s)"
    using assms by (auto simp: hashtable_get_def internal_get_def Let_def intro!: leaves_rbind heap_intros data_chain_find)
  show "leaves P (hashtable_remove ex a k s)"
    using assms by (auto simp: hashtable_remove_def Let_def intro!: leaves_rbind heap_intros split: option.split)
qed

lemma data_value_tables [heap_intros]:
  assumes "P s"
  shows "leaves P (value_new_table ex lf c s)" "leaves P (value_table_set ex tb k v s)"
    "leaves P (value_table_get ex tb k s)"
proof -
  have i: "leaves P (attempt_to_index v s)" if "P s" for v s
    using that by (auto simp: attempt_to_index_def intro!: leaves_rbind heap_intros)
  show "leaves P (value_new_table ex lf c s)"
    using assms by (auto simp: value_new_table_def intro!: leaves_rbind heap_intros split: option.split)
  show "leaves P (value_table_set ex tb k v s)"
    using assms by (cases tb) (auto simp: value_table_set_def intro!: leaves_rbind heap_intros i)
  show "leaves P (value_table_get ex tb k s)"
    using assms by (cases tb) (auto simp: value_table_get_def intro!: leaves_rbind heap_intros i)
qed

lemma data_closures [heap_intros]:
  assumes "P s"
  shows "leaves P (closure_new p env s)" "leaves P (closure_from_cfunction fn u env s)"
proof -
  have c: "leaves P (closure_new_common env s)" if "P s" for s
    using that by (auto simp: closure_new_common_def gc_alloc_def intro!: leaves_rbind heap_intros)
  show "leaves P (closure_new p env s)" "leaves P (closure_from_cfunction fn u env s)"
    unfolding closure_new_def closure_from_cfunction_def
    by (auto intro!: leaves_rbind heap_intros c assms split: option.split)
qed

end

end
