(* ===== verification/HeapInvariant.thy ===== *)
theory HeapInvariant
  imports HeapProperty
begin

text \<open>
  Every operation of the machine preserves a property of the heap, for the interpreter, coroutines,
  the C API and the boot; and the properties this gives: objects stay, the bytes of a string never
  change, and cached hash codes are right in every state a machine can reach.
\<close>

context heap_property
begin

subsection \<open>Frames and registers\<close>

lemma modify [heap_intros]:
  assumes "P s"
  shows "leaves P (modify_coro co f s)" "leaves P (modify_cstate cs g s)" "leaves P (deref m a s)"
    "leaves P (assert_that b s)"
  using assms unfolding modify_coro_def modify_cstate_def by (auto intro!: leaves_rbind heap_intros)

lemma stacks [heap_intros]:
  assumes "P s"
  shows "leaves P (stack_push d st s)" "leaves P (stack_pop b st s)" "leaves P (stack_peek st s)"
  using assms by (auto simp: stack_push_def stack_pop_def stack_peek_def Let_def split: option.split)

lemma nesting [heap_intros]:
  assumes "P s"
  shows "leaves P (fluffyvm_get_executing_coroutine s)" "leaves P (executing_coroutine s)"
    "leaves P (fluffyvm_pop_current_coroutine s)" "leaves P (fluffyvm_push_current_coroutine co s)"
  using assms
  unfolding fluffyvm_get_executing_coroutine_def executing_coroutine_def fluffyvm_pop_current_coroutine_def
    fluffyvm_push_current_coroutine_def
  by (auto intro!: leaves_rbind heap_intros split: option.split)

lemma locks [heap_intros]:
  assumes "P s"
  shows "leaves P (lock_callStack co s)" "leaves P (unlock_callStack co s)" "leaves P (internal_function_epilog co s)"
    "leaves P (coroutine_function_epilog s)" "leaves P (coroutine_function_epilog_no_lock s)"
proof -
  have l: "leaves P (lock_callStack co s)" "leaves P (unlock_callStack co s)"
    "leaves P (internal_function_epilog co s)" if "P s" for co s
    using that unfolding lock_callStack_def unlock_callStack_def internal_function_epilog_def
    by (auto intro!: leaves_rbind heap_intros)
  show "leaves P (lock_callStack co s)" "leaves P (unlock_callStack co s)" "leaves P (internal_function_epilog co s)"
    using l assms by blast+
  show "leaves P (coroutine_function_epilog s)" "leaves P (coroutine_function_epilog_no_lock s)"
    using assms unfolding coroutine_function_epilog_def coroutine_function_epilog_no_lock_def
    by (auto intro!: leaves_rbind heap_intros l)
qed

lemma prolog [heap_intros]: "P s \<Longrightarrow> leaves P (coroutine_function_prolog func s)"
  unfolding coroutine_function_prolog_def
  by (auto simp: Let_def intro!: leaves_rbind heap_intros split: option.split bool.split)

lemma errors [heap_intros]:
  assumes "P s"
  shows "leaves P (errorCommon v s)" "leaves P (interpreter_error v s)" "leaves P (interpreter_error_printf msg s)"
proof -
  have e: "leaves P (errorCommon v s)" if "P s" for v s
    using that unfolding errorCommon_def by (auto simp: Let_def intro!: leaves_rbind heap_intros)
  show "leaves P (errorCommon v s)" using e assms .
  show "leaves P (interpreter_error v s)" "leaves P (interpreter_error_printf msg s)"
    using assms unfolding interpreter_error_def interpreter_error_printf_def
    by (auto intro!: leaves_rbind heap_intros e)
qed

lemma registers [heap_intros]:
  assumes "P s"
  shows "leaves P (setRegister cs r v s)" "leaves P (getRegister cs r s)" "leaves P (stack_cell cs i s)"
    "leaves P (interpreter_pop cs s)" "leaves P (interpreter_push cs v s)" "leaves P (interpreter_peek cs i s)"
    "leaves P (current_frame co s)" "leaves P (set_pc cs pc s)" "leaves P (set_flag cs flag b s)"
proof -
  have c: "leaves P (stack_cell cs i s)" if "P s" for cs i s
    using that unfolding stack_cell_def by (auto intro!: leaves_rbind heap_intros)
  show "leaves P (setRegister cs r v s)" "leaves P (getRegister cs r s)" "leaves P (stack_cell cs i s)"
    "leaves P (interpreter_pop cs s)" "leaves P (interpreter_push cs v s)" "leaves P (interpreter_peek cs i s)"
    "leaves P (current_frame co s)" "leaves P (set_pc cs pc s)" "leaves P (set_flag cs flag b s)"
    using assms
    unfolding setRegister_def getRegister_def interpreter_pop_def interpreter_push_def interpreter_peek_def
      current_frame_def set_pc_def set_flag_def
    by (auto simp: Let_def intro!: leaves_rbind heap_intros c split: option.split)
qed

lemma gotos [heap_intros]:
  assumes "P s"
  shows "leaves P (goto_error cs pc s)" "leaves P (goto_illegal cs pc w ins s)" "leaves P (interpreter_pop2 cs d s)"
  using assms unfolding goto_error_def goto_illegal_def interpreter_pop2_def
  by (auto intro!: leaves_rbind heap_intros split: option.split)

lemma copies [heap_intros]:
  assumes "P s"
  shows "leaves P (copy_args dest src is s)" "leaves P (pop_args cs n s)" "leaves P (copy_returns co dest sp is s)"
    "leaves P (push_registers cs is s)" "leaves P (return_values co dest va m k s)"
proof -
  show "leaves P (copy_args dest src is s)"
    using assms by (induction "is" arbitrary: s) (auto intro!: leaves_rbind heap_intros)
  show "leaves P (pop_args cs n s)"
    using assms by (induction n arbitrary: s) (auto intro!: leaves_rbind heap_intros)
  have r: "leaves P (copy_returns co dest sp is s)" if "P s" for sp "is" s
    using that by (induction "is" arbitrary: s) (auto intro!: leaves_rbind heap_intros)
  show "leaves P (copy_returns co dest sp is s)" using r assms .
  show "leaves P (push_registers cs is s)"
    using assms by (induction "is" arbitrary: s) (auto intro!: leaves_rbind heap_intros)
  show "leaves P (return_values co dest va m k s)"
    using assms unfolding return_values_def by (auto simp: Let_def intro!: leaves_rbind heap_intros r)
qed

subsection \<open>Instructions\<close>

lemma plain_ops [heap_intros]:
  assumes "P s"
  shows "leaves P (op_jmp_forward cs n pc ins s)" "leaves P (op_jmp_backward cs pc ins s)"
    "leaves P (op_cmp ex cs pc ins s)" "leaves P (op_load_prototype cs pc ins s)"
    "leaves P (op_get_constant cs pc w ins s)" "leaves P (op_stack_gettop cs pc ins s)"
    "leaves P (op_stack_pop cs pc ins s)" "leaves P (op_stack_push cs pc ins s)"
    "leaves P (op_table_get ex cs pc ins s)" "leaves P (op_table_set ex cs pc ins s)"
    "leaves P (op_return cs ins s)" "leaves P (op_mov cs pc ins s)"
  using assms
  unfolding op_jmp_forward_def op_jmp_backward_def op_cmp_def op_load_prototype_def op_get_constant_def
    op_stack_gettop_def op_stack_pop_def op_stack_push_def op_table_get_def op_table_set_def op_return_def
    op_mov_def
  by (auto intro!: leaves_rbind heap_intros split: option.split)

lemma arith:
  assumes "P s" and "\<And>v w s. P s \<Longrightarrow> leaves P (f v w s)"
  shows "leaves P (op_arith f cs pc ins s)"
  unfolding op_arith_def by (auto intro!: leaves_rbind heap_intros assms)

lemma call [heap_intros]:
  assumes "P s" and "\<And>s. P s \<Longrightarrow> leaves P (exec s)"
  shows "leaves P (run_callee exec co cs pc func args va n s)" "leaves P (op_call exec co cs pc ins s)"
proof -
  have c: "leaves P (run_callee exec co cs pc func args va n s)" if "P s" for func args va n s
    using that unfolding run_callee_def
    by (auto simp: Let_def intro!: leaves_rbind heap_intros assms(2) split: option.split)
  show "leaves P (run_callee exec co cs pc func args va n s)" by (rule c[OF assms(1)])
  show "leaves P (op_call exec co cs pc ins s)"
    using assms(1) unfolding op_call_def
    by (auto simp: Let_def intro!: leaves_rbind heap_intros c split: "value.split")
qed

lemma instruction:
  assumes "P s" and "\<And>s. P s \<Longrightarrow> leaves P (exec s)"
  shows "leaves P (exec_instruction ex exec co cs is pc s)"
proof -
  have d: "leaves P (dispatch ex exec co cs is pc ins s)" if "P s" for pc ins s
    using that unfolding dispatch_def
    by (cases "opcode_of (ins_opcode ins)") (auto intro!: heap_intros arith assms(2))
  show ?thesis
    using assms(1) unfolding exec_instruction_def
    by (auto simp: Let_def intro!: leaves_rbind heap_intros d split: option.split step_result.split)
qed

lemma exec:
  assumes "\<And>f cs u s. P s \<Longrightarrow> leaves P (host f cs u s)"
  shows "P s \<Longrightarrow> leaves P (interpreter_exec host ex n co s)"
    and "P s' \<Longrightarrow> leaves P (exec_loop host ex n co' cs is pc s')"
proof (induction n arbitrary: co s co' cs "is" pc s')
  case (Suc n)
  {
    case 1
    then show ?case
      by (subst interpreter_exec.simps(2))
         (auto simp del: exec_loop.simps intro!: leaves_rbind heap_intros Suc.IH(2) assms split: option.split)
  next
    case 2
    then show ?case
      by (subst exec_loop.simps(2))
         (auto simp del: exec_loop.simps interpreter_exec.simps
            intro!: leaves_rbind heap_intros instruction Suc.IH split: step_result.split)
  }
qed simp_all

subsection \<open>Native calls, protected calls and coroutines\<close>

lemma native_call [heap_intros]:
  assumes "P s" and "\<And>co s. P s \<Longrightarrow> leaves P (exec co s)"
  shows "leaves P (interpreter_call exec func nargs nret s)"
  using assms(1) unfolding interpreter_call_def
  by (auto simp: Let_def intro!: leaves_rbind heap_intros assms(2) split: "value.split" option.split)

lemma unwinding [heap_intros]: "P s \<Longrightarrow> leaves P (unwind n co cs s)"
proof (induction n arbitrary: s)
  case 0
  then show ?case by (subst unwind.simps) (auto intro!: leaves_rbind heap_intros)
next
  case (Suc n)
  then show ?case by (subst unwind.simps) (auto intro!: leaves_rbind heap_intros)
qed

lemma handlers:
  assumes "\<And>s. P s \<Longrightarrow> leaves P (h s)"
  shows "P s \<Longrightarrow> leaves P (xpcall_handler n (Some h) s)"
proof (induction n arbitrary: s)
  case 0
  then show ?case using assms[of s] by (subst xpcall_handler.simps(2)) (cases "h s"; simp)
next
  case (Suc n)
  then show ?case using assms[of s] by (subst xpcall_handler.simps(2)) (cases "h s"; simp)
qed

lemma xpcall [heap_intros]:
  assumes "P s" and thing: "\<And>s. P s \<Longrightarrow> leaves P (thing s)" and h: "\<And>s. P s \<Longrightarrow> leaves P (h s)"
  shows "leaves P (interpreter_xpcall n thing (Some h) s)"
proof -
  have t: "leaves P (case thing s of
      Ok _ s \<Rightarrow> rbind (restore s) (\<lambda>_ s. Ok True s)
    | Throw s \<Rightarrow> rbind (xpcall_handler n (Some h) s) (\<lambda>_ s.
        rbind (lock_callStack co s) (\<lambda>_ s. rbind (deref (coros s) co s) (\<lambda>c s.
        rbind (unwind (nat (stk_sp (co_callStack c))) co cs s) (\<lambda>_ s.
        rbind (unlock_callStack co s) (\<lambda>_ s. rbind (restore s) (\<lambda>_ s. Ok False s))))))
    | Fault e \<Rightarrow> Fault e)"
    if "P s" and r: "\<And>s. P s \<Longrightarrow> leaves P (restore s :: (unit, vm) res)" for co cs restore s
    using thing[OF that(1)] by (cases "thing s") (auto intro!: leaves_rbind heap_intros handlers h r)
  show ?thesis
    using assms(1) unfolding interpreter_xpcall_def
    by (auto simp: Let_def intro!: leaves_rbind heap_intros t)
qed

lemma fibers [heap_intros]:
  assumes "P s"
  shows "leaves P (get_fiber co s)" "leaves P (set_fiber co f s)" "leaves P (set_yieldable b s)"
    "leaves P (coroutine_disallow_yield s)" "leaves P (coroutine_allow_yield s)" "leaves P (fiber_yield_enter f s)"
  using assms
  unfolding get_fiber_def set_fiber_def coroutine_disallow_yield_def coroutine_allow_yield_def set_yieldable_def
    fiber_yield_enter_def
  by (auto intro!: leaves_rbind heap_intros split: option.split)

lemma resume [heap_intros]:
  assumes "P s" and body: "\<And>co s. P s \<Longrightarrow> leaves P (body co s)"
  shows "leaves P (coroutine_resume body co s)"
proof -
  have f: "leaves P (fiber_resume body co s)" if "P s" for s
    using that unfolding fiber_resume_def
    by (auto intro!: leaves_rbind heap_intros body split: prod.split bool.split)
  show ?thesis
    using assms(1) unfolding coroutine_resume_def
    by (auto intro!: leaves_rbind heap_intros f split: fiber_state.split)
qed

lemma yielding [heap_intros]:
  assumes "P s" and rest: "\<And>s. P s \<Longrightarrow> leaves P (rest s)"
  shows "leaves P (coroutine_yield rest s)"
  using assms(1) unfolding coroutine_yield_def fiber_yield_def
  by (auto intro!: leaves_rbind heap_intros rest split: option.split)

lemma task [heap_intros]:
  assumes "P s" and exec: "\<And>co s. P s \<Longrightarrow> leaves P (exec co s)"
  shows "leaves P (coroutine_task exec co s)" "leaves P (entryPoint exec co s)"
proof -
  let ?run = "\<lambda>s. rbind (modify_coro co (\<lambda>c. c\<lparr>co_errorHandler := Some 0\<rparr>) s) (\<lambda>_ s.
      rbind (exec co s) (\<lambda>_ s. rbind (coroutine_function_epilog s) (\<lambda>_ s.
        modify_coro co (\<lambda>c. c\<lparr>co_errorHandler := None\<rparr>) s)))"
  have "leaves P (?run s)" using assms(1) by (auto intro!: leaves_rbind heap_intros exec)
  then show t: "leaves P (coroutine_task exec co s)"
    unfolding coroutine_task_def by (auto intro!: leaves_rbind heap_intros split: res.split)
  show "leaves P (entryPoint exec co s)"
    unfolding entryPoint_def by (auto intro!: leaves_rbind heap_intros t)
qed

lemma new_coroutines [heap_intros]: "P s \<Longrightarrow> leaves P (coroutine_new func s)"
  unfolding coroutine_new_def
  by (auto simp: Let_def intro!: leaves_rbind heap_intros split: option.split)

subsection \<open>The Lua C API\<close>

lemma raises [heap_intros]:
  "P s \<Longrightarrow> leaves P (raise_errmsg s)" "P s \<Longrightarrow> leaves P (raise_static m s)"
  unfolding raise_errmsg_def raise_static_def by (auto intro!: heap_intros)

lemma api_reads [heap_intros]:
  assumes "P s"
  shows "leaves P (lua_frame L s)" "leaves P (lua_gettop L s)" "leaves P (lua_absindex L idx s)" "leaves P (getValueAtStackIndex L idx s)"
    "leaves P (lua_checkstack L n s)" "leaves P (ensureStackFits L n s)" "leaves P (push_top L v s)"
    "leaves P (store_cell cs i v s)" "leaves P (lua_pop L n s)"
proof -
  have fr: "leaves P (lua_frame L s)" if "P s" for s
    using that unfolding lua_frame_def by (auto intro!: leaves_rbind heap_intros split: option.split)
  have r: "leaves P (lua_gettop L s)" "leaves P (lua_checkstack L n s)" if "P s" for n s
    using that unfolding lua_gettop_def lua_checkstack_def
    by (auto intro!: leaves_rbind heap_intros fr)
  have ab: "leaves P (lua_absindex L idx s)" if "P s" for s
    using that unfolding lua_absindex_def by (auto simp: Let_def intro!: leaves_rbind heap_intros r)
  have p: "leaves P (pop_times L k s)" if "P s" for k s
    using that by (induction k arbitrary: s) (auto intro!: leaves_rbind heap_intros fr)
  show "leaves P (lua_frame L s)" "leaves P (lua_gettop L s)" "leaves P (lua_absindex L idx s)"
    "leaves P (lua_checkstack L n s)"
    using assms by (rule fr r ab)+
  show "leaves P (getValueAtStackIndex L idx s)" "leaves P (ensureStackFits L n s)" "leaves P (push_top L v s)"
    "leaves P (store_cell cs i v s)" "leaves P (lua_pop L n s)"
    using assms
    unfolding getValueAtStackIndex_def ensureStackFits_def push_top_def store_cell_def lua_pop_def
    by (auto intro!: leaves_rbind heap_intros fr r ab p split: option.split)
qed

lemma object_ptrs [heap_intros]:
  "P s \<Longrightarrow> leaves P (value_get_unique_ptr v s)" "P s \<Longrightarrow> leaves P (fluffyvm_get_global s)"
  unfolding value_get_unique_ptr_def fluffyvm_get_global_def
  by (auto intro!: leaves_rbind heap_intros split: "value.split")

lemma light_userdata [heap_intros]: "P s \<Longrightarrow> leaves P (value_new_light_userdata s m n d)"
proof -
  have f: "P t" if "P s" "value_new_full_userdata s m n = (v, t)" for s v t
    using that stores(1)[of s "Suc (brk s)"]
    by (auto simp: value_new_full_userdata_def gc_alloc_def intro!: stores split: if_splits)
  show "P s \<Longrightarrow> leaves P (value_new_light_userdata s m n d)"
    unfolding value_new_light_userdata_def
    by (auto intro!: leaves_rbind heap_intros dest: f split: prod.split "value.split")
qed

lemma api_moves [heap_intros]:
  assumes "P s"
  shows "leaves P (lua_copy L i j s)" "leaves P (lua_rotate L i n s)" "leaves P (lua_remove L i s)"
    "leaves P (lua_replace L i s)" "leaves P (lua_error L s)" "leaves P (lua_xmove L L' n s)"
proof -
  have sh: "leaves P (shift_loop (rotate_set cs st) (rotate_get cs st) js s)" if "P s" for cs st js s
    using that by (induction js arbitrary: s) (auto simp: rotate_get_def rotate_set_def intro!: leaves_rbind heap_intros)
  have tm: "leaves P (rotate_times n k (rotate_set cs st) (rotate_get cs st) s)" if "P s" for cs st n k s
    using that
    by (induction n arbitrary: s) (auto simp: rotate_round_def rotate_get_def rotate_set_def intro!: leaves_rbind heap_intros sh)
  have rot: "leaves P (lua_rotate L i n s)" if "P s" for i n s
    using that unfolding lua_rotate_def util_collections_rotate_def
    by (auto simp: Let_def intro!: leaves_rbind heap_intros tm)
  have cp: "leaves P (lua_copy L i j s)" if "P s" for i j s
    using that unfolding lua_copy_def by (auto intro!: leaves_rbind heap_intros)
  have c: "leaves P (push_cells L L' is s)" if "P s" for "is" s
    using that by (induction "is" arbitrary: s) (auto intro!: leaves_rbind heap_intros)
  show "leaves P (lua_copy L i j s)" "leaves P (lua_rotate L i n s)" by (rule cp rot, rule assms)+
  show "leaves P (lua_remove L i s)" "leaves P (lua_replace L i s)" "leaves P (lua_error L s)"
    "leaves P (lua_xmove L L' n s)"
    using assms unfolding lua_remove_def lua_replace_def lua_error_def lua_xmove_def
    by (auto simp: Let_def intro!: leaves_rbind heap_intros rot cp c split: option.split)
qed

lemma conversions [heap_intros]:
  assumes "P s"
  shows "leaves P (lua_tolstring ex L i s)" "leaves P (lua_topointer L i s)"
    "leaves P (lua_tonumberx ex L i s)" "leaves P (lua_tonumber ex L i s)"
    "leaves P (lua_tointegerx ex L i s)" "leaves P (lua_touserdata L i s)" "leaves P (lua_tothread L i s)"
    "leaves P (lua_toboolean L i s)" "leaves P (lua_tocfunction L i s)" "leaves P (lua_type L i s)"
    "leaves P (lua_isfunction L i s)"
proof -
  have n: "leaves P (number_in_place ex cs i v s)" if "P s" for cs i v s
    using that unfolding number_in_place_def by (auto intro!: leaves_rbind heap_intros)
  show "leaves P (lua_tolstring ex L i s)"
    using assms unfolding lua_tolstring_def
    by (auto intro!: leaves_rbind heap_intros n split: value_types.split)
  have x: "leaves P (lua_tonumberx ex L i s)" "leaves P (lua_type L i s)" if "P s" for i s
    using that unfolding lua_tonumberx_def lua_type_def
    by (auto intro!: leaves_rbind heap_intros split: option.split "value.split")
  show "leaves P (lua_topointer L i s)" "leaves P (lua_tonumberx ex L i s)" "leaves P (lua_tonumber ex L i s)"
    "leaves P (lua_tointegerx ex L i s)" "leaves P (lua_touserdata L i s)" "leaves P (lua_tothread L i s)"
    "leaves P (lua_toboolean L i s)" "leaves P (lua_tocfunction L i s)" "leaves P (lua_type L i s)"
    "leaves P (lua_isfunction L i s)"
    using assms
    unfolding lua_topointer_def lua_tointegerx_def lua_tonumber_def lua_touserdata_def lua_tothread_def
      lua_toboolean_def lua_tocfunction_def has_type_def lua_isfunction_def
    by (auto intro!: leaves_rbind heap_intros x split: option.split "value.split")
qed

lemma pushes [heap_intros]:
  assumes "P s"
  shows "leaves P (lua_pushvalue L i s)" "leaves P (lua_pushnil L s)" "leaves P (lua_pushboolean L b s)"
    "leaves P (lua_pushinteger L n s)" "leaves P (lua_pushnumber L d s)" "leaves P (lua_pushstring L str s)"
    "leaves P (lua_pushliteral L str s)" "leaves P (lua_pushlstring L str s)" "leaves P (lua_pushglobaltable L s)"
    "leaves P (lua_pushthread L s)" "leaves P (lua_pushlightuserdata L p s)" "leaves P (lua_pushcfunction tramp L f s)"
proof -
  have push: "leaves P (push_string L r)" if "P (snd r)" for r
    using that unfolding push_string_def by (auto intro!: heap_intros split: prod.split)
  have "P t" if "P s" "value_string_allocator s str = (v, t)" for s str v t using that allocator by blast
  then have new: "P (snd (value_new_string s str))" "P (snd (value_new_string2 s str))"
    "P (snd (value_new_string_constant s str))" if "P s" for s str
    using that unfolding value_new_string_def value_new_string2_def value_new_string_constant_def
      value_new_string2_constant_def string_cache_create_string_def if_cancel
    by (metis prod.collapse)+
  show "leaves P (lua_pushvalue L i s)" "leaves P (lua_pushnil L s)" "leaves P (lua_pushboolean L b s)"
    "leaves P (lua_pushinteger L n s)" "leaves P (lua_pushnumber L d s)" "leaves P (lua_pushstring L str s)"
    "leaves P (lua_pushliteral L str s)" "leaves P (lua_pushlstring L str s)" "leaves P (lua_pushglobaltable L s)"
    "leaves P (lua_pushthread L s)" "leaves P (lua_pushlightuserdata L p s)" "leaves P (lua_pushcfunction tramp L f s)"
    using assms
    unfolding lua_pushvalue_def lua_pushnil_def lua_pushboolean_def lua_pushinteger_def lua_pushnumber_def
      lua_pushstring_def lua_pushliteral_def lua_pushlstring_def lua_pushglobaltable_def lua_pushthread_def
      lua_pushlightuserdata_def lua_pushcfunction_def
    by (auto intro!: leaves_rbind heap_intros push new split: option.split)
qed

lemma named [heap_intros]:
  assumes "P s"
  shows "leaves P (lua_len L i s)" "leaves P (lua_createtable ex L a b s)" "leaves P (lua_setglobal ex L name s)"
    "leaves P (lua_setfield ex L i name s)" "leaves P (lua_register ex tramp L name f s)"
proof -
  have n: "leaves P (set_named ex L t name v s)" if "P s" for t v s
    using that unfolding set_named_def by (auto intro!: leaves_rbind heap_intros)
  have sg: "leaves P (lua_setglobal ex L name s)" if "P s" for s
    using that unfolding lua_setglobal_def by (auto intro!: leaves_rbind heap_intros n)
  show "leaves P (lua_setglobal ex L name s)" using sg assms .
  show "leaves P (lua_len L i s)" "leaves P (lua_createtable ex L a b s)" "leaves P (lua_setfield ex L i name s)"
    "leaves P (lua_register ex tramp L name f s)"
    using assms unfolding lua_len_def lua_createtable_def lua_setfield_def lua_register_def
    by (auto intro!: leaves_rbind heap_intros n sg)
qed

lemma api_calls [heap_intros]:
  assumes "P s"
  shows "(\<And>co s. P s \<Longrightarrow> leaves P (exec co s)) \<Longrightarrow> leaves P (lua_call exec L nargs nresults s)"
    "leaves P (lua_newthread L s)"
    "(\<And>co s. P s \<Longrightarrow> leaves P (body co s)) \<Longrightarrow> leaves P (lua_resume body L target nargs p s)"
  using assms unfolding lua_call_def lua_newthread_def value_new_coroutine_def lua_resume_def
  by (auto simp: Let_def intro!: leaves_rbind heap_intros split: option.split)

lemma store_ints [heap_intros]: "P s \<Longrightarrow> leaves P (store_int a n s)"
  unfolding store_int_def by (auto intro!: leaves_rbind heap_intros)

lemma trampolines [heap_intros]:
  assumes "P s"
  shows "(\<And>co s. P s \<Longrightarrow> leaves P (exec co s)) \<Longrightarrow> leaves P (trampoline ex exec s)"
    "(\<And>f L s. P s \<Longrightarrow> leaves P (cfun f L s)) \<Longrightarrow> leaves P (cFunctionTrampoline cfun cs ud s)"
  using assms unfolding trampoline_def cFunctionTrampoline_def
  by (auto intro!: leaves_rbind heap_intros split: option.split)

subsection \<open>Loading and booting\<close>

lemma loadPrototypes_step: "P s \<Longrightarrow> leaves P (loadPrototype bc p s)"
proof (induction p arbitrary: s)
  case (Pb_Prototype instructions prototypes lineinfo sourcefile)
  have name: "leaves P (source_file_name sourcefile s)" if "P s" for s
    using that unfolding source_file_name_def by (auto intro!: leaves_rbind heap_intros)
  have ps: "leaves P (loadPrototypes bc ps s)" if "P s" "set ps \<subseteq> set prototypes" for ps s
    using that by (induction ps arbitrary: s) (auto intro!: leaves_rbind Pb_Prototype.IH split: option.split)
  show ?case
    using Pb_Prototype.prems
    by (cases "lineinfo = []")
       (auto intro!: heap_intros leaves_rbind name ps split: bool.split option.split)
qed

lemma constants: "P s \<Longrightarrow> load_constants cs s = (vs, t) \<Longrightarrow> P t"
proof (induction cs arbitrary: s vs)
  case (Cons c cs)
  have str: "P t" if "value_new_string2_constant s bs = (v, t)" "P s" for s bs v t
    using that allocator
    unfolding value_new_string2_constant_def string_cache_create_string_def if_cancel by blast
  have "P u" if "load_constant c s = (v, u)" for v u
    using that Cons.prems(1)
    by (auto simp: load_constant_def Let_def dest: str
        split: constant_type.splits constant_data.splits prod.splits if_splits)
  then show ?case using Cons.prems(2) Cons.IH by (auto split: prod.splits option.splits)
qed simp

lemma loads [heap_intros]:
  assumes "P s"
  shows "leaves P (bytecode_load unpack data s)" "leaves P (push_main (message_loader unpack data) L s)"
proof -
  have c: "leaves P (case load_constants cs s of (vs, t) \<Rightarrow> f vs t)"
    if "P s" "\<And>vs t. P t \<Longrightarrow> leaves P (f vs t)"
    for cs s and f :: "value list option \<Rightarrow> vm \<Rightarrow> (addr option, vm) res"
    using that by (auto intro: leaves_pair[where Q = P] constants)
  have l: "leaves P (bytecode_load unpack data s)" if "P s" for s
    using that unfolding bytecode_load_def
    by (auto intro!: leaves_rbind loadPrototypes_step heap_intros c split: option.split bool.split)
  show "leaves P (bytecode_load unpack data s)" using l assms .
  show "leaves P (push_main (message_loader unpack data) L s)"
    unfolding push_main_def load_closure_def message_loader_def
    by (auto intro!: leaves_rbind l heap_intros assms split: option.split)
qed

lemma strings_init: "P s \<Longrightarrow> init_strings ms s = (ok, t) \<Longrightarrow> P t"
proof (induction ms arbitrary: s)
  case (Cons m ms)
  obtain v s1 where s1: "value_new_string_constant s (bytes_of (static_text m)) = (v, s1)"
    by (cases "value_new_string_constant s (bytes_of (static_text m))")
  then have "P s1"
    using allocator Cons.prems(1)
    unfolding value_new_string_constant_def value_new_string2_constant_def string_cache_create_string_def if_cancel
    by blast
  then show ?case
    using Cons.IH[of "s1\<lparr>staticStrings := (staticStrings s1)(m := v)\<rparr>"] Cons.prems(2) s1
    by (simp split: if_splits)
qed simp

lemma late_init [heap_intros]: "P s \<Longrightarrow> leaves P (lateInit s)"
  unfolding lateInit_def by (auto intro!: leaves_rbind heap_intros split: option.split)

lemma start_thread [heap_intros]: "P s \<Longrightarrow> leaves P (fluffyvm_start_thread created s)"
  unfolding fluffyvm_start_thread_def
  by (auto intro!: leaves_rbind heap_intros split: option.split bool.split)

lemma inits [heap_intros]:
  assumes "P s"
  shows "leaves P (statics_init s)" "leaves P (global_table_init ex s)" "leaves P (caches_init s)"
    "leaves P (fluffyvm_compat_layer_lua54_init tramp n s)"
proof -
  show "leaves P (statics_init s)"
    using assms strings_init[of "s\<lparr>staticStrings := \<lambda>_. VNotPresent\<rparr>"]
    by (auto simp: statics_init_def split: prod.split)
  show "leaves P (global_table_init ex s)" "leaves P (caches_init s)"
    "leaves P (fluffyvm_compat_layer_lua54_init tramp n s)"
    using assms unfolding global_table_init_def caches_init_def string_cache_new_def
      fluffyvm_compat_layer_lua54_init_def fluffyvm_set_global_def
    by (auto intro!: leaves_rbind heap_intros split: option.split)
qed

lemma boot:
  assumes "P s"
  shows "leaves P (fluffyvm_new ex desc created tramp modules s)"
proof -
  have "leaves P (init_components fs s)" if "P s" "\<And>f s. f \<in> set fs \<Longrightarrow> P s \<Longrightarrow> leaves P (f s)" for fs s
    using that by (induction fs arbitrary: s) (auto intro!: leaves_rbind)
  note comps = this
  have c: "leaves P (init_components (component_inits ex desc created tramp modules) s)" if "P s" for s
    by (rule comps[OF that]) (auto simp: component_inits_def intro: heap_intros)
  show ?thesis
    unfolding fluffyvm_new_def
    using assms by (auto intro!: leaves_rbind c heap_intros split: option.split)
qed

lemma performing:
  shows "ex' = ex \<Longrightarrow> \<forall>f cs u s. P s \<longrightarrow> leaves P (host f cs u s) \<Longrightarrow> P s \<Longrightarrow>
      leaves P (perform host ex' tramp n c L s)"
    and "ex' = ex \<Longrightarrow> \<forall>f cs u s. P s \<longrightarrow> leaves P (host f cs u s) \<Longrightarrow> P s' \<Longrightarrow>
      leaves P (performs host ex' tramp n cs L' s')"
proof (induction host ex' tramp n c L s and host ex' tramp n cs L' s' rule: perform_performs.induct)
qed (auto intro!: leaves_rbind heap_intros exec(1))

end

subsection \<open>Objects stay and strings never change\<close>

definition strings_kept :: "vm \<Rightarrow> vm \<Rightarrow> bool" where
  "strings_kept s t \<longleftrightarrow> (\<forall>a vs. strs s a = Some vs \<longrightarrow> (\<exists>ws. strs t a = Some ws \<and> vs_bytes ws = vs_bytes vs))"

text \<open>No string lies where the next object will, and a cached hash code is the hash of its string.\<close>

definition strings_sound :: "ext \<Rightarrow> vm \<Rightarrow> bool" where
  "strings_sound ex s \<longleftrightarrow> (\<forall>a \<ge> brk s. strs s a = None) \<and>
     (\<forall>a vs. strs s a = Some vs \<longrightarrow> vs_hashCode vs = 0 \<or> vs_hashCode vs = string_hash ex (vs_bytes vs))"

text \<open>What holds of every state after \<open>r\<close>.\<close>

definition heap_after :: "ext \<Rightarrow> vm \<Rightarrow> vm \<Rightarrow> bool" where
  "heap_after ex r s \<longleftrightarrow> strings_sound ex s \<and> heap_grows r s \<and> strings_kept r s"

lemma heap_grows_trans: "heap_grows r s \<Longrightarrow> heap_grows s t \<Longrightarrow> heap_grows r t"
  unfolding heap_grows_def by (meson order_trans)

lemma heap_after_refl: "strings_sound ex s \<Longrightarrow> heap_after ex s s"
  by (simp add: heap_after_def heap_grows_def strings_kept_def)

interpretation after: heap_property ex "heap_after ex r" for ex r
proof (unfold_locales, goal_cases)
  case (1 s t)
  moreover have "brk s \<le> brk t" using 1(2) by (simp add: heap_grows_def)
  ultimately show ?case
    using heap_grows_trans[of r s t] by (simp add: heap_after_def strings_sound_def strings_kept_def)
next
  case (2 s bs)
  then show ?case
    by (auto simp: heap_after_def strings_sound_def heap_grows_def strings_kept_def)
       (metis order_refl option.distinct(1))
next
  case (3 s a vs)
  moreover have "a < brk s"
    using 3 by (metis heap_after_def strings_sound_def not_le option.distinct(1))
  ultimately show ?case
    by (auto simp: heap_after_def strings_sound_def heap_grows_def strings_kept_def)
       (metis option.inject)
qed

text \<open>Calls into a machine, one after the other.\<close>

inductive machine_calls :: "host \<Rightarrow> ext \<Rightarrow> nat \<Rightarrow> vm \<Rightarrow> vm \<Rightarrow> bool" for host ex tramp s where
  none: "machine_calls host ex tramp s s"
| call_returned: "machine_calls host ex tramp s t \<Longrightarrow> perform host ex tramp n c L t = Ok () u \<Longrightarrow>
     machine_calls host ex tramp s u"
| call_thrown: "machine_calls host ex tramp s t \<Longrightarrow> perform host ex tramp n c L t = Throw u \<Longrightarrow>
     machine_calls host ex tramp s u"

lemma reaches_sound:
  assumes "\<And>r f cs u s. heap_after ex r s \<Longrightarrow> leaves (heap_after ex r) (host f cs u s)"
    and "machine_reaches host ex tramp s"
  shows "strings_sound ex s"
proof -
  have p: "leaves (heap_after ex s) (perform host ex tramp n c L s)" if "strings_sound ex s" for n c L s
    using after.performing(1)[OF refl _ heap_after_refl[OF that]] assms(1) by blast
  show ?thesis
    using assms(2)
  proof induction
    case (booting s desc created modules t)
    then have "strings_sound ex s" by (simp add: strings_sound_def)
    then show ?case
      using after.boot[OF heap_after_refl, of ex s desc created tramp modules] booting(4)
      by (simp add: heap_after_def)
  next
    case (returned s n c L t)
    then show ?case using p[of s n c L] by (simp add: heap_after_def)
  next
    case (thrown s n c L t)
    then show ?case using p[of s n c L] by (simp add: heap_after_def)
  qed
qed

lemma calls_after:
  assumes "\<And>r f cs u s. heap_after ex r s \<Longrightarrow> leaves (heap_after ex r) (host f cs u s)"
    and "strings_sound ex s" and "machine_calls host ex tramp s t"
  shows "heap_after ex s t"
  using assms(3)
proof induction
  case none
  show ?case by (rule heap_after_refl[OF assms(2)])
next
  case (call_returned t n c L u)
  then show ?case using after.performing(1)[of ex ex s host t tramp n c L] assms(1) by simp
next
  case (call_thrown t n c L u)
  then show ?case using after.performing(1)[of ex ex s host t tramp n c L] assms(1) by simp
qed

text \<open>
  C9. From any state a machine gets into, provided that native functions do the same, whatever calls
  follow, returning or throwing: addresses are given out upwards, no object disappears, every
  string keeps its bytes for ever, no string lies where the next object will, and what a string
  caches as its hash code is its hash code.
\<close>

theorem strings_never_change:
  assumes "\<And>r f cs u s. heap_after ex r s \<Longrightarrow> leaves (heap_after ex r) (host f cs u s)"
    and "machine_reaches host ex tramp s" and "machine_calls host ex tramp s t"
  shows "heap_grows s t \<and> strings_kept s t \<and> strings_sound ex t"
  using calls_after[OF assms(1) reaches_sound[OF assms(1,2)] assms(3)] by (simp add: heap_after_def)

text \<open>Equality needs to know only of the strings it compares that their lengths fit.\<close>

definition size_ok :: "vm \<Rightarrow> value \<Rightarrow> bool" where
  "size_ok s v \<longleftrightarrow> (\<forall>a vs. v = VString a \<longrightarrow> strs s a = Some vs \<longrightarrow> length (vs_bytes vs) < 2 ^ 64)"

lemma sound_hash:
  assumes "strings_sound ex s" and "strs s a = Some x" and "length (vs_bytes x) < 2 ^ 64"
  obtains t where "value_hash_code ex (VString a) s = Ok (hashing_hash_xxhash ex (vs_bytes x)) t"
    "same_data s t" "strings_sound ex t"
proof -
  let ?t = "s\<lparr>strs := (strs s)(a \<mapsto> x\<lparr>vs_hashCode := string_hash ex (vs_bytes x)\<rparr>)\<rparr>"
  have h: "string_hash ex (vs_bytes x) = hashing_hash_xxhash ex (vs_bytes x)"
    using assms(3) by (simp add: string_hash_def unat_size)
  show ?thesis
  proof (cases "vs_hashCode x = 0")
    case True
    have "leaves (heap_after ex s) (value_hash_code ex (VString a) s)"
      by (rule after.data_hash[OF heap_after_refl[OF assms(1)]])
    moreover have "value_hash_code ex (VString a) s = Ok (hashing_hash_xxhash ex (vs_bytes x)) ?t"
      using True assms(2) unat_size[OF assms(3)] h by (simp add: value_get_len_string)
    moreover have "same_data s ?t" using assms(2) by (auto simp: same_data_def)
    ultimately show ?thesis by (intro that[of ?t]) (simp_all add: heap_after_def)
  next
    case False
    then have "vs_hashCode x = hashing_hash_xxhash ex (vs_bytes x)"
      using assms(1,2) h unfolding strings_sound_def by metis
    then show ?thesis using False assms(1,2) by (intro that[of s]) simp_all
  qed
qed

lemma sound_string_equals:
  assumes "strings_sound ex s" and "strs s a = Some x" and "strs s b = Some y"
    and "length (vs_bytes x) < 2 ^ 64" and "length (vs_bytes y) < 2 ^ 64"
  shows "\<exists>t. string_equals ex a b s = Ok (vs_bytes x = vs_bytes y) t \<and> same_data s t"
proof -
  obtain t where t: "value_hash_code ex (VString a) s = Ok (hashing_hash_xxhash ex (vs_bytes x)) t"
      "same_data s t" "strings_sound ex t"
    by (rule sound_hash[OF assms(1,2,4)])
  have kept: "\<exists>z'. strs u c = Some z' \<and> vs_bytes z' = vs_bytes z" if "same_data s u" "strs s c = Some z" for u c z
    using that unfolding same_data_def by (metis map_option_eq_Some)
  obtain y1 where y1: "strs t b = Some y1" "vs_bytes y1 = vs_bytes y" using kept[OF t(2) assms(3)] by blast
  obtain u where u: "value_hash_code ex (VString b) t = Ok (hashing_hash_xxhash ex (vs_bytes y)) u"
      "same_data t u"
    using sound_hash[OF t(3) y1(1)] y1(2) assms(5) by metis
  have su: "same_data s u" by (rule same_data_trans[OF t(2) u(2)])
  obtain x2 y2 where x2: "strs u a = Some x2" "vs_bytes x2 = vs_bytes x" "strs u b = Some y2" "vs_bytes y2 = vs_bytes y"
    using kept[OF su assms(2)] kept[OF su assms(3)] by blast
  have n: "unat (word_of_nat (length (vs_bytes x)) :: u64) = length (vs_bytes x)"
    "unat (word_of_nat (length (vs_bytes y)) :: u64) = length (vs_bytes y)"
    by (rule unat_size, rule assms)+
  show ?thesis
  proof (cases "length (vs_bytes x) = length (vs_bytes y)")
    case True
    then show ?thesis
      using assms(2,3) t(1) u x2 n su
      by (auto simp: string_equals_def value_get_len_string simp del: value_hash_code.simps)
  next
    case False
    then have "(word_of_nat (length (vs_bytes x)) :: u64) \<noteq> word_of_nat (length (vs_bytes y))" using n by metis
    then show ?thesis
      using assms(2,3) False by (auto simp: string_equals_def value_get_len_string simp del: value_hash_code.simps)
  qed
qed

lemma sound_equals:
  assumes "strings_sound ex s" and "value_ok s v" "value_ok s w" and "size_ok s v" "size_ok s w"
  shows "\<exists>t. value_equals ex v w s = Ok (same_value s v w) t \<and> same_data s t"
proof (cases "type_tag v = type_tag w")
  case False
  then have "\<not> same_value s v w" using same_value_tag by blast
  then show ?thesis using False assms(2,3) by (simp add: value_equals_tags)
next
  case True
  show ?thesis
  proof (cases v)
    case (VString a)
    with True obtain b where b: "w = VString b" by (auto simp: type_tag_iff)
    obtain x y where "strs s a = Some x" "strs s b = Some y" using assms(2,3) b VString by auto
    moreover from this have "length (vs_bytes x) < 2 ^ 64" "length (vs_bytes y) < 2 ^ 64"
      using assms(4,5) VString b by (auto simp: size_ok_def)
    ultimately show ?thesis
      using sound_string_equals[OF assms(1)] VString b
      by (simp add: value_equals_def value_get_len_string string_bytes_Some)
  qed (use True assms(2,3) in \<open>auto simp: type_tag_iff value_equals_def value_get_len_def
      userdata_data_eq_def ud_key_def\<close>)
qed

text \<open>
  C8. In every state a machine gets into, provided that native functions keep strings as they are,
  equality of values whose objects exist, and whose lengths fit a \<open>size_t\<close>, returns, fills caches of
  hash codes at most, and answers whether the values are the same: strings by content, doubles by
  value, objects by identity.
\<close>

theorem reachable_equality_correct:
  assumes "\<And>r f cs u s. heap_after ex r s \<Longrightarrow> leaves (heap_after ex r) (host f cs u s)"
    and "machine_reaches host ex tramp s"
    and "value_ok s v" "value_ok s w" and "size_ok s v" "size_ok s w"
  shows "\<exists>t. value_equals ex v w s = Ok (same_value s v w) t \<and> same_data s t \<and> strings_sound ex t"
proof -
  have ss: "strings_sound ex s" by (rule reaches_sound[OF assms(1,2)])
  have "leaves (heap_after ex s) (value_equals ex v w s)"
    by (rule after.data_equals[OF heap_after_refl[OF ss]])
  then show ?thesis using sound_equals[OF ss assms(3-6)] by (auto simp: heap_after_def)
qed

subsection \<open>Concrete cases\<close>

abbreviation idle_host :: host where
  "idle_host \<equiv> \<lambda>_ _ _ s. Ok 0 s"

lemma idle_machine:
  obtains t main c cs g where "machine_reaches idle_host sample_ext 7 t" "booted t main c cs g"
proof -
  obtain t main c cs g where t: "fluffyvm_new sample_ext (\<lambda>_. True) True 7 0 blank_vm = Ok True t"
      "booted t main c cs g"
    by (rule new_machine[of blank_vm "\<lambda>_. True" sample_ext 7 0]) (simp_all add: always_mem_def blank_vm_def)
  have "machine_reaches idle_host sample_ext 7 t"
    by (rule machine_reaches.booting[OF _ _ _ t(1)]) (simp_all add: blank_vm_def)
  then show ?thesis by (rule that[OF _ t(2)])
qed

theorem strings_never_change_witness:
  "\<exists>s t main. machine_reaches idle_host sample_ext 7 s \<and>
     perform idle_host sample_ext 7 1 Api_disallow_yield main s = Ok () t \<and> strings_kept s t \<and>
     strings_sound sample_ext t"
proof -
  obtain s main c cs g where s: "machine_reaches idle_host sample_ext 7 s" "booted s main c cs g"
    by (rule idle_machine)
  have r: "running s main c" using s(2) by (simp add: booted_def)
  define t where "t = s\<lparr>coros := (coros s)(main \<mapsto> c\<lparr>co_isYieldable := False\<rparr>)\<rparr>"
  have t: "perform idle_host sample_ext 7 1 Api_disallow_yield main s = Ok () t"
    using running_executing(1)[OF r] r
    by (simp add: coroutine_disallow_yield_def set_yieldable_def modify_coro_Some t_def running_def)
  have "machine_calls idle_host sample_ext 7 s t"
    by (rule machine_calls.call_returned[OF machine_calls.none t])
  then have "heap_grows s t \<and> strings_kept s t \<and> strings_sound sample_ext t"
    by (rule strings_never_change[rotated 2]) (use s(1) in simp_all)
  then show ?thesis using s(1) t by blast
qed

text \<open>Two of the texts a machine keeps are not equal.\<close>

theorem reachable_equality_correct_witness:
  "\<exists>s t. machine_reaches idle_host sample_ext 7 s \<and>
     value_equals sample_ext (staticStrings s SS_typenames_nil) (staticStrings s SS_typenames_bool) s = Ok False t"
proof -
  obtain s main c cs g where s: "machine_reaches idle_host sample_ext 7 s" "booted s main c cs g"
    by (rule idle_machine)
  have st: "is_string s (staticStrings s k) (cstr (bytes_of (static_text k)))" for k
    using s(2) by (simp add: booted_def has_text_def)
  obtain a b where ab: "staticStrings s SS_typenames_nil = VString a" "staticStrings s SS_typenames_bool = VString b"
      "strs s a = Some \<lparr>vs_hashCode = 0, vs_bytes = cstr (bytes_of ''nil'')\<rparr>"
      "strs s b = Some \<lparr>vs_hashCode = 0, vs_bytes = cstr (bytes_of ''boolean'')\<rparr>"
    using st[of SS_typenames_nil] st[of SS_typenames_bool] by (auto simp: is_string_def)
  have "\<exists>t. value_equals sample_ext (VString a) (VString b) s = Ok (same_value s (VString a) (VString b)) t \<and>
      same_data s t \<and> strings_sound sample_ext t"
    by (rule reachable_equality_correct[OF _ s(1)])
       (use ab in \<open>auto simp: size_ok_def cstr_def bytes_of_def\<close>)
  moreover have "\<not> same_value s (VString a) (VString b)"
    using ab(3,4) by (simp add: string_bytes_def cstr_def bytes_of_def)
  ultimately show ?thesis using s(1) ab(1,2) by auto
qed

end
