(* ===== verification/ThreadContracts.thy ===== *)
theory ThreadContracts
  imports HeapInvariant LuaContracts DoubleFacts
begin

text \<open>
  Threads of the C API from end to end: what \<open>lua_newthread\<close>, \<open>lua_xmove\<close>, \<open>lua_resume\<close> and the
  function \<open>trampoline\<close> a new thread starts with do together.
\<close>

lemma heap_grows_chain: "heap_grows r s \<Longrightarrow> heap_grows s t \<Longrightarrow> heap_grows r t"
  by (simp add: heap_grows_def subset_trans[of "dom (f r)" "dom (f s)" for f])

interpretation grows: heap_property ex "heap_grows r" for ex r
proof unfold_locales
  fix s t assume "heap_grows r s" "heap_grows s t" then show "heap_grows r t" by (rule heap_grows_chain)
qed (simp_all add: heap_grows_def)

lemma grows_with_frame: "heap_grows r s \<Longrightarrow> heap_grows r (with_frame s cs st)"
  by (rule heap_grows_chain) (auto simp: heap_grows_def with_frame_def)

lemma type_at:
  assumes "lua_at s L cs st" and "indexed (gs_items st) idx = Some v"
    and "type_of_value (type_tag v) = Some ty"
  shows "lua_type L idx s = Ok ty s"
proof -
  have "1 \<le> \<bar>idx\<bar>" "\<bar>idx\<bar> \<le> int (length (gs_items st))"
    using assms(2) by (auto simp: indexed_def split: if_splits)
  then show ?thesis
    using lua_at_frame(1)[OF assms(1)] frame_okD(1)[OF lua_at_frame(4)[OF assms(1)]]
      value_at_index[OF assms(1,2)] assms(3)
    by (auto simp: lua_type_def)
qed

subsection \<open>The main function of a thread\<close>

lemma exec_small_int:
  assumes "n \<le> 256"
  shows "fp_to_int64 (fp_of_int (sint (word_of_int (int n) :: 64 word))) = Some (int n)" "int_ok (int n)"
proof -
  have "int n < 2 ^ 53" "sint (word_of_int (int n) :: 64 word) = int n"
    using assms by (simp_all add: signed_of_nat signed_take_bit_int_eq_self)
  then show "fp_to_int64 (fp_of_int (sint (word_of_int (int n) :: 64 word))) = Some (int n)" "int_ok (int n)"
    using of_int_exact[of "int n"] assms
    by (simp_all add: fp_to_int64_def int_ok_def INT_MIN_def INT_MAX_def)
qed

lemma trampoline_runs:
  assumes r: "running s M c" and l: "\<not> co_callStackLock c"
    and room: "int (length (frames c)) < FLUFFYVM_CALL_STACK_SIZE" and m: "always_mem s"
    and cur: "frames c \<noteq> []" "cstates s (last (frames c)) = Some st" "frame_ok st"
      "closures s (cs_closure st) \<noteq> None" "last (frames c) < brk s"
    and items: "gs_items st = VClosure func # args @ [VLightUserdata b, VLong (word_of_int (int (length args)))]"
    and box: "udatas s b = Some u" "ud_data u = Some b" and f: "closures s func = Some cl"
    and x: "callee_returns (exec M) s (Suc (length (frames c))) M func cl (last (frames c)) (brk s) args k vs" "length vs < 256"
    and g: "\<And>co s. heap_grows r s \<Longrightarrow> leaves (heap_grows r) (exec co s)" "heap_grows r s" "b \<in> dom (udatas r)"
  shows "\<exists>t. trampoline ex exec s = Ok 0 t \<and> coros t = coros s \<and> coroutinesStack t = coroutinesStack s \<and>
     cstates t (last (frames c)) = Some (with_stack st (results (length vs) k vs))"
proof -
  let ?cs = "last (frames c)" and ?n = "length args"
  let ?st = "with_stack st (VClosure func # args)"
  let ?s1 = "with_frame s ?cs ?st"
  have a: "lua_at s M ?cs st" by (rule running_lua_at[OF r cur(1-3)])
  note t = lua_at_frame[OF a]
  have n: "?n \<le> 256" using frame_okD(2)[OF cur(3)] items by simp
  have v: "indexed (gs_items st) (-2) = Some (VLightUserdata b)"
      "indexed (gs_items st) (-1) = Some (VLong (word_of_int (int ?n)))"
    using items by (simp_all add: indexed_def nth_append)
  have ok: "frame_ok ?st"
    using frame_shrink[OF cur(3), of "VClosure func # args"] items by simp
  have pop: "lua_pop M 2 s = Ok () ?s1"
    using lua_pop_at[OF a, of "VClosure func # args" "[VLightUserdata b, VLong (word_of_int (int ?n))]"] items
    by simp
  have a1: "lua_at ?s1 M ?cs ?st" by (rule lua_at_with[OF a ok])
  have r1: "running ?s1 M c" using r by (simp add: running_def)
  have "leaves (heap_grows r) (lua_call exec M (int ?n) LUA_MULTRET ?s1)"
    by (rule grows.api_calls(1)) (use g grows_with_frame in \<open>simp_all\<close>)
  moreover obtain w where w: "lua_call exec M (int ?n) LUA_MULTRET ?s1 = Ok () w" "coros w = coros s"
      "coroutinesStack w = coroutinesStack s" "cstates w ?cs = Some (with_stack st (results (length vs) k vs))"
      "VNotPresent \<notin> set vs"
    using lua_call_returns[where exec = exec and L = M and front = "[]" and nresults = LUA_MULTRET,
        OF r1 l room, of ?st func args cl k vs "length vs"] m cur(1,4,5) ok f x
      callee_returns_heap[of s ?s1 "exec M"] same_heap_refl[of s]
    by (auto simp: LUA_MULTRET_def always_mem_def)
  ultimately have "heap_grows r w" by simp
  then obtain u' where u': "udatas w b = Some u'" using g(3) by (auto simp: heap_grows_def with_frame_def)
  have "VNotPresent \<notin> set (results (length vs) k vs)" by (rule results_present[OF w(5)])
  then have "frame_ok (with_stack st (results (length vs) k vs))"
    using x(2) by (intro frame_ok_with_stack) simp_all
  then have "lua_at w M ?cs (with_stack st (results (length vs) k vs))"
    using w(2,4) a by (auto simp: lua_at_def)
  note top = lua_at_frame(2)[OF this]
  have fn: "lua_isfunction M 1 ?s1 = Ok True ?s1"
    using type_at[OF a1, of 1 "VClosure func" LUA_TFUNCTION] frame_okD(2)[OF ok]
    by (simp add: lua_isfunction_def has_type_def indexed_def)
  show ?thesis
    using running_executing(1)[OF r] t(2) items value_at_index[OF a v(1)] value_at_index[OF a v(2)] box pop fn w top u'
      exec_small_int[OF n]
    by (simp add: trampoline_def lua_topointer_def lua_tonumber_def lua_tonumberx_def value_get_unique_ptr_def
        checkPresent_def value_todouble_def store_int_def)
qed

subsection \<open>Resuming\<close>

text \<open>A thread that has not run yet, with its main function and arguments moved to it.\<close>

definition fresh_thread :: "vm \<Rightarrow> addr \<Rightarrow> addr \<Rightarrow> nat \<Rightarrow> addr \<Rightarrow> closure \<Rightarrow> value list \<Rightarrow> bool" where
  "fresh_thread s M cs tramp func cl args \<longleftrightarrow>
     (\<exists>d st tcl. coros s M = Some d \<and> new_coroutine d cs \<and> co_fiber d = Some fiber_new \<and>
        cstates s cs = Some st \<and> frame_ok st \<and> gs_items st = VClosure func # args \<and>
        closures s (cs_closure st) = Some tcl \<and> cl_prototype tcl = None \<and> cl_func tcl = Some tramp) \<and>
     closures s func = Some cl \<and> cs < brk s"

lemma resume_pushes:
  assumes a: "lua_at s M cs st" and m: "always_mem s" and n: "length (gs_items st) < 255"
  obtains u where "ud_data u = Some (brk s)"
    "rbind (lua_pushlightuserdata M p s) (\<lambda>_ s. lua_pushinteger M w s) =
       Ok () (with_frame (s\<lparr>brk := Suc (brk s), udatas := (udatas s)(brk s \<mapsto> u)\<rparr>) cs
         (with_stack st (gs_items st @ [VLightUserdata (brk s), VLong w])))"
    "lua_at (with_frame (s\<lparr>brk := Suc (brk s), udatas := (udatas s)(brk s \<mapsto> u)\<rparr>) cs
         (with_stack st (gs_items st @ [VLightUserdata (brk s), VLong w]))) M cs
         (with_stack st (gs_items st @ [VLightUserdata (brk s), VLong w]))"
proof -
  define u where "u = \<lparr>ud_data = Some (brk s), ud_cell = Some p, ud_gcData = None, ud_isFull = False,
    ud_moduleID = luaModuleID s, ud_typeID = luaUserdataType s\<rparr>"
  let ?s1 = "s\<lparr>brk := Suc (brk s), udatas := (udatas s)(brk s \<mapsto> u)\<rparr>"
  let ?st = "with_stack st (gs_items st @ [VLightUserdata (brk s)])"
  have a1: "lua_at ?s1 M cs st" using a by (simp add: lua_at_def)
  note p1 = pushed_at[OF a1 _, of "VLightUserdata (brk s)"]
  have n1: "length (gs_items ?st) < 256" "gs_items ?st = gs_items st @ [VLightUserdata (brk s)]"
    using n frame_okD(2)[OF lua_at_frame(4)[OF p1(3)]] by simp_all
  note p2 = pushed_at[OF p1(3) n1(1), of "VLong w"]
  have v: "value_new_light_userdata s (luaModuleID s) (luaUserdataType s) p = Ok (VLightUserdata (brk s)) ?s1"
    using m by (simp add: value_new_light_userdata_def value_new_full_userdata_def gc_alloc_def always_mem_def u_def)
  show ?thesis
    using that[of u] pushed_at(1)[OF a _, of VNil] v p1 p2 n n1
    by (simp add: lua_pushlightuserdata_def lua_pushinteger_def value_new_long_def u_def)
qed

lemma entry_runs:
  assumes r: "running s M d" and d: "frames d = [cs]" "\<not> co_callStackLock d" "co_fiber d = Some f"
    and st: "cstates s cs = Some st" "closures s (cs_closure st) = Some tcl" "cl_prototype tcl = None"
      "cl_func tcl = Some tramp"
    and h: "host tramp cs (cl_udata tcl) (s\<lparr>coros := (coros s)(M \<mapsto> d\<lparr>co_errorHandler := Some 0\<rparr>)\<rparr>) = Ok k t"
      "coros t = (coros s)(M \<mapsto> d\<lparr>co_errorHandler := Some 0\<rparr>)" "coroutinesStack t = coroutinesStack s"
  obtains d' where
    "entryPoint (interpreter_exec host ex (Suc n)) M s = Ok () (t\<lparr>coros := (coros s)(M \<mapsto> d')\<rparr>)"
    "frames d' = []" "co_currentCallState d' = None" "co_hasError d' = co_hasError d"
    "co_fiber d' = Some (entryPoint_finish f)" "co_errorHandler d' = None"
proof -
  let ?d = "d\<lparr>co_errorHandler := Some 0\<rparr>"
  let ?s = "s\<lparr>coros := (coros s)(M \<mapsto> ?d)\<rparr>"
  have c: "coros s M = Some d" using r by (simp add: running_def)
  have rt: "running t M ?d" using r h by (simp add: running_def coro_ok_def)
  obtain c' where c': "coroutine_function_epilog t = Ok () (t\<lparr>coros := (coros t)(M \<mapsto> c')\<rparr>)" "coro_ok c'"
      "frames c' = []" "c' = ?d\<lparr>co_callStack := co_callStack c', co_currentCallState := co_currentCallState c'\<rparr>"
    by (rule epilog_pops[OF rt, of "[]" cs]) (use d in auto)
  have f: "co_fiber c' = Some f" "co_hasError c' = co_hasError d" by (subst c'(4), simp add: d)+
  have cur: "current_frame M ?s = Ok (cs, st, tcl) ?s"
    using r d st by (simp add: current_frame_def running_def coro_ok_def)
  have task: "coroutine_task (interpreter_exec host ex (Suc n)) M s =
      Ok () (t\<lparr>coros := (coros s)(M \<mapsto> c'\<lparr>co_errorHandler := None\<rparr>)\<rparr>)"
    using c cur st(3,4) h(1,2) c'(1) by (simp add: coroutine_task_def modify_coro_Some)
  show ?thesis
    using task f c'(2,3)
    by (intro that[of "c'\<lparr>co_errorHandler := None, co_fiber := Some (entryPoint_finish f)\<rparr>"])
       (simp_all add: entryPoint_def get_fiber_def set_fiber_def modify_coro_Some coro_ok_def)
qed

lemma resume_body:
  assumes n: "stk_ok (coroutinesStack s)"
      "length (stk_items (coroutinesStack s)) < nat (stk_size (coroutinesStack s))"
    and d: "coros s M = Some d" "co_fiber d = Some fiber_new"
    and body: "\<And>st. stk_ok st \<Longrightarrow> stk_items st = stk_items (coroutinesStack s) @ [M] \<Longrightarrow> \<exists>t d'.
      body M (s\<lparr>coroutinesStack := st, coros := (coros s)(M \<mapsto>
        d\<lparr>co_fiber := Some (fiber_new\<lparr>fb_state := FIBER_RUNNING\<rparr>)\<rparr>)\<rparr>) = Ok () t \<and> coroutinesStack t = st \<and>
      coros t = (coros s)(M \<mapsto> d') \<and> co_fiber d' = Some (entryPoint_finish (fiber_new\<lparr>fb_state := FIBER_RUNNING\<rparr>)) \<and>
      Q t d'"
  obtains t d' where "Q t d'" "coros t = (coros s)(M \<mapsto> d')"
    "coroutine_resume body M s = Ok (\<not> co_hasError d') (t\<lparr>coroutinesStack := coroutinesStack s,
       coros := (coros s)(M \<mapsto> d'\<lparr>co_fiber := Some \<lparr>fb_state = FIBER_DEAD, fb_task = False, fb_stack = False\<rparr>\<rparr>)\<rparr>)"
proof -
  obtain st where st: "fluffyvm_push_current_coroutine M s = Ok True (s\<lparr>coroutinesStack := st\<rparr>)" "stk_ok st"
      "stk_items st = stk_items (coroutinesStack s) @ [M]" "stk_size st = stk_size (coroutinesStack s)"
    by (rule push_current_room[OF n])
  obtain t d' where t: "body M (s\<lparr>coroutinesStack := st, coros := (coros s)(M \<mapsto>
        d\<lparr>co_fiber := Some (fiber_new\<lparr>fb_state := FIBER_RUNNING\<rparr>)\<rparr>)\<rparr>) = Ok () t" "coroutinesStack t = st"
      "coros t = (coros s)(M \<mapsto> d')" "Q t d'"
      "co_fiber d' = Some (entryPoint_finish (fiber_new\<lparr>fb_state := FIBER_RUNNING\<rparr>))"
    using body[OF st(2,3)] by blast
  let ?d = "d'\<lparr>co_fiber := Some \<lparr>fb_state = FIBER_DEAD, fb_task = False, fb_stack = False\<rparr>\<rparr>"
  have "fiber_resume body M (s\<lparr>coroutinesStack := st\<rparr>) = Ok (True, FIBER_SUSPENDED) (t\<lparr>coros := (coros s)(M \<mapsto> ?d)\<rparr>)"
    using d t by (simp add: fiber_resume_def get_fiber_def set_fiber_def modify_coro_Some fiber_new_def
        fiber_resume_enter_def fiber_resume_leave_def entryPoint_finish_def)
  moreover have "fluffyvm_pop_current_coroutine (t\<lparr>coros := (coros s)(M \<mapsto> ?d)\<rparr>) =
      Ok () (t\<lparr>coros := (coros s)(M \<mapsto> ?d), coroutinesStack := coroutinesStack s\<rparr>)"
    using nest_pop[OF n(1) st(2) _ st(3,4), of "t\<lparr>coros := (coros s)(M \<mapsto> ?d)\<rparr>"] t(2) by simp
  ultimately show ?thesis using st(1) by (intro that[OF t(4,3)]) (simp add: coroutine_resume_def)
qed

text \<open>What the coroutine of a fresh thread does once the fiber runs.\<close>

definition thread_over :: "addr \<Rightarrow> value list \<Rightarrow> vm \<Rightarrow> coroutine \<Rightarrow> bool" where
  "thread_over cs vs t d \<longleftrightarrow> frames d = [] \<and> co_currentCallState d = None \<and> \<not> co_hasError d \<and>
     (\<exists>e. cstates t cs = Some e \<and> gs_items e = vs)"

lemma thread_body_runs:
  assumes d: "coros s M = Some d" "new_coroutine d cs" and m: "always_mem s"
    and st: "cstates s cs = Some st" "frame_ok st" "cs < brk s" "closures s (cs_closure st) = Some tcl"
      "gs_items st = VClosure func # args @ [VLightUserdata b, VLong (word_of_int (int (length args)))]"
    and f: "closures s func = Some cl" "cl_prototype tcl = None" "cl_func tcl = Some tramp"
    and box: "udatas s b = Some u" "ud_data u = Some b"
    and h: "\<And>u s. host tramp cs u s = trampoline ex exec s"
    and x: "callee_returns (exec M) s 2 M func cl cs (brk s) args k vs" "length vs < 256"
    and g: "\<And>r co s. heap_grows r s \<Longrightarrow> leaves (heap_grows r) (exec co s)"
    and stk: "stk_ok stk" "stk_items stk = xs @ [M]"
  shows "\<exists>t d'. entryPoint (interpreter_exec host ex (Suc i)) M (s\<lparr>coroutinesStack := stk, coros := (coros s)(M \<mapsto>
        d\<lparr>co_fiber := Some (fiber_new\<lparr>fb_state := FIBER_RUNNING\<rparr>)\<rparr>)\<rparr>) = Ok () t \<and> coroutinesStack t = stk \<and>
      coros t = (coros s)(M \<mapsto> d') \<and> co_fiber d' = Some (entryPoint_finish (fiber_new\<lparr>fb_state := FIBER_RUNNING\<rparr>)) \<and>
      thread_over cs (results (length vs) k vs) t d'"
proof -
  let ?d = "d\<lparr>co_fiber := Some (fiber_new\<lparr>fb_state := FIBER_RUNNING\<rparr>)\<rparr>"
  let ?d2 = "?d\<lparr>co_errorHandler := Some 0\<rparr>"
  let ?s = "s\<lparr>coroutinesStack := stk, coros := (coros s)(M \<mapsto> ?d)\<rparr>"
  let ?s2 = "?s\<lparr>coros := (coros ?s)(M \<mapsto> ?d2)\<rparr>"
  have r: "running ?s M ?d" "running ?s2 M ?d2"
    using stk d(2) by (simp_all add: running_def new_coroutine_def coro_ok_def)
  have fr: "frames ?d = [cs]" "\<not> co_callStackLock ?d" using d(2) by (simp_all add: new_coroutine_def)
  have l: "last (frames ?d2) = cs" using fr(1) by simp
  have ok: "heap_grows s ?s2" using d(1) by (auto simp: heap_grows_def)
  have bx: "udatas ?s2 b = Some u" "b \<in> dom (udatas s)" using box(1) by auto
  have "same_heap s ?s2" by (simp add: same_heap_def)
  note x' = x(1)[folded callee_returns_heap[OF this], unfolded numeral_2_eq_2]
  have "\<exists>t. trampoline ex exec ?s2 = Ok 0 t \<and> coros t = coros ?s2 \<and> coroutinesStack t = coroutinesStack ?s2 \<and>
      cstates t (last (frames ?d2)) = Some (with_stack st (results (length vs) k vs))"
    by (rule trampoline_runs[where exec = exec and r = s, OF r(2) _ _ _ _ _ st(2) _ _ _ bx(1) box(2) _ _ x(2) g ok bx(2)])
       (use fr st f x' m in \<open>simp_all add: config_defs always_mem_def\<close>)
  then obtain t where t: "trampoline ex exec ?s2 = Ok 0 t" "coros t = (coros ?s)(M \<mapsto> ?d2)"
      "coroutinesStack t = coroutinesStack ?s" "cstates t cs = Some (with_stack st (results (length vs) k vs))"
    unfolding l by auto
  have e: "co_fiber ?d = Some (fiber_new\<lparr>fb_state := FIBER_RUNNING\<rparr>)" "cstates ?s cs = Some st"
      "closures ?s (cs_closure st) = Some tcl" "host tramp cs (cl_udata tcl) ?s2 = Ok 0 t"
    using st t(1) h by simp_all
  obtain d' where d': "entryPoint (interpreter_exec host ex (Suc i)) M ?s = Ok () (t\<lparr>coros := (coros ?s)(M \<mapsto> d')\<rparr>)"
      "frames d' = []" "co_currentCallState d' = None" "co_hasError d' = co_hasError ?d"
      "co_fiber d' = Some (entryPoint_finish (fiber_new\<lparr>fb_state := FIBER_RUNNING\<rparr>))" "co_errorHandler d' = None"
    by (rule entry_runs[where host = host and tramp = tramp and s = ?s and M = M and d = ?d and t = t and k = 0,
        OF r(1) fr e(1-3) f(2,3) e(4) t(2,3)])
  show ?thesis
    using d' t d(2)
    by (intro exI[of _ "t\<lparr>coros := (coros ?s)(M \<mapsto> d')\<rparr>"] exI[of _ d'])
       (simp add: new_coroutine_def thread_over_def)
qed

lemma resume_runs:
  assumes L: "lua_at s L csL stL" "int (length (gs_items stL)) + 8 + int (length args) \<le> 256"
    and n: "stk_ok (coroutinesStack s)"
      "length (stk_items (coroutinesStack s)) < nat (stk_size (coroutinesStack s))"
    and m: "always_mem s" and M: "fresh_thread s M cs tramp func cl args"
    and h: "\<And>u s. host tramp cs u s = trampoline ex exec s"
    and x: "callee_returns (exec M) s 2 M func cl cs (Suc (brk s)) args k vs" "length vs < 256"
    and g: "\<And>r co s. heap_grows r s \<Longrightarrow> leaves (heap_grows r) (exec co s)"
  shows "\<exists>t d. lua_resume (entryPoint (interpreter_exec host ex (Suc i))) L M (int (length args)) p s = Ok LUA_OK t \<and>
     coroutinesStack t = coroutinesStack s \<and> coros t = (coros s)(M \<mapsto> d) \<and>
     thread_over cs (results (length vs) k vs) t d \<and>
     co_fiber d = Some \<lparr>fb_state = FIBER_DEAD, fb_task = False, fb_stack = False\<rparr>"
proof -
  let ?n = "length args" and ?body = "entryPoint (interpreter_exec host ex (Suc i))"
  obtain d st tcl where d: "coros s M = Some d" "new_coroutine d cs" "co_fiber d = Some fiber_new"
      "cstates s cs = Some st" "frame_ok st" "gs_items st = VClosure func # args"
      "closures s (cs_closure st) = Some tcl" "cl_prototype tcl = None" "cl_func tcl = Some tramp"
    and f: "closures s func = Some cl" "cs < brk s"
    using M unfolding fresh_thread_def by blast
  have nargs: "?n \<le> 248" using L(2) by simp
  have a: "lua_at s M cs st" using d by (simp add: lua_at_def new_coroutine_def)
  let ?st = "with_stack st (gs_items st @ [VLightUserdata (brk s), VLong (word_of_int (int ?n))])"
  obtain b where b: "ud_data b = Some (brk s)"
      "rbind (lua_pushlightuserdata M p s) (\<lambda>_ s. lua_pushinteger M (word_of_int (int ?n)) s) =
       Ok () (with_frame (s\<lparr>brk := Suc (brk s), udatas := (udatas s)(brk s \<mapsto> b)\<rparr>) cs ?st)"
      "lua_at (with_frame (s\<lparr>brk := Suc (brk s), udatas := (udatas s)(brk s \<mapsto> b)\<rparr>) cs ?st) M cs ?st"
    by (rule resume_pushes[OF a m, of p "word_of_int (int ?n)"]) (use nargs d(6) in simp_all)
  define s1 where "s1 = with_frame (s\<lparr>brk := Suc (brk s), udatas := (udatas s)(brk s \<mapsto> b)\<rparr>) cs ?st"
  have s1: "coros s1 = coros s" "coroutinesStack s1 = coroutinesStack s" "always_mem s1" "closures s1 = closures s"
      "cstates s1 cs = Some ?st" "brk s1 = Suc (brk s)" "udatas s1 (brk s) = Some b"
    using m by (simp_all add: s1_def always_mem_def) (simp add: with_frame_def)
  have "same_heap s s1" by (simp add: s1_def) (simp add: same_heap_def)
  note x' = x(1)[folded callee_returns_heap[OF this]]
  obtain t d' where t: "thread_over cs (results (length vs) k vs) t d'" "coros t = (coros s1)(M \<mapsto> d')"
    "coroutine_resume ?body M s1 = Ok (\<not> co_hasError d') (t\<lparr>coroutinesStack := coroutinesStack s1,
       coros := (coros s1)(M \<mapsto> d'\<lparr>co_fiber := Some \<lparr>fb_state = FIBER_DEAD, fb_task = False, fb_stack = False\<rparr>\<rparr>)\<rparr>)"
    by (rule resume_body[where Q = "thread_over cs (results (length vs) k vs)" and d = d and body = ?body,
          OF _ _ _ d(3) thread_body_runs[where exec = exec and func = func and args = args and tcl = tcl
          and k = k and vs = vs and host = host, OF _ d(2) s1(3,5) lua_at_frame(4)[OF b(3)] _ _ _ _ d(8,9) s1(7) b(1) h _ x(2) g]])
       (use n s1 d f x' in simp_all)
  have "ensureStackFits L (8 + int ?n) s = Ok () s" using L by (intro ensure_room) simp_all
  moreover have "int_ok (8 + int ?n)" using nargs by (simp add: int_ok_def INT_MIN_def INT_MAX_def)
  moreover obtain s0 where "lua_pushlightuserdata M p s = Ok () s0"
      "lua_pushinteger M (word_of_int (int ?n)) s0 = Ok () s1"
    using b(2) unfolding s1_def by (auto simp: rbind_Ok_iff simp del: of_int_of_nat_eq)
  ultimately have "lua_resume ?body L M (int ?n) p s = Ok LUA_OK (t\<lparr>coroutinesStack := coroutinesStack s1,
      coros := (coros s1)(M \<mapsto> d'\<lparr>co_fiber := Some \<lparr>fb_state = FIBER_DEAD, fb_task = False, fb_stack = False\<rparr>\<rparr>)\<rparr>)"
    using t(1,3) by (simp add: lua_resume_def thread_over_def)
  then show ?thesis using t(1) s1(1,2) by (auto simp: thread_over_def)
qed

text \<open>
  C10. Resuming a new thread runs its main function: with room on both stacks and on the nesting,
  \<open>lua_resume\<close> hands the arguments to the function \<open>trampoline\<close> the thread starts with, which calls
  the main function and counts its results. If that function returns, the status is \<open>LUA_OK\<close>, the
  nesting and every other coroutine are as before and the coroutine is over. The results lie on the
  stack of a frame that was popped: the first call that reads them dereferences a null pointer.
\<close>

theorem lua_resume_runs_thread:
  assumes "lua_at s L csL stL" and "int (length (gs_items stL)) + 8 + int (length args) \<le> 256"
    and "stk_ok (coroutinesStack s)" and "length (stk_items (coroutinesStack s)) < nat (stk_size (coroutinesStack s))"
    and "always_mem s" and "fresh_thread s M cs tramp func cl args"
    and "\<And>u s. host tramp cs u s = trampoline ex exec s"
    and "callee_returns (exec M) s 2 M func cl cs (Suc (brk s)) args k vs" and "length vs < 256"
    and "\<And>r co s. heap_grows r s \<Longrightarrow> leaves (heap_grows r) (exec co s)"
  shows "\<exists>t d. lua_resume (entryPoint (interpreter_exec host ex (Suc i))) L M (int (length args)) p s = Ok LUA_OK t \<and>
     coroutinesStack t = coroutinesStack s \<and> coros t = (coros s)(M \<mapsto> d) \<and> \<not> co_hasError d \<and>
     co_fiber d = Some \<lparr>fb_state = FIBER_DEAD, fb_task = False, fb_stack = False\<rparr> \<and>
     (\<exists>e. cstates t cs = Some e \<and> gs_items e = results (length vs) k vs) \<and> lua_gettop M t = Fault NullDeref"
proof -
  obtain t d where "lua_resume (entryPoint (interpreter_exec host ex (Suc i))) L M (int (length args)) p s = Ok LUA_OK t"
     "coroutinesStack t = coroutinesStack s" "coros t = (coros s)(M \<mapsto> d)"
     "thread_over cs (results (length vs) k vs) t d"
     "co_fiber d = Some \<lparr>fb_state = FIBER_DEAD, fb_task = False, fb_stack = False\<rparr>"
    using resume_runs[where exec = exec and host = host, OF assms] by blast
  then show ?thesis by (intro exI[of _ t] exI[of _ d]) (simp add: thread_over_def lua_gettop_def lua_frame_def)
qed

subsection \<open>Making a thread\<close>

lemma newthread_runs:
  assumes r: "running s L c" and a: "lua_at s L cs st" and L: "L < brk s" "cs < brk s"
    and items: "length (gs_items st) < 256" and m: "always_mem s"
    and room: "length (stk_items (coroutinesStack s)) < nat (stk_size (coroutinesStack s))"
    and tc: "coroutineTrampoline s = Some tc" "closures s tc = Some tcl"
  obtains t d csM where "lua_newthread L s = Ok (brk s) t" "coros t = (coros s)(brk s \<mapsto> d)"
    "new_coroutine d csM" "co_fiber d = Some fiber_new" "brk s < csM" "csM < brk t"
    "cstates t = (cstates s)(csM \<mapsto> new_call_state tc (brk s) (cl_func tcl \<noteq> None),
       cs \<mapsto> with_stack st (gs_items st @ [VCoroutine (brk s)]))"
    "t = s\<lparr>coros := coros t, cstates := cstates t, brk := brk t\<rparr>"
    "lua_at t L cs (with_stack st (gs_items st @ [VCoroutine (brk s)]))"
proof -
  have n: "stk_ok (coroutinesStack s)" using r by (simp add: running_def)
  obtain t d csM where t: "coroutine_new tc s = Ok (Some (brk s)) t" "coros t = (coros s)(brk s \<mapsto> d)"
      "new_coroutine d csM" "co_fiber d = Some fiber_new"
      "cstates t = (cstates s)(csM \<mapsto> new_call_state tc (brk s) (cl_func tcl \<noteq> None))"
      "t = s\<lparr>coros := coros t, cstates := cstates t, brk := brk t\<rparr>" "brk s < csM" "csM < brk t"
    by (rule coroutine_new_ok[OF m n room tc(2)])
  have a1: "lua_at t L cs st" using a L t(2,5,7) by (auto simp: lua_at_def)
  note p = pushed_at[OF a1 items, of "VCoroutine (brk s)"]
  let ?t = "with_frame t cs (with_stack st (gs_items st @ [VCoroutine (brk s)]))"
  have "lua_newthread L s = Ok (brk s) ?t"
    using pushed_at(1)[OF a items, of VNil] tc t(1) p(2) by (simp add: lua_newthread_def value_new_coroutine_def)
  moreover have "?t = s\<lparr>coros := coros ?t, cstates := cstates ?t, brk := brk ?t\<rparr>"
    by (subst t(6)) (simp add: with_frame_def)
  ultimately show ?thesis using t p(3) by (intro that[of ?t d csM]) simp_all
qed

text \<open>One value is moved.\<close>

lemma xmove_one:
  assumes "lua_at s L cs st" and "lua_at s M cs' st'" and "cs \<noteq> cs'"
    and "coros s M = Some d" and "co_fiber d = Some fiber_new"
    and "gs_items st = xs @ [v]" and "length (gs_items st') < 256"
  shows "lua_xmove L M 1 s = Ok () (with_frame (with_frame s cs' (with_stack st' (gs_items st' @ [v]))) cs
    (with_stack st xs))"
proof -
  note a = lua_at_frame[OF assms(1)] and b = lua_at_frame[OF assms(2)]
  have v: "v \<noteq> VNotPresent" using frame_okD(3)[OF a(4)] assms(6) by auto
  have cell: "stack_cell cs (int (length xs)) s = Ok v s"
    using stack_cell_item[OF a(3,4), of "length xs"] assms(6) by simp
  let ?s = "with_frame s cs' (with_stack st' (gs_items st' @ [v]))"
  have push: "push_cells L M [int (length xs)] s = Ok () ?s"
    using a(1) cell push_top_room[OF assms(2,7) v] by simp
  have "lua_at ?s L cs st" using assms(1,3) by (auto simp: lua_at_def)
  then have pop: "lua_pop L 1 ?s = Ok () (with_frame ?s cs (with_stack st xs))"
    using lua_pop_at[of ?s L cs st xs "[v]"] assms(6) by simp
  have "lua_checkstack M 1 s = Ok True s"
    using b(1) frame_cells[OF b(4)] frame_okD(1)[OF b(4)] assms(7)
    by (simp add: lua_checkstack_def int_ok_def INT_MIN_def INT_MAX_def)
  then show ?thesis
    using assms(4-6) a(2) push pop by (simp add: lua_xmove_def get_fiber_def fiber_new_def Let_def)
qed

text \<open>What the routine of a thread makes before it resumes: a fresh thread with the program to run.\<close>

lemma program_moved:
  assumes r: "running s L c" and a: "lua_at s L cs st" and L: "L < brk s" "cs < brk s"
    and items: "length (gs_items st) < 255" and m: "always_mem s"
    and room: "length (stk_items (coroutinesStack s)) < nat (stk_size (coroutinesStack s))"
    and tc: "coroutineTrampoline s = Some tc" "closures s tc = Some tcl" "cl_prototype tcl = None"
      "cl_func tcl = Some tramp"
    and f: "closures s func = Some cl"
  obtains t1 t2 t3 csM where "lua_newthread L s = Ok (brk s) t1" "push_top L (value_new_closure func) t1 = Ok () t2"
    "lua_xmove L (brk s) 1 t2 = Ok () t3" "fresh_thread t3 (brk s) csM tramp func cl []"
    "coros t3 = (coros s)(brk s \<mapsto> the (coros t3 (brk s)))" "coroutinesStack t3 = coroutinesStack s"
    "always_mem t3" "lua_at t3 L cs (with_stack st (gs_items st @ [VCoroutine (brk s)]))" "same_heap s t3"
proof -
  let ?M = "brk s" and ?items = "gs_items st @ [VCoroutine (brk s)]"
  obtain t d csM where t: "lua_newthread L s = Ok ?M t" "coros t = (coros s)(?M \<mapsto> d)"
    "new_coroutine d csM" "co_fiber d = Some fiber_new" "?M < csM" "csM < brk t"
    "cstates t = (cstates s)(csM \<mapsto> new_call_state tc ?M (cl_func tcl \<noteq> None), cs \<mapsto> with_stack st ?items)"
    "t = s\<lparr>coros := coros t, cstates := cstates t, brk := brk t\<rparr>" "lua_at t L cs (with_stack st ?items)"
    by (rule newthread_runs[OF r a L _ m room tc(1,2)]) (use items in simp_all)
  have st: "coroutinesStack t = coroutinesStack s" "closures t = closures s" "always_mem t"
    "same_heap s t"
    using m by (subst t(8), simp add: always_mem_def same_heap_def)+
  have ne: "cs \<noteq> csM" "L \<noteq> ?M" using L t(5) by auto
  have v: "VClosure func \<noteq> VNotPresent" by simp
  note p = pushed_at[OF t(9) _ v]
  let ?new = "new_call_state tc ?M (cl_func tcl \<noteq> None)"
  let ?t2 = "with_frame t cs (with_stack st (?items @ [VClosure func]))"
  have M: "lua_at ?t2 ?M csM ?new" using t(2,3,7) ne by (auto simp: lua_at_def new_coroutine_def)
  have t2: "lua_at ?t2 L cs (with_stack st (?items @ [VClosure func]))" using p(3) items by simp
  let ?t3 = "with_frame (with_frame ?t2 csM (with_stack ?new [VClosure func])) cs (with_stack st ?items)"
  have x: "lua_xmove L ?M 1 ?t2 = Ok () ?t3"
    using xmove_one[OF t2 M ne(1), of d ?items "VClosure func"] t(2,4) by simp
  have ok: "frame_ok (with_stack ?new [VClosure func])" by (intro frame_ok_with_stack) simp_all
  have "fresh_thread ?t3 ?M csM tramp func cl []"
    unfolding fresh_thread_def using t(2-4,6) ne st(2) tc f ok
    by (auto intro!: exI[of _ d] exI[of _ "with_stack ?new [VClosure func]"] exI[of _ tcl])
  moreover have "lua_at ?t3 L cs (with_stack st ?items)" using t(9) ne by (auto simp: lua_at_def)
  ultimately show ?thesis
    using t(1,2) p(2) x st items by (intro that[of t ?t2 ?t3 csM]) (simp_all add: value_new_closure_def always_mem_def)
qed

subsection \<open>The routine of a thread\<close>

lemma wf_lua_at:
  assumes "vm_wf t" and "coros t L = Some c" and "co_currentCallState c = Some cs"
  obtains st where "lua_at t L cs st"
proof -
  have "cs \<in> set (frames c)"
    using vm_wfD(2)[OF assms(1,2)] assms(3) by (auto simp: coro_ok_def split: if_splits)
  then obtain st where "cstates t cs = Some st" using vm_wfD(3)[OF assms(1,2)] by blast
  moreover have "frame_ok st" using vm_wfD(1)[OF assms(1) calculation] by (simp add: frame_wf_def)
  ultimately show ?thesis using assms(2,3) by (intro that[of st]) (simp add: lua_at_def)
qed

lemma pop_all_at:
  assumes "lua_at s L cs st"
  shows "pop_all L s = Ok () (with_frame s cs (with_stack st []))"
    "lua_gettop L (with_frame s cs (with_stack st [])) = Ok 0 (with_frame s cs (with_stack st []))"
proof -
  show "pop_all L s = Ok () (with_frame s cs (with_stack st []))"
    using lua_at_frame(2)[OF assms] lua_pop_at[OF assms, of "[]" "gs_items st"] by (simp add: pop_all_def)
  have "lua_at (with_frame s cs (with_stack st [])) L cs (with_stack st [])"
    by (intro lua_at_with[OF assms] frame_ok_with_stack) simp_all
  then show "lua_gettop L (with_frame s cs (with_stack st [])) = Ok 0 (with_frame s cs (with_stack st []))"
    using lua_at_frame(2) by fastforce
qed

lemma wf_pop_all [wf_intros]: "vm_wf s \<Longrightarrow> leaves vm_wf (pop_all L s)"
  unfolding pop_all_def by (auto intro!: leaves_rbind wf_intros)

lemma wf_routine_error [wf_intros]: "vm_wf s \<Longrightarrow> leaves vm_wf (routine_error L s)"
  unfolding routine_error_def string_arg_def
  by (auto intro!: leaves_rbind wf_intros split: option.split)

lemma wf_iterate_call_stack [wf_intros]:
  assumes "vm_wf s" and "\<And>f s. vm_wf s \<Longrightarrow> leaves vm_wf (consumer f s)"
  shows "leaves vm_wf (coroutine_iterate_call_stack co backward consumer s)"
proof -
  have fr: "leaves vm_wf (frame_of pos st cl s)" if "vm_wf s" for pos st cl s
    using that by (auto simp: frame_of_def intro!: leaves_rbind wf_intros split: option.split)
  have "leaves vm_wf (iterate_frames co consumer ps s)" if "vm_wf s" for ps s
    using that
  proof (induction ps arbitrary: s)
    case (Cons p ps)
    then show ?case by (auto intro!: leaves_rbind wf_intros fr assms(2) split: option.split)
  qed simp
  then show ?thesis
    using assms(1) unfolding coroutine_iterate_call_stack_def by (auto simp: Let_def intro!: leaves_rbind wf_intros)
qed

lemma wf_stacktrace [wf_intros]: "vm_wf s \<Longrightarrow> leaves vm_wf (stdlib_print_stacktrace co s)"
  unfolding stdlib_print_stacktrace_def
  by (auto simp: print_frame_def c_text_def intro!: leaves_rbind wf_intros split: option.split)

lemma wf_run_closure:
  assumes "\<And>co s. vm_wf s \<Longrightarrow> leaves vm_wf (exec co s)" and "vm_wf s"
  shows "leaves vm_wf (run_closure exec L func s)"
  unfolding run_closure_def string_arg_def
  by (auto intro!: leaves_rbind wf_intros assms split: option.split)

lemma gettop_cleared: "lua_gettop L s = Ok n s \<Longrightarrow> lua_gettop L (fluffyvm_clear_errmsg s) = Ok n (fluffyvm_clear_errmsg s)"
  by (auto simp: lua_gettop_def lua_frame_def fluffyvm_clear_errmsg_def deref_def
      split: option.splits)

text \<open>The loader of \<open>main.c\<close> leaves the control state alone.\<close>

lemma wf_json_load [wf_intros]:
  assumes "vm_wf s"
  shows "leaves vm_wf (bytecode_loader_json_load parse pack unpack locked buffer s)"
proof -
  have str: "vm_wf t" if "value_new_string s b = (v, t)" "vm_wf s" for s b v t
    by (rule keeps_wf[OF keeps_new_string(1)[OF that(1) keeps_refl] that(2)])
  have e: "leaves vm_wf (load_error b msg s)" if "vm_wf s" for b msg s
    using that str by (auto simp: load_error_def Let_def split: prod.split)
  show ?thesis
    using assms e unfolding bytecode_loader_json_load_def
    by (auto simp: Let_def intro!: leaves_rbind wf_load(1) split: option.split)
qed

text \<open>What a routine leaves when it ends.\<close>

definition cleaned :: "addr \<Rightarrow> vm \<Rightarrow> bool" where
  "cleaned L t \<longleftrightarrow> lua_gettop L t = Ok 0 t \<and> errMsg t = None \<and> vm_wf t"

lemma cleared: "lua_gettop L s = Ok 0 s \<Longrightarrow> vm_wf s \<Longrightarrow> cleaned L (fluffyvm_clear_errmsg s)"
  using gettop_cleared[of L s 0] keeps_wf[of s "fluffyvm_clear_errmsg s"] keeps_errmsg(3)[of s s] keeps_refl[of s]
  by (simp add: cleaned_def) (simp add: fluffyvm_clear_errmsg_def fluffyvm_set_errmsg_def)

lemma pop_all_empties:
  assumes "vm_wf s" and "pop_all L s = Ok () t"
  shows "lua_gettop L t = Ok 0 t" "vm_wf t"
proof -
  obtain c cs where "coros s L = Some c" "co_currentCallState c = Some cs"
    using assms(2) by (auto simp: pop_all_def lua_gettop_def lua_frame_def res_simps split: option.splits)
  then obtain st where "lua_at s L cs st" by (rule wf_lua_at[OF assms(1)])
  then show "lua_gettop L t = Ok 0 t" using pop_all_at assms(2) by fastforce
  show "vm_wf t" using wf_pop_all[OF assms(1), of L] assms(2) by simp
qed

lemma routine_error_cleans:
  assumes "vm_wf s" and "routine_error L s = Ok () t"
  shows "cleaned L t"
proof -
  obtain u where u: "pop_all L s = Ok () u" "t = fluffyvm_clear_errmsg u"
    using assms(2) by (auto simp: routine_error_def string_arg_def value_get_string_def checkPresent_def res_simps
        split: if_splits option.splits "value.splits")
  then show ?thesis using pop_all_empties[OF assms(1)] cleared by simp
qed

text \<open>What the routine does until the thread is resumed gives the thread and its status.\<close>

definition start_closure :: "(addr \<Rightarrow> vm \<Rightarrow> (int, vm) res) \<Rightarrow> addr \<Rightarrow> addr \<Rightarrow> vm \<Rightarrow> (addr \<times> int, vm) res" where
  "start_closure exec L func s = rbind (lua_newthread L s) (\<lambda>M s.
     rbind (push_top L (value_new_closure func) s) (\<lambda>_ s. rbind (lua_xmove L M 1 s) (\<lambda>_ s.
     rbind (lua_resume (entryPoint exec) L M 0 0 s) (\<lambda>status s. Ok (M, status) s))))"

lemma run_closure_start:
  "run_closure exec L func s = rbind (start_closure exec L func s) (\<lambda>(M, status) s.
     if status \<noteq> LUA_OK then
       rbind (deref (coros s) M s) (\<lambda>d s. rbind (string_arg (co_thrownedError d) s) (\<lambda>_ s.
       rbind (stdlib_print_stacktrace M s) (\<lambda>_ s. routine_error L s)))
     else rbind (pop_all L s) (\<lambda>_ s. Ok () (fluffyvm_clear_errmsg s)))"
  by (simp add: run_closure_def start_closure_def rbind_assoc)

lemma wf_start_closure:
  assumes "\<And>co s. vm_wf s \<Longrightarrow> leaves vm_wf (exec co s)" and "vm_wf s"
  shows "leaves vm_wf (start_closure exec L func s)"
  unfolding start_closure_def by (auto intro!: leaves_rbind wf_intros assms)

lemma run_closure_cleans:
  assumes e: "\<And>co s. vm_wf s \<Longrightarrow> leaves vm_wf (exec co s)" and s: "vm_wf s"
    and run: "run_closure exec L func s = Ok () t"
  shows "cleaned L t"
proof -
  obtain M status s2 where s2: "start_closure exec L func s = Ok (M, status) s2"
      "(if status \<noteq> LUA_OK then rbind (deref (coros s2) M s2) (\<lambda>d s. rbind (string_arg (co_thrownedError d) s) (\<lambda>_ s.
        rbind (stdlib_print_stacktrace M s) (\<lambda>_ s. routine_error L s)))
      else rbind (pop_all L s2) (\<lambda>_ s. Ok () (fluffyvm_clear_errmsg s))) = Ok () t"
    using run by (auto simp: run_closure_start rbind_Ok_iff)
  have wf: "vm_wf s2" using wf_start_closure[of exec s L func, OF e s] s2(1) by simp
  show ?thesis
  proof (cases "status = LUA_OK")
    case True
    then show ?thesis using s2(2) pop_all_empties[OF wf] cleared by (auto simp: rbind_Ok_iff)
  next
    case False
    then obtain v u u' where u: "string_arg v s2 = Ok u' u"
        "rbind (stdlib_print_stacktrace M u) (\<lambda>_ s. routine_error L s) = Ok () t"
      using s2(2) by (auto simp: rbind_Ok_iff deref_Ok)
    have "leaves vm_wf (string_arg v s2)"
      unfolding string_arg_def by (auto intro!: leaves_rbind wf_intros wf split: option.split)
    then have "vm_wf u" using u(1) by simp
    then show ?thesis using u(2) wf_stacktrace[of u M] routine_error_cleans by (auto simp: rbind_Ok_iff)
  qed
qed

text \<open>
  C15. The routine of a thread cleans up, whatever the program does: when it ends, whether the
  program could not be loaded, returned, or stopped with an error, the stack of the thread's
  coroutine is empty, no error message is left and the control state is well formed.
\<close>

theorem thread_routine_cleans_up:
  assumes "vm_wf s" and w: "\<And>f cs u s. vm_wf s \<Longrightarrow> leaves vm_wf (host f cs u s)"
    and load: "\<And>s. vm_wf s \<Longrightarrow> leaves vm_wf (load s)"
    and "thread_routine load (interpreter_exec host ex n) s = Ok locked t"
  shows "\<exists>L. fluffyvm_get_executing_coroutine s = Ok (Some L) s \<and> cleaned L t"
proof -
  let ?exec = "interpreter_exec host ex n"
  obtain L c s1 where L: "fluffyvm_get_executing_coroutine s = Ok (Some L) s" "load_closure load s = Ok (locked, c) s1"
      "(case c of None \<Rightarrow> routine_error L s1 | Some c \<Rightarrow> run_closure ?exec L c s1) = Ok () t"
    using assms(4) vm_wfD(4)[OF assms(1)]
    by (auto simp: thread_routine_def fluffyvm_get_executing_coroutine_def stack_peek_items res_simps
        split: option.splits if_splits)
  have "leaves vm_wf (load_closure load s)"
    unfolding load_closure_def fluffyvm_get_global_def
    by (auto intro!: leaves_rbind load assms(1) wf_intros split: option.split)
  then have s1: "vm_wf s1" using L(2) by simp
  have "vm_wf s \<Longrightarrow> leaves vm_wf (?exec co s)" for co s by (rule wf_exec(1)) (use w in auto)
  then show ?thesis
    using L routine_error_cleans[OF s1] run_closure_cleans[of ?exec s1 L _ t, OF _ s1] by (cases c) auto
qed

text \<open>
  A program runs to its end: on a thread of a machine that has room, the routine of \<open>main.c\<close>
  that has loaded a function makes a new thread, moves the function to it, resumes it through the
  interpreter and the function \<open>trampoline\<close>, which calls it, and cleans up. If the function returns,
  so does the routine: the nesting and the coroutine of the thread are as before, its stack is
  empty, and the new coroutine is over, its frame popped and its fiber dead with its stack freed.
\<close>

theorem program_runs:
  assumes "fluffyvm_get_executing_coroutine s0 = Ok (Some L) s0" and "load_closure load s0 = Ok (locked, Some func) s"
    and wf: "vm_wf s" and w: "\<And>f cs u s. vm_wf s \<Longrightarrow> leaves vm_wf (host f cs u s)"
    and r: "running s L c" and a: "lua_at s L cs st" and L: "L < brk s" "cs < brk s"
    and room: "length (gs_items st) < 248" "always_mem s"
      "length (stk_items (coroutinesStack s)) < nat (stk_size (coroutinesStack s))"
    and tc: "coroutineTrampoline s = Some tc" "closures s tc = Some tcl" "cl_prototype tcl = None"
      "cl_func tcl = Some tramp" "\<And>cs u s. host tramp cs u s = trampoline ex exec s"
    and f: "closures s func = Some cl" "length vs < 256"
      "\<And>cs callee. callee_returns (exec (brk s)) s 2 (brk s) func cl cs callee [] k vs"
      "\<And>r co s. heap_grows r s \<Longrightarrow> leaves (heap_grows r) (exec co s)"
  shows "\<exists>t d. thread_routine load (interpreter_exec host ex (Suc i)) s0 = Ok locked t \<and> cleaned L t \<and>
     coroutinesStack t = coroutinesStack s \<and> coros t = (coros s)(brk s \<mapsto> d) \<and> frames d = [] \<and>
     co_fiber d = Some \<lparr>fb_state = FIBER_DEAD, fb_task = False, fb_stack = False\<rparr>"
proof -
  let ?exec = "interpreter_exec host ex (Suc i)"
  obtain t1 t2 t3 csM where t3: "lua_newthread L s = Ok (brk s) t1" "push_top L (value_new_closure func) t1 = Ok () t2"
    "lua_xmove L (brk s) 1 t2 = Ok () t3" "fresh_thread t3 (brk s) csM tramp func cl []"
    "coros t3 = (coros s)(brk s \<mapsto> the (coros t3 (brk s)))" "coroutinesStack t3 = coroutinesStack s"
    "always_mem t3" "lua_at t3 L cs (with_stack st (gs_items st @ [VCoroutine (brk s)]))" "same_heap s t3"
    by (rule program_moved[OF r a L _ room(2,3) tc(1-4) f(1)]) (use room(1) in simp_all)
  note x = f(3)[folded callee_returns_heap[OF t3(9)]]
  have n: "stk_ok (coroutinesStack s)" using r by (simp add: running_def)
  have "\<exists>t d. lua_resume (entryPoint ?exec) L (brk s) (int (length ([] :: value list))) 0 t3 = Ok LUA_OK t \<and>
     coroutinesStack t = coroutinesStack t3 \<and> coros t = (coros t3)(brk s \<mapsto> d) \<and>
     thread_over csM (results (length vs) k vs) t d \<and>
     co_fiber d = Some \<lparr>fb_state = FIBER_DEAD, fb_task = False, fb_stack = False\<rparr>"
    by (rule resume_runs[where exec = exec and host = host and M = "brk s", OF t3(8) _ _ _ t3(7,4) tc(5) x f(2,4)]) (use n room t3(6) in simp_all)
  then obtain t d where t: "lua_resume (entryPoint ?exec) L (brk s) 0 0 t3 = Ok LUA_OK t"
      "coroutinesStack t = coroutinesStack s" "coros t = (coros t3)(brk s \<mapsto> d)" "frames d = []"
      "co_fiber d = Some \<lparr>fb_state = FIBER_DEAD, fb_task = False, fb_stack = False\<rparr>"
    using t3(6) by (auto simp: thread_over_def)
  have e: "vm_wf s \<Longrightarrow> leaves vm_wf (?exec co s)" for co s by (rule wf_exec(1)) (use w in auto)
  have start: "start_closure ?exec L func s = Ok (brk s, LUA_OK) t"
    using t3(1-3) t(1) by (simp add: start_closure_def)
  then have wt: "vm_wf t" using wf_start_closure[of ?exec s L func, OF e wf] by simp
  have ct: "coros t = (coros s)(brk s \<mapsto> d)" using t(3) t3(5) by (metis fun_upd_upd)
  have "coros t L = Some c" "co_currentCallState c = Some cs" using r a ct L by (auto simp: running_def lua_at_def)
  then obtain st' where st': "lua_at t L cs st'" by (rule wf_lua_at[OF wt])
  let ?u = "with_frame t cs (with_stack st' [])"
  have "vm_wf ?u" using pop_all_empties(2)[OF wt pop_all_at(1)[OF st']] .
  then have "cleaned L (fluffyvm_clear_errmsg ?u)" using cleared pop_all_at(2)[OF st'] by blast
  moreover have "thread_routine load ?exec s0 = Ok locked (fluffyvm_clear_errmsg ?u)"
    using assms(1,2) start pop_all_at(1)[OF st'] by (simp add: thread_routine_def run_closure_start)
  moreover have "coroutinesStack (fluffyvm_clear_errmsg ?u) = coroutinesStack s"
      "coros (fluffyvm_clear_errmsg ?u) = (coros s)(brk s \<mapsto> d)"
    using t(2) ct by (simp_all add: fluffyvm_clear_errmsg_def)
  ultimately show ?thesis using t(4,5) by blast
qed

subsection \<open>Concrete cases\<close>

text \<open>
  A machine with one coroutine, the trampoline of threads at 51 and a loaded program without
  instructions at 60; its threads call the interpreter again.
\<close>

definition program_machine :: vm where
  "program_machine = (call_machine [])\<lparr>
     closures := [50 \<mapsto> lua_closure [], 51 \<mapsto> plain_closure\<lparr>cl_prototype := None, cl_func := Some 9\<rparr>],
     coroutineTrampoline := Some 51,
     bcs := [60 \<mapsto> \<lparr>bc_mainPrototype = Some (Prototype 60 [] [] [] VNil), bc_constants = []\<rparr>]\<rparr>"

definition empty_program :: closure where
  "empty_program = \<lparr>cl_prototype = Some (Prototype 60 [] [] [] VNil), cl_func = None, cl_udata = None,
     cl_isNative = False, cl_env = VNil, cl_asValue = VClosure 200, cl_luaCFunction = None\<rparr>"

abbreviation loaded_machine :: vm where
  "loaded_machine \<equiv> program_machine\<lparr>brk := 201, closures := (closures program_machine)(200 \<mapsto> empty_program)\<rparr>"

abbreviation inner_exec :: "addr \<Rightarrow> vm \<Rightarrow> (int, vm) res" where
  "inner_exec \<equiv> interpreter_exec idle_host sample_ext (Suc (Suc 0))"

abbreviation thread_host :: host where
  "thread_host \<equiv> \<lambda>_ _ _. trampoline sample_ext inner_exec"

lemma program_machine_simps [simp]:
  "coros program_machine = [100 \<mapsto> coroutine_of [7] FIBER_RUNNING]"
  "cstates program_machine = [7 \<mapsto> with_stack (new_call_state 50 100 False) []]"
  "coroutinesStack program_machine = stack_of FLUFFYVM_MAX_COROUTINE_NEST [100]"
  "always_mem program_machine" "brk program_machine = 200" "coroutineTrampoline program_machine = Some 51"
  "closures program_machine = [50 \<mapsto> lua_closure [], 51 \<mapsto> plain_closure\<lparr>cl_prototype := None, cl_func := Some 9\<rparr>]"
  "globalTable program_machine = VNil"
  by (simp_all add: program_machine_def always_mem_def)
     (simp_all add: call_machine_def vm_frame_def vm_running_def blank_vm_def)

lemma loaded:
  "load_closure (\<lambda>s. Ok (False, Some 60) s) program_machine = Ok (False, Some 200) loaded_machine"
proof -
  have "bcs program_machine 60 = Some \<lparr>bc_mainPrototype = Some (Prototype 60 [] [] [] VNil), bc_constants = []\<rparr>"
    by (simp add: program_machine_def)
  moreover have "mem program_machine n" for n using program_machine_simps(4) by (simp add: always_mem_def)
  ultimately show ?thesis
    by (simp add: load_closure_def fluffyvm_get_global_def closure_new_def closure_new_common_def gc_alloc_def
        value_new_closure_def empty_program_def)
qed

lemma frame_7_ok: "frame_wf (with_stack (new_call_state 50 100 False) [])"
  by (simp add: frame_wf_def frame_ok_with_stack) (simp add: new_call_state_def config_defs)

lemma program_machine_ok:
  "vm_wf program_machine" "running program_machine 100 (coroutine_of [7] FIBER_RUNNING)"
  "lua_at program_machine 100 7 (with_stack (new_call_state 50 100 False) [])"
proof -
  have c: "coro_ok (coroutine_of [7] FIBER_RUNNING)" "frames (coroutine_of [7] FIBER_RUNNING) = [7]"
    using call_machine_running by (simp_all add: running_def)
  then show "vm_wf program_machine" "running program_machine 100 (coroutine_of [7] FIBER_RUNNING)"
    using frame_7_ok by (auto simp: vm_wf_def wf_but_def coro_ok_stack running_def config_defs)
  show "lua_at program_machine 100 7 (with_stack (new_call_state 50 100 False) [])"
    using frame_7_ok by (simp add: lua_at_def frame_wf_def) (simp add: coroutine_of_def)
qed

lemma loaded_machine_ok:
  "vm_wf loaded_machine" "running loaded_machine 100 (coroutine_of [7] FIBER_RUNNING)"
  "lua_at loaded_machine 100 7 (with_stack (new_call_state 50 100 False) [])" "always_mem loaded_machine"
  using program_machine_ok keeps_wf[of program_machine loaded_machine] program_machine_simps(4)
  by (simp_all add: running_def lua_at_def always_mem_def keeps_def ctl_def)

lemma thread_host_ok:
  "vm_wf s \<Longrightarrow> leaves vm_wf (thread_host f cs u s)" "heap_grows r s \<Longrightarrow> leaves (heap_grows r) (inner_exec co s)"
  "callee_returns (inner_exec co) D h co func empty_program cs callee [] 0 []"
proof -
  show "vm_wf s \<Longrightarrow> leaves vm_wf (thread_host f cs u s)" by (intro wf_intros wf_exec(1)) auto
  show "heap_grows r s \<Longrightarrow> leaves (heap_grows r) (inner_exec co s)" by (intro grows.exec(1)) auto
  show "callee_returns (inner_exec co) D h co func empty_program cs callee [] 0 []"
    by (rule empty_callee[where p = "Prototype 60 [] [] [] VNil"]) (simp_all add: empty_program_def)
qed

theorem program_runs_witness:
  "\<exists>t. thread_routine (\<lambda>s. Ok (False, Some 60) s) (interpreter_exec thread_host sample_ext 1) program_machine =
     Ok False t \<and> cleaned 100 t"
  using program_runs[where host = thread_host and exec = inner_exec and i = 0 and vs = "[]" and k = 0
      and tramp = 9 and tc = 51, OF running_executing(1)[OF program_machine_ok(2)] loaded loaded_machine_ok(1)
      thread_host_ok(1) loaded_machine_ok(2,3) _ _ _ loaded_machine_ok(4) _ _ _ _ _ refl _ _ thread_host_ok(3,2)]
  by (auto simp: plain_closure_def config_defs)

text \<open>A program that cannot be loaded, on a thread with two values on its stack.\<close>

abbreviation used_machine :: vm where
  "used_machine \<equiv> with_frame program_machine 7 (with_stack (new_call_state 50 100 False) [VNil, VLong 4])"

lemma failed_load:
  "vm_wf used_machine" "running used_machine 100 (coroutine_of [7] FIBER_RUNNING)"
  "\<exists>t. thread_routine (\<lambda>s. Ok (False, None) s) exec used_machine = Ok False t"
proof -
  show "vm_wf used_machine"
    using frame_7_ok frame_ok_with_stack[of "[VNil, VLong 4]" "new_call_state 50 100 False"]
    by (intro wf_with_frame[OF program_machine_ok(1)]) (simp add: frame_wf_def)
  show r: "running used_machine 100 (coroutine_of [7] FIBER_RUNNING)"
    using program_machine_ok(2) by (simp add: running_def)
  have "lua_at used_machine 100 7 (with_stack (new_call_state 50 100 False) [VNil, VLong 4])"
    by (intro lua_at_with[OF program_machine_ok(3)] frame_ok_with_stack) simp_all
  note p = pop_all_at(1)[OF this]
  have "errMsg program_machine = None"
    by (simp add: program_machine_def call_machine_def vm_frame_def vm_running_def blank_vm_def)
  then show "\<exists>t. thread_routine (\<lambda>s. Ok (False, None) s) exec used_machine = Ok False t"
    using running_executing(1)[OF r] p
    by (simp add: thread_routine_def load_closure_def routine_error_def fluffyvm_is_errmsg_present_def)
qed

theorem thread_routine_cleans_up_witness:
  "\<exists>t. thread_routine (\<lambda>s. Ok (False, None) s) (interpreter_exec idle_host sample_ext 1) used_machine =
     Ok False t \<and> cleaned 100 t"
proof -
  obtain t where t: "thread_routine (\<lambda>s. Ok (False, None) s) (interpreter_exec idle_host sample_ext 1) used_machine = Ok False t"
    using failed_load(3) by blast
  show ?thesis
    using thread_routine_cleans_up[OF failed_load(1) _ _ t] running_executing(1)[OF failed_load(2)] t by simp
qed

theorem lua_resume_runs_thread_witness:
  "\<exists>s M t. lua_resume (entryPoint (interpreter_exec thread_host sample_ext 1)) 100 M 0 0 s = Ok LUA_OK t \<and>
     lua_gettop M t = Fault NullDeref"
proof -
  obtain t1 t2 t3 csM where t3: "fresh_thread t3 201 csM 9 200 empty_program []"
    "coroutinesStack t3 = coroutinesStack loaded_machine" "always_mem t3"
    "lua_at t3 100 7 (with_stack (new_call_state 50 100 False) [VCoroutine 201])"
    by (rule program_moved[OF loaded_machine_ok(2,3) _ _ _ loaded_machine_ok(4), of 51
          "plain_closure\<lparr>cl_prototype := None, cl_func := Some 9\<rparr>" 9 200 empty_program])
       (simp_all add: config_defs)
  show ?thesis
    using lua_resume_runs_thread[where host = thread_host and exec = inner_exec and i = 0 and vs = "[]" and k = 0,
        OF t3(4) _ _ _ t3(3,1) refl thread_host_ok(3) _ thread_host_ok(2), of 0] t3(2)
    by (auto simp: config_defs)
qed

end
