(* ===== verification/RegisterMachine.thy ===== *)
theory RegisterMachine
  imports Calls
begin

text \<open>
  What bytecode means, apart from how \<open>interpreter.c\<close> runs it. The abstract machine has functions
  (their instructions, constants, environment and value), 256 registers and a stack of at most 256
  values; a run of a function is its outcome: the values it leaves and how many of them it returns,
  an error with its message, an overflow of the call stack, or nothing that is specified here. A
  native function is what it makes of its arguments. The theorems show that \<open>interpreter_exec\<close> on the data of the machine gives this
  outcome, calls between functions included. Instructions that read or write tables, make closures
  or are conditional are not specified, nor is arithmetic on other values than numbers.
\<close>

subsection \<open>The abstract machine\<close>

datatype arith = Add | Sub | Mul | Div | Mod

datatype instr =
    Nop
  | Mov nat nat
  | Arith arith nat nat nat
  | Push nat
  | Pop nat
  | Const nat nat
  | Top nat
  | Jump nat
  | Ret nat nat
  | Call nat nat nat
  | Unspecified

record func =
  fn_code :: "instr list"
  fn_consts :: "value list"
  fn_env :: "value"
  fn_self :: "value"

datatype message = Static static_string | Thrown "value"

datatype outcome = Returned int "value list" | Raised message | Overflowed | Wrong

datatype callable = Bytecode func | Native "value list \<Rightarrow> outcome"

type_synonym regs = "nat \<Rightarrow> value"

definition present :: "value \<Rightarrow> value option" where
  "present v = (if v = VNotPresent then None else Some v)"

definition source :: "func \<Rightarrow> regs \<Rightarrow> nat \<Rightarrow> value option" where
  "source fn r i =
     (if i < 256 then Some (r i)
      else if i = 0xFFFF then Some VNil
      else if i = 0xFFFE then present (fn_env fn)
      else if i = 0xFFFD then present (fn_self fn)
      else None)"

definition target :: "regs \<Rightarrow> nat \<Rightarrow> value \<Rightarrow> regs option" where
  "target r i v =
     (if v = VNotPresent then None
      else if i < 256 then Some (r(i := v))
      else if i = 0xFF00 then Some r
      else None)"

fun arith_int :: "arith \<Rightarrow> int \<Rightarrow> int \<Rightarrow> int option" where
  "arith_int Add m n = Some (m + n)"
| "arith_int Sub m n = Some (m - n)"
| "arith_int Mul m n = Some (m * n)"
| "arith_int Div m n = (if n = 0 then None else Some (m sdiv n))"
| "arith_int Mod m n = (if n = 0 \<or> \<not> in_int64 (m sdiv n) then None else Some (m smod n))"

fun arith_dbl :: "arith \<Rightarrow> dbl \<Rightarrow> dbl \<Rightarrow> dbl" where
  "arith_dbl Add = fp_add"
| "arith_dbl Sub = fp_sub"
| "arith_dbl Mul = fp_mul"
| "arith_dbl Div = fp_div"
| "arith_dbl Mod = fp_fmod"

fun compute :: "arith \<Rightarrow> value \<Rightarrow> value \<Rightarrow> value option" where
  "compute f (VLong m) (VLong n) =
     (case arith_int f (sint m) (sint n) of
        None \<Rightarrow> None
      | Some k \<Rightarrow> if in_int64 k then Some (VLong (word_of_int k)) else None)"
| "compute f (VDouble x) (VDouble y) = Some (VDouble (arith_dbl f x y))"
| "compute f (VLong m) (VDouble y) = Some (VDouble (arith_dbl f (fp_of_int (sint m)) y))"
| "compute f (VDouble x) (VLong n) = Some (VDouble (arith_dbl f x (fp_of_int (sint n))))"
| "compute f v w = None"

text \<open>
  A run. A call takes its arguments from the top of the stack: \<open>c - 1\<close> values, all for 1, none for
  0; it puts \<open>b - 1\<close> results in their place, all for 1, none for 0. \<open>d\<close> is how many frames the call
  stack still has room for. \<open>Ret\<close> drops what the stack has no room for.
\<close>

definition nargs_of :: "nat \<Rightarrow> nat \<Rightarrow> nat" where
  "nargs_of c have = (if c = 1 then have else c - 1)"

definition nres_of :: "nat \<Rightarrow> nat \<Rightarrow> nat" where
  "nres_of b have = (if b = 1 then have else b - 1)"

function run :: "(addr \<Rightarrow> callable option) \<Rightarrow> nat \<Rightarrow> func \<Rightarrow> instr list \<Rightarrow> regs \<Rightarrow> value list \<Rightarrow> outcome" where
  "run lib d fn [] r xs = Returned 0 xs"
| "run lib d fn (Nop # is) r xs = run lib d fn is r xs"
| "run lib d fn (Mov a b # is) r xs =
     (case Option.bind (source fn r b) (target r a) of
        None \<Rightarrow> Wrong
      | Some r \<Rightarrow> run lib d fn is r xs)"
| "run lib d fn (Arith f a b c # is) r xs =
     (case (source fn r b, source fn r c) of
        (Some v, Some w) \<Rightarrow>
          (case Option.bind (compute f v w) (target r a) of
             None \<Rightarrow> Wrong
           | Some r \<Rightarrow> run lib d fn is r xs)
      | _ \<Rightarrow> Wrong)"
| "run lib d fn (Push a # is) r xs =
     (case source fn r a of
        None \<Rightarrow> Wrong
      | Some v \<Rightarrow> if length xs < 256 then run lib d fn is r (xs @ [v]) else Raised (Static SS_stackOverflow))"
| "run lib d fn (Pop a # is) r xs =
     (if xs = [] then Raised (Static SS_stackUnderflow)
      else case target r a (last xs) of
        None \<Rightarrow> Wrong
      | Some r \<Rightarrow> run lib d fn is r (butlast xs))"
| "run lib d fn (Const a b # is) r xs =
     (if length (fn_consts fn) \<le> b then Wrong
      else case target r a (fn_consts fn ! b) of
        None \<Rightarrow> Wrong
      | Some r \<Rightarrow> run lib d fn is r xs)"
| "run lib d fn (Top a # is) r xs =
     (case target r a (VLong (word_of_int (int (length xs) - 1))) of
        None \<Rightarrow> Wrong
      | Some r \<Rightarrow> run lib d fn is r xs)"
| "run lib d fn (Jump a # is) r xs = (if a \<le> length is then run lib d fn (drop a is) r xs else Wrong)"
| "run lib d fn (Ret a b # is) r xs =
     (case those (map (source fn r) [a..<a + b]) of
        None \<Rightarrow> Wrong
      | Some vs \<Rightarrow> Returned (int b) (take 256 (xs @ vs)))"
| "run lib d fn (Call a b c # is) r xs =
     (if length xs < c - 1 then Raised (Static SS_stackUnderflow)
      else let front = take (length xs - nargs_of c (length xs)) xs;
               args = drop (length xs - nargs_of c (length xs)) xs
      in case source fn r a of
        Some VNil \<Rightarrow> Raised (Static SS_attemptToCallNilValue)
      | Some (VClosure f) \<Rightarrow>
          (case (lib f, d) of
             (None, _) \<Rightarrow> Wrong
           | (Some g, 0) \<Rightarrow> Overflowed
           | (Some g, Suc e) \<Rightarrow>
               (case (case g of
                        Bytecode h \<Rightarrow> run lib e h (fn_code h) (\<lambda>_. VNil) args
                      | Native f \<Rightarrow> f args) of
                  Returned k vs \<Rightarrow>
                    (let ys = front @ results (nres_of b (length vs)) k vs
                     in if length ys \<le> 256 then run lib d fn is r ys else Wrong)
                | out \<Rightarrow> out))
      | _ \<Rightarrow> Wrong)"
| "run lib d fn (Unspecified # is) r xs = Wrong"
  by pat_completeness auto
termination
  by (relation "measures [\<lambda>(lib, d, fn, is, r, xs). d, \<lambda>(lib, d, fn, is, r, xs). length is]") auto

text \<open>What a function does with its arguments.\<close>

definition outcome_of :: "(addr \<Rightarrow> callable option) \<Rightarrow> nat \<Rightarrow> callable \<Rightarrow> value list \<Rightarrow> outcome" where
  "outcome_of lib d g args =
     (case g of Bytecode h \<Rightarrow> run lib d h (fn_code h) (\<lambda>_. VNil) args | Native f \<Rightarrow> f args)"

lemma outcome_of_simps [simp]:
  "outcome_of lib d (Bytecode h) args = run lib d h (fn_code h) (\<lambda>_. VNil) args"
  "outcome_of lib d (Native f) args = f args"
  by (simp_all add: outcome_of_def)

lemma run_call:
  "run lib d fn (Call a b c # is) r xs =
     (if length xs < c - 1 then Raised (Static SS_stackUnderflow)
      else let front = take (length xs - nargs_of c (length xs)) xs;
               args = drop (length xs - nargs_of c (length xs)) xs
      in case source fn r a of
        Some VNil \<Rightarrow> Raised (Static SS_attemptToCallNilValue)
      | Some (VClosure f) \<Rightarrow>
          (case (lib f, d) of
             (None, _) \<Rightarrow> Wrong
           | (Some g, 0) \<Rightarrow> Overflowed
           | (Some g, Suc e) \<Rightarrow>
               (case outcome_of lib e g args of
                  Returned k vs \<Rightarrow>
                    (let ys = front @ results (nres_of b (length vs)) k vs
                     in if length ys \<le> 256 then run lib d fn is r ys else Wrong)
                | out \<Rightarrow> out))
      | _ \<Rightarrow> Wrong)"
  unfolding outcome_of_def by (rule run.simps)

subsection \<open>The functions of a machine\<close>

text \<open>An instruction word of the interpreter, if it is unconditional and specified.\<close>

definition instr_of :: "u64 \<Rightarrow> instr" where
  "instr_of w =
     (let i = decode w; a = nat (ins_A i); b = nat (ins_B i); c = nat (ins_C i) in
      if condFlagsMask i \<noteq> 0 then Unspecified
      else if ins_opcode i = 0 then Nop
      else if ins_opcode i = 1 then Mov a b
      else if ins_opcode i = 4 then Call a b c
      else if ins_opcode i = 5 then Push a
      else if ins_opcode i = 6 then Pop a
      else if ins_opcode i = 7 then Const a b
      else if ins_opcode i = 8 then Ret a b
      else if ins_opcode i = 10 then Top a
      else if ins_opcode i = 12 then Arith Add a b c
      else if ins_opcode i = 13 then Arith Sub a b c
      else if ins_opcode i = 14 then Arith Mul a b c
      else if ins_opcode i = 15 then Arith Div a b c
      else if ins_opcode i = 16 then Arith Mod a b c
      else if ins_opcode i = 18 then Jump a
      else Unspecified)"

definition func_of :: "vm \<Rightarrow> closure \<Rightarrow> func option" where
  "func_of s cl =
     (case (cl_prototype cl, cl_func cl) of
        (Some p, None) \<Rightarrow>
          Some \<lparr>fn_code = map instr_of (p_instructions p),
                fn_consts = (case bcs s (p_bytecode p) of None \<Rightarrow> [] | Some bc \<Rightarrow> bc_constants bc),
                fn_env = cl_env cl, fn_self = cl_asValue cl\<rparr>
      | _ \<Rightarrow> None)"

text \<open>A native function is specified by \<open>ns\<close>, which tells what the closure makes of its arguments.\<close>

type_synonym natives = "closure \<Rightarrow> (value list \<Rightarrow> outcome) option"

definition library :: "natives \<Rightarrow> vm \<Rightarrow> addr \<Rightarrow> callable option" where
  "library ns s f = Option.bind (closures s f) (\<lambda>cl.
     if cl_prototype cl = None \<and> cl_func cl \<noteq> None then map_option Native (ns cl)
     else map_option Bytecode (func_of s cl))"

lemma func_of_heap: "same_heap s t \<Longrightarrow> func_of t = func_of s"
  by (intro ext) (simp add: func_of_def same_heap_def split: option.split)

lemma library_heap: "same_heap s t \<Longrightarrow> library ns t = library ns s"
  using func_of_heap[of s t] by (intro ext) (simp add: library_def same_heap_def cong: if_cong)

lemma func_of_Some:
  assumes "func_of s cl = Some fn"
  obtains p where "cl_prototype cl = Some p" "cl_func cl = None" "fn_code fn = map instr_of (p_instructions p)"
  using assms by (auto simp: func_of_def split: option.splits)

lemma library_Bytecode:
  assumes "library ns s f = Some (Bytecode fn)"
  obtains cl p where "closures s f = Some cl" "func_of s cl = Some fn" "cl_prototype cl = Some p"
    "cl_func cl = None" "fn_code fn = map instr_of (p_instructions p)"
proof -
  obtain cl where cl: "closures s f = Some cl" "func_of s cl = Some fn"
    using assms by (auto simp: library_def bind_eq_Some_conv split: if_splits)
  show ?thesis by (rule func_of_Some[OF cl(2)]) (rule that[OF cl])
qed

lemma library_Native:
  assumes "library ns s f = Some (Native nf)"
  obtains cl h where "closures s f = Some cl" "ns cl = Some nf" "cl_prototype cl = None" "cl_func cl = Some h"
  using assms by (auto simp: library_def bind_eq_Some_conv split: if_splits)

lemma library_closure:
  assumes "library ns s f = Some g"
  obtains cl where "closures s f = Some cl"
  using assms by (auto simp: library_def bind_eq_Some_conv)

subsection \<open>Frames and registers\<close>

text \<open>The frame \<open>cs\<close>, with the state \<open>st\<close>, runs on top of \<open>co\<close> with registers \<open>r\<close> and stack \<open>xs\<close>.\<close>

definition regs_are :: "call_state \<Rightarrow> regs \<Rightarrow> bool" where
  "regs_are st r \<longleftrightarrow> (\<exists>rs. cs_registers st = Some rs \<and> length rs = 256 \<and>
     (\<forall>i < 256. r i = (if rs ! i = VNotPresent then VNil else rs ! i)))"

definition frame_runs :: "vm \<Rightarrow> addr \<Rightarrow> call_state \<Rightarrow> func \<Rightarrow> regs \<Rightarrow> value list \<Rightarrow> bool" where
  "frame_runs t cs st fn r xs \<longleftrightarrow> cs < brk t \<and> cstates t cs = Some st \<and> frame_ok st \<and> gs_items st = xs \<and>
     (\<exists>cl. closures t (cs_closure st) = Some cl \<and> func_of t cl = Some fn) \<and> regs_are st r"

definition on_top :: "vm \<Rightarrow> addr \<Rightarrow> coroutine \<Rightarrow> addr \<Rightarrow> bool" where
  "on_top t co c cs \<longleftrightarrow> running t co c \<and> \<not> co_callStackLock c \<and> frames c \<noteq> [] \<and> last (frames c) = cs \<and>
     always_mem t"

lemma on_top_frame [simp]: "on_top (with_frame t a st) co c cs = on_top t co c cs"
  by (simp add: on_top_def running_def always_mem_def)

lemma func_of_frame [simp]: "func_of (with_frame t a st) cl = func_of t cl"
  by (simp add: func_of_def with_frame_def split: option.split)

lemma pc_fields [simp]:
  "cs_closure (st\<lparr>cs_pc := pc\<rparr>) = cs_closure st" "regs_are (st\<lparr>cs_pc := pc\<rparr>) = regs_are st"
  by (auto simp: regs_are_def)

lemma frame_runs_state: "frame_runs t cs st fn r xs \<Longrightarrow> cstates t cs = Some st"
  by (simp add: frame_runs_def)

lemma frame_runs_pc:
  "frame_runs t cs st fn r xs \<Longrightarrow> frame_runs (with_frame t cs (st\<lparr>cs_pc := pc\<rparr>)) cs (st\<lparr>cs_pc := pc\<rparr>) fn r xs"
  by (auto simp: frame_runs_def)

lemma frame_runs_stack:
  "frame_runs t cs st fn r xs \<Longrightarrow> length ys \<le> 256 \<Longrightarrow> VNotPresent \<notin> set ys \<Longrightarrow>
     frame_runs (with_frame t cs (with_stack st ys)) cs (with_stack st ys) fn r ys"
  by (auto simp: frame_runs_def regs_are_def frame_ok_with_stack)

lemma source_read:
  assumes "frame_runs t cs st fn r xs" and "source fn r i = Some v"
  shows "getRegister cs (int i) t = Ok v t" and "v \<noteq> VNotPresent"
proof -
  obtain cl where cl: "cstates t cs = Some st" "closures t (cs_closure st) = Some cl"
      "func_of t cl = Some fn" "regs_are st r"
    using assms(1) by (auto simp: frame_runs_def)
  have "fn_env fn = cl_env cl" "fn_self fn = cl_asValue cl"
    using cl(3) by (auto simp: func_of_def split: option.splits)
  then show "getRegister cs (int i) t = Ok v t" "v \<noteq> VNotPresent"
    using cl assms(2)
    by (auto simp: getRegister_def register_defs config_defs source_def present_def regs_are_def
        assert_that_def split: if_splits)
qed

lemma target_written:
  assumes "frame_runs t cs st fn r xs" and "target r i v = Some r'"
  obtains st' where "setRegister cs (int i) v t = Ok () (with_frame t cs st')"
    "frame_runs (with_frame t cs st') cs st' fn r' xs"
proof -
  obtain rs where rs: "cstates t cs = Some st" "cs_registers st = Some rs" "length rs = 256"
      "\<forall>i < 256. r i = (if rs ! i = VNotPresent then VNil else rs ! i)"
    using assms(1) by (auto simp: frame_runs_def regs_are_def)
  have v: "v \<noteq> VNotPresent" using assms(2) by (auto simp: target_def split: if_splits)
  show ?thesis
  proof (cases "i < 256")
    case True
    let ?st = "st\<lparr>cs_registers := Some (rs[i := v])\<rparr>"
    have "setRegister cs (int i) v t = Ok () (with_frame t cs ?st)"
      using setRegister_plain[OF rs(1,2) v, of "int i"] True by (simp add: config_defs)
    moreover have "regs_are ?st r'"
      using rs(3,4) v True assms(2) by (auto simp: regs_are_def target_def nth_list_update)
    moreover have "gs_items ?st = gs_items st" "frame_ok ?st = frame_ok st"
      by (simp_all add: gs_items_def frame_ok_def)
    ultimately show ?thesis using assms(1) by (intro that[of ?st]) (auto simp: frame_runs_def)
  next
    case False
    then have "setRegister cs (int i) v t = Ok () t" "r' = r"
      using assms(2) v rs(1)
      by (auto simp: setRegister_def register_defs config_defs target_def assert_that_def split: if_splits)
    then show ?thesis using assms(1) rs(1) by (intro that[of st]) simp_all
  qed
qed

definition math :: "ext \<Rightarrow> arith \<Rightarrow> value \<Rightarrow> value \<Rightarrow> vm \<Rightarrow> (value, vm) res" where
  "math ex f = (case f of Add \<Rightarrow> value_math_add ex | Sub \<Rightarrow> value_math_sub ex | Mul \<Rightarrow> value_math_mul ex
     | Div \<Rightarrow> value_math_div ex | Mod \<Rightarrow> value_math_mod ex)"

lemma compute_math: "compute f v w = Some x \<Longrightarrow> math ex f v w s = Ok x s \<and> x \<noteq> VNotPresent"
  by (cases f; cases v; cases w)
     (auto simp: math_def value_math_add_def value_math_sub_def value_math_mul_def value_math_div_def
       value_math_mod_def value_math_def long_result_def long_div_def long_mod_def split: if_splits)

subsection \<open>Fetch and dispatch\<close>

lemma operands_nonneg [simp]:
  "0 \<le> ins_A (decode w)" "0 \<le> ins_B (decode w)" "0 \<le> ins_C (decode w)"
  by (simp_all add: decode_def)

lemma fetch:
  assumes "cstates s cs = Some st" and "w = is ! nat pc" and "instr_of w \<noteq> Unspecified"
  shows "exec_instruction ex exec co cs is pc s =
    rbind (dispatch ex exec co cs is pc (decode w) s) (\<lambda>r s. case r of
      Continue pc' \<Rightarrow> Ok (Continue (pc' + 1)) s | Return k \<Rightarrow> Ok (Return k) s)"
proof -
  have "condFlagsMask (decode w) = 0" "ins_opcode (decode w) < OPCODE_LAST" "ins_opcode (decode w) \<noteq> 9"
    using assms(3) by (auto simp: instr_of_def Let_def OPCODE_LAST_def split: if_splits)
  then show ?thesis
    using assms(1,2) by (simp add: exec_instruction_def skips_def Let_def incrementCount_one)
qed

lemma dispatches:
  "instr_of w = Nop \<Longrightarrow> dispatch ex exec co cs is pc (decode w) s = Ok (Continue pc) s"
  "instr_of w = Mov a b \<Longrightarrow> dispatch ex exec co cs is pc (decode w) s =
     rbind (getRegister cs (int b) s) (\<lambda>v s. rbind (setRegister cs (int a) v s) (\<lambda>_ s. Ok (Continue pc) s))"
  "instr_of w = Arith f a b c \<Longrightarrow> dispatch ex exec co cs is pc (decode w) s = op_arith (math ex f) cs pc (decode w) s \<and>
     ins_A (decode w) = int a \<and> ins_B (decode w) = int b \<and> ins_C (decode w) = int c"
  "instr_of w = Push a \<Longrightarrow> dispatch ex exec co cs is pc (decode w) s =
     rbind (getRegister cs (int a) s) (\<lambda>v s. rbind (interpreter_push cs v s) (\<lambda>ok s.
       if \<not> ok then goto_error cs pc s else Ok (Continue pc) s))"
  "instr_of w = Pop a \<Longrightarrow> dispatch ex exec co cs is pc (decode w) s =
     rbind (interpreter_pop2 cs (int a) s) (\<lambda>ok s. if \<not> ok then goto_error cs pc s else Ok (Continue pc) s)"
  "instr_of w = Const a b \<Longrightarrow> dispatch ex exec co cs is pc (decode w) s =
     op_get_constant cs pc (is ! nat pc) (decode w) s \<and> ins_A (decode w) = int a \<and> ins_B (decode w) = int b"
  "instr_of w = Top a \<Longrightarrow> dispatch ex exec co cs is pc (decode w) s = op_stack_gettop cs pc (decode w) s \<and>
     ins_A (decode w) = int a"
  "instr_of w = Jump a \<Longrightarrow> dispatch ex exec co cs is pc (decode w) s =
     op_jmp_forward cs (int (length is)) pc (decode w) s \<and> ins_A (decode w) = int a"
  "instr_of w = Ret a b \<Longrightarrow> dispatch ex exec co cs is pc (decode w) s =
     rbind (push_registers cs [int a..int a + int b - 1] s) (\<lambda>_ s. Ok (Return (int b)) s)"
  "instr_of w = Call a b c \<Longrightarrow> dispatch ex exec co cs is pc (decode w) s = op_call exec co cs pc (decode w) s \<and>
     ins_A (decode w) = int a \<and> ins_B (decode w) = int b \<and> ins_C (decode w) = int c"
  by (auto simp: instr_of_def Let_def dispatch_def opcode_of_def opcodes_def math_def op_mov_def
      op_stack_push_def op_stack_pop_def op_return_def simp del: upto.simps split: if_splits)

subsection \<open>Outcomes of the interpreter\<close>

text \<open>What a function leaves alone: everything but its own frame and new ones.\<close>

definition frame_only :: "vm \<Rightarrow> addr \<Rightarrow> vm \<Rightarrow> bool" where
  "frame_only t cs u \<longleftrightarrow> coros u = coros t \<and> coroutinesStack u = coroutinesStack t \<and> same_heap t u \<and>
     brk t \<le> brk u \<and> (\<forall>a < brk t. a \<noteq> cs \<longrightarrow> cstates u a = cstates t a)"

definition thrown_in :: "vm \<Rightarrow> addr \<Rightarrow> coroutine \<Rightarrow> bool \<Rightarrow> vm \<Rightarrow> coroutine \<Rightarrow> bool" where
  "thrown_in t co c locked u d \<longleftrightarrow> running u co d \<and> co_callStackLock d = locked \<and>
     same_control d c \<and> coroutinesStack u = coroutinesStack t \<and>
     (locked \<or> (\<exists>gs. frames d = frames c @ gs \<and> (\<forall>g \<in> set gs. brk t \<le> g)))"

fun with_message :: "vm \<Rightarrow> message \<Rightarrow> vm" where
  "with_message t (Static m) = set_static_errmsg t m"
| "with_message t (Thrown v) = fluffyvm_set_errmsg t v"

definition raises :: "vm \<Rightarrow> addr \<Rightarrow> coroutine \<Rightarrow> bool \<Rightarrow> message \<Rightarrow> ('a, vm) res \<Rightarrow> bool" where
  "raises t co c locked m res \<longleftrightarrow>
     (if co_errorHandler c = None then res = Fault Aborted
      else \<exists>u d. res = Throw u \<and> errMsg u = errMsg (with_message t m) \<and> thrown_in t co c locked u d)"

definition performs :: "outcome \<Rightarrow> vm \<Rightarrow> addr \<Rightarrow> coroutine \<Rightarrow> addr \<Rightarrow> (int, vm) res \<Rightarrow> bool" where
  "performs out t co c cs res =
     (case out of
        Returned k vs \<Rightarrow> \<exists>u e. res = Ok k u \<and> frame_only t cs u \<and> cstates u cs = Some e \<and> frame_ok e \<and>
          gs_items e = vs \<and> closures u (cs_closure e) \<noteq> None
      | Raised m \<Rightarrow> raises t co c False m res
      | Overflowed \<Rightarrow> raises t co c True (Static SS_stackOverflow) res
      | Wrong \<Rightarrow> True)"

lemma performs_Wrong [simp]: "performs Wrong t co c cs res"
  by (simp add: performs_def)

lemma frame_only_frame [simp]: "frame_only t cs (with_frame t cs st)"
  by (simp add: frame_only_def)

lemma frame_only_refl [simp]: "frame_only t cs t"
  by (simp add: frame_only_def)

lemma frame_only_trans: "frame_only s cs t \<Longrightarrow> frame_only t cs u \<Longrightarrow> frame_only s cs u"
  by (auto simp: frame_only_def intro: same_heap_trans)

lemma message_heap: "same_heap s t \<Longrightarrow> errMsg (with_message t m) = errMsg (with_message s m)"
  by (cases m) (simp_all add: same_heap_def set_static_errmsg_def fluffyvm_set_errmsg_def)

lemma thrown_in_after:
  "thrown_in t co c locked u d \<Longrightarrow> brk s \<le> brk t \<Longrightarrow> coroutinesStack t = coroutinesStack s \<Longrightarrow>
     thrown_in s co c locked u d"
  by (auto simp: thrown_in_def intro: order_trans)

lemma raises_after:
  "raises t co c locked m res \<Longrightarrow> same_heap s t \<Longrightarrow> brk s \<le> brk t \<Longrightarrow>
     coroutinesStack t = coroutinesStack s \<Longrightarrow> raises s co c locked m res"
  by (auto simp: raises_def message_heap dest: thrown_in_after split: if_splits)

lemma performs_after: "frame_only s cs t \<Longrightarrow> performs out t co c cs res \<Longrightarrow> performs out s co c cs res"
  by (auto simp: performs_def frame_only_def intro: raises_after frame_only_trans[unfolded frame_only_def] same_heap_trans
      split: outcome.splits)

lemma on_top_kept: "frame_only s a t \<Longrightarrow> on_top s co c cs \<Longrightarrow> on_top t co c cs"
  by (simp add: frame_only_def on_top_def running_def same_heap_def always_mem_def)

text \<open>
  Native functions conform to their specification when each, on top of the call stack, performs what
  it says of the values in its frame. This is what the host promises.
\<close>

definition conforms :: "host \<Rightarrow> natives \<Rightarrow> vm \<Rightarrow> bool" where
  "conforms host ns D \<longleftrightarrow>
     (\<forall>cl nf f t co c cs st. ns cl = Some nf \<longrightarrow> cl_prototype cl = None \<longrightarrow> cl_func cl = Some f \<longrightarrow>
        on_top t co c cs \<longrightarrow> same_heap D t \<longrightarrow> cs < brk t \<longrightarrow> cstates t cs = Some st \<longrightarrow> frame_ok st \<longrightarrow>
        closures t (cs_closure st) = Some cl \<longrightarrow>
        performs (nf (gs_items st)) t co c cs (host f cs (cl_udata cl) t))"

lemma conforms_heap: "same_heap s t \<Longrightarrow> conforms host ns s \<Longrightarrow> conforms host ns t"
  unfolding conforms_def by (blast intro: same_heap_trans)

lemma conforms_none [simp]: "conforms host (\<lambda>_. None) D"
  by (simp add: conforms_def)

text \<open>A native function in its frame.\<close>

lemma native_performs:
  assumes "conforms host ns D" and "ns cl = Some nf" "cl_prototype cl = None" "cl_func cl = Some f"
    and "on_top t co c cs" "same_heap D t" "cs < brk t" "cstates t cs = Some st" "frame_ok st"
      "closures t (cs_closure st) = Some cl"
  shows "performs (nf (gs_items st)) t co c cs (interpreter_exec host ex (Suc n) co t)"
proof -
  have "current_frame co t = Ok (cs, st, cl) t"
    using assms(5,8,10) by (auto simp: on_top_def running_def coro_ok_def current_frame_def)
  then show ?thesis using assms by (simp add: conforms_def)
qed

text \<open>The label \<open>error\<close>, reached with a static message.\<close>

lemma goto_error_thrown:
  assumes r: "running t co c" and st: "cstates t cs = Some st" and m: "errMsg t \<noteq> Some VNotPresent"
  shows "goto_error cs pc t =
    (if co_errorHandler c = None then Fault Aborted else Throw (with_frame t cs (st\<lparr>cs_pc := pc\<rparr>)))"
proof -
  let ?t = "with_frame t cs (st\<lparr>cs_pc := pc\<rparr>)"
  have e: "executing_coroutine ?t = Ok co ?t" "coros ?t co = Some c"
    using running_executing(2)[of ?t co c] r by (simp_all add: running_def)
  have "fluffyvm_set_errmsg ?t (fluffyvm_get_errmsg ?t) = ?t"
    using m by (cases "errMsg t") (auto simp: fluffyvm_set_errmsg_def fluffyvm_get_errmsg_def with_frame_def)
  then show ?thesis
    using e st by (simp add: goto_error_def set_pc_def interpreter_error_def errorCommon_def Let_def)
qed

lemma static_errmsg_present [simp]: "errMsg (set_static_errmsg t m) \<noteq> Some VNotPresent"
  by (simp add: set_static_errmsg_def fluffyvm_set_errmsg_def)

lemma goto_error_raises:
  assumes "on_top t co c f" and "cstates t cs = Some st"
  shows "raises t co c False (Static m) (goto_error cs pc (set_static_errmsg t m))"
proof -
  let ?t = "set_static_errmsg t m"
  have r: "running ?t co c" using assms(1) by (simp add: on_top_def running_def)
  then have "running (with_frame ?t cs (st\<lparr>cs_pc := pc\<rparr>)) co c" by (simp add: running_def)
  then have "thrown_in t co c False (with_frame ?t cs (st\<lparr>cs_pc := pc\<rparr>)) c"
    using assms(1) by (simp add: thrown_in_def on_top_def)
  moreover have "goto_error cs pc ?t =
      (if co_errorHandler c = None then Fault Aborted else Throw (with_frame ?t cs (st\<lparr>cs_pc := pc\<rparr>)))"
    using assms(2) by (intro goto_error_thrown[OF r]) simp_all
  ultimately show ?thesis by (auto simp: raises_def)
qed

lemma raises_rbind:
  "raises t co c locked m (x :: ('a, vm) res) \<Longrightarrow> raises t co c locked m (rbind x f :: ('b, vm) res)"
  by (auto simp: raises_def split: if_splits)

subsection \<open>One instruction\<close>

text \<open>An instruction that leads to position \<open>pc\<close> with registers \<open>r\<close> and stack \<open>xs\<close>.\<close>

definition goes_on :: "vm \<Rightarrow> addr \<Rightarrow> func \<Rightarrow> int \<Rightarrow> regs \<Rightarrow> value list \<Rightarrow> (step_result, vm) res \<Rightarrow> bool" where
  "goes_on t cs fn pc r xs res \<longleftrightarrow>
     (\<exists>t' st'. res = Ok (Continue pc) t' \<and> frame_only t cs t' \<and> frame_runs t' cs st' fn r xs)"

lemma goes_onI:
  "frame_runs (with_frame t cs st') cs st' fn r xs \<Longrightarrow> goes_on t cs fn pc r xs (Ok (Continue pc) (with_frame t cs st'))"
  by (auto simp: goes_on_def)

lemma goes_on_same: "frame_runs t cs st fn r xs \<Longrightarrow> goes_on t cs fn pc r xs (Ok (Continue pc) t)"
  by (auto simp: goes_on_def)

lemma loop_goes_on:
  assumes "goes_on t cs fn pc' r xs (exec_instruction ex (interpreter_exec host ex n co) co cs is pc t)"
    and "pc < int (length is)" and "on_top t co c cs"
    and "\<And>t' st'. frame_runs t' cs st' fn r xs \<Longrightarrow> on_top t' co c cs \<Longrightarrow> same_heap t t' \<Longrightarrow>
      performs out t' co c cs (exec_loop host ex n co cs is pc' t')"
  shows "performs out t co c cs (exec_loop host ex (Suc n) co cs is pc t)"
proof -
  obtain t' st' where t: "exec_instruction ex (interpreter_exec host ex n co) co cs is pc t = Ok (Continue pc') t'"
      "frame_only t cs t'" "frame_runs t' cs st' fn r xs"
    using assms(1) by (auto simp: goes_on_def)
  let ?t = "with_frame t' cs (st'\<lparr>cs_pc := pc'\<rparr>)"
  have k: "frame_only t cs ?t" using t(2) by (rule frame_only_trans) simp
  have "exec_loop host ex (Suc n) co cs is pc t = exec_loop host ex n co cs is pc' ?t"
    using t assms(2) by (simp add: set_pc_def frame_runs_def)
  moreover have "performs out ?t co c cs (exec_loop host ex n co cs is pc' ?t)"
    using frame_runs_pc[OF t(3)] on_top_kept[OF k assms(3)] k by (intro assms(4)) (simp_all add: frame_only_def)
  ultimately show ?thesis using performs_after[OF k] by simp
qed

lemma loop_raises:
  assumes "raises t co c locked m (exec_instruction ex (interpreter_exec host ex n co) co cs is pc t)"
    and "pc < int (length is)"
  shows "raises t co c locked m (exec_loop host ex (Suc n) co cs is pc t)"
  using raises_rbind[OF assms(1)] assms(2) by simp

lemma fetched:
  assumes "frame_runs t cs st fn r xs" and "instr_of (is ! nat pc) \<noteq> Unspecified"
  shows "exec_instruction ex exec co cs is pc t =
    rbind (dispatch ex exec co cs is pc (decode (is ! nat pc)) t) (\<lambda>r s. case r of
      Continue pc' \<Rightarrow> Ok (Continue (pc' + 1)) s | Return k \<Rightarrow> Ok (Return k) s)"
  using assms by (intro fetch) (auto simp: frame_runs_def)

lemma step_nop:
  assumes "frame_runs t cs st fn r xs" and "instr_of (is ! nat pc) = Nop"
  shows "goes_on t cs fn (pc + 1) r xs (exec_instruction ex exec co cs is pc t)"
  using assms goes_on_same[OF assms(1)] by (simp add: fetched dispatches)

lemma step_mov:
  assumes f: "frame_runs t cs st fn r xs" and i: "instr_of (is ! nat pc) = Mov a b"
    and v: "source fn r b = Some v" "target r a v = Some r'"
  shows "goes_on t cs fn (pc + 1) r' xs (exec_instruction ex exec co cs is pc t)"
  by (rule target_written[OF f v(2)])
     (use f i source_read(1)[OF f v(1)] in \<open>simp add: fetched dispatches goes_onI\<close>)

lemma step_arith:
  assumes f: "frame_runs t cs st fn r xs" and i: "instr_of (is ! nat pc) = Arith g a b c"
    and v: "source fn r b = Some v" "source fn r c = Some w" "compute g v w = Some x" "target r a x = Some r'"
  shows "goes_on t cs fn (pc + 1) r' xs (exec_instruction ex exec co cs is pc t)"
  by (rule target_written[OF f v(4)])
     (use f i source_read(1)[OF f v(1)] source_read(1)[OF f v(2)] compute_math[OF v(3)]
       dispatches(3)[OF i] in \<open>simp add: fetched op_arith_def goes_onI\<close>)

lemma step_push:
  assumes f: "frame_runs t cs st fn r xs" and i: "instr_of (is ! nat pc) = Push a"
    and v: "source fn r a = Some v" and n: "length xs < 256"
  shows "goes_on t cs fn (pc + 1) r (xs @ [v]) (exec_instruction ex exec co cs is pc t)"
proof -
  have st: "cstates t cs = Some st" "frame_ok st" "gs_items st = xs" using f by (auto simp: frame_runs_def)
  have "interpreter_push cs v t = Ok True (with_frame t cs (with_stack st (xs @ [v])))"
    using interpreter_push_room[OF st(1,2), of v] source_read(2)[OF f v] n st(3) by simp
  moreover have "frame_runs (with_frame t cs (with_stack st (xs @ [v]))) cs (with_stack st (xs @ [v])) fn r (xs @ [v])"
    using n source_read(2)[OF f v] frame_okD(3)[OF st(2)] st(3) by (intro frame_runs_stack[OF f]) auto
  ultimately show ?thesis
    using f i source_read(1)[OF f v] by (simp add: fetched dispatches goes_onI)
qed

lemma step_push_full:
  assumes f: "frame_runs t cs st fn r xs" and i: "instr_of (is ! nat pc) = Push a"
    and v: "source fn r a = Some v" and n: "\<not> length xs < 256" and top: "on_top t co c cs"
  shows "raises t co c False (Static SS_stackOverflow) (exec_instruction ex exec co cs is pc t)"
proof -
  have st: "cstates t cs = Some st" "frame_ok st" "gs_items st = xs" using f by (auto simp: frame_runs_def)
  have "interpreter_push cs v t = Ok False (set_static_errmsg t SS_stackOverflow)"
    using st n frame_okD(2)[OF st(2)] by (intro interpreter_push_full[OF st(1,2)]) simp
  then show ?thesis
    using f i source_read(1)[OF f v]
    by (simp add: fetched dispatches) (intro raises_rbind goto_error_raises[OF top st(1)])
qed

lemma step_pop:
  assumes f: "frame_runs t cs st fn r xs" and i: "instr_of (is ! nat pc) = Pop a"
    and v: "xs \<noteq> []" "target r a (last xs) = Some r'"
  shows "goes_on t cs fn (pc + 1) r' (butlast xs) (exec_instruction ex exec co cs is pc t)"
proof -
  have st: "cstates t cs = Some st" "frame_ok st" "gs_items st = butlast xs @ [last xs]"
    using f v(1) by (auto simp: frame_runs_def)
  let ?t = "with_frame t cs (with_stack st (butlast xs))"
  have "interpreter_pop cs t = Ok (Some (last xs)) ?t" by (rule interpreter_pop_top[OF st])
  moreover have "frame_runs ?t cs (with_stack st (butlast xs)) fn r (butlast xs)"
    using frame_okD(2,3)[OF st(2)] st(3) by (intro frame_runs_stack[OF f]) auto
  then obtain st' where "setRegister cs (int a) (last xs) ?t = Ok () (with_frame ?t cs st')"
      "frame_runs (with_frame ?t cs st') cs st' fn r' (butlast xs)"
    by (rule target_written[OF _ v(2)])
  ultimately show ?thesis
    using f i by (simp add: fetched dispatches interpreter_pop2_def goes_onI)
qed

lemma step_pop_empty:
  assumes f: "frame_runs t cs st fn r []" and i: "instr_of (is ! nat pc) = Pop a" and top: "on_top t co c cs"
  shows "raises t co c False (Static SS_stackUnderflow) (exec_instruction ex exec co cs is pc t)"
proof -
  have st: "cstates t cs = Some st" "frame_ok st" "gs_items st = []" using f by (auto simp: frame_runs_def)
  show ?thesis
    using f i interpreter_pop_empty[OF st]
    by (simp add: fetched dispatches interpreter_pop2_def) (intro raises_rbind goto_error_raises[OF top st(1)])
qed

lemma step_const:
  assumes f: "frame_runs t cs st fn r xs" and i: "instr_of (is ! nat pc) = Const a b"
    and v: "b < length (fn_consts fn)" "target r a (fn_consts fn ! b) = Some r'"
  shows "goes_on t cs fn (pc + 1) r' xs (exec_instruction ex exec co cs is pc t)"
proof -
  obtain cl where cl: "cstates t cs = Some st" "closures t (cs_closure st) = Some cl" "func_of t cl = Some fn"
    using f by (auto simp: frame_runs_def)
  obtain p bc where p: "cl_prototype cl = Some p" "bcs t (p_bytecode p) = Some bc" "fn_consts fn = bc_constants bc"
    using cl(3) v(1) by (auto simp: func_of_def split: option.splits)
  show ?thesis
    by (rule target_written[OF f v(2)])
       (use f i cl p v(1) dispatches(6)[OF i] in \<open>simp add: fetched op_get_constant_def goes_onI\<close>)
qed

lemma step_top:
  assumes f: "frame_runs t cs st fn r xs" and i: "instr_of (is ! nat pc) = Top a"
    and v: "target r a (VLong (word_of_int (int (length xs) - 1))) = Some r'"
  shows "goes_on t cs fn (pc + 1) r' xs (exec_instruction ex exec co cs is pc t)"
proof -
  have sp: "cs_sp st = int (length xs)" "cstates t cs = Some st"
    using f frame_okD(1)[of st] by (auto simp: frame_runs_def)
  show ?thesis
    by (rule target_written[OF f v])
       (use f i sp dispatches(7)[OF i] in \<open>simp add: fetched op_stack_gettop_def value_new_long_def goes_onI\<close>)
qed

lemma step_jump:
  assumes f: "frame_runs t cs st fn r xs" and i: "instr_of (is ! nat pc) = Jump a"
    and v: "pc + int a < int (length is)"
  shows "goes_on t cs fn (pc + int a + 1) r xs (exec_instruction ex exec co cs is pc t)"
  using f i v goes_on_same[OF f] by (simp add: fetched dispatches(8)[OF i] op_jmp_forward_def)

text \<open>\<open>RETURN\<close> pushes registers as long as there is room.\<close>

lemma push_sources:
  assumes "frame_runs t cs st fn r xs" and "those (map (source fn r) ns) = Some vs"
  shows "\<exists>t' st'. push_registers cs (map int ns) t = Ok () t' \<and> frame_only t cs t' \<and>
     frame_runs t' cs st' fn r (take 256 (xs @ vs))"
  using assms
proof (induction ns arbitrary: t st xs vs)
  case Nil
  then have "length xs \<le> 256" using frame_okD(2)[of st] by (auto simp: frame_runs_def)
  then show ?case using Nil by (intro exI[of _ t] exI[of _ st]) simp
next
  case (Cons n ns)
  note f = Cons.prems(1)
  obtain v ws where v: "source fn r n = Some v" "those (map (source fn r) ns) = Some ws" "vs = v # ws"
    using Cons.prems(2) by (auto split: option.splits)
  have st: "cstates t cs = Some st" "frame_ok st" "gs_items st = xs" "length xs \<le> 256"
    using f frame_okD(2)[of st] by (auto simp: frame_runs_def)
  note g = source_read[OF f v(1)]
  show ?case
  proof (cases "length xs < 256")
    case True
    let ?st = "with_stack st (xs @ [v])"
    have "interpreter_push cs v t = Ok True (with_frame t cs ?st)"
      using interpreter_push_room[OF st(1,2) _ g(2)] True st(3) by simp
    moreover have f': "frame_runs (with_frame t cs ?st) cs ?st fn r (xs @ [v])"
      using True g(2) frame_okD(3)[OF st(2)] st(3) by (intro frame_runs_stack[OF f]) auto
    ultimately show ?thesis
      using Cons.IH[OF f' v(2)] g(1) v(3) by (auto intro: frame_only_trans[OF frame_only_frame])
  next
    case False
    let ?t = "set_static_errmsg t SS_stackOverflow"
    have "interpreter_push cs v t = Ok False ?t"
      using st False by (intro interpreter_push_full[OF st(1,2)]) simp
    moreover have k: "frame_only t cs ?t" by (simp add: frame_only_def same_heap_def)
    moreover have f': "frame_runs ?t cs st fn r xs"
      using f func_of_heap[of t ?t] k by (simp add: frame_runs_def frame_only_def)
    ultimately show ?thesis
      using Cons.IH[OF f' v(2)] g(1) v(3) False st(4) by (auto intro: frame_only_trans[OF k])
  qed
qed

lemma step_ret:
  assumes f: "frame_runs t cs st fn r xs" and i: "instr_of (is ! nat pc) = Ret a b"
    and v: "those (map (source fn r) [a..<a + b]) = Some vs" and n: "pc < int (length is)"
  shows "performs (Returned (int b) (take 256 (xs @ vs))) t co c cs (exec_loop host ex (Suc n) co cs is pc t)"
proof -
  have "map int [a..<a + b] = [int a..int a + int b - 1]" by (rule upto_args[symmetric])
  then obtain t' st' where t: "push_registers cs [int a..int a + int b - 1] t = Ok () t'" "frame_only t cs t'"
      "frame_runs t' cs st' fn r (take 256 (xs @ vs))"
    using push_sources[OF f v] by auto
  have "exec_loop host ex (Suc n) co cs is pc t = Ok (int b) (with_frame t' cs (st'\<lparr>cs_pc := pc\<rparr>))"
    using f i t(1) n frame_runs_state[OF t(3)] by (simp add: fetched dispatches set_pc_def)
  then show ?thesis
    using t by (auto simp: performs_def frame_runs_def intro: frame_only_trans)
qed

subsection \<open>Calls\<close>

lemma frame_runsD:
  assumes "frame_runs t cs st fn r xs"
  shows "cs < brk t" "cstates t cs = Some st" "frame_ok st" "gs_items st = xs" "cs_sp st = int (length xs)"
    "length xs \<le> 256" "VNotPresent \<notin> set xs"
  using assms frame_okD(1,2,3)[of st] by (auto simp: frame_runs_def)

lemma step_call_few:
  assumes f: "frame_runs t cs st fn r xs" and i: "instr_of (is ! nat pc) = Call a b c"
    and n: "length xs < c - 1" and top: "on_top t co cr cs"
  shows "raises t co cr False (Static SS_stackUnderflow) (exec_instruction ex exec co cs is pc t)"
proof -
  note d = frame_runsD[OF f] and o = dispatches(10)[OF i]
  have "op_call exec co cs pc (decode (is ! nat pc)) t = goto_error cs pc (set_static_errmsg t SS_stackUnderflow)"
    using d(2,5) n o by (auto simp: op_call_def Let_def)
  then show ?thesis
    using i o by (simp add: fetched[OF f]) (intro raises_rbind goto_error_raises[OF top d(2)])
qed

lemma step_call_nil:
  assumes f: "frame_runs t cs st fn r xs" and i: "instr_of (is ! nat pc) = Call a b c"
    and n: "\<not> length xs < c - 1" and v: "source fn r a = Some VNil" and top: "on_top t co cr cs"
  shows "raises t co cr False (Static SS_attemptToCallNilValue) (exec_instruction ex exec co cs is pc t)"
proof -
  note d = frame_runsD[OF f] and o = dispatches(10)[OF i]
  have "op_call exec co cs pc (decode (is ! nat pc)) t =
      goto_error cs pc (set_static_errmsg t SS_attemptToCallNilValue)"
    using d(2,5) n o source_read(1)[OF f v] by (auto simp: op_call_def Let_def)
  then show ?thesis
    using i o by (simp add: fetched[OF f]) (intro raises_rbind goto_error_raises[OF top d(2)])
qed

lemma step_call_overflow:
  assumes f: "frame_runs t cs st fn r xs" and i: "instr_of (is ! nat pc) = Call a b c"
    and n: "\<not> length xs < c - 1" and v: "source fn r a = Some (VClosure func)" and top: "on_top t co cr cs"
    and full: "int (length (frames cr)) = FLUFFYVM_CALL_STACK_SIZE"
  shows "raises t co cr True (Static SS_stackOverflow) (exec_instruction ex exec co cs is pc t)"
proof -
  note d = frame_runsD[OF f] and o = dispatches(10)[OF i]
  have r: "running t co cr" "\<not> co_callStackLock cr" "always_mem t" using top by (simp_all add: on_top_def)
  obtain t' c' where t': "coroutine_function_prolog func t = Ok None t'" "running t' co c'"
    "co_callStackLock c'" "same_control c' cr"
    "errMsg t' = errMsg (set_static_errmsg t SS_stackOverflow)" "cstates t' = cstates t"
    "coroutinesStack t' = coroutinesStack t"
    by (rule prolog_overflows[OF r(1,2) full r(3)])
  let ?u = "with_frame t' cs (st\<lparr>cs_pc := pc\<rparr>)"
  have "op_call exec co cs pc (decode (is ! nat pc)) t = goto_error cs pc t'"
    using d(2,5) n o source_read(1)[OF f v] t'(1) by (auto simp: op_call_def Let_def run_callee_def)
  moreover have "goto_error cs pc t' = (if co_errorHandler c' = None then Fault Aborted else Throw ?u)"
    using t'(5,6) d(2) by (intro goto_error_thrown[OF t'(2)]) simp_all
  moreover have "thrown_in t co cr True ?u c'"
    using t'(2,3,4,7) by (simp add: thrown_in_def running_def)
  ultimately have "raises t co cr True (Static SS_stackOverflow) (op_call exec co cs pc (decode (is ! nat pc)) t)"
    using t'(4,5) by (auto simp: raises_def)
  then show ?thesis using i o by (simp add: fetched[OF f]) (intro raises_rbind)
qed

text \<open>The frame a call makes runs the called function with nothing in its registers.\<close>

lemma new_frame_runs:
  assumes g: "closures t func = Some cl" "func_of t cl = Some g"
    and f: "callee < brk t" "cstates t callee = Some (with_stack (new_call_state func co (cl_func cl \<noteq> None)) args)"
    and args: "length args \<le> 256" "VNotPresent \<notin> set args"
  shows "frame_runs t callee (with_stack (new_call_state func co False) args) g (\<lambda>_. VNil) args"
proof -
  have cl: "cl_func cl = None" by (rule func_of_Some[OF g(2)])
  have "regs_are (with_stack (new_call_state func co False) args) (\<lambda>_. VNil)"
    by (simp add: regs_are_def) (auto simp: new_call_state_def config_defs)
  then show ?thesis using f g cl args frame_ok_with_stack by (simp add: frame_runs_def)
qed

lemma callee_ready:
  assumes f: "cs < brk s" and top: "on_top s co c cs" and cl: "closures s func = Some cl"
    and e: "entered_from s co c cs st' func cl args t"
  obtains d where "on_top t co d (brk s)" "frames d = frames c @ [brk s]" "same_control d c"
    "closures t func = Some cl" "brk s < brk t"
    "cstates t (brk s) = Some (with_stack (new_call_state func co (cl_func cl \<noteq> None)) args)"
proof -
  have r: "running s co c" "\<not> co_callStackLock c" "always_mem s" using top by (simp_all add: on_top_def)
  have h: "same_heap s t" "brk s < brk t" "brk s \<noteq> cs"
    using e f by (auto simp: entered_from_def)
  have cl': "closures t func = Some cl" using cl h(1) by (simp add: same_heap_def)
  have st: "cstates t (brk s) = Some (with_stack (new_call_state func co (cl_func cl \<noteq> None)) args)"
    using e h(3) by (simp add: entered_from_def)
  obtain d where d: "running t co d" "\<not> co_callStackLock d" "frames d = frames c @ [brk s]"
      "same_control d c"
    by (rule entered_running[OF r(1,2) e])
  have "always_mem t" using r(3) h(1) by (simp add: always_mem_def same_heap_def)
  then have "on_top t co d (brk s)" using d by (simp add: on_top_def)
  then show ?thesis using d(3,4) cl' h(2) st by (rule that)
qed

lemma exec_enters:
  assumes "on_top t co d cs" and "frame_runs t cs st fn r xs" and "closures t (cs_closure st) = Some cl"
    and "cl_prototype cl = Some p"
  shows "interpreter_exec host ex (Suc n) co t = exec_loop host ex n co cs (p_instructions p) 0 t"
proof -
  have "current_frame co t = Ok (cs, st, cl) t"
    using assms by (auto simp: on_top_def running_def coro_ok_def frame_runs_def current_frame_def)
  then show ?thesis using assms(4) by simp
qed

lemma raises_callee:
  assumes "raises t co d locked m res" and "frames d = frames c @ [brk s]"
    and "same_control d c" and "same_heap s t" and "brk s < brk t" and "coroutinesStack t = coroutinesStack s"
  shows "raises s co c locked m res"
proof -
  have "thrown_in s co c locked u e" if "thrown_in t co d locked u e" for u e
    using that assms(2,3,6) order_trans[OF less_imp_le[OF assms(5)]] by (auto simp: thrown_in_def)
  then show ?thesis
    using assms(1,3) message_heap[OF assms(4), of m] by (auto simp: raises_def split: if_splits)
qed

text \<open>The caller goes on with the results.\<close>

lemma caller_goes_on:
  assumes f: "frame_runs s cs st fn r (front @ args)" and top: "on_top s co c cs"
    and e: "entered_from s co c cs (st\<lparr>cs_pc := pc\<rparr>) func cl args t"
    and p: "performs (Returned k vs) t co d (brk s) (exec t)"
    and n: "n = (if va then length vs else nat ret)" "length front + n \<le> 256"
  shows "goes_on s cs fn pc r (front @ results n k vs)
    (rbind (exec t) (call_end co cs pc (length args) va ret))"
proof -
  have r: "running s co c" "\<not> co_callStackLock c" using top by (simp_all add: on_top_def)
  note fd = frame_runsD[OF f]
  have ne: "cs \<noteq> brk s" using fd(1) by simp
  let ?st = "st\<lparr>cs_pc := pc\<rparr>" and ?ys = "front @ results n k vs"
  obtain u x where u: "exec t = Ok k u" "frame_only t (brk s) u" "cstates u (brk s) = Some x" "frame_ok x"
      "gs_items x = vs" "closures u (cs_closure x) \<noteq> None"
    using p by (auto simp: performs_def)
  have h: "same_heap s t" "cstates t cs = Some ?st" "brk s < brk t" "coroutinesStack t = coroutinesStack s"
      "\<forall>a < brk s. a \<noteq> cs \<longrightarrow> cstates t a = cstates s a"
    using e by (auto simp: entered_from_def)
  have ucs: "coros u = coros t" "coroutinesStack u = coroutinesStack t" "cstates u cs = Some ?st"
    using u(2) h(2,3) fd(1) by (auto simp: frame_only_def)
  let ?w = "(with_frame u cs (with_stack ?st ?ys))\<lparr>coros := coros s\<rparr>"
  have "call_end co cs pc (length args) va ret k u = Ok (Continue pc) ?w"
    using fd(3,4) by (intro op_call_leaves[OF r ne e ucs u(3-6) _ _ n]) simp_all
  then have end_at: "rbind (exec t) (call_end co cs pc (length args) va ret) = Ok (Continue pc) ?w"
    using u(1) by simp
  have sw: "same_heap s ?w" using same_heap_trans[OF h(1)] u(2) by (simp add: frame_only_def)
  then have k: "frame_only s cs ?w" using u(2) h by (auto simp: frame_only_def)
  have "length ?ys \<le> 256" using n(2) by (simp add: results_def)
  moreover have "VNotPresent \<notin> set ?ys"
    using fd(7) results_present frame_okD(3)[OF u(4)] u(5) by auto
  ultimately have "frame_ok (with_stack ?st ?ys)" by (rule frame_ok_with_stack)
  moreover obtain cl' where "closures s (cs_closure st) = Some cl'" "func_of s cl' = Some fn" "regs_are st r"
    using f by (auto simp: frame_runs_def)
  ultimately have "frame_runs ?w cs (with_stack ?st ?ys) fn r ?ys"
    using fd(1) k sw func_of_heap[OF sw] by (auto simp: frame_runs_def frame_only_def same_heap_def regs_are_def)
  then show ?thesis using end_at k by (auto simp: goes_on_def)
qed

end
