(* ===== verification/MachineRefinement.thy ===== *)
theory MachineRefinement
  imports RegisterMachine
begin

text \<open>
  The interpreter implements the register machine: whatever the machine gives for the code of a
  function, calls included, \<open>interpreter_exec\<close> gives in the frame of that function, and what that
  means for calls from native code, protected or not.
\<close>

subsection \<open>The interpreter runs the abstract machine\<close>

text \<open>
  The interpreter realises an outcome of some code: from every state of the machine that agrees with
  the abstract one, with \<open>d\<close> frames of room and fuel for \<open>M\<close> instructions of each of these frames.
\<close>

definition agrees :: "vm \<Rightarrow> nat \<Rightarrow> func \<Rightarrow> regs \<Rightarrow> value list \<Rightarrow> vm \<Rightarrow> addr \<Rightarrow> coroutine \<Rightarrow> addr \<Rightarrow> call_state \<Rightarrow> bool" where
  "agrees D d fn r xs t co c cs st \<longleftrightarrow> frame_runs t cs st fn r xs \<and> on_top t co c cs \<and> same_heap D t \<and>
     int (length (frames c) + d) = FLUFFYVM_CALL_STACK_SIZE"

definition realised :: "host \<Rightarrow> ext \<Rightarrow> addr \<Rightarrow> vm \<Rightarrow> nat \<Rightarrow> nat \<Rightarrow> func \<Rightarrow> instr list \<Rightarrow> regs \<Rightarrow> value list \<Rightarrow> outcome \<Rightarrow> bool" where
  "realised host ex co D M d fn code r xs out \<longleftrightarrow>
     (\<forall>t c cs st is pc n. agrees D d fn r xs t co c cs st \<longrightarrow> pc \<le> length is \<longrightarrow>
        map instr_of (drop pc is) = code \<longrightarrow> length code + d * (M + 2) < n \<longrightarrow>
        performs out t co c cs (exec_loop host ex n co cs is (int pc) t))"

lemma agrees_same:
  "agrees D d fn r xs t co c cs st \<Longrightarrow> frame_runs t' cs st' fn r' xs' \<Longrightarrow> on_top t' co c cs \<Longrightarrow>
     same_heap t t' \<Longrightarrow> agrees D d fn r' xs' t' co c cs st'"
  by (auto simp: agrees_def intro: same_heap_trans)

lemma realisedD:
  "realised host ex co D M d fn code r xs out \<Longrightarrow> agrees D d fn r xs t co c cs st \<Longrightarrow> pc \<le> length is \<Longrightarrow>
     map instr_of (drop pc is) = code \<Longrightarrow> length code + d * (M + 2) < n \<Longrightarrow>
     performs out t co c cs (exec_loop host ex n co cs is (int pc) t)"
  unfolding realised_def by blast

lemma realised_Wrong [simp]: "realised host ex co D M d fn code r xs Wrong"
  by (simp add: realised_def)

lemma first_instr:
  assumes "map instr_of (drop pc is) = i # code"
  shows "instr_of (is ! pc) = i" "pc < length is" "map instr_of (drop (Suc pc) is) = code"
proof -
  show l: "pc < length is" using assms by (cases "pc < length is") simp_all
  then show "instr_of (is ! pc) = i" "map instr_of (drop (Suc pc) is) = code"
    using assms by (simp_all add: Cons_nth_drop_Suc[symmetric])
qed

lemma realised_end: "realised host ex co D M d fn [] r xs (Returned 0 xs)"
  unfolding realised_def
proof (intro allI impI)
  fix t c cs st "is" pc n
  assume a: "agrees D d fn r xs t co c cs st" "pc \<le> length is" "map instr_of (drop pc is) = []"
    "length [] + d * (M + 2) < n"
  obtain m where n: "n = Suc m" using a(4) by (cases n) simp_all
  have f: "frame_runs t cs st fn r xs" using a(1) by (simp add: agrees_def)
  have "exec_loop host ex n co cs is (int pc) t = Ok 0 (with_frame t cs (st\<lparr>cs_pc := int pc\<rparr>))"
    using a(2,3) n frame_runs_state[OF f] by (simp add: set_pc_def)
  then show "performs (Returned 0 xs) t co c cs (exec_loop host ex n co cs is (int pc) t)"
    using f by (auto simp: performs_def frame_runs_def)
qed

lemma realised_step:
  assumes rest: "realised host ex co D M d fn (drop a code) r' xs' out" and a: "a \<le> length code"
    and step: "\<And>t c cs st is pc n. agrees D d fn r xs t co c cs st \<Longrightarrow> instr_of (is ! nat (int pc)) = i \<Longrightarrow>
      pc + a < length is \<Longrightarrow> length code + d * (M + 2) < n \<Longrightarrow>
      goes_on t cs fn (int pc + int a + 1) r' xs' (exec_instruction ex (interpreter_exec host ex n co) co cs is (int pc) t)"
  shows "realised host ex co D M d fn (i # code) r xs out"
  unfolding realised_def
proof (intro allI impI)
  fix t c cs st "is" pc n
  assume ag: "agrees D d fn r xs t co c cs st" and code: "map instr_of (drop pc is) = i # code"
    and fuel: "length (i # code) + d * (M + 2) < n"
  note i = first_instr[OF code]
  obtain m where n: "n = Suc m" "length code + d * (M + 2) < m" using fuel by (cases n) simp_all
  have l: "length code = length is - Suc pc" using i(3) by (metis length_drop length_map)
  have pos: "int (Suc pc + a) = int pc + int a + 1" by simp
  show "performs out t co c cs (exec_loop host ex n co cs is (int pc) t)"
    unfolding n(1)
  proof (rule loop_goes_on[OF step[OF ag _ _ n(2)]])
    fix t' st'
    assume t': "frame_runs t' cs st' fn r' xs'" "on_top t' co c cs" "same_heap t t'"
    have "map instr_of (drop (Suc pc + a) is) = drop a code"
      unfolding i(3)[symmetric] by (simp add: drop_map add.commute)
    from realisedD[OF rest agrees_same[OF ag t'] _ this, of m]
    show "performs out t' co c cs (exec_loop host ex m co cs is (int pc + int a + 1) t')"
      unfolding pos using n(2) a l i(2) by simp
  qed (use ag i a l in \<open>simp_all add: agrees_def\<close>)
qed

lemma realised_raise:
  assumes "\<And>t c cs st is pc n. agrees D d fn r xs t co c cs st \<Longrightarrow> instr_of (is ! nat (int pc)) = i \<Longrightarrow>
      length code + d * (M + 2) < n \<Longrightarrow>
      raises t co c locked m (exec_instruction ex (interpreter_exec host ex n co) co cs is (int pc) t)"
    and "out = (if locked then Overflowed else Raised m)" and "locked \<Longrightarrow> m = Static SS_stackOverflow"
  shows "realised host ex co D M d fn (i # code) r xs out"
  unfolding realised_def
proof (intro allI impI)
  fix t c cs st "is" pc n
  assume ag: "agrees D d fn r xs t co c cs st" and code: "map instr_of (drop pc is) = i # code"
    and fuel: "length (i # code) + d * (M + 2) < n"
  note i = first_instr[OF code]
  obtain k where n: "n = Suc k" "length code + d * (M + 2) < k" using fuel by (cases n) simp_all
  have "raises t co c locked m (exec_loop host ex n co cs is (int pc) t)"
    unfolding n(1) using i n(2) by (intro loop_raises assms(1)[OF ag]) simp_all
  then show "performs out t co c cs (exec_loop host ex n co cs is (int pc) t)"
    using assms(2,3) by (cases locked) (auto simp: performs_def)
qed

lemma goes_on_increment:
  "goes_on t cs fn pc r xs res \<Longrightarrow> goes_on t cs fn (pc + 1) r xs (rbind res (\<lambda>r s. case r of
     Continue pc' \<Rightarrow> Ok (Continue (pc' + 1)) s | Return k \<Rightarrow> Ok (Return k) s))"
  by (auto simp: goes_on_def)

lemma call_operands:
  assumes "\<not> length xs < k - 1" and "front = take (length xs - nargs_of k (length xs)) xs"
    and "args = drop (length xs - nargs_of k (length xs)) xs"
  shows "xs = front @ args"
    "int k = (if args = [] then 0 else 1 + int (length args)) \<or> int k = 1 \<and> front = []"
  using assms by (auto simp: nargs_of_def)

text \<open>
  A called function is realised when its code is, or when it is native and conforms. A call up to
  the end of such a callee.
\<close>

definition callee_realised :: "host \<Rightarrow> ext \<Rightarrow> addr \<Rightarrow> vm \<Rightarrow> nat \<Rightarrow> nat \<Rightarrow> callable \<Rightarrow> value list \<Rightarrow> outcome \<Rightarrow> bool" where
  "callee_realised host ex co D M d g args out =
     (case g of
        Bytecode h \<Rightarrow> length (fn_code h) \<le> M \<and> realised host ex co D M d h (fn_code h) (\<lambda>_. VNil) args out
      | Native f \<Rightarrow> out = f args)"

lemma in_frame_performs:
  assumes top: "on_top t co d cs" and room: "int (length (frames d) + e) = FLUFFYVM_CALL_STACK_SIZE"
    and g: "library ns t f = Some g" "closures t f = Some cl"
    and st: "cs < brk t" "cstates t cs = Some (with_stack (new_call_state f co (cl_func cl \<noteq> None)) args)"
    and nat: "conforms host ns t" and args: "length args \<le> 256" "VNotPresent \<notin> set args"
    and callee: "callee_realised host ex co t M e g args out" and fuel: "(e + 1) * (M + 2) \<le> n"
  shows "performs out t co d cs (interpreter_exec host ex n co t)"
proof -
  obtain m where n: "n = Suc m" using fuel by (cases n) simp_all
  show ?thesis
  proof (cases g)
    case (Bytecode fn)
    obtain p where p: "func_of t cl = Some fn" "cl_prototype cl = Some p" "fn_code fn = map instr_of (p_instructions p)"
      using g by (auto simp: Bytecode elim!: library_Bytecode)
    note fr = new_frame_runs[OF g(2) p(1) st args]
    have ag: "agrees t e fn (\<lambda>_. VNil) args t co d cs (with_stack (new_call_state f co False) args)"
      using top fr room by (simp add: agrees_def)
    have "length (fn_code fn) \<le> M" "realised host ex co t M e fn (fn_code fn) (\<lambda>_. VNil) args out"
      using callee by (simp_all add: callee_realised_def Bytecode)
    then have "performs out t co d cs (exec_loop host ex m co cs (p_instructions p) (int 0) t)"
      using realisedD[OF _ ag, of host ex M "fn_code fn" out 0 "p_instructions p" m] fuel n p(3) by simp
    then show ?thesis unfolding n using exec_enters[OF top fr _ p(2)] g(2) by simp
  next
    case (Native nf)
    obtain k where k: "ns cl = Some nf" "cl_prototype cl = None" "cl_func cl = Some k"
      using g by (auto simp: Native elim!: library_Native)
    let ?st = "with_stack (new_call_state f co True) args"
    have "performs (nf (gs_items ?st)) t co d cs (interpreter_exec host ex (Suc m) co t)"
      using st g(2) k(3) args by (intro native_performs[OF nat k top]) (simp_all add: frame_ok_with_stack)
    then show ?thesis using callee args(1) by (simp add: callee_realised_def Native n)
  qed
qed

lemma callee_realised_heap:
  assumes "same_heap D t" and "callee_realised host ex co D M d g args out"
  shows "callee_realised host ex co t M d g args out"
proof -
  have "realised host ex co t M d h code r xs out" if "realised host ex co D M d h code r xs out" for h code r xs
    using that same_heap_trans[OF assms(1)] unfolding realised_def agrees_def by blast
  then show ?thesis using assms(2) by (auto simp: callee_realised_def split: callable.splits)
qed

lemma entered_performs:
  assumes fr: "cs < brk s" and top: "on_top s co c cs"
    and g: "library ns s f = Some g" "closures s f = Some cl" and nat: "conforms host ns s"
    and t: "entered_from s co c cs st' f cl args t" and args: "length args \<le> 256" "VNotPresent \<notin> set args"
    and room: "int (length (frames c) + Suc e) = FLUFFYVM_CALL_STACK_SIZE"
    and callee: "callee_realised host ex co s M e g args out" and fuel: "(e + 1) * (M + 2) \<le> n"
  obtains d where "frames d = frames c @ [brk s]" "same_control d c"
    "performs out t co d (brk s) (interpreter_exec host ex n co t)"
proof -
  have h: "same_heap s t" using t by (simp add: entered_from_def)
  obtain d where d: "on_top t co d (brk s)" "frames d = frames c @ [brk s]" "same_control d c"
      "closures t f = Some cl" "brk s < brk t"
      "cstates t (brk s) = Some (with_stack (new_call_state f co (cl_func cl \<noteq> None)) args)"
    by (rule callee_ready[OF fr top g(2) t])
  have "performs out t co d (brk s) (interpreter_exec host ex n co t)"
    using g(1) library_heap[OF h] d(2) room
    by (intro in_frame_performs[OF d(1) _ _ d(4-6) conforms_heap[OF h nat] args callee_realised_heap[OF h callee] fuel]) simp_all
  then show ?thesis by (rule that[OF d(2,3)])
qed

lemma callee_performs:
  assumes ag: "agrees D (Suc e) fn r xs t co c cs st" and i: "instr_of (is ! nat pc) = Call a b k"
    and xs: "\<not> length xs < k - 1" "front = take (length xs - nargs_of k (length xs)) xs"
      "args = drop (length xs - nargs_of k (length xs)) xs"
    and v: "source fn r a = Some (VClosure f)" and g: "library ns D f = Some g" and nat: "conforms host ns D"
    and callee: "callee_realised host ex co D M e g args out"
    and fuel: "Suc e * (M + 2) \<le> n"
  obtains t1 d cl where "op_call (interpreter_exec host ex n co) co cs pc (decode (is ! nat pc)) t =
      rbind (interpreter_exec host ex n co t1)
        (call_end co cs pc (length args) (b = 1) (if int b - 1 < 0 then 0 else int b - 1))"
    "entered_from t co c cs (st\<lparr>cs_pc := pc\<rparr>) f cl args t1" "frames d = frames c @ [brk t]"
    "same_control d c" "performs out t1 co d (brk t) (interpreter_exec host ex n co t1)"
proof -
  have fr: "frame_runs t cs st fn r xs" and top: "on_top t co c cs" and h: "same_heap D t"
    and room: "int (length (frames c) + Suc e) = FLUFFYVM_CALL_STACK_SIZE"
    using ag by (simp_all add: agrees_def)
  have top': "running t co c" "\<not> co_callStackLock c" "always_mem t" using top by (simp_all add: on_top_def)
  note fd = frame_runsD[OF fr] and o = dispatches(10)[OF i] and ops = call_operands[OF xs]
  have g': "library ns t f = Some g" using g library_heap[OF h] by simp
  obtain cl where cl: "closures t f = Some cl" by (rule library_closure[OF g'])
  have reg: "getRegister cs (ins_A (decode (is ! nat pc))) t = Ok (VClosure f) t"
    using source_read(1)[OF fr v] o by simp
  obtain t1 where t1: "op_call (interpreter_exec host ex n co) co cs pc (decode (is ! nat pc)) t =
      rbind (interpreter_exec host ex n co t1) (call_end co cs pc (length args) (ins_B (decode (is ! nat pc)) = 1)
        (if ins_B (decode (is ! nat pc)) - 1 < 0 then 0 else ins_B (decode (is ! nat pc)) - 1))"
      "entered_from t co c cs (st\<lparr>cs_pc := pc\<rparr>) f cl args t1"
    by (rule op_call_enters[OF top'(1,2) _ top'(3) fd(2,3) _ _ _ reg cl, where front = front and args = args])
       (use fd(1,4) ops o room in auto)
  have args: "length args \<le> 256" "VNotPresent \<notin> set args" using ops(1) fd(6,7) by simp_all
  obtain d where d: "frames d = frames c @ [brk t]" "same_control d c"
      "performs out t1 co d (brk t) (interpreter_exec host ex n co t1)"
    by (rule entered_performs[OF fd(1) top g' cl conforms_heap[OF h nat] t1(2) args _ callee_realised_heap[OF h callee]])
       (use fuel room in auto)
  have B: "ins_B (decode (is ! nat pc)) = int b" "(int b = 1) = (b = 1)" using o by auto
  show ?thesis by (rule that[OF t1(1)[unfolded B] t1(2) d])
qed

lemma realised_call:
  assumes xs: "\<not> length xs < k - 1" "front = take (length xs - nargs_of k (length xs)) xs"
      "args = drop (length xs - nargs_of k (length xs)) xs"
    and v: "source fn r a = Some (VClosure f)" and g: "library ns D f = Some g" and nat: "conforms host ns D"
    and callee: "callee_realised host ex co D M e g args (Returned j vs)"
    and ys: "ys = front @ results (nres_of b (length vs)) j vs" "length ys \<le> 256"
    and rest: "realised host ex co D M (Suc e) fn code r ys out"
  shows "realised host ex co D M (Suc e) fn (Call a b k # code) r xs out"
proof (rule realised_step[where a = 0])
  fix t c cs st "is" pc n
  assume ag: "agrees D (Suc e) fn r xs t co c cs st" and i: "instr_of (is ! nat (int pc)) = Call a b k"
    and fuel: "length code + Suc e * (M + 2) < n"
  let ?ret = "if int b - 1 < 0 then 0 else int b - 1"
  obtain t1 d cl where t1: "op_call (interpreter_exec host ex n co) co cs (int pc) (decode (is ! nat (int pc))) t =
      rbind (interpreter_exec host ex n co t1) (call_end co cs (int pc) (length args) (b = 1) ?ret)"
    "entered_from t co c cs (st\<lparr>cs_pc := int pc\<rparr>) f cl args t1"
    "performs (Returned j vs) t1 co d (brk t) (interpreter_exec host ex n co t1)"
    by (rule callee_performs[OF ag i xs v g nat callee, where n = n]) (use fuel in auto)
  have fr: "frame_runs t cs st fn r (front @ args)" and top: "on_top t co c cs"
    using ag call_operands(1)[OF xs] by (simp_all add: agrees_def)
  have "goes_on t cs fn (int pc) r (front @ results (nres_of b (length vs)) j vs)
      (rbind (interpreter_exec host ex n co t1) (call_end co cs (int pc) (length args) (b = 1) ?ret))"
    by (rule caller_goes_on[where exec = "interpreter_exec host ex n co", OF fr top t1(2,3)]) (use ys in \<open>auto simp: nres_of_def results_def\<close>)
  from goes_on_increment[OF this[folded t1(1) ys(1)]]
  show "goes_on t cs fn (int pc + int 0 + 1) r ys (exec_instruction ex (interpreter_exec host ex n co) co cs is (int pc) t)"
    using i dispatches(10)[OF i] by (simp add: fetched[OF fr])
qed (use rest in simp_all)

lemma realised_call_raises:
  assumes xs: "\<not> length xs < k - 1" "args = drop (length xs - nargs_of k (length xs)) xs"
    and v: "source fn r a = Some (VClosure f)" and g: "library ns D f = Some g" and nat: "conforms host ns D"
    and callee: "callee_realised host ex co D M e g args out"
    and out: "out = (if locked then Overflowed else Raised m)" "locked \<Longrightarrow> m = Static SS_stackOverflow"
  shows "realised host ex co D M (Suc e) fn (Call a b k # code) r xs out"
proof (rule realised_raise[OF _ out])
  fix t c cs st "is" pc n
  assume ag: "agrees D (Suc e) fn r xs t co c cs st" and i: "instr_of (is ! nat (int pc)) = Call a b k"
    and fuel: "length code + Suc e * (M + 2) < n"
  obtain t1 d cl where t1: "op_call (interpreter_exec host ex n co) co cs (int pc) (decode (is ! nat (int pc))) t =
      rbind (interpreter_exec host ex n co t1)
        (call_end co cs (int pc) (length args) (b = 1) (if int b - 1 < 0 then 0 else int b - 1))"
    "entered_from t co c cs (st\<lparr>cs_pc := int pc\<rparr>) f cl args t1" "frames d = frames c @ [brk t]"
    "same_control d c" "performs out t1 co d (brk t) (interpreter_exec host ex n co t1)"
    by (rule callee_performs[OF ag i xs(1) refl xs(2) v g nat callee, where n = n]) (use fuel in auto)
  have fr: "frame_runs t cs st fn r xs" using ag by (simp add: agrees_def)
  have "raises t1 co d locked m (interpreter_exec host ex n co t1)"
    using t1(5) out by (auto simp: performs_def split: if_splits)
  moreover have "same_heap t t1" "brk t < brk t1" "coroutinesStack t1 = coroutinesStack t" using t1(2) by (auto simp: entered_from_def)
  ultimately have "raises t co c locked m (interpreter_exec host ex n co t1)"
    by (rule raises_callee[OF _ t1(3,4)])
  then show "raises t co c locked m (exec_instruction ex (interpreter_exec host ex n co) co cs is (int pc) t)"
    using i dispatches(10)[OF i] t1(1) by (auto simp: fetched[OF fr] intro: raises_rbind)
qed

lemma realised_next:
  assumes "realised host ex co D M d fn code r' xs' out"
    and "\<And>t cs st is pc exec. frame_runs t cs st fn r xs \<Longrightarrow> instr_of (is ! nat pc) = i \<Longrightarrow>
      goes_on t cs fn (pc + 1) r' xs' (exec_instruction ex exec co cs is pc t)"
  shows "realised host ex co D M d fn (i # code) r xs out"
  by (rule realised_step[where a = 0]) (use assms in \<open>auto simp: agrees_def\<close>)

lemma realised_jump:
  assumes "realised host ex co D M d fn (drop a code) r xs out" and "a \<le> length code"
  shows "realised host ex co D M d fn (Jump a # code) r xs out"
  by (rule realised_step[OF assms]) (use step_jump in \<open>auto simp: agrees_def\<close>)

lemma realised_fails:
  assumes "\<And>t c cs st is pc exec. frame_runs t cs st fn r xs \<Longrightarrow> instr_of (is ! nat pc) = i \<Longrightarrow>
      on_top t co c cs \<Longrightarrow> raises t co c False m (exec_instruction ex exec co cs is pc t)"
  shows "realised host ex co D M d fn (i # code) r xs (Raised m)"
  by (rule realised_raise[where locked = False]) (use assms in \<open>auto simp: agrees_def\<close>)

lemma realised_overflow:
  assumes "\<not> length xs < k - 1" and "source fn r a = Some (VClosure f)"
  shows "realised host ex co D M 0 fn (Call a b k # code) r xs Overflowed"
  by (rule realised_raise[where locked = True and m = "Static SS_stackOverflow"])
     (use step_call_overflow[OF _ _ assms] in \<open>auto simp: agrees_def\<close>)

lemma realised_ret:
  assumes v: "those (map (source fn r) [a..<a + b]) = Some vs"
  shows "realised host ex co D M d fn (Ret a b # code) r xs (Returned (int b) (take 256 (xs @ vs)))"
  unfolding realised_def
proof (intro allI impI)
  fix t c cs st "is" pc n
  assume ag: "agrees D d fn r xs t co c cs st" and code: "map instr_of (drop pc is) = Ret a b # code"
    and fuel: "length (Ret a b # code) + d * (M + 2) < n"
  note i = first_instr[OF code]
  obtain m where n: "n = Suc m" using fuel by (cases n) simp_all
  have f: "frame_runs t cs st fn r xs" using ag by (simp add: agrees_def)
  show "performs (Returned (int b) (take 256 (xs @ vs))) t co c cs (exec_loop host ex n co cs is (int pc) t)"
    unfolding n using i by (intro step_ret[OF f _ v]) simp_all
qed

text \<open>
  Every run of the abstract machine is realised, by computation induction along the run; the cases
  of a call first.
\<close>

lemma run_call_cases:
  assumes lib: "lib = library ns D" and nat: "conforms host ns D"
    and callee: "\<And>f g e args. \<not> length xs < k - 1 \<Longrightarrow> source fn r a = Some (VClosure f) \<Longrightarrow> lib f = Some g \<Longrightarrow> d = Suc e \<Longrightarrow>
      args = drop (length xs - nargs_of k (length xs)) xs \<Longrightarrow>
      callee_realised host ex co D M e g args (outcome_of lib e g args)"
    and rest: "\<And>f g e args j vs ys. \<not> length xs < k - 1 \<Longrightarrow> source fn r a = Some (VClosure f) \<Longrightarrow> lib f = Some g \<Longrightarrow> d = Suc e \<Longrightarrow>
      args = drop (length xs - nargs_of k (length xs)) xs \<Longrightarrow> outcome_of lib e g args = Returned j vs \<Longrightarrow>
      ys = take (length xs - nargs_of k (length xs)) xs @ results (nres_of b (length vs)) j vs \<Longrightarrow>
      length ys \<le> 256 \<Longrightarrow> realised host ex co D M d fn code r ys (run lib d fn code r ys)"
  shows "realised host ex co D M d fn (Call a b k # code) r xs (run lib d fn (Call a b k # code) r xs)"
proof (cases "length xs < k - 1")
  case True
  then show ?thesis by (auto intro!: realised_fails step_call_few)
next
  case few: False
  let ?args = "drop (length xs - nargs_of k (length xs)) xs"
  let ?front = "take (length xs - nargs_of k (length xs)) xs"
  note rc = run_call[of lib d fn a b k code r xs]
  consider "source fn r a = Some VNil" | f g where "source fn r a = Some (VClosure f)" "lib f = Some g" "d = 0"
    | f g e where "source fn r a = Some (VClosure f)" "lib f = Some g" "d = Suc e"
    | "run lib d fn (Call a b k # code) r xs = Wrong"
  proof (cases "source fn r a")
    case (Some v)
    with few that show thesis
    proof (cases v)
      case (VClosure f)
      with few that Some show thesis by (cases "lib f"; cases d) (auto simp: Let_def)
    qed (auto simp: Let_def)
  qed (use few that(4) in \<open>auto simp: Let_def\<close>)
  then show ?thesis
  proof cases
    case 1
    then show ?thesis using few by (auto simp: Let_def intro!: realised_fails step_call_nil)
  next
    case 2
    then show ?thesis using few by (auto simp: Let_def intro!: realised_overflow)
  next
    case (3 f g e)
    have g: "library ns D f = Some g" using 3(2) lib by simp
    note c = callee[OF few 3(1,2,3) refl]
    have run: "run lib d fn (Call a b k # code) r xs =
        (case outcome_of lib e g ?args of
           Returned j vs \<Rightarrow>
             (let ys = ?front @ results (nres_of b (length vs)) j vs
              in if length ys \<le> 256 then run lib d fn code r ys else Wrong)
         | out \<Rightarrow> out)"
      unfolding rc using few 3 by (simp add: Let_def)
    show ?thesis
    proof (cases "outcome_of lib e g ?args")
      case (Returned j vs)
      let ?ys = "?front @ results (nres_of b (length vs)) j vs"
      show ?thesis
      proof (cases "length ?ys \<le> 256")
        case True
        have "realised host ex co D M d fn (Call a b k # code) r xs (run lib d fn code r ?ys)"
          unfolding 3(3) using rest[OF few 3(1,2,3) refl Returned refl True] 3(3)
          by (intro realised_call[OF few refl refl 3(1) g nat c[unfolded Returned] refl True]) simp
        then show ?thesis using True by (simp only: run Returned outcome.case Let_def if_True)
      qed (simp only: run Returned outcome.case Let_def if_False realised_Wrong)
    next
      case (Raised m)
      show ?thesis
        using realised_call_raises[OF few refl 3(1) g nat c[unfolded Raised], of False m, folded 3(3)]
        by (simp only: run Raised outcome.case) simp
    next
      case Overflowed
      show ?thesis
        using realised_call_raises[OF few refl 3(1) g nat c[unfolded Overflowed], of True "Static SS_stackOverflow", folded 3(3)]
        by (simp only: run Overflowed outcome.case) simp
    qed (simp only: run outcome.case realised_Wrong)
  next
    case 4
    then show ?thesis by (simp only: realised_Wrong)
  qed
qed

lemma code_realised:
  assumes M: "\<And>f g. library ns D f = Some (Bytecode g) \<Longrightarrow> length (fn_code g) \<le> M" and nat: "conforms host ns D"
  shows "realised host ex co D M d fn code r xs (run (library ns D) d fn code r xs)"
proof (induction "library ns D" d fn code r xs rule: run.induct)
  case (1 d fn r xs)
  show ?case unfolding run.simps by (rule realised_end)
next
  case (2 d fn "is" r xs)
  then show ?case unfolding run.simps by (rule realised_next[OF _ step_nop])
next
  case (3 d fn a b "is" r xs)
  then show ?case
    by (cases "source fn r b"; cases "target r a (the (source fn r b))")
       (auto intro!: realised_next step_mov)
next
  case (4 d fn f a b c "is" r xs)
  then show ?case
    by (auto split: option.split simp: bind_eq_Some_conv intro!: realised_next step_arith)
next
  case (5 d fn a "is" r xs)
  then show ?case
    by (auto split: option.split intro: realised_next step_push realised_fails step_push_full)
next
  case (6 d fn a "is" r xs)
  then show ?case
    by (auto split: option.split intro: realised_next step_pop realised_fails step_pop_empty)
next
  case (7 d fn a b "is" r xs)
  then show ?case by (auto split: option.split intro!: realised_next step_const)
next
  case (8 d fn a "is" r xs)
  then show ?case by (auto split: option.split intro!: realised_next step_top)
next
  case (9 d fn a "is" r xs)
  then show ?case by (auto intro: realised_jump)
next
  case (10 d fn a b "is" r xs)
  show ?case by (auto split: option.split intro: realised_ret simp del: take_append)
next
  case (11 d fn a b c "is" r xs)
  show ?case
  proof (rule run_call_cases[OF refl nat])
    fix f g e args assume c: "\<not> length xs < c - 1" "source fn r a = Some (VClosure f)"
      "library ns D f = Some g" "d = Suc e" "args = drop (length xs - nargs_of c (length xs)) xs"
    then show "callee_realised host ex co D M e g args (outcome_of (library ns D) e g args)"
      using 11(1)[OF c(1) refl c(5) c(2) refl] M[of f]
      by (cases g) (simp_all add: callee_realised_def)
  next
    fix f g e args j vs ys assume c: "\<not> length xs < c - 1" "source fn r a = Some (VClosure f)"
      "library ns D f = Some g" "d = Suc e" "args = drop (length xs - nargs_of c (length xs)) xs"
      "outcome_of (library ns D) e g args = Returned j vs"
      "ys = take (length xs - nargs_of c (length xs)) xs @ results (nres_of b (length vs)) j vs" "length ys \<le> 256"
    then show "realised host ex co D M d fn is r ys (run (library ns D) d fn is r ys)"
      using 11(2)[OF c(1) refl c(5) c(2) refl refl c(3,4) c(6)[unfolded outcome_of_def] c(7,8)] by simp
  qed
next
  case (12 d fn "is" r xs)
  then show ?case by simp
qed

text \<open>
  A function runs as the abstract machine says: in a frame, and called, where native functions are
  included.
\<close>

definition code_fits :: "natives \<Rightarrow> vm \<Rightarrow> nat \<Rightarrow> bool" where
  "code_fits ns D M \<longleftrightarrow> (\<forall>f g. library ns D f = Some (Bytecode g) \<longrightarrow> length (fn_code g) \<le> M)"

lemma code_fits_heap: "same_heap s t \<Longrightarrow> code_fits ns t M = code_fits ns s M"
  by (simp add: code_fits_def library_heap)

lemma function_runs:
  assumes top: "on_top t co c cs" and fr: "frame_runs t cs st fn (\<lambda>_. VNil) args"
    and M: "length (fn_code fn) \<le> M" "code_fits ns t M" and nat: "conforms host ns t"
    and room: "int (length (frames c) + d) = FLUFFYVM_CALL_STACK_SIZE" and fuel: "(d + 1) * (M + 2) \<le> n"
  shows "performs (run (library ns t) d fn (fn_code fn) (\<lambda>_. VNil) args) t co c cs (interpreter_exec host ex n co t)"
proof -
  obtain cl p where cl: "closures t (cs_closure st) = Some cl" "cl_prototype cl = Some p"
      "fn_code fn = map instr_of (p_instructions p)"
    using fr by (auto simp: frame_runs_def elim!: func_of_Some)
  obtain m where n: "n = Suc m" "length (fn_code fn) + d * (M + 2) < m"
    using fuel M(1) by (cases n) auto
  have "agrees t d fn (\<lambda>_. VNil) args t co c cs st" using top fr room by (simp add: agrees_def)
  moreover have r: "realised host ex co t M d fn (fn_code fn) (\<lambda>_. VNil) args (run (library ns t) d fn (fn_code fn) (\<lambda>_. VNil) args)"
    using M(2) by (intro code_realised[OF _ nat]) (simp add: code_fits_def)
  ultimately have "performs (run (library ns t) d fn (fn_code fn) (\<lambda>_. VNil) args) t co c cs
      (exec_loop host ex m co cs (p_instructions p) (int 0) t)"
    using cl(3) n(2) realisedD[OF r, of t c cs st 0 "p_instructions p" m] by simp
  then show ?thesis using exec_enters[OF top fr cl(1,2)] unfolding n(1) by simp
qed

lemma callee_runs:
  assumes "library ns D f = Some g" and "code_fits ns D M" and "conforms host ns D"
  shows "callee_realised host ex co D M d g args (outcome_of (library ns D) d g args)"
  using assms code_realised[of ns D M host ex co d] by (cases g) (auto simp: callee_realised_def code_fits_def)

text \<open>So a function of the register machine is a callee in the sense of the contracts of calls.\<close>

lemma machine_callee:
  assumes g: "library ns D func = Some g" and M: "code_fits ns D M" and nat: "conforms host ns D"
    and m: "always_mem D" and room: "int (h + d) = FLUFFYVM_CALL_STACK_SIZE" and fuel: "(d + 1) * (M + 2) \<le> n"
    and args: "length args \<le> 256" "VNotPresent \<notin> set args"
    and run: "outcome_of (library ns D) d g args = Returned k vs"
  shows "callee_returns (interpreter_exec host ex n co) D h co func cl caller callee args k vs"
  unfolding callee_returns_def
proof (intro allI impI)
  fix t assume t: "called D h t co func cl caller callee args"
  obtain c where c: "running t co c" "\<not> co_callStackLock c" "length (frames c) = h" "frames c \<noteq> []"
      "last (frames c) = callee"
    using t by (auto simp: called_def)
  have h: "same_heap D t" "callee < brk t" "caller < brk t" "callee \<noteq> caller" "closures t func = Some cl"
      "cstates t callee = Some (with_stack (new_call_state func co (cl_func cl \<noteq> None)) args)"
    using t by (auto simp: called_def same_heap_def)
  have lib: "library ns t = library ns D" by (rule library_heap[OF h(1)])
  have "always_mem t" using m h(1) by (simp add: always_mem_def same_heap_def)
  then have top: "on_top t co c callee" using c by (simp add: on_top_def)
  have room': "int (length (frames c) + d) = FLUFFYVM_CALL_STACK_SIZE" using c(3) room by simp
  have "callee_realised host ex co t M d g args (Returned k vs)"
    using callee_runs[of ns t func g M host ex co d args] g M nat lib run code_fits_heap[OF h(1)] conforms_heap[OF h(1)] by simp
  then have "performs (Returned k vs) t co c callee (interpreter_exec host ex n co t)"
    using g lib by (intro in_frame_performs[OF top room' _ h(5,2,6) conforms_heap[OF h(1) nat] args _ fuel]) simp_all
  then show "\<exists>u e. interpreter_exec host ex n co t = Ok k u \<and> coros u = coros t \<and>
      coroutinesStack u = coroutinesStack t \<and> cstates u caller = cstates t caller \<and> cstates u callee = Some e \<and>
      frame_ok e \<and> gs_items e = vs \<and> closures u (cs_closure e) \<noteq> None"
    using h(3,4) by (auto simp: performs_def frame_only_def)
qed

text \<open>A protected call, up to the start of the callee.\<close>

lemma native_call_performs:
  assumes top: "on_top s co c cs"
    and cur: "cstates s cs = Some st" "frame_ok st" "closures s (cs_closure st) \<noteq> None" "cs < brk s"
    and args: "gs_items st = front @ args"
    and g: "library ns s func = Some g" and M: "code_fits ns s M" and nat: "conforms host ns s"
    and room: "int (length (frames c) + Suc d) = FLUFFYVM_CALL_STACK_SIZE" and fuel: "(d + 1) * (M + 2) \<le> n"
  obtains t e cl where
    "interpreter_call (interpreter_exec host ex n) (VClosure func) (int (length args)) nret s =
       rbind (interpreter_exec host ex n co t) (native_end co cs nret)"
    "entered_from s co c cs (with_stack st front) func cl args t" "frames e = frames c @ [brk s]"
    "same_control e c"
    "performs (outcome_of (library ns s) d g args) t co e (brk s) (interpreter_exec host ex n co t)"
proof -
  have top': "running s co c" "\<not> co_callStackLock c" "always_mem s" "frames c \<noteq> []" "last (frames c) = cs"
    using top by (simp_all add: on_top_def)
  obtain cl where cl: "closures s func = Some cl" by (rule library_closure[OF g])
  obtain t where t: "interpreter_call (interpreter_exec host ex n) (VClosure func) (int (length args)) nret s =
      rbind (interpreter_exec host ex n co t) (native_end co cs nret)"
      "entered_from s co c cs (with_stack st front) func cl args t"
    by (rule interpreter_call_enters[where exec = "interpreter_exec host ex n" and nret = nret,
          OF top'(1,2) _ top'(3-5) cur args refl cl]) (use room in auto)
  have a: "length args \<le> 256" "VNotPresent \<notin> set args" using frame_okD(2,3)[OF cur(2)] args by simp_all
  obtain e where "frames e = frames c @ [brk s]" "same_control e c"
      "performs (outcome_of (library ns s) d g args) t co e (brk s) (interpreter_exec host ex n co t)"
    by (rule entered_performs[OF cur(4) top g cl nat t(2) a room callee_runs[OF g M nat] fuel])
  then show ?thesis using that t by simp
qed

subsection \<open>The refinement\<close>

text \<open>
  C1. The interpreter implements the register machine: started in the frame that a call makes for a
  function, with fuel for its instructions and those of every nested call, it returns the number of
  results and leaves the values that the machine says, with every coroutine, every older frame, the
  heap and the call stack as they were; where the machine says that an error is raised, by an
  instruction or by a native function, it is thrown with this message from the frames above, or
  aborts the process if no handler is installed; where the call stack overflows, the error leaves the
  call stack locked. Native functions are those of a host that conforms to their specification \<open>ns\<close>.
\<close>

theorem interpreter_implements_machine:
  assumes "on_top t co c cs" and "frame_runs t cs st fn (\<lambda>_. VNil) args"
    and "length (fn_code fn) \<le> M" and "code_fits ns t M" and "conforms host ns t"
    and "int (length (frames c) + d) = FLUFFYVM_CALL_STACK_SIZE" and "(d + 1) * (M + 2) \<le> n"
  shows "performs (run (library ns t) d fn (fn_code fn) (\<lambda>_. VNil) args) t co c cs (interpreter_exec host ex n co t)"
  by (rule function_runs[OF assms])

text \<open>The protected call in the three cases, with a handler installed above the one of the caller.\<close>

abbreviation guarded :: "coroutine \<Rightarrow> coroutine" where
  "guarded c \<equiv> c\<lparr>co_errorHandler := Some (case co_errorHandler c of None \<Rightarrow> 0 | Some d \<Rightarrow> Suc d)\<rparr>"

lemma guarded_on_top:
  assumes "on_top s co c cs"
  shows "on_top (s\<lparr>coros := (coros s)(co \<mapsto> guarded c)\<rparr>) co (guarded c) cs"
  using assms by (auto simp: on_top_def running_def coro_ok_def always_mem_def)

lemma protected_raise:
  assumes top: "on_top s co c cs" and "cs < brk s" and x: "raises (s\<lparr>coros := (coros s)(co \<mapsto> guarded c)\<rparr>) co (guarded c) locked m
      (thing (s\<lparr>coros := (coros s)(co \<mapsto> guarded c)\<rparr>))"
  shows "if locked then interpreter_xpcall h thing None s = Fault Deadlock
    else \<exists>u e. interpreter_xpcall h thing None s = Ok False u \<and> running u co e \<and> frames e = frames c \<and>
      co_errorHandler e = co_errorHandler c \<and> \<not> co_callStackLock e \<and>
      errMsg u = errMsg (with_message s m)"
proof -
  let ?s = "s\<lparr>coros := (coros s)(co \<mapsto> guarded c)\<rparr>"
  have r: "running s co c" "\<not> co_callStackLock c" "co_currentCallState c = Some cs"
    using top by (auto simp: on_top_def running_def coro_ok_def)
  obtain t d where t: "thing ?s = Throw t" "errMsg t = errMsg (with_message ?s m)"
      "thrown_in ?s co (guarded c) locked t d"
    using x by (auto simp: raises_def)
  have m: "errMsg (with_message ?s m) = errMsg (with_message s m)"
    by (rule message_heap) simp
  show ?thesis
  proof (cases locked)
    case True
    then have "running t co d" "co_callStackLock d" using t(3) by (simp_all add: thrown_in_def)
    then show ?thesis using True xpcall_locked[where thing = thing, OF r(1) t(1)] by simp
  next
    case False
    then obtain gs where d: "running t co d" "\<not> co_callStackLock d" "frames d = frames c @ gs"
        "\<forall>g \<in> set gs. brk s \<le> g"
      using t(3) by (auto simp: thrown_in_def)
    then have "\<forall>g \<in> set gs. co_currentCallState c \<noteq> Some g" using r(3) assms(2) by auto
    from xpcall_caught[where thing = thing and n = h, OF r(1,2) t(1) d(1-3) this] show ?thesis
      unfolding t(2) m using False by auto
  qed
qed

lemma protected_return:
  assumes top: "on_top s co c cs" and cur: "frame_ok st" "gs_items st = front @ args" "cs < brk s"
    and t: "thing (s\<lparr>coros := (coros s)(co \<mapsto> guarded c)\<rparr>) = rbind (exec t) (native_end co cs nret)"
      "entered_from (s\<lparr>coros := (coros s)(co \<mapsto> guarded c)\<rparr>) co (guarded c) cs (with_stack st front) func cl args t"
    and p: "performs (Returned k vs) t co e (brk s) (exec t)"
    and n: "n = (if nret = -1 then length vs else nat nret)" "length front + n \<le> 256"
  shows "\<exists>u. interpreter_xpcall h thing None s = Ok True u \<and> coros u = coros s \<and>
    coroutinesStack u = coroutinesStack s \<and> cstates u cs = Some (with_stack st (front @ results n k vs))"
proof -
  let ?s = "s\<lparr>coros := (coros s)(co \<mapsto> guarded c)\<rparr>" and ?ys = "front @ results n k vs"
  have r: "running s co c" using top by (simp add: on_top_def)
  obtain u x where u: "exec t = Ok k u" "frame_only t (brk s) u" "cstates u (brk s) = Some x"
      "frame_ok x" "gs_items x = vs" "closures u (cs_closure x) \<noteq> None"
    using p by (auto simp: performs_def)
  have ucs: "coros u = coros t" "coroutinesStack u = coroutinesStack t" "cstates u cs = Some (with_stack st front)"
    using u(2) t(2) cur(3) by (auto simp: frame_only_def entered_from_def)
  have "thing ?s = Ok () ((with_frame u cs (with_stack st ?ys))\<lparr>coros := coros ?s\<rparr>)"
    using interpreter_call_leaves[OF _ _ _ t(2) ucs _ u(4-6) frame_shrink[OF cur(1,2)] _ n]
      guarded_on_top[OF top] cur(3) u(1,3) t(1) by (simp add: on_top_def)
  from xpcall_returns[where thing = thing, OF r this] show ?thesis
    using ucs(2) t(2) by (simp add: entered_from_def)
qed

text \<open>The call under the handler, up to the start of the callee, and what its errors are.\<close>

lemma guarded_call_performs:
  assumes top: "on_top s co c cs"
    and cur: "cstates s cs = Some st" "frame_ok st" "closures s (cs_closure st) \<noteq> None" "cs < brk s"
    and args: "gs_items st = front @ args"
    and g: "library ns s func = Some g" and M: "code_fits ns s M" and nat: "conforms host ns s"
    and room: "int (length (frames c) + Suc d) = FLUFFYVM_CALL_STACK_SIZE" and fuel: "(d + 1) * (M + 2) \<le> n"
    and guard: "s' = s\<lparr>coros := (coros s)(co \<mapsto> guarded c)\<rparr>"
  obtains t e cl where
    "interpreter_call (interpreter_exec host ex n) (VClosure func) (int (length args)) nret s' =
       rbind (interpreter_exec host ex n co t) (native_end co cs nret)"
    "entered_from s' co (guarded c) cs (with_stack st front) func cl args t"
    "performs (outcome_of (library ns s) d g args) t co e (brk s) (interpreter_exec host ex n co t)"
    "\<And>locked m. raises t co e locked m (interpreter_exec host ex n co t) \<Longrightarrow> raises s' co (guarded c) locked m
       (interpreter_call (interpreter_exec host ex n) (VClosure func) (int (length args)) nret s')"
proof -
  note top1 = guarded_on_top[OF top, folded guard]
  have h: "same_heap s s'" by (simp add: guard)
  have lib: "library ns s' = library ns s" by (rule library_heap[OF h])
  obtain t e cl where t: "interpreter_call (interpreter_exec host ex n) (VClosure func) (int (length args)) nret s' =
       rbind (interpreter_exec host ex n co t) (native_end co cs nret)"
    "entered_from s' co (guarded c) cs (with_stack st front) func cl args t" "frames e = frames (guarded c) @ [brk s']"
    "same_control e (guarded c)"
    "performs (outcome_of (library ns s) d g args) t co e (brk s') (interpreter_exec host ex n co t)"
    by (rule native_call_performs[where host = host and ex = ex and nret = nret, OF top1 _ cur(2) _ _ args _ _ conforms_heap[OF h nat] _ fuel])
       (use cur g M room lib code_fits_heap[OF h] guard in auto)
  have "raises s' co (guarded c) locked m
      (interpreter_call (interpreter_exec host ex n) (VClosure func) (int (length args)) nret s')"
    if "raises t co e locked m (interpreter_exec host ex n co t)" for locked m
    unfolding t(1) using t(2) by (intro raises_rbind raises_callee[OF that t(3,4)]) (auto simp: entered_from_def)
  then show ?thesis using that t(1,2,5) guard by simp
qed

text \<open>The errors a protected call catches.\<close>

lemma protected_call_raised:
  assumes top: "on_top s co c cs"
    and cur: "cstates s cs = Some st" "frame_ok st" "closures s (cs_closure st) \<noteq> None" "cs < brk s"
    and args: "gs_items st = front @ args"
    and g: "library ns s func = Some g" and M: "code_fits ns s M" and nat: "conforms host ns s"
    and room: "int (length (frames c) + Suc d) = FLUFFYVM_CALL_STACK_SIZE" and fuel: "(d + 1) * (M + 2) \<le> n"
    and raised: "outcome_of (library ns s) d g args = Raised m"
  shows "\<exists>u e. interpreter_xpcall h
      (interpreter_call (interpreter_exec host ex n) (VClosure func) (int (length args)) nret) None s = Ok False u \<and>
    running u co e \<and> frames e = frames c \<and> co_errorHandler e = co_errorHandler c \<and> \<not> co_callStackLock e \<and>
    errMsg u = errMsg (with_message s m)"
proof -
  let ?thing = "interpreter_call (interpreter_exec host ex n) (VClosure func) (int (length args)) nret"
  obtain t e where t: "performs (outcome_of (library ns s) d g args) t co e (brk s) (interpreter_exec host ex n co t)"
    "raises t co e False m (interpreter_exec host ex n co t) \<Longrightarrow>
       raises (s\<lparr>coros := (coros s)(co \<mapsto> guarded c)\<rparr>) co (guarded c) False m
         (?thing (s\<lparr>coros := (coros s)(co \<mapsto> guarded c)\<rparr>))"
    by (rule guarded_call_performs[where host = host and ex = ex and nret = nret, OF top cur args g M nat room fuel refl]) blast
  then show ?thesis
    using protected_raise[where thing = ?thing and h = h and locked = False and m = m, OF top cur(4)] raised
    by (simp add: performs_def)
qed

text \<open>
  C2. A protected call of a function, in bytecode or native, does what the register machine says: if the
  function returns, the call is true, the results stand in place of the arguments and every
  coroutine is as before; if it raises an error, however deep the calls it made, the call is
  false, the message is there, the frames and the handler are those of the caller and the call stack
  is unlocked; and if it overflows the call stack, the protected call itself deadlocks.
\<close>

theorem protected_call_runs:
  assumes top: "on_top s co c cs"
    and cur: "cstates s cs = Some st" "frame_ok st" "closures s (cs_closure st) \<noteq> None" "cs < brk s"
    and args: "gs_items st = front @ args"
    and g: "library ns s func = Some g" and M: "code_fits ns s M" and nat: "conforms host ns s"
    and room: "int (length (frames c) + Suc d) = FLUFFYVM_CALL_STACK_SIZE" and fuel: "(d + 1) * (M + 2) \<le> n"
    and call: "call = interpreter_xpcall h
      (interpreter_call (interpreter_exec host ex n) (VClosure func) (int (length args)) nret) None s"
  shows "case outcome_of (library ns s) d g args of
     Returned k vs \<Rightarrow>
       (let ys = front @ results (if nret = -1 then length vs else nat nret) k vs in
        length ys \<le> 256 \<longrightarrow> (\<exists>u. call = Ok True u \<and> coros u = coros s \<and>
          coroutinesStack u = coroutinesStack s \<and> cstates u cs = Some (with_stack st ys)))
   | Raised m \<Rightarrow> \<exists>u e. call = Ok False u \<and> running u co e \<and> frames e = frames c \<and>
       co_errorHandler e = co_errorHandler c \<and> \<not> co_callStackLock e \<and>
       errMsg u = errMsg (with_message s m)
   | Overflowed \<Rightarrow> call = Fault Deadlock
   | Wrong \<Rightarrow> True"
proof -
  let ?s = "s\<lparr>coros := (coros s)(co \<mapsto> guarded c)\<rparr>"
  let ?thing = "interpreter_call (interpreter_exec host ex n) (VClosure func) (int (length args)) nret"
  let ?out = "outcome_of (library ns s) d g args"
  obtain t e cl where t: "?thing ?s = rbind (interpreter_exec host ex n co t) (native_end co cs nret)"
    "entered_from ?s co (guarded c) cs (with_stack st front) func cl args t"
    "performs ?out t co e (brk s) (interpreter_exec host ex n co t)"
    "\<And>locked m. raises t co e locked m (interpreter_exec host ex n co t) \<Longrightarrow> raises ?s co (guarded c) locked m (?thing ?s)"
    by (rule guarded_call_performs[where host = host and ex = ex and nret = nret, OF top cur args g M nat room fuel refl]) blast
  show ?thesis
  proof (cases ?out)
    case (Returned k vs)
    have "performs (Returned k vs) t co e (brk s) (interpreter_exec host ex n co t)" using t(3) Returned by simp
    note ret = protected_return[where thing = ?thing and exec = "interpreter_exec host ex n co" and h = h,
        OF top cur(2) args cur(4) t(1,2) this refl]
    then show ?thesis using Returned by (simp add: call Let_def results_def)
  next
    case (Raised m)
    then show ?thesis
      using protected_call_raised[where host = host and ex = ex and nret = nret and h = h,
          OF top cur args g M nat room fuel Raised] by (simp add: call)
  next
    case Overflowed
    then show ?thesis
      using protected_raise[where thing = ?thing and h = h, OF top cur(4) t(4)[of True "Static SS_stackOverflow"]] t(3)
      by (simp add: performs_def call)
  qed simp
qed

subsection \<open>Concrete programs\<close>

text \<open>A function that begins with a call of itself overflows every call stack.\<close>

lemma self_call_overflows:
  assumes "fn_code g = Call 0xFFFD b 0 # code" and "fn_self g = VClosure f" and "lib f = Some (Bytecode g)"
  shows "run lib d g (fn_code g) r xs = Overflowed"
proof (induction d arbitrary: r xs)
  case (Suc d)
  have "source g s 0xFFFD = Some (VClosure f)" for s using assms(2) by (simp add: source_def present_def)
  then show ?case using Suc assms(1,3) by (simp add: nargs_of_def Let_def)
next
  case 0
  have "source g r 0xFFFD = Some (VClosure f)" using assms(2) by (simp add: source_def present_def)
  then show ?case using assms(1,3) by (simp add: nargs_of_def Let_def)
qed

text \<open>
  The function at 50 adds its two arguments, the one at 60 calls its first argument with the second
  one twice, and the one at 70 calls itself.
\<close>

definition adder :: "u64 list" where
  "adder = [encode 6 0 1 0 0, encode 6 0 0 0 0, encode 12 0 0 0 1, encode 8 0 0 1 0]"

definition applier :: "u64 list" where
  "applier = [encode 6 0 1 0 0, encode 6 0 0 0 0, encode 5 0 1 0 0, encode 5 0 1 0 0, encode 4 0 0 2 3,
     encode 6 0 2 0 0, encode 8 0 2 1 0]"

definition program_vm :: "value list \<Rightarrow> vm" where
  "program_vm xs = (call_machine xs)\<lparr>closures := [50 \<mapsto> lua_closure adder, 60 \<mapsto> lua_closure applier,
     70 \<mapsto> (lua_closure [encode 4 0 0xFFFD 0 0])\<lparr>cl_asValue := VClosure 70\<rparr>]\<rparr>"

lemma program_vm_simps [simp]:
  "coros (program_vm xs) = [100 \<mapsto> coroutine_of [7] FIBER_RUNNING]"
  "cstates (program_vm xs) = [7 \<mapsto> with_stack (new_call_state 50 100 False) xs]"
  "coroutinesStack (program_vm xs) = stack_of FLUFFYVM_MAX_COROUTINE_NEST [100]"
  "always_mem (program_vm xs)" "brk (program_vm xs) = 200" "bcs (program_vm xs) = Map.empty"
  "closures (program_vm xs) = [50 \<mapsto> lua_closure adder, 60 \<mapsto> lua_closure applier,
     70 \<mapsto> (lua_closure [encode 4 0 0xFFFD 0 0])\<lparr>cl_asValue := VClosure 70\<rparr>]"
  by (simp_all add: program_vm_def always_mem_def)
     (simp_all add: call_machine_def vm_frame_def vm_running_def blank_vm_def)

lemma program_on_top: "on_top (program_vm xs) 100 (coroutine_of [7] FIBER_RUNNING) 7"
  using call_machine_running by (simp add: on_top_def running_def)

definition func_with :: "instr list \<Rightarrow> addr \<Rightarrow> func" where
  "func_with code self = \<lparr>fn_code = code, fn_consts = [], fn_env = VNil, fn_self = VClosure self\<rparr>"

definition adder_func :: func where
  "adder_func = func_with [Pop 1, Pop 0, Arith Add 0 0 1, Ret 0 1] 50"

definition applier_func :: func where
  "applier_func = func_with [Pop 1, Pop 0, Push 1, Push 1, Call 0 2 3, Pop 2, Ret 2 1] 50"

definition looper_func :: func where
  "looper_func = func_with [Call 0xFFFD 0 0] 70"

lemma instr_of_encode:
  "a < 2 ^ 16 \<Longrightarrow> instr_of (encode 6 0 a 0 0) = Pop a"
  "a < 2 ^ 16 \<Longrightarrow> instr_of (encode 5 0 a 0 0) = Push a"
  "a < 2 ^ 16 \<Longrightarrow> b < 2 ^ 16 \<Longrightarrow> c < 2 ^ 16 \<Longrightarrow> instr_of (encode 12 0 a b c) = Arith Add a b c"
  "a < 2 ^ 16 \<Longrightarrow> b < 2 ^ 16 \<Longrightarrow> instr_of (encode 8 0 a b 0) = Ret a b"
  "a < 2 ^ 16 \<Longrightarrow> b < 2 ^ 16 \<Longrightarrow> c < 2 ^ 16 \<Longrightarrow> instr_of (encode 4 0 a b c) = Call a b c"
  by (simp_all add: instr_of_def Let_def decode_of_encode condFlagsMask_def)

lemma program_library [simp]:
  "library ns (program_vm xs) 50 = Some (Bytecode adder_func)" "library ns (program_vm xs) 60 = Some (Bytecode applier_func)"
  "library ns (program_vm xs) 70 = Some (Bytecode looper_func)"
  by (simp_all add: library_def func_of_def lua_closure_def plain_closure_def adder_def applier_def
      instr_of_encode adder_func_def applier_func_def looper_func_def func_with_def)

lemma program_code_fits: "code_fits ns (program_vm xs) 7"
  unfolding code_fits_def
proof (intro allI impI)
  fix f g assume g: "library ns (program_vm xs) f = Some (Bytecode g)"
  then have "f = 50 \<or> f = 60 \<or> f = 70" by (auto simp: library_def split: if_splits)
  then show "length (fn_code g) \<le> 7"
    using g by (auto simp: adder_func_def applier_func_def looper_func_def func_with_def)
qed

lemma source_small: "i < 256 \<Longrightarrow> source fn r i = Some (r i)"
  by (simp add: source_def)

lemma target_small: "i < 256 \<Longrightarrow> v \<noteq> VNotPresent \<Longrightarrow> target r i v = Some (r(i := v))"
  by (simp add: target_def)

lemma adder_runs:
  "run lib d adder_func (fn_code adder_func) r [VLong 21, VLong 21] = Returned 1 [VLong 42]"
  by (simp add: adder_func_def func_with_def target_small source_small in_int64_def)

lemma applier_runs:
  "run (library ns (program_vm xs)) (Suc d) applier_func (fn_code applier_func) r [VClosure 50, VLong 21] =
     Returned 1 [VLong 42]"
proof -
  have "run (library ns (program_vm xs)) (Suc d) applier_func [Call 0 2 3, Pop 2, Ret 2 1]
      (\<lambda>i. if i = 0 then VClosure 50 else if i = 1 then VLong 21 else s i) [VLong 21, VLong 21] =
    Returned 1 [VLong 42]" for s
    using adder_runs by (simp add: source_small target_small nargs_of_def nres_of_def results_def Let_def)
  moreover have "(s(Suc 0 := VLong 21, 0 := VClosure 50)) =
      (\<lambda>i. if i = 0 then VClosure 50 else if i = 1 then VLong 21 else s i)" for s :: regs by auto
  ultimately show ?thesis
    by (simp add: source_small target_small applier_func_def[unfolded func_with_def, THEN arg_cong[of _ _ fn_code]])
qed

lemma looper_runs: "run (library ns (program_vm xs)) d looper_func (fn_code looper_func) r ys = Overflowed"
  by (rule self_call_overflows[where f = 70 and b = 0 and code = "[]"])
     (simp_all add: looper_func_def func_with_def)

lemma one_frame: "frames (coroutine_of [7] FIBER_RUNNING) = [7]"
  using vm_running_ok(2)[of "[7]" FIBER_RUNNING] by simp

theorem interpreter_implements_machine_witness:
  "\<exists>u e. interpreter_exec (\<lambda>f cs u s. Ok 0 s) sample_ext 4608 100 (program_vm [VLong 21, VLong 21]) = Ok 1 u \<and>
     cstates u 7 = Some e \<and> gs_items e = [VLong 42]"
proof -
  let ?xs = "[VLong 21, VLong 21]"
  let ?st = "with_stack (new_call_state 50 100 False) ?xs"
  have "regs_are ?st (\<lambda>_. VNil)"
    by (simp add: regs_are_def) (auto simp: new_call_state_def config_defs)
  moreover have "func_of (program_vm ?xs) (lua_closure adder) = Some adder_func"
    using program_library(1)[of "\<lambda>_. None" ?xs] by (simp add: library_def lua_closure_def plain_closure_def)
  ultimately have "frame_runs (program_vm ?xs) 7 ?st adder_func (\<lambda>_. VNil) ?xs"
    using frame_ok_with_stack[of ?xs] by (simp add: frame_runs_def)
  note run = interpreter_implements_machine[where t = "program_vm ?xs" and fn = adder_func and M = 7 and d = 511 and
      n = 4608 and host = "\<lambda>f cs u s. Ok 0 s" and ex = sample_ext and ns = "\<lambda>_. None", OF program_on_top this _ program_code_fits conforms_none]
  have "length (fn_code adder_func) \<le> 7" by (simp add: adder_func_def func_with_def)
  then show ?thesis using run by (simp add: adder_runs performs_def config_defs one_frame) blast
qed

theorem protected_call_runs_witness:
  "(\<exists>u. interpreter_xpcall 0 (interpreter_call (interpreter_exec (\<lambda>f cs u s. Ok 0 s) sample_ext 4608) (VClosure 60) 2 1) None
      (program_vm [VNil, VClosure 50, VLong 21]) = Ok True u \<and>
    cstates u 7 = Some (with_stack (with_stack (new_call_state 50 100 False) [VNil, VClosure 50, VLong 21])
      [VNil, VLong 42])) \<and>
   interpreter_xpcall 0 (interpreter_call (interpreter_exec (\<lambda>f cs u s. Ok 0 s) sample_ext 4608) (VClosure 70) 0 0) None
      (program_vm []) = Fault Deadlock"
proof
  let ?st = "with_stack (new_call_state 50 100 False)" and ?xs = "[VNil, VClosure 50, VLong 21]"
  have ok: "frame_ok (?st ?xs)" "frame_ok (?st [])" by (simp_all add: frame_ok_with_stack)
  have run: "run (library (\<lambda>_. None) (program_vm ?xs)) 510 applier_func (fn_code applier_func) (\<lambda>_. VNil)
      [VClosure 50, VLong 21] = Returned 1 [VLong 42]"
    using applier_runs[of _ ?xs 509] by simp
  show "\<exists>u. interpreter_xpcall 0 (interpreter_call (interpreter_exec (\<lambda>f cs u s. Ok 0 s) sample_ext 4608) (VClosure 60) 2 1) None
      (program_vm ?xs) = Ok True u \<and> cstates u 7 = Some (with_stack (?st ?xs) [VNil, VLong 42])"
    using protected_call_runs[where s = "program_vm ?xs" and front = "[VNil]" and args = "[VClosure 50, VLong 21]" and M = 7
        and d = 510 and n = 4608 and h = 0 and host = "\<lambda>f cs u s. Ok 0 s" and ex = sample_ext and nret = 1 and st = "?st ?xs" and
        func = 60 and g = "Bytecode applier_func" and ns = "\<lambda>_. None", OF program_on_top _ ok(1) _ _ _ _ program_code_fits conforms_none _ _ refl] run
    by (auto simp: config_defs results_def Let_def one_frame)
  show "interpreter_xpcall 0 (interpreter_call (interpreter_exec (\<lambda>f cs u s. Ok 0 s) sample_ext 4608) (VClosure 70) 0 0) None
      (program_vm []) = Fault Deadlock"
    using protected_call_runs[where s = "program_vm []" and front = "[]" and args = "[]" and M = 7 and d = 510
        and n = 4608 and h = 0 and host = "\<lambda>f cs u s. Ok 0 s" and ex = sample_ext and nret = 0 and st = "?st []" and func = 70 and
        g = "Bytecode looper_func" and ns = "\<lambda>_. None", OF program_on_top _ ok(2) _ _ _ _ program_code_fits conforms_none _ _ refl]
    by (simp add: config_defs one_frame looper_runs)
qed

end
