(* ===== verification/Natives.thy ===== *)
theory Natives
  imports MachineRefinement LuaContracts Host
begin

text \<open>
  The native functions that \<open>main.c\<close> registers (\<open>print\<close>, \<open>error\<close>, \<open>getCPUTime\<close>) as functions of the
  register machine: called from bytecode through \<open>cFunctionTrampoline\<close>, they conform to what is said
  of them here. What they print is left to \<open>Host\<close>.
\<close>

subsection \<open>The registered functions\<close>

datatype registered = Print | Error | GetCPUTime

definition muted :: "('a, console) res \<Rightarrow> ('a, vm) res" where
  "muted r = (case r of Ok x c \<Rightarrow> Ok x (snd c) | Throw c \<Rightarrow> Throw (snd c) | Fault e \<Rightarrow> Fault e)"

text \<open>What the C function at an address does, where \<open>reg\<close> tells which of the functions it is.\<close>

definition main_cfun :: "ext \<Rightarrow> int \<Rightarrow> int \<Rightarrow> (nat \<Rightarrow> registered option) \<Rightarrow> nat \<Rightarrow> addr \<Rightarrow> vm \<Rightarrow> (int, vm) res" where
  "main_cfun ex sec nsec reg f L s =
     (case reg f of
        None \<Rightarrow> Fault NullDeref
      | Some Print \<Rightarrow> muted (stdlib_print ex L ([], s))
      | Some Error \<Rightarrow> stdlib_error L s
      | Some GetCPUTime \<Rightarrow> stdlib_getCPUTime sec nsec L s)"

text \<open>What they make of their arguments; \<open>print\<close> is specified for strings.\<close>

definition held_string :: "vm \<Rightarrow> value \<Rightarrow> bool" where
  "held_string D v = (case v of VString a \<Rightarrow> strs D a \<noteq> None | _ \<Rightarrow> False)"

fun registered_outcome :: "vm \<Rightarrow> int \<Rightarrow> int \<Rightarrow> registered \<Rightarrow> value list \<Rightarrow> outcome" where
  "registered_outcome D sec nsec Print args =
     (if \<forall>v \<in> set args. held_string D v then outcome.Returned 0 args else Wrong)"
| "registered_outcome D sec nsec Error args =
     Raised (if args = [] then Static SS_stackUnderflow else Thrown (last args))"
| "registered_outcome D sec nsec GetCPUTime args =
     (if length args < 256
      then outcome.Returned 1 (args @ [VDouble (fp_add (fp_of_int sec) (fp_div (fp_of_int nsec) (fp_of_int 1000000000)))])
      else Raised (Static SS_stackOverflow))"

definition main_natives :: "vm \<Rightarrow> int \<Rightarrow> int \<Rightarrow> (nat \<Rightarrow> registered option) \<Rightarrow> nat \<Rightarrow> natives" where
  "main_natives D sec nsec reg tramp cl =
     (if cl_func cl = Some tramp
      then map_option (registered_outcome D sec nsec) (Option.bind (cl_udata cl) reg) else None)"

subsection \<open>They conform\<close>

lemma interpreter_error_raises:
  assumes r: "running u co c" and l: "\<not> co_callStackLock c"
    and m: "errMsg (fluffyvm_set_errmsg u v) = errMsg (with_message t m)" and n: "coroutinesStack u = coroutinesStack t"
  shows "raises t co c False m (interpreter_error v u)"
proof -
  have e: "executing_coroutine (fluffyvm_set_errmsg u v) = Ok co (fluffyvm_set_errmsg u v)"
    using running_executing(2)[of "fluffyvm_set_errmsg u v" co c] r by (simp add: running_def)
  have "thrown_in t co c False (fluffyvm_set_errmsg u v) c"
    using r l n by (simp add: thrown_in_def running_def)
  then show ?thesis
    using e r running_executing(2)[OF r] m
    by (auto simp: interpreter_error_def errorCommon_def Let_def raises_def running_def)
qed

lemma raise_static_raises:
  assumes "running t co c" and "\<not> co_callStackLock c"
  shows "raises t co c False (Static m) (raise_static m t)"
    and "raises t co c False (Static m) (raise_errmsg (set_static_errmsg t m))"
proof -
  show "raises t co c False (Static m) (raise_static m t)"
    unfolding raise_static_def by (intro interpreter_error_raises[OF assms]) (simp_all add: set_static_errmsg_def)
  have "running (set_static_errmsg t m) co c" using assms(1) by (simp add: running_def)
  then show "raises t co c False (Static m) (raise_errmsg (set_static_errmsg t m))"
    unfolding raise_errmsg_def using assms(2)
    by (intro interpreter_error_raises) (simp_all add: set_static_errmsg_def fluffyvm_set_errmsg_def fluffyvm_get_errmsg_def)
qed

lemma on_top_lua_at:
  assumes "on_top t co c cs" and "cstates t cs = Some st" and "frame_ok st"
  shows "lua_at t co cs st" "running t co c" "\<not> co_callStackLock c"
  using assms running_lua_at[of t co c st] by (auto simp: on_top_def)

lemma error_performs:
  assumes "on_top t co c cs" and "cstates t cs = Some st" and "frame_ok st"
  shows "performs (registered_outcome D sec nsec Error (gs_items st)) t co c cs (stdlib_error co t)"
proof (cases "gs_items st = []")
  note a = on_top_lua_at[OF assms] and f = lua_at_frame[OF on_top_lua_at(1)[OF assms]]
  case True
  then have "interpreter_peek cs (-1) t = Ok None (set_static_errmsg t SS_stackUnderflow)"
    using assms(2) by (simp add: interpreter_peek_def)
  then have "stdlib_error co t =
      rbind (raise_errmsg (set_static_errmsg t SS_stackUnderflow) :: (unit, vm) res) (\<lambda>_ s. Ok 0 s)"
    using f True by (simp add: stdlib_error_def lua_error_def)
  then show ?thesis using True raises_rbind[OF raise_static_raises(2)[OF a(2,3)]] by (simp add: performs_def)
next
  note a = on_top_lua_at[OF assms] and f = lua_at_frame[OF on_top_lua_at(1)[OF assms]]
  case False
  then obtain k where k: "length (gs_items st) = Suc k" by (cases "gs_items st") auto
  let ?v = "last (gs_items st)"
  have "?v = gs_items st ! k" using last_conv_nth[OF False] k by simp
  then have cell: "stack_cell cs (int k) t = Ok ?v t" using stack_cell_item[OF assms(2,3), of k] k by simp
  have "interpreter_peek cs (int k) t = Ok (Some ?v) t"
    using assms(2) cell frame_okD(1)[OF assms(3)] k by (simp add: interpreter_peek_def)
  then have "stdlib_error co t = rbind (interpreter_error (last (gs_items st)) t :: (unit, vm) res) (\<lambda>_ s. Ok 0 s)"
    using f k running_executing(1)[OF a(2)] by (simp add: stdlib_error_def lua_error_def assert_that_def)
  moreover have "raises t co c False (Thrown (last (gs_items st))) (interpreter_error (last (gs_items st)) t :: (unit, vm) res)"
    by (rule interpreter_error_raises[OF a(2,3)]) simp_all
  ultimately show ?thesis using False by (simp add: performs_def raises_rbind)
qed

lemma getCPUTime_performs:
  assumes top: "on_top t co c cs" "cstates t cs = Some st" "frame_ok st" and cl: "closures t (cs_closure st) \<noteq> None"
  shows "performs (registered_outcome D sec nsec GetCPUTime (gs_items st)) t co c cs (stdlib_getCPUTime sec nsec co t)"
proof (cases "length (gs_items st) < 256")
  note a = on_top_lua_at[OF top]
  let ?v = "VDouble (fp_add (fp_of_int sec) (fp_div (fp_of_int nsec) (fp_of_int 1000000000)))"
  case True
  let ?st = "with_stack st (gs_items st @ [?v])"
  have "stdlib_getCPUTime sec nsec co t = Ok 1 (with_frame t cs ?st)"
    using pushed_at(1,2)[OF a(1) True, of ?v]
    by (simp add: stdlib_getCPUTime_def lua_pushnumber_def value_new_double_def)
  moreover have "frame_ok ?st" by (rule frame_grow[OF top(3) True]) simp
  ultimately show ?thesis using True cl by (auto simp: performs_def)
next
  note a = on_top_lua_at[OF top]
  case False
  then have full: "length (gs_items st) = 256" using frame_okD(2)[OF top(3)] by simp
  have "ensureStackFits co 1 t = raise_static SS_stackOverflow t"
    using lua_at_frame[OF a(1)] frame_cells[of st] frame_okD(1)[of st] full
    by (simp add: ensureStackFits_def lua_checkstack_def int_ok_def INT_MIN_def INT_MAX_def)
  then have "raises t co c False (Static SS_stackOverflow) (stdlib_getCPUTime sec nsec co t)"
    unfolding stdlib_getCPUTime_def Let_def lua_pushnumber_def
    by (simp only:) (intro raises_rbind raise_static_raises(1)[OF a(2,3)])
  then show ?thesis using False by (simp add: performs_def)
qed

lemma held_stringD: "held_string D v \<Longrightarrow> \<exists>a. v = VString a \<and> strs D a \<noteq> None"
  by (cases v) (simp_all add: held_string_def)

lemma strings_of:
  assumes "\<forall>v \<in> set vs. \<exists>a. v = VString a \<and> P a"
  shows "\<exists>as. vs = map VString as \<and> (\<forall>a \<in> set as. P a)"
  using assms
proof (induction vs)
  case (Cons v vs)
  then obtain a as where "v = VString a" "P a" "vs = map VString as" "\<forall>a \<in> set as. P a" by auto
  then show ?case by (intro exI[of _ "a # as"]) simp
qed simp

lemma print_performs:
  assumes top: "on_top t co c cs" "cstates t cs = Some st" "frame_ok st" and cl: "closures t (cs_closure st) \<noteq> None"
    and D: "same_heap D t"
  shows "performs (registered_outcome D sec nsec Print (gs_items st)) t co c cs (muted (stdlib_print ex co ([], t)))"
proof (cases "\<forall>v \<in> set (gs_items st). held_string D v")
  case True
  moreover have "strs t = strs D" using D by (simp add: same_heap_def)
  then have "held_string t v = held_string D v" for v by (cases v) (simp_all add: held_string_def)
  ultimately have "\<forall>v \<in> set (gs_items st). held_string t v" by simp
  then have "\<forall>v \<in> set (gs_items st). \<exists>a. v = VString a \<and> strs t a \<noteq> None" using held_stringD by blast
  then obtain as where a: "gs_items st = map VString as" "\<forall>a \<in> set as. strs t a \<noteq> None"
    by (rule exE[OF strings_of]) (erule conjE)
  show ?thesis
    using stdlib_print_strings[OF on_top_lua_at(1)[OF top] a, of ex "[]"] True top cl
    by (auto simp: performs_def muted_def)
qed auto

text \<open>
  C5. The functions that \<open>main.c\<close> registers conform to their specification: called on top of any call
  stack, \<open>error\<close> raises its last argument, \<open>getCPUTime\<close> adds the time to the stack of its frame or
  raises the error for a stack overflow, and \<open>print\<close> of strings leaves everything as it was.
\<close>

theorem main_natives_conform:
  assumes "\<And>cs u s. host tramp cs u s = cFunctionTrampoline (main_cfun ex sec nsec reg) cs u s"
  shows "conforms host (main_natives D sec nsec reg tramp) D"
  unfolding conforms_def
proof (intro allI impI)
  fix cl nf f t co c cs st
  assume n: "main_natives D sec nsec reg tramp cl = Some nf" and f: "cl_func cl = Some f"
    and top: "on_top t co c cs" "cstates t cs = Some st" "frame_ok st" and D: "same_heap D t"
    and cl: "closures t (cs_closure st) = Some cl"
  obtain a g where g: "f = tramp" "cl_udata cl = Some a" "reg a = Some g" "nf = registered_outcome D sec nsec g"
    using n f by (auto simp: main_natives_def bind_eq_Some_conv split: if_splits)
  have "host f cs (cl_udata cl) t = main_cfun ex sec nsec reg a co t"
    using assms g(1,2) running_executing(1)[OF on_top_lua_at(2)[OF top]] by (simp add: cFunctionTrampoline_def)
  then show "performs (nf (gs_items st)) t co c cs (host f cs (cl_udata cl) t)"
    using g(3,4) top cl D error_performs[OF top] getCPUTime_performs[OF top] print_performs[OF top]
    by (cases g) (simp_all add: main_cfun_def)
qed

subsection \<open>A program that raises an error\<close>

text \<open>
  The function at 60 calls its first argument with the second one and returns what is left. The
  closure at 80 is what \<open>lua_pushcfunction\<close> makes of \<open>stdlib_error\<close>, at the address 5.
\<close>

definition caller_code :: "u64 list" where
  "caller_code = [encode 6 0 1 0 0, encode 6 0 0 0 0, encode 5 0 1 0 0, encode 4 0 0 1 2, encode 8 0 0 0 0]"

definition caller_func :: func where
  "caller_func = func_with [Pop 1, Pop 0, Push 1, Call 0 1 2, Ret 0 0] 50"

definition error_closure :: closure where
  "error_closure = plain_closure\<lparr>cl_prototype := None, cl_func := Some 9, cl_udata := Some 5, cl_isNative := True,
     cl_luaCFunction := Some 5\<rparr>"

definition error_machine :: "value list \<Rightarrow> vm" where
  "error_machine xs = (program_vm xs)\<lparr>closures := [50 \<mapsto> lua_closure adder, 60 \<mapsto> lua_closure caller_code,
     80 \<mapsto> error_closure]\<rparr>"

lemma error_machine_simps [simp]:
  "coros (error_machine xs) = coros (program_vm xs)" "cstates (error_machine xs) = cstates (program_vm xs)"
  "always_mem (error_machine xs)" "brk (error_machine xs) = 200" "bcs (error_machine xs) = Map.empty"
  "closures (error_machine xs) = [50 \<mapsto> lua_closure adder, 60 \<mapsto> lua_closure caller_code, 80 \<mapsto> error_closure]"
  "coroutinesStack (error_machine xs) = coroutinesStack (program_vm xs)"
  using program_vm_simps(4) by (simp_all add: error_machine_def always_mem_def)

lemma error_on_top: "on_top (error_machine xs) 100 (coroutine_of [7] FIBER_RUNNING) 7"
  using program_on_top[of xs] by (simp add: on_top_def running_def)

abbreviation error_natives :: "vm \<Rightarrow> natives" where
  "error_natives D \<equiv> main_natives D 0 0 [5 \<mapsto> Error] 9"

abbreviation error_host :: host where
  "error_host \<equiv> \<lambda>f cs u s. if f = 9 then cFunctionTrampoline (main_cfun sample_ext 0 0 [5 \<mapsto> Error]) cs u s else Fault Aborted"

lemma error_library [simp]:
  "library (error_natives D) (error_machine xs) 60 = Some (Bytecode caller_func)"
  "library (error_natives D) (error_machine xs) 80 = Some (Native (registered_outcome D 0 0 Error))"
  by (simp_all add: library_def func_of_def lua_closure_def plain_closure_def caller_code_def error_closure_def
      instr_of_encode caller_func_def func_with_def main_natives_def)

lemma error_code_fits: "code_fits (error_natives D) (error_machine xs) 5"
  unfolding code_fits_def
proof (intro allI impI)
  fix f g assume g: "library (error_natives D) (error_machine xs) f = Some (Bytecode g)"
  then have "f = 50 \<or> f = 60" by (auto simp: library_def main_natives_def error_closure_def split: if_splits)
  then show "length (fn_code g) \<le> 5"
    using g by (auto simp: caller_func_def func_with_def library_def func_of_def lua_closure_def plain_closure_def adder_def caller_code_def)
qed

lemma caller_raises:
  "v \<noteq> VNotPresent \<Longrightarrow> outcome_of (library (error_natives D) (error_machine xs)) (Suc d) (Bytecode caller_func) [VClosure 80, v] =
     Raised (Thrown v)"
  by (simp add: caller_func_def func_with_def source_small target_small nargs_of_def nres_of_def Let_def)

text \<open>
  So a protected call of bytecode that calls \<open>error\<close> with a value is false, and that value is the
  error message.
\<close>

theorem main_natives_conform_witness:
  "\<exists>u. interpreter_xpcall 0 (interpreter_call (interpreter_exec error_host sample_ext 4608) (VClosure 60) 2 0) None
     (error_machine [VClosure 80, VLong 13]) = Ok False u \<and> errMsg u = Some (VLong 13)"
proof -
  let ?xs = "[VClosure 80, VLong 13]"
  let ?s = "error_machine ?xs"
  have c: "conforms error_host (error_natives ?s) ?s" by (rule main_natives_conform) simp
  have "frame_ok (with_stack (new_call_state 50 100 False) ?xs)" by (simp add: frame_ok_with_stack)
  note run = protected_call_raised[where s = ?s and front = "[]" and args = ?xs and M = 5 and d = 510 and n = 4608 and h = 0
      and func = 60 and nret = 0 and m = "Thrown (VLong 13)", OF error_on_top _ this _ _ _ error_library(1) error_code_fits c]
  show ?thesis
    using run caller_raises[of "VLong 13" ?s ?xs 509]
    by (simp add: config_defs one_frame fluffyvm_set_errmsg_def) blast
qed

end
