(* ===== verification/CoroutineErrors.thy ===== *)
theory CoroutineErrors
  imports Natives Machine
begin

text \<open>
  Errors that leave a coroutine: a program in bytecode, run by \<open>interpreter_exec\<close> in a coroutine that
  was made for it and is resumed, raises an error that nothing in the coroutine catches.
\<close>

lemma started_throws:
  assumes c: "new_coroutine c cs" "co_fiber c = Some fb" and mem: "always_mem s"
    and fr: "cs < brk s" "cstates s cs = Some (with_stack (new_call_state f co (cl_func cl \<noteq> None)) args)"
      "length args \<le> 256" "VNotPresent \<notin> set args"
    and f: "closures s f = Some cl" "library ns s f = Some g" "code_fits ns s M" "conforms host ns s"
      "512 * (M + 2) \<le> n"
    and err: "outcome_of (library ns s) 511 g args = Raised m \<or>
      outcome_of (library ns s) 511 g args = Overflowed \<and> m = Static SS_stackOverflow"
    and st: "stk_ok st" "stk_items st = nest @ [co]"
    and s': "s' = s\<lparr>coroutinesStack := st,
      coros := (coros s)(co \<mapsto> c\<lparr>co_fiber := Some fb', co_errorHandler := Some 0\<rparr>)\<rparr>"
  obtains t c' where "interpreter_exec host ex n co s' = Throw t" "errMsg t = errMsg (with_message s m)"
    "coroutinesStack t = st" "coros t co = Some c'" "co_fiber c' = Some fb'"
proof -
  let ?c = "c\<lparr>co_fiber := Some fb', co_errorHandler := Some 0\<rparr>"
  have h: "same_heap s s'" by (simp add: s' same_heap_def)
  have lib: "library ns s' = library ns s" by (rule library_heap[OF h])
  have top: "on_top s' co ?c cs"
    using c(1) st mem by (simp add: on_top_def running_def s' new_coroutine_def always_mem_def coro_ok_def)
  have "frames ?c = [cs]" using c(1) by (simp add: new_coroutine_def)
  then have room: "int (length (frames ?c) + 511) = FLUFFYVM_CALL_STACK_SIZE" by (simp add: config_defs)
  have nat: "conforms host ns s'" by (rule conforms_heap[OF h f(4)])
  have "callee_realised host ex co s' M 511 g args (outcome_of (library ns s') 511 g args)"
    using callee_runs[of ns s' f g M host ex co 511 args] f(2,3) lib code_fits_heap[OF h] nat by simp
  then have "performs (outcome_of (library ns s) 511 g args) s' co ?c cs (interpreter_exec host ex n co s')"
    using f(2) lib by (intro in_frame_performs[OF top room _ _ _ _ nat fr(3,4) _ , where f = f and cl = cl and M = M])
      (use f(1,5) fr(1,2) s' in simp_all)
  then obtain locked where "raises s' co ?c locked m (interpreter_exec host ex n co s')"
    using err by (auto simp: performs_def)
  then obtain t d where "interpreter_exec host ex n co s' = Throw t" "errMsg t = errMsg (with_message s' m)"
      "thrown_in s' co ?c locked t d"
    by (auto simp: raises_def)
  then show ?thesis using message_heap[OF h, of m] by (intro that[of t d]) (simp_all add: thrown_in_def running_def s')
qed

text \<open>
  C16. An error that is raised in a coroutine and not caught there ends it. A coroutine as
  \<open>coroutine_new\<close> makes it for a function, with arguments on its stack, is resumed, and the register
  machine says of the function and these arguments that an error is raised, by an instruction, by a
  native function of a conforming host or because the call stack overflows. Then, with fuel for all
  frames, the
  resume returns false, the error message is stored in the coroutine, the handler is uninstalled, the
  fiber is dead with its task released and its stack freed, the nesting is restored, and every later
  resume is refused because the coroutine is dead. The object behind the message has been written
  over the field through which the collector reaches the call stack.
\<close>

theorem coroutine_error_ends_it:
  assumes nest: "stk_ok (coroutinesStack s)"
      "length (stk_items (coroutinesStack s)) < nat (stk_size (coroutinesStack s))"
    and c: "coros s co = Some c" "new_coroutine c cs" "co_fiber c = Some fiber_new" "always_mem s"
    and fr: "cs < brk s" "cstates s cs = Some (with_stack (new_call_state f co (cl_func cl \<noteq> None)) args)"
      "length args \<le> 256" "VNotPresent \<notin> set args"
    and f: "closures s f = Some cl" "library ns s f = Some g" "code_fits ns s M" "conforms host ns s"
      "512 * (M + 2) \<le> n"
    and err: "outcome_of (library ns s) 511 g args = Raised m \<or>
        outcome_of (library ns s) 511 g args = Overflowed \<and> m = Static SS_stackOverflow"
      "errMsg (with_message s m) = Some e"
  shows "\<exists>u d p. coroutine_resume (entryPoint (interpreter_exec host ex n)) co s = Ok False u \<and> coros u co = Some d \<and>
     co_hasError d \<and> co_thrownedError d = e \<and> co_errorHandler d = None \<and>
     co_fiber d = Some \<lparr>fb_state = FIBER_DEAD, fb_task = False, fb_stack = False\<rparr> \<and>
     value_get_object_ptr e u = Ok p u \<and> co_gc_stack d = GC_object p \<and>
     coroutinesStack u = coroutinesStack s \<and>
     coroutine_resume body co u = Ok False (set_static_errmsg u SS_cannotResumeDeadCoroutine)"
proof (rule coroutine_resume_throws[OF nest c(1,3)])
  show "fb_state fiber_new = FIBER_SUSPENDED" by (simp add: fiber_new_def)
  show "e \<noteq> VNotPresent"
    using err(2) by (cases m) (auto simp: set_static_errmsg_def fluffyvm_set_errmsg_def split: if_splits)
next
  fix st assume "stk_ok st" "stk_items st = stk_items (coroutinesStack s) @ [co]"
  from started_throws[OF c(2,3,4) fr f err(1) this refl, where fb' = "fiber_new\<lparr>fb_state := FIBER_RUNNING\<rparr>" and ex = ex]
  show "\<exists>t c'. interpreter_exec host ex n co (s\<lparr>coroutinesStack := st, coros := (coros s)
        (co \<mapsto> c\<lparr>co_fiber := Some (fiber_new\<lparr>fb_state := FIBER_RUNNING\<rparr>), co_errorHandler := Some 0\<rparr>)\<rparr>) = Throw t \<and>
      errMsg t = Some e \<and> coroutinesStack t = st \<and> coros t co = Some c' \<and>
      co_fiber c' = Some (fiber_new\<lparr>fb_state := FIBER_RUNNING\<rparr>)"
    unfolding err(2) by blast
qed

subsection \<open>A coroutine that raises an error\<close>

text \<open>
  The coroutine 100 is about to run the function at 60, which calls its first argument, the native
  \<open>error\<close>, with the second.
\<close>

definition raising_machine :: "value \<Rightarrow> vm" where
  "raising_machine v = (error_machine [])\<lparr>coros := [100 \<mapsto> coroutine_of [7] FIBER_SUSPENDED],
     cstates := [7 \<mapsto> with_stack (new_call_state 60 100 False) [VClosure 80, v]]\<rparr>"

lemma raising_machine_simps [simp]:
  "coros (raising_machine v) = [100 \<mapsto> coroutine_of [7] FIBER_SUSPENDED]"
  "cstates (raising_machine v) = [7 \<mapsto> with_stack (new_call_state 60 100 False) [VClosure 80, v]]"
  "coroutinesStack (raising_machine v) = stack_of FLUFFYVM_MAX_COROUTINE_NEST [100]"
  "always_mem (raising_machine v)" "brk (raising_machine v) = 200"
  "closures (raising_machine v) 60 = Some (lua_closure caller_code)" "cl_func (lua_closure is) = None"
  "same_heap (error_machine []) (raising_machine v)"
  using error_machine_simps(3)[of "[]"]
  by (simp_all add: raising_machine_def always_mem_def same_heap_def lua_closure_def plain_closure_def)

lemma raising_library:
  "library (error_natives D) (raising_machine v) = library (error_natives D) (error_machine [])"
  "code_fits (error_natives D) (raising_machine v) 5"
  using library_heap[OF raising_machine_simps(8)] code_fits_heap[OF raising_machine_simps(8)] error_code_fits by simp_all

theorem coroutine_error_ends_it_witness:
  "\<exists>u d. coroutine_resume (entryPoint (interpreter_exec error_host sample_ext 4608)) 100 (raising_machine (VLong 13)) =
       Ok False u \<and> coros u 100 = Some d \<and> co_hasError d \<and> co_thrownedError d = VLong 13 \<and>
     co_gc_stack d = GC_object None \<and>
     coroutine_resume (\<lambda>co s. Ok () s) 100 u = Ok False (set_static_errmsg u SS_cannotResumeDeadCoroutine)"
proof -
  let ?s = "raising_machine (VLong 13)" and ?ns = "error_natives (raising_machine (VLong 13))"
  have c: "new_coroutine (coroutine_of [7] FIBER_SUSPENDED) 7"
    using vm_running_ok[of "[7]" FIBER_SUSPENDED] by (simp add: new_coroutine_def running_def coroutine_of_def)
  have n: "conforms error_host ?ns ?s" by (rule main_natives_conform) simp
  have g: "library ?ns ?s 60 = Some (Bytecode caller_func)" by (simp add: raising_library)
  have "outcome_of (library ?ns ?s) 511 (Bytecode caller_func) [VClosure 80, VLong 13] = Raised (Thrown (VLong 13))"
    using caller_raises[of "VLong 13" ?s "[]" 510] by (simp add: raising_library del: outcome_of_simps)
  note run = coroutine_error_ends_it[where s = ?s and co = 100 and M = 5 and n = 4608 and body = "\<lambda>co s. Ok () s"
      and e = "VLong 13" and ex = sample_ext, OF _ _ _ c _ _ _ _ _ _ raising_machine_simps(6) g raising_library(2) n _ disjI1[OF this]]
  show ?thesis
    using run by (fastforce simp: config_defs fiber_new_def fluffyvm_set_errmsg_def)
qed

end
