(* ===== verification/ProgramRuns.thy ===== *)
theory ProgramRuns
  imports ThreadContracts MachineRefinement
begin

text \<open>
  A program from its bytecode to the end of its thread: the routine of \<open>main.c\<close> over the thread
  functions of the C API, the calls and the interpreter, with what the program does given by the
  register machine.
\<close>

text \<open>
  C6. A program in bytecode runs to its end: when the register machine returns from the code of the
  function that was loaded, calls of functions and of conforming native functions included, the routine of a thread that has room
  makes a new thread for it, runs it there through the trampoline and the interpreter, and returns;
  the nesting and every older coroutine are as before, the stack and the error message are cleared,
  and the new coroutine is over, its frame popped and its fiber dead with its stack freed.
\<close>

theorem bytecode_program_runs:
  assumes start: "fluffyvm_get_executing_coroutine s0 = Ok (Some L) s0"
      "load_closure load s0 = Ok (locked, Some func) s"
    and wf: "vm_wf s" "\<And>f cs u s. vm_wf s \<Longrightarrow> leaves vm_wf (host f cs u s)"
      "\<And>r f cs u s. heap_grows r s \<Longrightarrow> leaves (heap_grows r) (natives f cs u s)"
    and r: "running s L c" and a: "lua_at s L cs st" and L: "L < brk s" "cs < brk s"
    and room: "length (gs_items st) < 248" "always_mem s"
      "length (stk_items (coroutinesStack s)) < nat (stk_size (coroutinesStack s))"
    and tc: "coroutineTrampoline s = Some tc" "closures s tc = Some tcl" "cl_prototype tcl = None"
      "cl_func tcl = Some tramp" "\<And>cs u s. host tramp cs u s = trampoline ex (interpreter_exec natives ex n) s"
    and f: "library ns s func = Some (Bytecode fn)" "code_fits ns s M" "conforms natives ns s" "511 * (M + 2) \<le> n"
    and run: "run (library ns s) 510 fn (fn_code fn) (\<lambda>_. VNil) [] = Returned k vs" "length vs < 256"
  shows "\<exists>t d. thread_routine load (interpreter_exec host ex (Suc i)) s0 = Ok locked t \<and> cleaned L t \<and>
     coroutinesStack t = coroutinesStack s \<and> coros t = (coros s)(brk s \<mapsto> d) \<and> frames d = [] \<and>
     co_fiber d = Some \<lparr>fb_state = FIBER_DEAD, fb_task = False, fb_stack = False\<rparr>"
proof -
  obtain cl where cl: "closures s func = Some cl" by (rule library_closure[OF f(1)])
  have "callee_returns (interpreter_exec natives ex n (brk s)) s 2 (brk s) func cl cs callee [] k vs" for cs callee
    by (rule machine_callee[where d = 510 and M = M and vs = vs and k = k, OF f(1-3) room(2)])
       (use f(4) run(1) in \<open>auto simp: config_defs\<close>)
  moreover have "leaves (heap_grows r) (interpreter_exec natives ex n co s)" if "heap_grows r s" for r co s
    using wf(3) that by (intro grows.exec(1)) auto
  ultimately show ?thesis
    by (intro program_runs[where exec = "interpreter_exec natives ex n" and host = host and vs = vs and k = k,
          OF start wf(1,2) r a L room tc cl run(2)])
qed

subsection \<open>A concrete program\<close>

text \<open>It loads its two constants, adds them and returns the sum.\<close>

definition summing :: "u64 list" where
  "summing = [encode 7 0 0 0 0, encode 7 0 1 1 0, encode 12 0 2 0 1, encode 8 0 2 1 0]"

definition summing_bytecode :: bytecode where
  "summing_bytecode = \<lparr>bc_mainPrototype = Some (Prototype 60 summing [] [] VNil), bc_constants = [VLong 40, VLong 2]\<rparr>"

definition summing_closure :: closure where
  "summing_closure = empty_program\<lparr>cl_prototype := Some (Prototype 60 summing [] [] VNil)\<rparr>"

definition summing_machine :: vm where
  "summing_machine = program_machine\<lparr>bcs := [60 \<mapsto> summing_bytecode]\<rparr>"

abbreviation summing_loaded :: vm where
  "summing_loaded \<equiv> summing_machine\<lparr>brk := 201, closures := (closures summing_machine)(200 \<mapsto> summing_closure)\<rparr>"

abbreviation summing_host :: host where
  "summing_host \<equiv> \<lambda>_ _ _. trampoline sample_ext (interpreter_exec idle_host sample_ext 3066)"

lemma summing_machine_simps [simp]:
  "coros summing_machine = coros program_machine" "cstates summing_machine = cstates program_machine"
  "coroutinesStack summing_machine = coroutinesStack program_machine"
  "always_mem summing_machine" "brk summing_machine = brk program_machine"
  "coroutineTrampoline summing_machine = Some 51" "closures summing_machine = closures program_machine"
  "globalTable summing_machine = VNil" "bcs summing_machine = [60 \<mapsto> summing_bytecode]"
  by (simp_all add: summing_machine_def always_mem_def) (use program_machine_simps in \<open>simp_all add: always_mem_def\<close>)

lemma summing_load:
  "load_closure (\<lambda>s. Ok (False, Some 60) s) summing_machine = Ok (False, Some 200) summing_loaded"
proof -
  have "mem summing_machine n" for n using summing_machine_simps(4) by (simp add: always_mem_def)
  then show ?thesis
    by (simp add: load_closure_def fluffyvm_get_global_def closure_new_def closure_new_common_def gc_alloc_def
        value_new_closure_def summing_closure_def summing_bytecode_def empty_program_def)
qed

lemma summing_loaded_ok:
  "vm_wf summing_loaded" "running summing_loaded 100 (coroutine_of [7] FIBER_RUNNING)"
  "lua_at summing_loaded 100 7 (with_stack (new_call_state 50 100 False) [])" "always_mem summing_loaded"
  using program_machine_ok keeps_wf[of program_machine summing_loaded] summing_machine_simps(4)
  by (simp_all add: running_def lua_at_def always_mem_def keeps_def ctl_def summing_machine_def)

definition summing_func :: func where
  "summing_func = \<lparr>fn_code = [Const 0 0, Const 1 1, Arith Add 2 0 1, Ret 2 1], fn_consts = [VLong 40, VLong 2],
     fn_env = VNil, fn_self = VClosure 200\<rparr>"

lemma summing_runs: "run lib d summing_func (fn_code summing_func) r [] = Returned 1 [VLong 42]"
  by (simp add: summing_func_def target_small source_small in_int64_def)

lemma summing_library: "library ns summing_loaded 200 = Some (Bytecode summing_func)"
  by (simp add: library_def func_of_def summing_closure_def empty_program_def summing_def summing_func_def
      summing_bytecode_def instr_of_def Let_def decode_of_encode condFlagsMask_def)

lemma summing_code_fits: "code_fits (\<lambda>_. None) summing_loaded 4"
  unfolding code_fits_def
proof (intro allI impI)
  fix f g assume g: "library (\<lambda>_. None) summing_loaded f = Some (Bytecode g)"
  show "length (fn_code g) \<le> 4"
  proof (cases "f = 200")
    case True
    then show ?thesis using g summing_library[of "\<lambda>_. None"] by (auto simp: summing_func_def)
  next
    case False
    then show ?thesis
      using g by (auto simp: library_def func_of_def lua_closure_def plain_closure_def split: if_splits option.splits)
  qed
qed

theorem bytecode_program_runs_witness:
  "\<exists>t. thread_routine (\<lambda>s. Ok (False, Some 60) s) (interpreter_exec summing_host sample_ext 1) summing_machine =
     Ok False t \<and> cleaned 100 t"
proof -
  have r: "running summing_machine 100 (coroutine_of [7] FIBER_RUNNING)"
    using program_machine_ok(2) by (simp add: running_def)
  have w: "vm_wf s \<Longrightarrow> leaves vm_wf (summing_host f cs u s)" for f cs u s by (intro wf_intros wf_exec(1)) auto
  show ?thesis
    using bytecode_program_runs[where host = summing_host and natives = idle_host and n = 3066 and M = 4 and i = 0 and
        tramp = 9 and tc = 51, OF running_executing(1)[OF r] summing_load summing_loaded_ok(1) w _ summing_loaded_ok(2,3)
        _ _ _ summing_loaded_ok(4) _ _ _ _ _ refl summing_library summing_code_fits conforms_none _ summing_runs]
    by (auto simp: plain_closure_def config_defs)
qed

end
