(* ===== verification/Iso8601.thy ===== *)
theory Iso8601
  imports Util
begin

text \<open>
  The ISO 8601 parser of \<open>util/util.c\<close>. \<open>strtol\<close> is the C library's, for base 10: it skips white
  space, reads a sign and digits, and saturates at the range of \<open>long\<close>.
\<close>

subsection \<open>Numbers\<close>

definition is_space :: "byte \<Rightarrow> bool" where
  "is_space b \<longleftrightarrow> b = 0x20 \<or> (0x09 \<le> b \<and> b \<le> 0x0D)"

definition is_digit :: "byte \<Rightarrow> bool" where
  "is_digit b \<longleftrightarrow> 0x30 \<le> b \<and> b \<le> 0x39"

fun decimal :: "byte list \<Rightarrow> nat \<Rightarrow> nat" where
  "decimal [] n = n"
| "decimal (b # bs) n = decimal bs (10 * n + (unat b - 0x30))"

text \<open>The number, and whether \<open>endptr\<close> has moved.\<close>

definition strtol10 :: "byte list \<Rightarrow> int \<times> bool" where
  "strtol10 str =
     (let bs = dropWhile is_space str;
          neg = (bs \<noteq> [] \<and> hd bs = 0x2D);
          ds = takeWhile is_digit (if bs \<noteq> [] \<and> (hd bs = 0x2D \<or> hd bs = 0x2B) then tl bs else bs);
          n = int (decimal ds 0) in
      if ds = [] then (0, False)
      else (max (-(2 ^ 63)) (min (2 ^ 63 - 1) (if neg then - n else n)), True))"

text \<open>The \<open>long\<close> becomes an \<open>int\<close>: its low 32 bits.\<close>

definition ParseInt :: "byte list \<Rightarrow> int \<times> bool" where
  "ParseInt str = (case strtol10 str of (result, moved) \<Rightarrow> (sint (word_of_int result :: 32 word), moved))"

subsection \<open>The parser\<close>

text \<open>\<open>None\<close> is an overflow of \<open>int\<close>; the input is the bytes before the terminating zero.\<close>

definition util_parse_iso8601 :: "byte list \<Rightarrow> int option" where
  "util_parse_iso8601 input =
     (if length input < 20 then Some (-1)
      else let (year, ok) = ParseInt input in
        Option.bind (cint (year - 1900)) (\<lambda>year. if \<not> ok then Some (-1)
      else let (mon, ok) = ParseInt (drop 5 input) in
        Option.bind (cint (mon - 1)) (\<lambda>mon. if \<not> ok then Some (-1)
      else let (mday, ok) = ParseInt (drop 8 input) in if \<not> ok then Some (-1)
      else let (hour, ok) = ParseInt (drop 11 input) in if \<not> ok then Some (-1)
      else let (minute, ok) = ParseInt (drop 14 input) in if \<not> ok then Some (-1)
      else let (sec, ok) = ParseInt (drop 17 input) in if \<not> ok then Some (-1)
      else Option.bind (util_timegm \<lparr>tm_year = year, tm_mon = mon, tm_mday = mday, tm_hour = hour,
             tm_min = minute, tm_sec = sec\<rparr>) (\<lambda>res. if res = -1 then Some (-1) else Some res))))"

subsection \<open>Dates written out\<close>

definition digit :: "nat \<Rightarrow> byte" where
  "digit n = word_of_nat (48 + n)"

definition two :: "nat \<Rightarrow> byte list" where
  "two n = [digit (n div 10), digit (n mod 10)]"

definition four :: "nat \<Rightarrow> byte list" where
  "four n = two (n div 100) @ two (n mod 100)"

definition iso8601 :: "nat \<Rightarrow> nat \<Rightarrow> nat \<Rightarrow> nat \<Rightarrow> nat \<Rightarrow> nat \<Rightarrow> byte list" where
  "iso8601 y m d h mi se =
     four y @ bytes_of ''-'' @ two m @ bytes_of ''-'' @ two d @ bytes_of ''T'' @
     two h @ bytes_of '':'' @ two mi @ bytes_of '':'' @ two se @ bytes_of ''Z''"

lemma unat_digit: "n < 10 \<Longrightarrow> unat (digit n) = 48 + n"
  by (simp add: digit_def unat_word_ariths unat_of_nat)

lemma digit_kind [simp]:
  assumes "n < 10"
  shows "is_digit (digit n)" "\<not> is_space (digit n)" "digit n \<noteq> 0x2D" "digit n \<noteq> 0x2B"
  using unat_digit[OF assms] assms
  by (auto simp: is_digit_def is_space_def word_le_nat_alt word_unat_eq_iff)

lemma strtol10_digits:
  assumes "\<forall>n \<in> set ns. n < 10" and "ns \<noteq> []" and "bs = [] \<or> \<not> is_digit (hd bs)"
    and "int (decimal (map digit ns) 0) < 2 ^ 63"
  shows "strtol10 (map digit ns @ bs) = (int (decimal (map digit ns) 0), True)"
proof -
  obtain k ks where ns: "ns = k # ks" "k < 10" using assms(1,2) by (cases ns) auto
  have "takeWhile is_digit (map digit ns @ bs) = map digit ns"
    using assms(1,3) by (subst takeWhile_append2) (auto simp: takeWhile_eq_Nil_iff)
  then show ?thesis
    using ns assms(4) by (simp add: strtol10_def Let_def)
qed

lemma ParseInt_digits:
  assumes "\<forall>n \<in> set ns. n < 10" and "ns \<noteq> []" and "bs = [] \<or> \<not> is_digit (hd bs)"
    and "decimal (map digit ns) 0 < 10000"
  shows "ParseInt (map digit ns @ bs) = (int (decimal (map digit ns) 0), True)"
proof -
  let ?n = "int (decimal (map digit ns) 0)"
  have n: "0 \<le> ?n" "?n < 10000" using assms(4) by simp_all
  then have "sint (word_of_int ?n :: 32 word) = ?n"
    by (simp only: sint_sbintrunc') (rule signed_take_bit_int_eq_self, simp_all)
  then show ?thesis using strtol10_digits[OF assms(1-3)] n by (simp add: ParseInt_def)
qed

lemma decimal_two: "n < 100 \<Longrightarrow> decimal [digit (n div 10), digit (n mod 10)] 0 = n"
  by (simp add: unat_digit less_mult_imp_div_less)

lemma parse_two:
  assumes "n < 100" and "bs = [] \<or> \<not> is_digit (hd bs)"
  shows "ParseInt (two n @ bs) = (int n, True)"
  using ParseInt_digits[of "[n div 10, n mod 10]" bs] assms decimal_two[OF assms(1)]
  by (simp add: two_def less_mult_imp_div_less)

lemma decimal_four:
  "n < 10000 \<Longrightarrow> decimal [digit (n div 100 div 10), digit (n div 100 mod 10), digit (n mod 100 div 10),
     digit (n mod 100 mod 10)] 0 = n"
  by (simp add: unat_digit less_mult_imp_div_less)

lemma parse_four:
  assumes "n < 10000" and "bs = [] \<or> \<not> is_digit (hd bs)"
  shows "ParseInt (four n @ bs) = (int n, True)"
  using ParseInt_digits[of "[n div 100 div 10, n div 100 mod 10, n mod 100 div 10, n mod 100 mod 10]" bs]
    assms decimal_four[OF assms(1)]
  by (simp add: four_def two_def less_mult_imp_div_less)

lemma separators [simp]:
  "\<not> is_digit (hd (bytes_of ''-'' @ bs))" "\<not> is_digit (hd (bytes_of ''T'' @ bs))"
  "\<not> is_digit (hd (bytes_of '':'' @ bs))" "\<not> is_digit (hd (bytes_of ''Z'' @ bs))"
  by (simp_all add: bytes_of_def is_digit_def)

subsection \<open>The Gregorian calendar\<close>

text \<open>The days before a date since 0001-01-01, counted by whole years, whole months and days.\<close>

definition year_days :: "int \<Rightarrow> int" where
  "year_days y = (if leap y then 366 else 365)"

definition gregorian_days :: "int \<Rightarrow> int \<Rightarrow> int \<Rightarrow> int" where
  "gregorian_days y m d = (\<Sum>k \<in> {1..<y}. year_days k) + (\<Sum>k \<in> {1..<m}. month_days y k) + (d - 1)"

lemma sum_year_days: "(\<Sum>k \<in> {1..<int n + 1}. year_days k) = year_number (int n)"
proof (induction n)
  case (Suc n)
  have "{1..<int (Suc n) + 1} = insert (int n + 1) {1..<int n + 1}" by auto
  then have "(\<Sum>k \<in> {1..<int (Suc n) + 1}. year_days k) = year_days (int n + 1) + year_number (int n)"
    using Suc.IH by simp
  then show ?case using year_number_step[of "int n + 1"] by (simp add: year_days_def add.commute)
qed (simp add: year_number_def)

lemma sum_months:
  "(\<Sum>k \<in> {1..<m + 1}. month_days y k) = (if 1 \<le> m then (\<Sum>k \<in> {1..<m}. month_days y k) + month_days y m else 0)"
proof (cases "1 \<le> m")
  case True
  then have "{1..<m + 1} = insert m {1..<m}" by auto
  then show ?thesis using True by simp
qed simp

lemma months_of_year:
  assumes "1 \<le> m" and "m \<le> 12"
  shows "(\<Sum>k \<in> {1..<m}. month_days y k) =
    (153 * (m + (if 2 < m then -3 else 9)) + 2) div 5 - (if 2 < m then 306 - year_days y else 306)"
proof -
  define M where "M j = (\<Sum>k \<in> {1..<j}. month_days y k)" for j
  have step: "M (j + 1) = M j + month_days y j" if "1 \<le> j" for j
    using sum_months[of y j] that by (simp add: M_def)
  define l where "l = (if leap y then 1 else 0 :: int)"
  have v: "M 1 = 0" by (simp add: M_def)
  have v: "M 2 = 31" using step[of 1] v by (simp add: month_days_def)
  moreover have v: "M 3 = 59 + l" using step[of 2] v by (simp add: month_days_def l_def)
  moreover have v: "M 4 = 90 + l" using step[of 3] v by (simp add: month_days_def)
  moreover have v: "M 5 = 120 + l" using step[of 4] v by (simp add: month_days_def)
  moreover have v: "M 6 = 151 + l" using step[of 5] v by (simp add: month_days_def)
  moreover have v: "M 7 = 181 + l" using step[of 6] v by (simp add: month_days_def)
  moreover have v: "M 8 = 212 + l" using step[of 7] v by (simp add: month_days_def)
  moreover have v: "M 9 = 243 + l" using step[of 8] v by (simp add: month_days_def)
  moreover have v: "M 10 = 273 + l" using step[of 9] v by (simp add: month_days_def)
  moreover have v: "M 11 = 304 + l" using step[of 10] v by (simp add: month_days_def)
  moreover have "M 12 = 334 + l" using step[of 11] v by (simp add: month_days_def)
  moreover have "m \<in> {1, 2, 3, 4, 5, 6, 7, 8, 9, 10, 11, 12}"
    using assms unfolding insert_iff empty_iff by presburger
  moreover have "year_days y = 365 + l" by (simp add: year_days_def l_def)
  moreover have "M 1 = 0" by (simp add: M_def)
  ultimately show ?thesis unfolding M_def[symmetric] insert_iff empty_iff by (elim disjE) simp_all
qed

lemma day_number_gregorian:
  assumes "1 \<le> y" and "1 \<le> m" and "m \<le> 12"
  shows "day_number y m d = gregorian_days y m d - gregorian_days 1970 1 1"
proof -
  have y: "(\<Sum>k \<in> {1..<z}. year_days k) = year_number (z - 1)" if "1 \<le> z" for z
    using sum_year_days[of "nat (z - 1)"] that by simp
  have "gregorian_days 1970 1 1 = 719162" using y[of 1970] by (simp add: gregorian_days_def year_number_def)
  moreover have "year_number y = year_number (y - 1) + year_days y"
    using year_number_step[of y] by (simp add: year_days_def)
  ultimately show ?thesis
    using y[OF assms(1)] months_of_year[OF assms(2,3), of y] by (simp add: day_number_year gregorian_days_def)
qed

lemma util_parse_iso8601_date:
  assumes "1 \<le> y" and "y < 10000" and "valid_date (int y) (int m) (int d)"
    and "h < 100" and "mi < 100" and "se < 100"
  shows "util_parse_iso8601 (iso8601 y m d h mi se @ rest) =
       Some (86400 * (gregorian_days (int y) (int m) (int d) - gregorian_days 1970 1 1)
         + 3600 * int h + 60 * int mi + int se)"
proof -
  have date: "1 \<le> m" "m \<le> 12" "1 \<le> d" "d \<le> 31"
    using assms(3) month_days_bounds[of "int y" "int m"] by (simp_all add: valid_date_def)
  define i where "i = iso8601 y m d h mi se @ rest"
  have l: "length (four k) = 4" "length (two k) = 2" "length (bytes_of [c]) = 1" for k c
    by (simp_all add: four_def two_def bytes_of_def)
  have dr: "drop 5 i = two m @ bytes_of ''-'' @ two d @ bytes_of ''T'' @ two h @ bytes_of '':'' @ two mi @ bytes_of '':'' @ two se @ bytes_of ''Z'' @ rest"
    "drop 8 i = two d @ bytes_of ''T'' @ two h @ bytes_of '':'' @ two mi @ bytes_of '':'' @ two se @ bytes_of ''Z'' @ rest"
    "drop 11 i = two h @ bytes_of '':'' @ two mi @ bytes_of '':'' @ two se @ bytes_of ''Z'' @ rest"
    "drop 14 i = two mi @ bytes_of '':'' @ two se @ bytes_of ''Z'' @ rest"
    "drop 17 i = two se @ bytes_of ''Z'' @ rest"
    by (simp_all add: i_def iso8601_def l)
  have p: "ParseInt i = (int y, True)" "ParseInt (drop 5 i) = (int m, True)"
    "ParseInt (drop 8 i) = (int d, True)" "ParseInt (drop 11 i) = (int h, True)"
    "ParseInt (drop 14 i) = (int mi, True)" "ParseInt (drop 17 i) = (int se, True)"
    unfolding dr using assms date by (simp_all add: parse_two parse_four i_def iso8601_def)
  have c: "cint k = Some k" if "\<bar>k\<bar> \<le> 20000" for k
    using that by (auto simp: cint_def int_ok_def INT_MIN_def INT_MAX_def)
  have days: "days_from_epoch (int y) (int m) (int d) = Some (day_number (int y) (int m) (int d))"
    using assms date by (intro days_from_epoch_number) simp_all
  have "\<not> length i < 20" by (simp add: i_def iso8601_def l)
  moreover have "util_timegm \<lparr>tm_year = int y - 1900, tm_mon = int m - 1, tm_mday = int d, tm_hour = int h,
      tm_min = int mi, tm_sec = int se\<rparr> =
    Some (86400 * day_number (int y) (int m) (int d) + 3600 * int h + 60 * int mi + int se)"
    using assms date c days by (simp add: util_timegm_def Let_def)
  ultimately have "util_parse_iso8601 i =
       Some (86400 * day_number (int y) (int m) (int d) + 3600 * int h + 60 * int mi + int se)"
    using assms date p c by (simp add: util_parse_iso8601_def Let_def)
  then show ?thesis using day_number_gregorian[of "int y" "int m" "int d"] assms(1) date unfolding i_def by simp
qed

lemma util_parse_iso8601_short: "length bs < 20 \<Longrightarrow> util_parse_iso8601 bs = Some (-1)"
  by (simp add: util_parse_iso8601_def)

text \<open>
  C33. A date of the Gregorian calendar and a time written as \<open>YYYY-MM-DDThh:mm:ssZ\<close>, with anything
  behind it, parses to its number of seconds since 1970-01-01, days counted by leap years and lengths
  of months; a shorter text is refused with -1. \<open>util.h\<close> takes -1 to be no time at all, but it is the
  second before 1970, which cannot be told from a refused text.
\<close>

theorem util_parse_iso8601_reads:
  assumes "1 \<le> y" and "y < 10000" and "valid_date (int y) (int m) (int d)"
    and "h < 100" and "mi < 100" and "se < 100"
  shows "util_parse_iso8601 (iso8601 y m d h mi se @ rest) =
       Some (86400 * (gregorian_days (int y) (int m) (int d) - gregorian_days 1970 1 1)
         + 3600 * int h + 60 * int mi + int se) \<and>
     (n < 20 \<longrightarrow> util_parse_iso8601 (take n (iso8601 y m d h mi se)) = Some (-1)) \<and>
     util_parse_iso8601 (iso8601 1969 12 31 23 59 59) = Some (-1)"
  using util_parse_iso8601_date[OF assms, of rest] util_parse_iso8601_date[of 1969 12 31 23 59 59 "[]"]
    util_parse_iso8601_short[of "take n (iso8601 y m d h mi se)"] day_number_gregorian[of 1969 12 31]
  by (simp add: valid_date_def month_days_def day_number_def)

theorem util_parse_iso8601_reads_witness:
  "util_parse_iso8601 (iso8601 2000 2 29 3 4 5) = Some 951793445 \<and>
   util_parse_iso8601 (take 19 (iso8601 2000 2 29 3 4 5)) = Some (-1)"
  using util_parse_iso8601_reads[of 2000 2 29 3 4 5 "[]" 19] day_number_gregorian[of 2000 2 29]
  by (simp add: day_number_def valid_date_def month_days_def leap_def)

end
