(* ===== verification/HexCodec.thy ===== *)
theory HexCodec
  imports Iso8601
begin

text \<open>
  \<open>util_hex2bin\<close> of \<open>util/util.c\<close>: hexadecimal text to bytes, two characters at a time through
  \<open>sscanf\<close> with \<open>%x\<close>, which is the C library's: it skips white space and reads a sign, a prefix
  \<open>0x\<close> and digits; a prefix without digits is no number. \<open>util_bin2hex\<close> writes the digits to the
  standard output; the round trip of the two is the property of this theory.
\<close>

definition is_hex :: "byte \<Rightarrow> bool" where
  "is_hex b \<longleftrightarrow> is_digit b \<or> (0x41 \<le> b \<and> b \<le> 0x46) \<or> (0x61 \<le> b \<and> b \<le> 0x66)"

definition hex_value :: "byte \<Rightarrow> nat" where
  "hex_value b = (if is_digit b then unat b - 0x30 else if b \<le> 0x46 then unat b - 55 else unat b - 87)"

fun hexadecimal :: "byte list \<Rightarrow> nat \<Rightarrow> nat" where
  "hexadecimal [] n = n"
| "hexadecimal (b # bs) n = hexadecimal bs (16 * n + hex_value b)"

definition sscanf_x :: "byte list \<Rightarrow> int option" where
  "sscanf_x str =
     (let bs = dropWhile is_space str;
          neg = (bs \<noteq> [] \<and> hd bs = 0x2D);
          bs = (if bs \<noteq> [] \<and> (hd bs = 0x2D \<or> hd bs = 0x2B) then tl bs else bs);
          bs = (if 2 \<le> length bs \<and> hd bs = 0x30 \<and> (bs ! 1 = 0x78 \<or> bs ! 1 = 0x58) then drop 2 bs else bs);
          ds = takeWhile is_hex bs; n = int (hexadecimal ds 0)
      in if ds = [] then None else Some (if neg then - n else n))"

text \<open>The loop: the string still to read, \<open>i\<close>, and how many rounds \<open>length\<close> still allows.\<close>

definition put_byte :: "nat \<Rightarrow> int \<Rightarrow> byte list \<Rightarrow> (unit, byte list) res" where
  "put_byte i v buffer =
     (if i < length buffer then Ok () (buffer[i := word_of_int v]) else Fault OutOfBounds)"

fun hex_loop :: "byte list \<Rightarrow> nat \<Rightarrow> nat \<Rightarrow> byte list \<Rightarrow> (nat, byte list) res" where
  "hex_loop str i 0 buffer = Ok i buffer"
| "hex_loop [] i (Suc n) buffer = Ok i buffer"
| "hex_loop [a] i (Suc n) buffer =
     (case sscanf_x [a] of
        None \<Rightarrow> Ok i buffer
      | Some v \<Rightarrow> rbind (put_byte i v buffer) (\<lambda>_ buffer. Ok (Suc i) buffer))"
| "hex_loop (a # b # str) i (Suc n) buffer =
     (case sscanf_x [a, b] of
        None \<Rightarrow> Ok i buffer
      | Some v \<Rightarrow> rbind (put_byte i v buffer) (\<lambda>_ buffer. hex_loop str (Suc i) n buffer))"

definition util_hex2bin :: "byte list \<Rightarrow> nat \<Rightarrow> byte list \<Rightarrow> (bool, byte list) res" where
  "util_hex2bin str n buffer = rbind (hex_loop str 0 n buffer) (\<lambda>i buffer. Ok (i = n * 2) buffer)"

subsection \<open>Bytes written out\<close>

text \<open>
  The format \<open>%02X\<close> of one byte: two digits, the letters in upper case. \<open>util_bin2hex\<close> has the text
  printed so far as its state; its counter \<open>i\<close> is an \<open>int\<close>, so stepping past \<open>INT_MAX\<close> overflows.
  The pointer it returns is the null pointer it was initialised with.
\<close>

definition hex_digit :: "nat \<Rightarrow> byte" where
  "hex_digit n = word_of_nat (if n < 10 then 48 + n else 55 + n)"

definition hex_byte :: "byte \<Rightarrow> byte list" where
  "hex_byte b = [hex_digit (unat b div 16), hex_digit (unat b mod 16)]"

fun bin2hex_loop :: "byte list \<Rightarrow> nat \<Rightarrow> nat \<Rightarrow> byte list \<Rightarrow> (unit, byte list) res" where
  "bin2hex_loop src i 0 out = Ok () out"
| "bin2hex_loop src i (Suc n) out =
     (if length src \<le> i then Fault OutOfBounds
      else if 2 ^ 31 \<le> Suc i then Fault SignedOverflow
      else bin2hex_loop src (Suc i) n (out @ hex_byte (src ! i)))"

definition util_bin2hex :: "byte list \<Rightarrow> nat \<Rightarrow> byte list \<Rightarrow> (byte list option, byte list) res" where
  "util_bin2hex src len out =
     rbind (bin2hex_loop src 0 len out) (\<lambda>_ out. Ok None (out @ [0x0A]))"

lemma bin2hex_loop_prints:
  assumes "i + n \<le> length src" "i + n < 2 ^ 31"
  shows "bin2hex_loop src i n out = Ok () (out @ concat (map hex_byte (take n (drop i src))))"
  using assms
proof (induction n arbitrary: i out)
  case (Suc n)
  then show ?case
    using Suc.IH[of "Suc i" "out @ hex_byte (src ! i)"]
    by (simp add: Cons_nth_drop_Suc[symmetric] del: drop_Suc_Cons)
qed simp

lemma hex_digit_kind:
  assumes "n < 16"
  shows "is_hex (hex_digit n)" "\<not> is_space (hex_digit n)" "hex_digit n \<notin> {0x2D, 0x2B, 0x78, 0x58}"
    "hex_value (hex_digit n) = n"
proof -
  have "\<forall>n \<in> set [0..<16]. is_hex (hex_digit n) \<and> \<not> is_space (hex_digit n) \<and>
      hex_digit n \<notin> {0x2D, 0x2B, 0x78, 0x58} \<and> hex_value (hex_digit n) = n"
    by (simp add: upt_rec hex_digit_def is_hex_def is_digit_def is_space_def hex_value_def)
  then show "is_hex (hex_digit n)" "\<not> is_space (hex_digit n)" "hex_digit n \<notin> {0x2D, 0x2B, 0x78, 0x58}"
    "hex_value (hex_digit n) = n"
    using assms by auto
qed

lemma sscanf_x_two:
  assumes "is_hex c" "\<not> is_space c" "c \<notin> {0x2D, 0x2B}" "is_hex d" "d \<notin> {0x78, 0x58}"
  shows "sscanf_x [c, d] = Some (int (16 * hex_value c + hex_value d))"
  using assms by (simp add: sscanf_x_def Let_def)

lemma sscanf_x_byte: "sscanf_x (hex_byte b) = Some (uint b)"
proof -
  have "unat b < 2 ^ LENGTH(8)" by (rule unsigned_less)
  then have n: "unat b div 16 < 16" "unat b mod 16 < 16" by auto
  have "sscanf_x (hex_byte b) =
      Some (int (16 * hex_value (hex_digit (unat b div 16)) + hex_value (hex_digit (unat b mod 16))))"
    using hex_digit_kind(1-3)[OF n(1)] hex_digit_kind(1-3)[OF n(2)]
    unfolding hex_byte_def by (intro sscanf_x_two) auto
  also have "16 * hex_value (hex_digit (unat b div 16)) + hex_value (hex_digit (unat b mod 16)) = unat b"
    by (simp only: hex_digit_kind(4)[OF n(1)] hex_digit_kind(4)[OF n(2)] mult_div_mod_eq)
  finally show ?thesis by (simp only: uint_nat)
qed

text \<open>Reading stops at the end of the digits or at the line break after them.\<close>

lemma sscanf_x_line_break: "sscanf_x [0x0A] = None"
  by (simp add: sscanf_x_def is_space_def)

lemma hex_loop_bytes:
  assumes "i + n \<le> length buffer" "rest \<in> {[], [0x0A]}"
  shows "hex_loop (concat (map hex_byte bs) @ rest) i n buffer =
    Ok (i + min n (length bs)) (take i buffer @ take n bs @ drop (i + min n (length bs)) buffer)"
  using assms(1)
proof (induction bs arbitrary: i n buffer)
  case Nil
  then show ?case using assms(2) by (cases n) (auto simp: sscanf_x_line_break)
next
  case (Cons b bs)
  show ?case
  proof (cases n)
    case 0
    then show ?thesis by simp
  next
    case (Suc m)
    let ?buf = "buffer[i := b]"
    have "hex_loop (concat (map hex_byte (b # bs)) @ rest) i n buffer =
        hex_loop (concat (map hex_byte bs) @ rest) (Suc i) m ?buf"
      using sscanf_x_byte[of b] Suc Cons.prems by (simp add: hex_byte_def put_byte_def)
    also have "\<dots> = Ok (Suc i + min m (length bs))
        (take (Suc i) ?buf @ take m bs @ drop (Suc i + min m (length bs)) ?buf)"
      using Suc Cons.prems by (intro Cons.IH) simp
    finally show ?thesis using Suc Cons.prems by (simp add: take_Suc_update)
  qed
qed

lemma util_hex2bin_decodes:
  assumes "n \<le> length buffer" "rest \<in> {[], [0x0A]}"
  shows "util_hex2bin (concat (map hex_byte bs) @ rest) n buffer =
    Ok (n = 0) (take n bs @ drop (min n (length bs)) buffer)"
  using hex_loop_bytes[of 0 n buffer rest bs] assms by (auto simp: util_hex2bin_def)

text \<open>
  C36. The line \<open>util_bin2hex\<close> prints for the first \<open>len\<close> bytes of an array is read back by
  \<open>util_hex2bin\<close> to these bytes, as far as its \<open>length\<close> allows, and the rest of its buffer is left
  alone; but \<open>util_bin2hex\<close> returns a null pointer and \<open>util_hex2bin\<close> answers true only for a length
  of 0.
\<close>

theorem util_hex_roundtrip:
  assumes "len \<le> length src" "len < 2 ^ 31" "n \<le> length buffer"
  shows "\<exists>line. util_bin2hex src len out = Ok None (out @ line) \<and>
    util_hex2bin line n buffer = Ok (n = 0) (take n (take len src) @ drop (min n len) buffer)"
proof (intro exI conjI)
  let ?line = "concat (map hex_byte (take len src)) @ [0x0A]"
  show "util_bin2hex src len out = Ok None (out @ ?line)"
    using bin2hex_loop_prints[of 0 len src out] assms(1,2) by (simp add: util_bin2hex_def)
  show "util_hex2bin ?line n buffer = Ok (n = 0) (take n (take len src) @ drop (min n len) buffer)"
    using util_hex2bin_decodes[of n buffer "[0x0A]" "take len src"] assms(1,3) by (simp add: min_absorb2)
qed

theorem util_hex_roundtrip_witness:
  "\<exists>line. util_bin2hex [0x7F, 0x0A, 0xC3] 2 [] = Ok None line \<and>
     util_hex2bin line 3 [0, 0, 9] = Ok False [0x7F, 0x0A, 9]"
  using util_hex_roundtrip[of 2 "[0x7F, 0x0A, 0xC3]" 3 "[0, 0, 9]" "[]"] by simp

end
