(* ===== verification/Binary.thy ===== *)
theory Binary
  imports Util
begin

text \<open>
  \<open>util/binary.h\<close>: integers of a fixed byte order. A byte is promoted to \<open>int\<close> before it is
  shifted, so a highest byte of 128 or more shifts into the sign, which C leaves undefined.
\<close>

unbundle bit_operations_syntax

definition with_shifted :: "byte \<Rightarrow> nat \<Rightarrow> (int \<Rightarrow> ('a, 's) res) \<Rightarrow> ('a, 's) res" where
  "with_shifted b n f = (case cint (push_bit n (uint b)) of None \<Rightarrow> Fault SignedOverflow | Some i \<Rightarrow> f i)"

definition binary_u16_little :: "byte list \<Rightarrow> (16 word, byte list) res" where
  "binary_u16_little data =
     (if length data < 2 then Fault OutOfBounds
      else with_shifted (data ! 1) 8 (\<lambda>x. Ok (word_of_int (uint (data ! 0) OR x)) data))"

definition binary_u16_big :: "byte list \<Rightarrow> (16 word, byte list) res" where
  "binary_u16_big data =
     (if length data < 2 then Fault OutOfBounds
      else with_shifted (data ! 0) 8 (\<lambda>x. Ok (word_of_int (uint (data ! 1) OR x)) data))"

definition binary_u32_little :: "byte list \<Rightarrow> (32 word, byte list) res" where
  "binary_u32_little data =
     (if length data < 4 then Fault OutOfBounds
      else with_shifted (data ! 1) 8 (\<lambda>x. with_shifted (data ! 2) 16 (\<lambda>y. with_shifted (data ! 3) 24 (\<lambda>z.
        Ok (word_of_int (uint (data ! 0) OR x OR y OR z)) data))))"

definition binary_u32_big :: "byte list \<Rightarrow> (32 word, byte list) res" where
  "binary_u32_big data =
     (if length data < 4 then Fault OutOfBounds
      else with_shifted (data ! 2) 8 (\<lambda>x. with_shifted (data ! 1) 16 (\<lambda>y. with_shifted (data ! 0) 24 (\<lambda>z.
        Ok (word_of_int (uint (data ! 3) OR x OR y OR z)) data))))"

subsection \<open>Numbers written out\<close>

text \<open>The bytes of a word, lowest first.\<close>

definition u16_bytes :: "16 word \<Rightarrow> byte list" where
  "u16_bytes w = [ucast w, ucast (drop_bit 8 w)]"

definition u32_bytes :: "32 word \<Rightarrow> byte list" where
  "u32_bytes w = [ucast w, ucast (drop_bit 8 w), ucast (drop_bit 16 w), ucast (drop_bit 24 w)]"

lemma with_shifted_small:
  assumes "n \<le> 16"
  shows "with_shifted b n f = f (push_bit n (uint b))"
proof -
  have "uint b < 2 ^ 8" "0 \<le> uint b" using unsigned_less[of b, where ?'a = int] by simp_all
  moreover have "(2 :: int) ^ n \<le> 2 ^ 16" using assms by (simp add: power_increasing_iff del: power_numeral)
  ultimately have "uint b * 2 ^ n \<le> (2 ^ 8) * 2 ^ 16" by (intro mult_mono) simp_all
  moreover have "- 2147483648 \<le> uint b * 2 ^ n" using order_trans[of "- 2147483648" 0 "uint b * 2 ^ n"] by simp
  ultimately show ?thesis
    by (simp add: with_shifted_def cint_def int_ok_def INT_MAX_def INT_MIN_def push_bit_eq_mult)
qed

lemma with_shifted_top:
  "with_shifted b 24 f = (if b < 0x80 then f (push_bit 24 (uint b)) else Fault SignedOverflow)"
proof -
  have "- 128 \<le> uint b" using order_trans[of "- 128" 0 "uint b"] by simp
  then show ?thesis
    by (simp add: with_shifted_def cint_def int_ok_def INT_MAX_def INT_MIN_def push_bit_eq_mult word_less_def)
qed

lemma u16_or: "word_of_int (uint (ucast w :: byte) OR push_bit 8 (uint (ucast (drop_bit 8 w) :: byte))) = (w :: 16 word)"
  by (rule bit_word_eqI) (auto simp: bit_simps)

lemma u32_or:
  "word_of_int (uint (ucast w :: byte) OR push_bit 8 (uint (ucast (drop_bit 8 w) :: byte)) OR
     push_bit 16 (uint (ucast (drop_bit 16 w) :: byte)) OR push_bit 24 (uint (ucast (drop_bit 24 w) :: byte))) =
   (w :: 32 word)"
proof (rule bit_word_eqI)
  fix n assume n: "n < LENGTH(32)"
  consider "n < 8" | "8 \<le> n" "n < 16" | "16 \<le> n" "n < 24" | "24 \<le> n" "n < 32" using n by fastforce
  then show "bit (word_of_int (uint (ucast w :: byte) OR push_bit 8 (uint (ucast (drop_bit 8 w) :: byte)) OR
      push_bit 16 (uint (ucast (drop_bit 16 w) :: byte)) OR
      push_bit 24 (uint (ucast (drop_bit 24 w) :: byte))) :: 32 word) n = bit w n"
    by cases (auto simp: bit_simps)
qed

lemma top_byte: "(ucast (drop_bit 24 w) :: byte) < 0x80 \<longleftrightarrow> (w :: 32 word) < 2 ^ 31"
proof -
  have "unat w < 2 ^ 32" using unsigned_less[of w, where ?'a = nat] by simp
  then have "unat w div 2 ^ 24 < 256" by (intro less_mult_imp_div_less) simp
  moreover have "unat w div 2 ^ 24 < 128 \<longleftrightarrow> unat w < 2 ^ 31" by (subst div_less_iff_less_mult) simp_all
  ultimately show ?thesis
    by (simp add: word_less_nat_alt unat_drop_bit_eq drop_bit_eq_div unsigned_ucast_eq take_bit_eq_mod unat_div)
qed

text \<open>
  Reading gives back the number that was written, in either byte order; a 32 bit number from
  \<open>2 ^ 31\<close> on is undefined behaviour.
\<close>

theorem binary_reads_back:
  "binary_u16_little (u16_bytes w) = Ok w (u16_bytes w) \<and>
   binary_u16_big (rev (u16_bytes w)) = Ok w (rev (u16_bytes w)) \<and>
   binary_u32_little (u32_bytes v) =
     (if v < 2 ^ 31 then Ok v (u32_bytes v) else Fault SignedOverflow) \<and>
   binary_u32_big (rev (u32_bytes v)) =
     (if v < 2 ^ 31 then Ok v (rev (u32_bytes v)) else Fault SignedOverflow)"
  by (simp add: binary_u16_little_def binary_u16_big_def binary_u32_little_def binary_u32_big_def
      u16_bytes_def u32_bytes_def with_shifted_small with_shifted_top u16_or u32_or top_byte
      del: push_bit_numeral)

end
