(* ===== verification/Queue.thy ===== *)
theory Queue
  imports Prelude "HOL-Library.Multiset"
begin

text \<open>
  \<open>collections/queue.c\<close>: a bounded queue shared by threads. The linked list below it is a library
  outside this repository and a parameter: \<open>list_lib\<close> holds the calls the queue makes, and
  \<open>list_lib_ok\<close> what their documentation says of the nodes. Each stretch of code between taking and
  releasing the mutex is one step; a \<open>pthread_cond_wait\<close> ends one and starts another, and may
  return without a signal. The signals are sent after the mutex is released, which is a step of its
  own. The timed calls of the header have no code.
\<close>

subsection \<open>The list library\<close>

record ('l, 'd) list_lib =
  list_new :: 'l
  list_rpush :: "'l \<Rightarrow> 'd \<Rightarrow> 'l"
  list_first :: "'l \<Rightarrow> 'd option"          \<comment> \<open>\<open>list_at(list, 0)\<close>, null in an empty list\<close>
  list_remove_first :: "'l \<Rightarrow> 'l"          \<comment> \<open>\<open>list_remove\<close> of that node\<close>

definition list_lib_ok :: "('l, 'd) list_lib \<Rightarrow> ('l \<Rightarrow> 'd list) \<Rightarrow> bool" where
  "list_lib_ok lib nodes \<longleftrightarrow> nodes (list_new lib) = [] \<and>
     (\<forall>l d. nodes (list_rpush lib l d) = nodes l @ [d]) \<and>
     (\<forall>l. list_first lib l = (case nodes l of [] \<Rightarrow> None | d # ds \<Rightarrow> Some d)) \<and>
     (\<forall>l d ds. nodes l = d # ds \<longrightarrow> nodes (list_remove_first lib l) = ds)"

lemma list_lib_okD:
  assumes "list_lib_ok lib nodes"
  shows "nodes (list_new lib) = []" "nodes (list_rpush lib l d) = nodes l @ [d]"
    "list_first lib l = None \<longleftrightarrow> nodes l = []"
    "list_first lib l = Some d \<Longrightarrow> nodes l = d # nodes (list_remove_first lib l)"
  using assms by (auto simp: list_lib_ok_def split: list.splits)

subsection \<open>Operations\<close>

record 'l queue =
  q_list :: 'l
  queueSize :: int
  itemsInQueue :: int

definition queue_new :: "('l, 'd) list_lib \<Rightarrow> int \<Rightarrow> 'l queue" where
  "queue_new lib n = \<lparr>q_list = list_new lib, queueSize = n, itemsInQueue = 0\<rparr>"

definition queue_full :: "'l queue \<Rightarrow> bool" where
  "queue_full q \<longleftrightarrow> queueSize q \<le> itemsInQueue q"

definition queue_empty :: "'l queue \<Rightarrow> bool" where
  "queue_empty q \<longleftrightarrow> itemsInQueue q \<le> 0"

definition queue_push :: "('l, 'd) list_lib \<Rightarrow> 'd \<Rightarrow> 'l queue \<Rightarrow> (unit, 'l queue) res" where
  "queue_push lib d q =
     (if itemsInQueue q = INT_MAX then Fault SignedOverflow
      else Ok () (q\<lparr>q_list := list_rpush lib (q_list q) d, itemsInQueue := itemsInQueue q + 1\<rparr>))"

definition queue_pop :: "('l, 'd) list_lib \<Rightarrow> 'l queue \<Rightarrow> ('d, 'l queue) res" where
  "queue_pop lib q =
     (if itemsInQueue q = INT_MIN then Fault SignedOverflow
      else case list_first lib (q_list q) of
        None \<Rightarrow> Fault NullDeref
      | Some d \<Rightarrow> Ok d (q\<lparr>q_list := list_remove_first lib (q_list q),
                          itemsInQueue := itemsInQueue q - 1\<rparr>))"

text \<open>What the two calls do before their wait: finish, or wait.\<close>

definition queue_enqueue :: "('l, 'd) list_lib \<Rightarrow> 'd \<Rightarrow> 'l queue \<Rightarrow> (bool, 'l queue) res" where
  "queue_enqueue lib d q =
     (if queue_full q then Ok False q else rbind (queue_push lib d q) (\<lambda>_ q. Ok True q))"

definition queue_remove :: "('l, 'd) list_lib \<Rightarrow> 'l queue \<Rightarrow> ('d option, 'l queue) res" where
  "queue_remove lib q =
     (if queue_empty q then Ok None q else rbind (queue_pop lib q) (\<lambda>d q. Ok (Some d) q))"

text \<open>Afterwards they go on without looking at the queue again.\<close>

definition queue_enqueue_woken :: "('l, 'd) list_lib \<Rightarrow> 'd \<Rightarrow> 'l queue \<Rightarrow> (unit, 'l queue) res" where
  "queue_enqueue_woken lib d q = queue_push lib d q"

definition queue_remove_woken :: "('l, 'd) list_lib \<Rightarrow> 'l queue \<Rightarrow> ('d, 'l queue) res" where
  "queue_remove_woken lib q = queue_pop lib q"

text \<open>The calls that return instead of waiting.\<close>

definition queue_enqueue_nonblocking :: "('l, 'd) list_lib \<Rightarrow> 'd \<Rightarrow> 'l queue \<Rightarrow> (bool, 'l queue) res" where
  "queue_enqueue_nonblocking lib d q =
     (if queue_full q then Ok False q else rbind (queue_push lib d q) (\<lambda>_ q. Ok True q))"

definition queue_remove_nonblocking :: "('l, 'd) list_lib \<Rightarrow> 'l queue \<Rightarrow> ('d option, 'l queue) res" where
  "queue_remove_nonblocking lib q =
     (if queue_empty q then Ok None q else rbind (queue_pop lib q) (\<lambda>d q. Ok (Some d) q))"

subsection \<open>Threads\<close>

text \<open>Where a thread is: outside the queue, waiting, woken but not yet holding the mutex, or about to signal.\<close>

datatype 'd proc = Outside | Enq_wait 'd | Enq_woken 'd | Enq_signal | Rem_wait | Rem_woken | Rem_signal

datatype 'd queue_event = Stored 'd | Taken 'd | Refused | Waits | Signalled | Spurious

text \<open>\<open>stored\<close> and \<open>taken\<close> record what the calls stored and took, in order.\<close>

record ('l, 'd) qsys =
  sys_queue :: "'l queue"
  procs :: "'d proc multiset"
  stored :: "'d list"
  taken :: "'d list"

definition waiting_enq :: "'d proc \<Rightarrow> bool" where
  "waiting_enq p \<longleftrightarrow> (\<exists>d. p = Enq_wait d)"

inductive queue_step :: "('l, 'd) list_lib \<Rightarrow> ('l, 'd) qsys \<Rightarrow> 'd queue_event \<Rightarrow> ('l, 'd) qsys \<Rightarrow> bool"
  for lib :: "('l, 'd) list_lib" where
  enqueue: "\<lbrakk>queue_enqueue lib d q = Ok True q'; procs s = add_mset Outside M; sys_queue s = q\<rbrakk>
    \<Longrightarrow> queue_step lib s (Stored d)
      (s\<lparr>sys_queue := q', procs := add_mset Enq_signal M, stored := stored s @ [d]\<rparr>)"
| enqueue_waits: "\<lbrakk>queue_enqueue lib d q = Ok False q'; procs s = add_mset Outside M; sys_queue s = q\<rbrakk>
    \<Longrightarrow> queue_step lib s Waits (s\<lparr>sys_queue := q', procs := add_mset (Enq_wait d) M\<rparr>)"
| enqueue_woken: "\<lbrakk>queue_enqueue_woken lib d q = Ok () q'; procs s = add_mset (Enq_woken d) M; sys_queue s = q\<rbrakk>
    \<Longrightarrow> queue_step lib s (Stored d)
      (s\<lparr>sys_queue := q', procs := add_mset Enq_signal M, stored := stored s @ [d]\<rparr>)"
| enqueue_nonblocking: "\<lbrakk>queue_enqueue_nonblocking lib d q = Ok True q'; procs s = add_mset Outside M; sys_queue s = q\<rbrakk>
    \<Longrightarrow> queue_step lib s (Stored d)
      (s\<lparr>sys_queue := q', procs := add_mset Enq_signal M, stored := stored s @ [d]\<rparr>)"
| enqueue_refused: "\<lbrakk>queue_enqueue_nonblocking lib d q = Ok False q'; procs s = add_mset Outside M; sys_queue s = q\<rbrakk>
    \<Longrightarrow> queue_step lib s Refused (s\<lparr>sys_queue := q'\<rparr>)"
| remove: "\<lbrakk>queue_remove lib q = Ok (Some d) q'; procs s = add_mset Outside M; sys_queue s = q\<rbrakk>
    \<Longrightarrow> queue_step lib s (Taken d)
      (s\<lparr>sys_queue := q', procs := add_mset Rem_signal M, taken := taken s @ [d]\<rparr>)"
| remove_waits: "\<lbrakk>queue_remove lib q = Ok None q'; procs s = add_mset Outside M; sys_queue s = q\<rbrakk>
    \<Longrightarrow> queue_step lib s Waits (s\<lparr>sys_queue := q', procs := add_mset Rem_wait M\<rparr>)"
| remove_woken: "\<lbrakk>queue_remove_woken lib q = Ok d q'; procs s = add_mset Rem_woken M; sys_queue s = q\<rbrakk>
    \<Longrightarrow> queue_step lib s (Taken d)
      (s\<lparr>sys_queue := q', procs := add_mset Rem_signal M, taken := taken s @ [d]\<rparr>)"
| remove_nonblocking: "\<lbrakk>queue_remove_nonblocking lib q = Ok (Some d) q'; procs s = add_mset Outside M; sys_queue s = q\<rbrakk>
    \<Longrightarrow> queue_step lib s (Taken d)
      (s\<lparr>sys_queue := q', procs := add_mset Rem_signal M, taken := taken s @ [d]\<rparr>)"
| remove_refused: "\<lbrakk>queue_remove_nonblocking lib q = Ok None q'; procs s = add_mset Outside M; sys_queue s = q\<rbrakk>
    \<Longrightarrow> queue_step lib s Refused (s\<lparr>sys_queue := q'\<rparr>)"
| arrive_wakes: "procs s = add_mset Enq_signal (add_mset Rem_wait M)
    \<Longrightarrow> queue_step lib s Signalled (s\<lparr>procs := add_mset Outside (add_mset Rem_woken M)\<rparr>)"
| arrive_unheard: "\<lbrakk>procs s = add_mset Enq_signal M; Rem_wait \<notin># M\<rbrakk>
    \<Longrightarrow> queue_step lib s Signalled (s\<lparr>procs := add_mset Outside M\<rparr>)"
| ready_wakes: "procs s = add_mset Rem_signal (add_mset (Enq_wait d) M)
    \<Longrightarrow> queue_step lib s Signalled (s\<lparr>procs := add_mset Outside (add_mset (Enq_woken d) M)\<rparr>)"
| ready_unheard: "\<lbrakk>procs s = add_mset Rem_signal M; \<not> (\<exists>p \<in># M. waiting_enq p)\<rbrakk>
    \<Longrightarrow> queue_step lib s Signalled (s\<lparr>procs := add_mset Outside M\<rparr>)"
| spurious_enq: "procs s = add_mset (Enq_wait d) M
    \<Longrightarrow> queue_step lib s Spurious (s\<lparr>procs := add_mset (Enq_woken d) M\<rparr>)"
| spurious_rem: "procs s = add_mset Rem_wait M
    \<Longrightarrow> queue_step lib s Spurious (s\<lparr>procs := add_mset Rem_woken M\<rparr>)"

inductive queue_run :: "('l, 'd) list_lib \<Rightarrow> ('l, 'd) qsys \<Rightarrow> 'd queue_event list \<Rightarrow> ('l, 'd) qsys \<Rightarrow> bool"
  for lib :: "('l, 'd) list_lib" where
  nothing: "queue_run lib s [] s"
| more: "queue_run lib s es t \<Longrightarrow> queue_step lib t e u \<Longrightarrow> queue_run lib s (es @ [e]) u"

definition queue_start :: "('l, 'd) list_lib \<Rightarrow> int \<Rightarrow> nat \<Rightarrow> ('l, 'd) qsys" where
  "queue_start lib n k = \<lparr>sys_queue = queue_new lib n, procs = replicate_mset k Outside, stored = [], taken = []\<rparr>"

definition woken_enq :: "'d proc \<Rightarrow> bool" where
  "woken_enq p \<longleftrightarrow> (\<exists>d. p = Enq_woken d)"

inductive_cases queue_stepE: "queue_step lib s e t"

subsection \<open>The effect of an operation\<close>

lemma queue_push_effect:
  assumes "list_lib_ok lib nodes" and "queue_push lib d q = Ok u q'"
  shows "nodes (q_list q') = nodes (q_list q) @ [d] \<and> itemsInQueue q' = itemsInQueue q + 1 \<and>
    queueSize q' = queueSize q"
  using assms list_lib_okD(2)[OF assms(1)] by (auto simp: queue_push_def split: if_splits)

lemma queue_pop_effect:
  assumes "list_lib_ok lib nodes" and "queue_pop lib q = Ok d q'"
  shows "nodes (q_list q) = d # nodes (q_list q') \<and> itemsInQueue q' = itemsInQueue q - 1 \<and>
    queueSize q' = queueSize q"
  using assms list_lib_okD(4)[OF assms(1)] by (auto simp: queue_pop_def split: if_splits option.splits)

lemmas queue_call_defs = queue_enqueue_def queue_remove_def queue_enqueue_woken_def
  queue_remove_woken_def queue_enqueue_nonblocking_def queue_remove_nonblocking_def

subsection \<open>First in, first out\<close>

definition fifo_inv :: "('l \<Rightarrow> 'd list) \<Rightarrow> int \<Rightarrow> ('l, 'd) qsys \<Rightarrow> bool" where
  "fifo_inv nodes n s \<longleftrightarrow> stored s = taken s @ nodes (q_list (sys_queue s)) \<and>
     itemsInQueue (sys_queue s) = int (length (nodes (q_list (sys_queue s)))) \<and>
     queueSize (sys_queue s) = n"

lemma fifo_step:
  assumes ok: "list_lib_ok lib nodes" and i: "fifo_inv nodes n s" and s: "queue_step lib s e t"
  shows "fifo_inv nodes n t"
  using s i
  by (cases rule: queue_stepE)
     (auto simp: fifo_inv_def queue_call_defs res_simps split: if_splits
        dest!: queue_push_effect[OF ok] queue_pop_effect[OF ok])

lemma queue_start_fifo: "list_lib_ok lib nodes \<Longrightarrow> fifo_inv nodes n (queue_start lib n k)"
  by (simp add: fifo_inv_def queue_start_def queue_new_def list_lib_okD(1))

lemma run_fifo:
  assumes "list_lib_ok lib nodes" and "queue_run lib s es t" and "fifo_inv nodes n s"
  shows "fifo_inv nodes n t"
  using assms(2,3) by (induction rule: queue_run.induct) (auto intro: fifo_step[OF assms(1)])

subsection \<open>No signal is lost\<close>

text \<open>
  While a thread waits to remove, the items are at most the signals still to be sent and the
  woken removers; while one waits to enqueue, the free places are at most the corresponding ones.
\<close>

definition arrivals :: "'d proc multiset \<Rightarrow> nat" where
  "arrivals M = count M Enq_signal + count M Rem_woken"

definition readies :: "'d proc multiset \<Rightarrow> nat" where
  "readies M = count M Rem_signal + size (filter_mset woken_enq M)"

definition wake_inv :: "('l, 'd) qsys \<Rightarrow> bool" where
  "wake_inv s \<longleftrightarrow>
     (Rem_wait \<in># procs s \<longrightarrow> itemsInQueue (sys_queue s) \<le> int (arrivals (procs s))) \<and>
     ((\<exists>p \<in># procs s. waiting_enq p) \<longrightarrow>
        queueSize (sys_queue s) - itemsInQueue (sys_queue s) \<le> int (readies (procs s)))"

lemma proc_kinds [simp]:
  "waiting_enq (Enq_wait d)" "\<not> waiting_enq Outside" "\<not> waiting_enq (Enq_woken d)"
  "\<not> waiting_enq Enq_signal" "\<not> waiting_enq Rem_wait" "\<not> waiting_enq Rem_woken"
  "\<not> waiting_enq Rem_signal"
  "woken_enq (Enq_woken d)" "\<not> woken_enq Outside" "\<not> woken_enq (Enq_wait d)"
  "\<not> woken_enq Enq_signal" "\<not> woken_enq Rem_wait" "\<not> woken_enq Rem_woken"
  "\<not> woken_enq Rem_signal"
  by (simp_all add: waiting_enq_def woken_enq_def)

lemma wake_step:
  assumes ok: "list_lib_ok lib nodes" and i: "wake_inv s" and s: "queue_step lib s e t"
  shows "wake_inv t"
  using s i
  by (cases rule: queue_stepE)
     (auto simp: wake_inv_def arrivals_def readies_def queue_call_defs queue_full_def queue_empty_def
        res_simps split: if_splits dest!: queue_push_effect[OF ok] queue_pop_effect[OF ok])

lemma queue_start_wake: "wake_inv (queue_start lib n k)"
  by (auto simp: wake_inv_def queue_start_def dest: in_replicate_mset[THEN iffD1])

lemma run_wake:
  assumes "list_lib_ok lib nodes" and "queue_run lib s es t" and "wake_inv s"
  shows "wake_inv t"
  using assms(2,3) by (induction rule: queue_run.induct) (auto intro: wake_step[OF assms(1)])

subsection \<open>Runs\<close>

fun stored_by :: "'d queue_event \<Rightarrow> 'd list" where
  "stored_by (Stored d) = [d]" | "stored_by e = []"

fun taken_by :: "'d queue_event \<Rightarrow> 'd list" where
  "taken_by (Taken d) = [d]" | "taken_by e = []"

lemma run_logs:
  "queue_run lib s es t \<Longrightarrow> stored t = stored s @ concat (map stored_by es) \<and>
     taken t = taken s @ concat (map taken_by es)"
  by (induction rule: queue_run.induct) (auto elim: queue_stepE)

lemma run_one: "queue_step lib s e t \<Longrightarrow> queue_run lib s [e] t"
  using queue_run.more[OF queue_run.nothing] by fastforce

lemma run_two: "queue_step lib s e t \<Longrightarrow> queue_step lib t f u \<Longrightarrow> queue_run lib s [e, f] u"
  using queue_run.more[OF run_one] by fastforce

lemma run_append:
  "queue_run lib t fs u \<Longrightarrow> queue_run lib s es t \<Longrightarrow> queue_run lib s (es @ fs) u"
proof (induction rule: queue_run.induct)
  case (more t fs u e v)
  then show ?case using queue_run.more[of lib s "es @ fs" u e v] by simp
qed simp

text \<open>
  C31. The queue is first in, first out under every interleaving of calls on any number of threads,
  with or without spurious wakeups: what has been taken, followed by what the list holds, is what
  has been stored, in order, and \<open>itemsInQueue\<close> is the length of the list.
\<close>

theorem queue_fifo:
  assumes "list_lib_ok lib nodes" and "queue_run lib (queue_start lib n k) es s"
  shows "concat (map stored_by es) = concat (map taken_by es) @ nodes (q_list (sys_queue s)) \<and>
     itemsInQueue (sys_queue s) = int (length (nodes (q_list (sys_queue s))))"
proof -
  have "fifo_inv nodes n s"
    by (rule run_fifo[OF assms queue_start_fifo[OF assms(1)]])
  then show ?thesis
    using run_logs[OF assms(2)] by (simp add: fifo_inv_def queue_start_def)
qed

lemma woken_takes:
  assumes "list_lib_ok lib nodes" and "fifo_inv nodes n s" and "Rem_woken \<in># procs s"
    and "0 < itemsInQueue (sys_queue s)"
  shows "\<exists>d t. queue_step lib s (Taken d) t"
proof -
  obtain M where M: "procs s = add_mset Rem_woken M" using assms(3) by (blast dest: multi_member_split)
  have "nodes (q_list (sys_queue s)) \<noteq> []" using assms(2,4) by (auto simp: fifo_inv_def)
  then obtain d where d: "list_first lib (q_list (sys_queue s)) = Some d"
    using list_lib_okD(3)[OF assms(1)] by fastforce
  have "itemsInQueue (sys_queue s) \<noteq> INT_MIN" using assms(4) by (auto simp: INT_MIN_def)
  then obtain q' where "queue_remove_woken lib (sys_queue s) = Ok d q'"
    using d by (simp add: queue_remove_woken_def queue_pop_def)
  from queue_step.remove_woken[OF this M refl] show ?thesis by blast
qed

text \<open>
  C30. No wakeup is lost: in every reachable state in which a thread waits to remove although the
  queue holds an item, at most two steps of threads already inside the queue, a signal and the end
  of a remove, take an item out.
\<close>

theorem queue_no_lost_wakeup:
  assumes "list_lib_ok lib nodes" and "queue_run lib (queue_start lib n k) es s"
    and "Rem_wait \<in># procs s" and "0 < itemsInQueue (sys_queue s)"
  shows "\<exists>fs t d. queue_run lib s fs t \<and> Taken d \<in> set fs \<and> set fs \<subseteq> {Signalled, Taken d} \<and>
     length fs \<le> 2"
proof -
  have f: "fifo_inv nodes n s" by (rule run_fifo[OF assms(1,2) queue_start_fifo[OF assms(1)]])
  have w: "wake_inv s" by (rule run_wake[OF assms(1,2) queue_start_wake])
  then have "0 < arrivals (procs s)" using assms(3,4) by (auto simp: wake_inv_def)
  then consider "Rem_woken \<in># procs s" | "Enq_signal \<in># procs s"
    by (auto simp: arrivals_def count_greater_zero_iff)
  then show ?thesis
  proof cases
    case 1
    then obtain d t where "queue_step lib s (Taken d) t" using woken_takes[OF assms(1) f] assms(4) by blast
    from run_one[OF this] show ?thesis by fastforce
  next
    case 2
    then obtain N where N: "procs s = add_mset Enq_signal N" by (blast dest: multi_member_split)
    then have "Rem_wait \<in># N" using assms(3) by simp
    then obtain M where M: "procs s = add_mset Enq_signal (add_mset Rem_wait M)"
      using N by (auto dest!: multi_member_split)
    let ?t = "s\<lparr>procs := add_mset Outside (add_mset Rem_woken M)\<rparr>"
    have "queue_step lib s Signalled ?t" by (rule queue_step.arrive_wakes[OF M])
    moreover have "fifo_inv nodes n ?t" using f by (simp add: fifo_inv_def)
    then obtain d u where "queue_step lib ?t (Taken d) u"
      using woken_takes[OF assms(1), of n ?t] assms(4) by auto
    ultimately have "queue_run lib s [Signalled, Taken d] u" by (rule run_two)
    then show ?thesis by fastforce
  qed
qed

subsection \<open>Stolen wakeups\<close>

text \<open>Steps between states written out.\<close>

definition sys :: "'l queue \<Rightarrow> 'd proc multiset \<Rightarrow> 'd list \<Rightarrow> 'd list \<Rightarrow> ('l, 'd) qsys" where
  "sys q P i out = \<lparr>sys_queue = q, procs = P, stored = i, taken = out\<rparr>"

lemma sys_simps [simp]:
  "sys_queue (sys q P i out) = q" "procs (sys q P i out) = P"
  by (simp_all add: sys_def)

lemma sys_steps:
  "\<lbrakk>queue_enqueue lib d q = Ok True q'; P = add_mset Outside M\<rbrakk> \<Longrightarrow>
     queue_step lib (sys q P i out) (Stored d) (sys q' (add_mset Enq_signal M) (i @ [d]) out)"
  "\<lbrakk>queue_enqueue lib d q = Ok False q'; P = add_mset Outside M\<rbrakk> \<Longrightarrow>
     queue_step lib (sys q P i out) Waits (sys q' (add_mset (Enq_wait d) M) i out)"
  "\<lbrakk>queue_enqueue_woken lib d q = Ok () q'; P = add_mset (Enq_woken d) M\<rbrakk> \<Longrightarrow>
     queue_step lib (sys q P i out) (Stored d) (sys q' (add_mset Enq_signal M) (i @ [d]) out)"
  "\<lbrakk>queue_remove lib q = Ok (Some d) q'; P = add_mset Outside M\<rbrakk> \<Longrightarrow>
     queue_step lib (sys q P i out) (Taken d) (sys q' (add_mset Rem_signal M) i (out @ [d]))"
  "\<lbrakk>queue_remove lib q = Ok None q'; P = add_mset Outside M\<rbrakk> \<Longrightarrow>
     queue_step lib (sys q P i out) Waits (sys q' (add_mset Rem_wait M) i out)"
  "P = add_mset Enq_signal (add_mset Rem_wait M) \<Longrightarrow>
     queue_step lib (sys q P i out) Signalled (sys q (add_mset Outside (add_mset Rem_woken M)) i out)"
  "P = add_mset Rem_signal (add_mset (Enq_wait d) M) \<Longrightarrow>
     queue_step lib (sys q P i out) Signalled (sys q (add_mset Outside (add_mset (Enq_woken d) M)) i out)"
  using queue_step.enqueue[of lib d q q' "sys q P i out" M]
    queue_step.enqueue_waits[of lib d q q' "sys q P i out" M]
    queue_step.enqueue_woken[of lib d q q' "sys q P i out" M]
    queue_step.remove[of lib q d q' "sys q P i out" M]
    queue_step.remove_waits[of lib q q' "sys q P i out" M]
    queue_step.arrive_wakes[of "sys q P i out" M lib]
    queue_step.ready_wakes[of "sys q P i out" d M lib]
  by (simp_all add: sys_def)

text \<open>
  C32. Neither bound of the queue survives contention, since a woken thread does not look again:
  without any spurious wakeup, three threads can store two elements in a queue of size 1, and two
  threads can reach a state in which a woken remover dereferences the null node of an empty list.
\<close>

theorem queue_stolen_wakeups:
  assumes "list_lib_ok lib nodes"
  shows "(\<exists>es s. queue_run lib (queue_start lib 1 3) es s \<and> Spurious \<notin> set es \<and>
       queueSize (sys_queue s) = 1 \<and> itemsInQueue (sys_queue s) = 2) \<and>
     (\<exists>es s. queue_run lib (queue_start lib 1 2) es s \<and> Spurious \<notin> set es \<and>
       Rem_woken \<in># procs s \<and> queue_remove_woken lib (sys_queue s) = Fault NullDeref)"
proof -
  fix a b c
  have i: "(0::int) \<noteq> INT_MAX" "(1::int) \<noteq> INT_MAX" "(1::int) \<noteq> INT_MIN" "(0::int) \<noteq> INT_MIN"
    by (simp_all add: INT_MAX_def INT_MIN_def)
  let ?q = "\<lambda>l m. \<lparr>q_list = l, queueSize = 1, itemsInQueue = m\<rparr>"
  define l0 where "l0 = list_new lib"
  define l1 where "l1 = list_rpush lib l0 a"
  define l2 where "l2 = list_remove_first lib l1"
  define l3 where "l3 = list_rpush lib l2 c"
  define l4 where "l4 = list_rpush lib l3 b"
  have n: "list_first lib l1 = Some a" "list_first lib l2 = None"
    using assms by (simp_all add: l0_def l1_def l2_def list_lib_ok_def)
  have ops: "queue_enqueue lib a (?q l0 0) = Ok True (?q l1 1)"
      "queue_enqueue lib b (?q l1 1) = Ok False (?q l1 1)"
      "queue_remove lib (?q l1 1) = Ok (Some a) (?q l2 0)"
      "queue_enqueue lib c (?q l2 0) = Ok True (?q l3 1)"
      "queue_enqueue_woken lib b (?q l3 1) = Ok () (?q l4 2)"
      "queue_remove lib (?q l0 0) = Ok None (?q l0 0)"
      "queue_remove_woken lib (?q l2 0) = Fault NullDeref"
    using i n
    by (simp_all add: queue_call_defs queue_full_def queue_empty_def queue_push_def queue_pop_def
        l1_def[symmetric] l2_def[symmetric] l3_def[symmetric] l4_def[symmetric])
  have start: "queue_start lib 1 k = sys (?q l0 0) (replicate_mset k Outside) [] []" for k
    by (simp add: queue_start_def queue_new_def sys_def l0_def)
  have r: "replicate_mset 3 Outside = {#Outside, Outside, Outside#}"
      "replicate_mset 2 Outside = {#Outside, Outside#}"
    by (simp_all add: numeral_3_eq_3 numeral_2_eq_2)
  let ?w = "{#Enq_signal, Enq_wait b#}"
  have r1: "queue_run lib (queue_start lib 1 3) [Stored a, Waits]
      (sys (?q l1 1) (add_mset (Enq_wait b) {#Enq_signal, Outside#}) [a] [])"
    unfolding start r
    by (rule run_two[OF sys_steps(1)[OF ops(1) refl]]) (simp, rule sys_steps(2)[OF ops(2)], simp)
  have r2: "queue_run lib (sys (?q l1 1) (add_mset (Enq_wait b) {#Enq_signal, Outside#}) [a] [])
      [Taken a, Signalled]
      (sys (?q l2 0) (add_mset Outside (add_mset (Enq_woken b) {#Enq_signal#})) [a] [a])"
    by (rule run_two[OF sys_steps(4)[OF ops(3), of _ ?w]]) (simp, simp, rule sys_steps(7), simp)
  have r3: "queue_run lib (sys (?q l2 0) (add_mset Outside (add_mset (Enq_woken b) {#Enq_signal#})) [a] [a])
      [Stored c, Stored b]
      (sys (?q l4 2) (add_mset Enq_signal {#Enq_signal, Enq_signal#}) (([a] @ [c]) @ [b]) [a])"
    by (rule run_two[OF sys_steps(1)[OF ops(4) refl]]) (rule sys_steps(3)[OF ops(5)], simp)
  have over: "queue_run lib (queue_start lib 1 3)
      (([Stored a, Waits] @ [Taken a, Signalled]) @ [Stored c, Stored b])
      (sys (?q l4 2) (add_mset Enq_signal {#Enq_signal, Enq_signal#}) (([a] @ [c]) @ [b]) [a])"
    by (rule run_append[OF r3 run_append[OF r2 r1]])
  have r4: "queue_run lib (queue_start lib 1 2) [Waits, Stored a]
      (sys (?q l1 1) (add_mset Enq_signal {#Rem_wait#}) [a] [])"
    unfolding start r
    by (rule run_two[OF sys_steps(5)[OF ops(6) refl]]) (rule sys_steps(1)[OF ops(1), of _ "{#Rem_wait#}" "[]", simplified], simp)
  have r5: "queue_run lib (sys (?q l1 1) (add_mset Enq_signal {#Rem_wait#}) [a] []) [Signalled, Taken a]
      (sys (?q l2 0) (add_mset Rem_signal {#Rem_woken#}) [a] [a])"
    by (rule run_two[OF sys_steps(6)[of _ "{#}"]]) (simp, rule sys_steps(4)[OF ops(3), of _ "{#Rem_woken#}" _ "[]", simplified], simp)
  have under: "queue_run lib (queue_start lib 1 2) ([Waits, Stored a] @ [Signalled, Taken a])
      (sys (?q l2 0) (add_mset Rem_signal {#Rem_woken#}) [a] [a])"
    by (rule run_append[OF r5 r4])
  show ?thesis
  proof
    show "\<exists>es s. queue_run lib (queue_start lib 1 3) es s \<and> Spurious \<notin> set es \<and>
        queueSize (sys_queue s) = 1 \<and> itemsInQueue (sys_queue s) = 2"
      by (intro exI conjI, rule over) simp_all
    show "\<exists>es s. queue_run lib (queue_start lib 1 2) es s \<and> Spurious \<notin> set es \<and>
        Rem_woken \<in># procs s \<and> queue_remove_woken lib (sys_queue s) = Fault NullDeref"
      by (intro exI conjI, rule under) (simp_all add: ops(7))
  qed
qed

subsection \<open>Concrete cases\<close>

definition sample_list_lib :: "(nat list, nat) list_lib" where
  "sample_list_lib = \<lparr>list_new = [], list_rpush = \<lambda>l d. l @ [d],
     list_first = \<lambda>l. (case l of [] \<Rightarrow> None | d # ds \<Rightarrow> Some d), list_remove_first = tl\<rparr>"

lemma sample_list_lib_ok: "list_lib_ok sample_list_lib (\<lambda>l. l)"
  by (auto simp: list_lib_ok_def sample_list_lib_def split: list.split)

text \<open>A thread waits to remove, another one stores 7 and has not signalled yet.\<close>

definition waiting_state :: "(nat list, nat) qsys" where
  "waiting_state = sys \<lparr>q_list = [7], queueSize = 4, itemsInQueue = 1\<rparr> {#Enq_signal, Rem_wait#} [7] []"

lemma waiting_run: "queue_run sample_list_lib (queue_start sample_list_lib 4 2) [Waits, Stored 7] waiting_state"
proof -
  let ?q = "\<lparr>q_list = [], queueSize = 4, itemsInQueue = 0\<rparr>"
  have "queue_start sample_list_lib 4 2 = sys ?q {#Outside, Outside#} [] []"
    by (simp add: queue_start_def queue_new_def sys_def sample_list_lib_def numeral_2_eq_2)
  moreover have "queue_step sample_list_lib (sys ?q {#Outside, Outside#} [] []) Waits
      (sys ?q {#Rem_wait, Outside#} [] [])"
    by (rule sys_steps(5)) (simp_all add: queue_remove_def queue_empty_def)
  moreover have "queue_step sample_list_lib (sys ?q {#Rem_wait, Outside#} [] []) (Stored 7) waiting_state"
    unfolding waiting_state_def
    by (rule sys_steps(1)[of _ _ _ _ _ "{#Rem_wait#}" "[]", simplified])
       (simp_all add: queue_enqueue_def queue_full_def queue_push_def sample_list_lib_def INT_MAX_def)
  ultimately show ?thesis by (metis run_two)
qed

theorem queue_fifo_witness:
  "concat (map stored_by [Waits, Stored (7::nat)]) = concat (map taken_by [Waits, Stored 7]) @ [7] \<and>
     itemsInQueue (sys_queue waiting_state) = 1"
  using queue_fifo[OF sample_list_lib_ok waiting_run] by (simp add: waiting_state_def)

theorem queue_no_lost_wakeup_witness:
  "\<exists>fs t d. queue_run sample_list_lib waiting_state fs t \<and> Taken d \<in> set fs \<and>
     set fs \<subseteq> {Signalled, Taken d} \<and> length fs \<le> 2"
  by (rule queue_no_lost_wakeup[OF sample_list_lib_ok waiting_run])
     (simp_all add: waiting_state_def)

theorem queue_stolen_wakeups_witness:
  "(\<exists>es s. queue_run sample_list_lib (queue_start sample_list_lib 1 3) es s \<and> Spurious \<notin> set es \<and>
       queueSize (sys_queue s) = 1 \<and> itemsInQueue (sys_queue s) = 2) \<and>
     (\<exists>es s. queue_run sample_list_lib (queue_start sample_list_lib 1 2) es s \<and> Spurious \<notin> set es \<and>
       Rem_woken \<in># procs s \<and> queue_remove_woken sample_list_lib (sys_queue s) = Fault NullDeref)"
  by (rule queue_stolen_wakeups[OF sample_list_lib_ok])

end
