(* ===== verification/Foreach.thy ===== *)
theory Foreach
  imports Queue
begin

text \<open>
  \<open>util/functional\<close>, \<open>util/block_release_pool.c\<close> and \<open>util/stream.c\<close>: loops over what a supplier block
  gives, by one thread or by several, and a pool that releases its blocks. Blocks are functions on
  the state \<open>'s\<close> they share; a null pointer is \<open>None\<close>. The iterator of the list library outside this
  repository is a parameter: \<open>list_iterator_ok\<close> is what its documentation says.
\<close>

subsection \<open>One thread\<close>

datatype foreach_status_t = FOREACH_OK | FOREACH_FAILED | FOREACH_INVALID

text \<open>The loop need not end, so not returning is \<open>None\<close>.\<close>

partial_function (option) foreach_do ::
    "('s \<Rightarrow> 'd option \<times> 's) \<Rightarrow> ('d \<Rightarrow> 's \<Rightarrow> bool \<times> 's) \<Rightarrow> 's \<Rightarrow> (foreach_status_t \<times> 's) option" where
  "foreach_do supplier consumer s =
     (case supplier s of
        (None, s) \<Rightarrow> Some (FOREACH_OK, s)
      | (Some tmp, s) \<Rightarrow> (case consumer tmp s of (ok, s) \<Rightarrow>
          if \<not> ok then Some (FOREACH_FAILED, s) else foreach_do supplier consumer s))"

text \<open>\<open>next\<close> is \<open>list_iterator_next\<close>: a node, given by its value, which may be null, or no node.\<close>

definition functional_from_list_iterator ::
    "('i \<Rightarrow> 'd option option \<times> 'i) \<Rightarrow> 'i \<times> 's \<Rightarrow> 'd option \<times> 'i \<times> 's" where
  "functional_from_list_iterator next = (\<lambda>(it, s).
     case next it of (None, it) \<Rightarrow> (None, it, s) | (Some val, it) \<Rightarrow> (val, it, s))"

datatype list_direction_t = LIST_HEAD | LIST_TAIL

text \<open>\<open>new\<close> is \<open>list_iterator_new\<close>. The consumer does not see the iterator.\<close>

definition foreach_do_list_direction ::
    "('l \<Rightarrow> list_direction_t \<Rightarrow> 'i) \<Rightarrow> ('i \<Rightarrow> 'd option option \<times> 'i) \<Rightarrow> 'l \<Rightarrow> list_direction_t \<Rightarrow>
     ('d \<Rightarrow> 's \<Rightarrow> bool \<times> 's) \<Rightarrow> 's \<Rightarrow> (foreach_status_t \<times> 's) option" where
  "foreach_do_list_direction new next list dir consumer s =
     map_option (\<lambda>(status, it, s). (status, s))
       (foreach_do (functional_from_list_iterator next)
         (\<lambda>d (it, s). case consumer d s of (ok, s) \<Rightarrow> (ok, it, s)) (new list dir, s))"

definition foreach_do_list ::
    "('l \<Rightarrow> list_direction_t \<Rightarrow> 'i) \<Rightarrow> ('i \<Rightarrow> 'd option option \<times> 'i) \<Rightarrow> 'l \<Rightarrow>
     ('d \<Rightarrow> 's \<Rightarrow> bool \<times> 's) \<Rightarrow> 's \<Rightarrow> (foreach_status_t \<times> 's) option" where
  "foreach_do_list new next list consumer s =
     map_option (\<lambda>(status, it, s). (status, s))
       (foreach_do (functional_from_list_iterator next)
         (\<lambda>d (it, s). case consumer d s of (ok, s) \<Rightarrow> (ok, it, s)) (new list LIST_HEAD, s))"

text \<open>What the list library promises: an iterator visits the values \<open>vals\<close>, or backwards.\<close>

definition list_iterator_ok :: "('l \<Rightarrow> list_direction_t \<Rightarrow> 'i) \<Rightarrow> ('i \<Rightarrow> 'd option option \<times> 'i) \<Rightarrow>
    ('l \<Rightarrow> 'd option list) \<Rightarrow> ('i \<Rightarrow> 'd option list) \<Rightarrow> bool" where
  "list_iterator_ok new next vals ahead \<longleftrightarrow>
     (\<forall>l. ahead (new l LIST_HEAD) = vals l \<and> ahead (new l LIST_TAIL) = rev (vals l)) \<and>
     (\<forall>i. ahead i = [] \<longrightarrow> fst (next i) = None) \<and>
     (\<forall>i v vs. ahead i = v # vs \<longrightarrow> fst (next i) = Some v \<and> ahead (snd (next i)) = vs)"

lemma list_iterator_okD:
  assumes "list_iterator_ok new next vals ahead"
  shows "ahead (new l LIST_HEAD) = vals l" "ahead (new l LIST_TAIL) = rev (vals l)"
    "ahead i = [] \<Longrightarrow> fst (next i) = None"
    "ahead i = v # vs \<Longrightarrow> fst (next i) = Some v" "ahead i = v # vs \<Longrightarrow> ahead (snd (next i)) = vs"
  using assms by (auto simp: list_iterator_ok_def)

text \<open>The reference: the values up to the first null one are consumed in order, until one fails.\<close>

fun consume_all :: "('d \<Rightarrow> 's \<Rightarrow> bool \<times> 's) \<Rightarrow> 'd list \<Rightarrow> 's \<Rightarrow> foreach_status_t \<times> 's" where
  "consume_all consumer [] s = (FOREACH_OK, s)"
| "consume_all consumer (d # ds) s =
     (case consumer d s of (ok, s) \<Rightarrow> if ok then consume_all consumer ds s else (FOREACH_FAILED, s))"

definition upto_null :: "'d option list \<Rightarrow> 'd list" where
  "upto_null vs = map the (takeWhile (\<lambda>v. v \<noteq> None) vs)"

lemma upto_null_simps [simp]:
  "upto_null [] = []" "upto_null (None # vs) = []" "upto_null (Some v # vs) = v # upto_null vs"
  by (simp_all add: upto_null_def)

lemma foreach_iterator:
  assumes "list_iterator_ok new next vals ahead" and "ahead it = vs"
  shows "map_option (\<lambda>(status, it, s). (status, s))
      (foreach_do (functional_from_list_iterator next)
        (\<lambda>d (it, s). case consumer d s of (ok, s) \<Rightarrow> (ok, it, s)) (it, s)) =
    Some (consume_all consumer (upto_null vs) s)"
  using assms(2)
proof (induction vs arbitrary: it s)
  case Nil
  then show ?case
    using list_iterator_okD(3)[OF assms(1), of it]
    by (subst foreach_do.simps) (auto simp: functional_from_list_iterator_def split: prod.split)
next
  case (Cons v vs)
  obtain it' where it': "next it = (Some v, it')" "ahead it' = vs"
    using list_iterator_okD(4,5)[OF assms(1) Cons.prems] by (cases "next it") simp
  obtain ok s' where c: "consumer (the v) s = (ok, s')" by (cases "consumer (the v) s")
  show ?case
  proof (cases v)
    case None
    then show ?thesis
      using it' by (subst foreach_do.simps) (simp add: functional_from_list_iterator_def)
  next
    case (Some d)
    then show ?thesis
      using it' c Cons.IH[OF it'(2), of s']
      by (subst foreach_do.simps) (cases ok; simp add: functional_from_list_iterator_def)
  qed
qed

text \<open>
  \<open>foreach_do_list\<close> and its variant with a direction always end. They call the consumer on the
  values of the list in order, forwards or backwards, up to the first null value, and stop at the
  first call that fails, which the status reports.
\<close>

theorem foreach_list_consumes:
  assumes "list_iterator_ok new next vals ahead"
  shows "foreach_do_list new next l consumer s = Some (consume_all consumer (upto_null (vals l)) s) \<and>
    foreach_do_list_direction new next l LIST_HEAD consumer s =
      Some (consume_all consumer (upto_null (vals l)) s) \<and>
    foreach_do_list_direction new next l LIST_TAIL consumer s =
      Some (consume_all consumer (upto_null (rev (vals l))) s)"
  unfolding foreach_do_list_def foreach_do_list_direction_def
  by (intro conjI foreach_iterator[OF assms] list_iterator_okD[OF assms])

text \<open>Iterators over HOL lists, as the ones of the witness.\<close>

definition list_iter_new :: "'d option list \<Rightarrow> list_direction_t \<Rightarrow> 'd option list" where
  "list_iter_new l dir = (case dir of LIST_HEAD \<Rightarrow> l | LIST_TAIL \<Rightarrow> rev l)"

fun list_iter_next :: "'d option list \<Rightarrow> 'd option option \<times> 'd option list" where
  "list_iter_next [] = (None, [])"
| "list_iter_next (v # vs) = (Some v, vs)"

lemma list_iter_ok: "list_iterator_ok list_iter_new list_iter_next (\<lambda>l. l) (\<lambda>i. i)"
  by (simp add: list_iterator_ok_def list_iter_new_def)

theorem foreach_list_consumes_witness:
  "foreach_do_list list_iter_new list_iter_next [Some 3, Some 4, None, Some (5 :: nat)]
     (\<lambda>d s. (True, s @ [d])) [] = Some (FOREACH_OK, [3, 4]) \<and>
   foreach_do_list_direction list_iter_new list_iter_next [Some 3, Some 4, Some (5 :: nat)] LIST_TAIL
     (\<lambda>d s. (d \<noteq> 4, s @ [d])) [] = Some (FOREACH_FAILED, [5, 4])"
  by (simp add: foreach_list_consumes[OF list_iter_ok])

subsection \<open>Several threads\<close>

text \<open>
  \<open>foreach_parallel_do\<close> starts the threads and joins them. Where a thread is: about to ask the
  supplier, which a mutex protects and which is one step; in the consumer, which may answer
  anything; before the test of \<open>mustStop\<close>; past the loop, before it sets \<open>mustStop\<close>; or ended. That
  every thread could be created is assumed, as in the code. The number of threads is an \<open>int\<close>, as is
  what \<open>util_get_online_core_count\<close> gives for zero; a negative one starts none.
\<close>

datatype 'd foreach_place = Fetching | Consuming 'd | Checking | Stopping | Exited

datatype 'd foreach_event = Given 'd | Exhausted | Consumed 'd bool | Continued | Broken | Stopped

record ('s, 'd) foreach_sys =
  fe_supplier :: 's
  foreachStatus :: foreach_status_t
  mustStop :: bool
  fe_threads :: "'d foreach_place multiset"

definition foreach_start :: "int \<Rightarrow> int \<Rightarrow> 's \<Rightarrow> ('s, 'd) foreach_sys" where
  "foreach_start cores threads s =
     \<lparr>fe_supplier = s, foreachStatus = FOREACH_OK, mustStop = False,
      fe_threads = replicate_mset (nat (if threads = 0 then cores else threads)) Fetching\<rparr>"

inductive foreach_step :: "('s \<Rightarrow> 'd option \<times> 's) \<Rightarrow> ('s, 'd) foreach_sys \<Rightarrow> 'd foreach_event \<Rightarrow>
    ('s, 'd) foreach_sys \<Rightarrow> bool" for supplier :: "'s \<Rightarrow> 'd option \<times> 's" where
  given: "\<lbrakk>fe_threads s = add_mset Fetching M; supplier (fe_supplier s) = (Some d, r)\<rbrakk> \<Longrightarrow>
     foreach_step supplier s (Given d) (s\<lparr>fe_supplier := r, fe_threads := add_mset (Consuming d) M\<rparr>)"
| exhausted: "\<lbrakk>fe_threads s = add_mset Fetching M; supplier (fe_supplier s) = (None, r)\<rbrakk> \<Longrightarrow>
     foreach_step supplier s Exhausted (s\<lparr>fe_supplier := r, fe_threads := add_mset Stopping M\<rparr>)"
| succeeded: "fe_threads s = add_mset (Consuming d) M \<Longrightarrow>
     foreach_step supplier s (Consumed d True) (s\<lparr>fe_threads := add_mset Checking M\<rparr>)"
| failed: "fe_threads s = add_mset (Consuming d) M \<Longrightarrow>
     foreach_step supplier s (Consumed d False)
       (s\<lparr>foreachStatus := FOREACH_FAILED, fe_threads := add_mset Stopping M\<rparr>)"
| continued: "\<lbrakk>fe_threads s = add_mset Checking M; \<not> mustStop s\<rbrakk> \<Longrightarrow>
     foreach_step supplier s Continued (s\<lparr>fe_threads := add_mset Fetching M\<rparr>)"
| broken: "\<lbrakk>fe_threads s = add_mset Checking M; mustStop s\<rbrakk> \<Longrightarrow>
     foreach_step supplier s Broken (s\<lparr>fe_threads := add_mset Stopping M\<rparr>)"
| stopped: "fe_threads s = add_mset Stopping M \<Longrightarrow>
     foreach_step supplier s Stopped (s\<lparr>mustStop := True, fe_threads := add_mset Exited M\<rparr>)"

inductive foreach_run :: "('s \<Rightarrow> 'd option \<times> 's) \<Rightarrow> ('s, 'd) foreach_sys \<Rightarrow> 'd foreach_event list \<Rightarrow>
    ('s, 'd) foreach_sys \<Rightarrow> bool" for supplier :: "'s \<Rightarrow> 'd option \<times> 's" where
  run_start: "foreach_run supplier s [] s"
| run_step: "foreach_run supplier s es t \<Longrightarrow> foreach_step supplier t e u \<Longrightarrow> foreach_run supplier s (es @ [e]) u"

text \<open>The supplier: it gives the elements that are ahead in order and then null.\<close>

definition supplier_ok :: "('s \<Rightarrow> 'd option \<times> 's) \<Rightarrow> ('s \<Rightarrow> 'd list) \<Rightarrow> bool" where
  "supplier_ok supplier ahead \<longleftrightarrow> (\<forall>s. case supplier s of
     (None, r) \<Rightarrow> ahead s = [] \<and> ahead r = [] | (Some d, r) \<Rightarrow> ahead s = d # ahead r)"

lemma supplier_okD:
  assumes "supplier_ok supplier ahead"
  shows "supplier s = (None, r) \<Longrightarrow> ahead s = [] \<and> ahead r = []"
    "supplier s = (Some d, r) \<Longrightarrow> ahead s = d # ahead r"
  using assms[unfolded supplier_ok_def, THEN spec[of _ s]] by simp_all

fun given_items :: "'d foreach_event list \<Rightarrow> 'd list" where
  "given_items [] = []"
| "given_items (Given d # es) = d # given_items es"
| "given_items (_ # es) = given_items es"

fun consumed_items :: "'d foreach_event list \<Rightarrow> 'd list" where
  "consumed_items [] = []"
| "consumed_items (Consumed d b # es) = d # consumed_items es"
| "consumed_items (_ # es) = consumed_items es"

lemma items_append [simp]:
  "given_items (es @ fs) = given_items es @ given_items fs"
  "consumed_items (es @ fs) = consumed_items es @ consumed_items fs"
  by (induction es rule: given_items.induct; simp) (induction es rule: consumed_items.induct; simp)

definition in_hand :: "'d foreach_place multiset \<Rightarrow> 'd multiset" where
  "in_hand M = (\<Sum>p \<in># M. case p of Consuming d \<Rightarrow> {#d#} | _ \<Rightarrow> {#})"

fun steps_left :: "'d foreach_place \<Rightarrow> nat" where
  "steps_left Fetching = 2" | "steps_left (Consuming d) = 4" | "steps_left Checking = 3"
| "steps_left Stopping = 1" | "steps_left Exited = 0"

text \<open>
  Elements are handed out in order, each is consumed or in hand, the status tells of a failure,
  a thread leaves its loop only when nothing is ahead or a consumer failed, and each step uses up
  some of a finite amount.
\<close>

definition foreach_inv :: "('s \<Rightarrow> 'd list) \<Rightarrow> 'd list \<Rightarrow> nat \<Rightarrow> 'd foreach_event list \<Rightarrow>
    ('s, 'd) foreach_sys \<Rightarrow> bool" where
  "foreach_inv ahead ds k es s \<longleftrightarrow> given_items es @ ahead (fe_supplier s) = ds \<and>
     mset (given_items es) = mset (consumed_items es) + in_hand (fe_threads s) \<and>
     foreachStatus s = (if \<exists>d. Consumed d False \<in> set es then FOREACH_FAILED else FOREACH_OK) \<and>
     (mustStop s \<or> Stopping \<in># fe_threads s \<or> Exited \<in># fe_threads s \<longrightarrow>
        ahead (fe_supplier s) = [] \<or> foreachStatus s = FOREACH_FAILED) \<and>
     size (fe_threads s) = k \<and>
     length es + 3 * length (ahead (fe_supplier s)) + (\<Sum>p \<in># fe_threads s. steps_left p)
       \<le> 3 * length ds + 2 * k"

lemma foreach_inv_start:
  "foreach_inv ahead (ahead s) (nat (if threads = 0 then cores else threads)) [] (foreach_start cores threads s)"
  by (auto simp: foreach_inv_def foreach_start_def in_hand_def)

lemma foreach_inv_step:
  assumes "supplier_ok supplier ahead" and "foreach_inv ahead ds k es s" and "foreach_step supplier s e t"
  shows "foreach_inv ahead ds k (es @ [e]) t"
  using assms(3)
proof (cases rule: foreach_step.cases)
  case (given M d r)
  then show ?thesis
    using assms(2) supplier_okD(2)[OF assms(1) given(4)] by (auto simp: foreach_inv_def in_hand_def)
next
  case (exhausted M r)
  then show ?thesis
    using assms(2) supplier_okD(1)[OF assms(1) exhausted(4)] by (auto simp: foreach_inv_def in_hand_def)
next
  case (succeeded d M)
  then show ?thesis using assms(2) by (auto simp: foreach_inv_def in_hand_def)
next
  case (failed d M)
  then show ?thesis using assms(2) by (auto simp: foreach_inv_def in_hand_def)
next
  case (continued M)
  then show ?thesis using assms(2) by (auto simp: foreach_inv_def in_hand_def)
next
  case (broken M)
  then show ?thesis using assms(2) by (auto simp: foreach_inv_def in_hand_def)
next
  case (stopped M)
  then show ?thesis using assms(2) by (auto simp: foreach_inv_def in_hand_def)
qed

lemma foreach_inv_run:
  assumes "supplier_ok supplier ahead" and "foreach_run supplier (foreach_start cores threads r) es s"
  shows "foreach_inv ahead (ahead r) (nat (if threads = 0 then cores else threads)) es s"
  using assms(2)
proof (induction "foreach_start cores threads r :: ('a, 'b) foreach_sys" es s rule: foreach_run.induct)
  case run_start
  show ?case by (rule foreach_inv_start)
next
  case (run_step es t e u)
  show ?case by (rule foreach_inv_step[OF assms(1) run_step(2,3)])
qed

lemma foreach_progress:
  assumes "p \<in># fe_threads s" and "p \<noteq> Exited"
  shows "\<exists>e t. foreach_step supplier s e t"
proof -
  obtain M where M: "fe_threads s = add_mset p M" using assms(1) by (metis mset_add)
  show ?thesis
  proof (cases p)
    case Fetching
    obtain v r where "supplier (fe_supplier s) = (v, r)" by (cases "supplier (fe_supplier s)")
    then show ?thesis using M Fetching by (cases v) (blast intro: foreach_step.intros)+
  qed (use M assms(2) in \<open>blast intro: foreach_step.intros\<close>)+
qed

text \<open>
  C35. \<open>foreach_parallel_do\<close> under every interleaving of its threads: the elements are handed out in
  the order of the supplier; it takes a bounded number of steps, and can go on until all threads have
  ended, when every element handed out was consumed exactly once and the status tells whether a
  consumer failed; if it is \<open>FOREACH_OK\<close> and there was a thread, all elements were consumed.
\<close>

theorem foreach_parallel_each_once:
  fixes cores threads :: int
  defines "k \<equiv> nat (if threads = 0 then cores else threads)"
  assumes "supplier_ok supplier ahead" and "foreach_run supplier (foreach_start cores threads r) es s"
  shows "given_items es @ ahead (fe_supplier s) = ahead r \<and>
    length es \<le> 3 * length (ahead r) + 2 * k \<and>
    (if \<exists>p \<in># fe_threads s. p \<noteq> Exited then \<exists>e t. foreach_step supplier s e t
     else mset (consumed_items es) = mset (given_items es) \<and>
       foreachStatus s = (if \<exists>d. Consumed d False \<in> set es then FOREACH_FAILED else FOREACH_OK) \<and>
       (foreachStatus s = FOREACH_OK \<and> k \<noteq> 0 \<longrightarrow> mset (consumed_items es) = mset (ahead r)))"
proof -
  have i: "foreach_inv ahead (ahead r) k es s"
    unfolding k_def by (rule foreach_inv_run[OF assms(2,3)])
  have g: "given_items es @ ahead (fe_supplier s) = ahead r" "length es \<le> 3 * length (ahead r) + 2 * k"
    using i by (simp_all add: foreach_inv_def)
  show ?thesis
  proof (cases "\<exists>p \<in># fe_threads s. p \<noteq> Exited")
    case True
    then show ?thesis using g foreach_progress by (metis (no_types, lifting))
  next
    case False
    have "in_hand M = {#}" if "\<forall>p \<in># M. p = Exited" for M :: "'b foreach_place multiset"
      using that by (induction M) (auto simp: in_hand_def)
    then have c: "mset (consumed_items es) = mset (given_items es)"
      using i False by (simp add: foreach_inv_def)
    have "ahead (fe_supplier s) = []" if "foreachStatus s = FOREACH_OK" "k \<noteq> 0"
    proof -
      have "fe_threads s \<noteq> {#}" using i that(2) by (auto simp: foreach_inv_def)
      then have "Exited \<in># fe_threads s" using False by (metis multiset_nonemptyE)
      then show ?thesis using i that(1) by (auto simp: foreach_inv_def)
    qed
    then show ?thesis using g c False i by (auto simp: foreach_inv_def)
  qed
qed

fun list_supplier :: "'d list \<Rightarrow> 'd option \<times> 'd list" where
  "list_supplier [] = (None, [])"
| "list_supplier (d # ds) = (Some d, ds)"

lemma list_supplier_ok: "supplier_ok list_supplier (\<lambda>ds. ds)"
  by (auto simp: supplier_ok_def split: list.split elim!: list_supplier.elims)

theorem foreach_parallel_each_once_witness:
  "\<exists>s. foreach_run list_supplier (foreach_start 8 2 [5 :: nat])
      [Given 5, Exhausted, Stopped, Consumed 5 True, Broken, Stopped] s \<and>
     (\<forall>p \<in># fe_threads s. p = Exited) \<and> foreachStatus s = FOREACH_OK \<and>
     mset (consumed_items [Given 5, Exhausted, Stopped, Consumed 5 True, Broken, Stopped]) = {#5 :: nat#}"
proof -
  let ?st = "\<lambda>r stop M. \<lparr>fe_supplier = r, foreachStatus = FOREACH_OK, mustStop = stop, fe_threads = M\<rparr>"
  let ?e = "\<lambda>n. take n [Given 5, Exhausted, Stopped, Consumed (5 :: nat) True, Broken, Stopped]"
  have s0: "foreach_start 8 2 [5 :: nat] = ?st [5] False {#Fetching, Fetching#}"
    by (simp add: foreach_start_def numeral_2_eq_2)
  have r0: "foreach_run list_supplier (foreach_start 8 2 [5]) (?e 0) (?st [5] False {#Fetching, Fetching#})"
    using foreach_run.run_start[of list_supplier "?st [5] False {#Fetching, Fetching#}"] by (simp add: s0)
  note next_state = foreach_run.run_step[where supplier = list_supplier]
  have "foreach_run list_supplier (foreach_start 8 2 [5]) (?e 1) (?st [] False {#Consuming 5, Fetching#})"
    using next_state[OF r0 foreach_step.given[where M = "{#Fetching#}" and d = 5 and r = "[]"]] by simp
  from next_state[OF this foreach_step.exhausted[where M = "{#Consuming 5#}" and r = "[]"]]
  have "foreach_run list_supplier (foreach_start 8 2 [5]) (?e 2) (?st [] False {#Stopping, Consuming 5#})"
    by (simp add: numeral_2_eq_2)
  from next_state[OF this foreach_step.stopped[where M = "{#Consuming 5#}"]]
  have "foreach_run list_supplier (foreach_start 8 2 [5]) (?e 3) (?st [] True {#Exited, Consuming 5#})"
    by simp
  from next_state[OF this foreach_step.succeeded[where M = "{#Exited#}" and d = 5]]
  have "foreach_run list_supplier (foreach_start 8 2 [5]) (?e 4) (?st [] True {#Checking, Exited#})"
    by simp
  from next_state[OF this foreach_step.broken[where M = "{#Exited#}"]]
  have "foreach_run list_supplier (foreach_start 8 2 [5]) (?e 5) (?st [] True {#Stopping, Exited#})"
    by simp
  from next_state[OF this foreach_step.stopped[where M = "{#Exited#}"]]
  have r: "foreach_run list_supplier (foreach_start 8 2 [5]) (?e 6) (?st [] True {#Exited, Exited#})"
    by simp
  from foreach_parallel_each_once[OF list_supplier_ok this] r show ?thesis
    by (intro exI[of _ "?st [] True {#Exited, Exited#}"]) simp
qed

subsection \<open>A pool of blocks\<close>

text \<open>The pool has a list once a block was added. The loop over the list releases every block.\<close>

definition block_pool_add :: "('l, 'd option) list_lib \<Rightarrow> 'l option \<Rightarrow> 'd option \<Rightarrow> 'l option" where
  "block_pool_add lib pool block =
     Some (list_rpush lib (case pool of None \<Rightarrow> list_new lib | Some l \<Rightarrow> l) block)"

partial_function (option) release_loop ::
    "('i \<Rightarrow> 'd option option \<times> 'i) \<Rightarrow> ('d option \<Rightarrow> 's \<Rightarrow> 's) \<Rightarrow> 'i \<Rightarrow> 's \<Rightarrow> 's option" where
  "release_loop next Block_release it s =
     (case next it of
        (None, it) \<Rightarrow> Some s
      | (Some val, it) \<Rightarrow> release_loop next Block_release it (Block_release val s))"

definition block_pool_release :: "('l \<Rightarrow> list_direction_t \<Rightarrow> 'i) \<Rightarrow> ('i \<Rightarrow> 'd option option \<times> 'i) \<Rightarrow>
    ('d option \<Rightarrow> 's \<Rightarrow> 's) \<Rightarrow> 'l option \<Rightarrow> 's \<Rightarrow> ('l option \<times> 's) option" where
  "block_pool_release new next Block_release pool s =
     (case pool of
        None \<Rightarrow> Some (None, s)
      | Some l \<Rightarrow> map_option (\<lambda>s. (None, s)) (release_loop next Block_release (new l LIST_HEAD) s))"

lemma release_loop_all:
  assumes "list_iterator_ok new next vals ahead"
  shows "release_loop next rel it s = Some (fold rel (ahead it) s)"
proof (induction "ahead it" arbitrary: it s)
  case Nil
  then show ?case
    using list_iterator_okD(3)[OF assms, of it]
    by (subst release_loop.simps) (auto split: prod.split)
next
  case (Cons v vs)
  obtain it' where "next it = (Some v, it')" "ahead it' = vs"
    using list_iterator_okD(4,5)[OF assms Cons.hyps(2)[symmetric]] by (cases "next it") simp
  then show ?case using Cons.hyps(1)[of it' "rel v s"] Cons.hyps(2)[symmetric]
    by (subst release_loop.simps) simp
qed

text \<open>
  A pool releases every block that was added to it exactly once, in the order they were added,
  and is empty again afterwards.
\<close>

theorem block_pool_releases:
  assumes "list_lib_ok lib nodes" and "list_iterator_ok new next nodes ahead"
  shows "block_pool_release new next rel (fold (\<lambda>b pool. block_pool_add lib pool b) bs None) s =
    Some (None, fold rel bs s)"
proof -
  have "case fold (\<lambda>b pool. block_pool_add lib pool b) bs None of None \<Rightarrow> bs = [] | Some l \<Rightarrow> nodes l = bs"
    by (induction bs rule: rev_induct)
       (auto simp: block_pool_add_def list_lib_okD(1,2)[OF assms(1)] split: option.splits)
  then show ?thesis
    by (cases "fold (\<lambda>b pool. block_pool_add lib pool b) bs None")
       (auto simp: block_pool_release_def release_loop_all[OF assms(2)] list_iterator_okD(1)[OF assms(2)])
qed

subsection \<open>Streams over files\<close>

datatype stream_status_t = STREAM_OK | STREAM_EOF | STREAM_FAILED

text \<open>\<open>fwrite\<close> gives the number of bytes written, \<open>fread\<close> the bytes read, each with the file.\<close>

definition stream_file_writer :: "(byte list \<Rightarrow> 'f \<Rightarrow> nat \<times> 'f) \<Rightarrow> byte list \<Rightarrow> 'f \<Rightarrow> stream_status_t \<times> 'f" where
  "stream_file_writer fwrite buffer f =
     (case fwrite buffer f of (n, f) \<Rightarrow> (if n = length buffer then STREAM_OK else STREAM_FAILED, f))"

definition stream_file_reader :: "(nat \<Rightarrow> 'f \<Rightarrow> byte list \<times> 'f) \<Rightarrow> nat \<Rightarrow> 'f \<Rightarrow>
    stream_status_t \<times> byte list \<times> 'f" where
  "stream_file_reader fread n f =
     (case fread n f of (loaded, f) \<Rightarrow>
        (if 0 < length loaded then STREAM_OK
         else if length loaded < n then STREAM_EOF else STREAM_FAILED, loaded, f))"

end
