(* ===== verification/RefCounter.thy ===== *)
theory RefCounter
  imports Prelude
begin

text \<open>
  \<open>ref_counter.c\<close>: a counter of the owners of a datum, whose finalizer runs when the last one
  lets go. The counter is updated by atomic read-modify-write operations, which wrap around at the
  width of \<open>int\<close>, so calls on several threads are a sequence of such operations. The decrement
  that finds the count 1 goes on to the finalizer and the \<open>free\<close> in the same step: no owner is left
  then, so no call of an owner can come between. A call on a counter that was freed is the fault
  \<open>Dangling\<close>. \<open>malloc\<close> succeeds.
\<close>

subsection \<open>Operations\<close>

text \<open>\<open>rc_counter\<close> is \<open>None\<close> once the counter is freed; \<open>rc_finalized\<close> counts runs of the finalizer.\<close>

record ref_counter =
  rc_counter :: "int option"
  rc_finalized :: nat

definition wrap_int :: "int \<Rightarrow> int" where
  "wrap_int n = sint (word_of_int n :: 32 word)"

definition ref_counter_new :: ref_counter where
  "ref_counter_new = \<lparr>rc_counter = Some 1, rc_finalized = 0\<rparr>"

definition ref_counter_inc :: "ref_counter \<Rightarrow> (unit, ref_counter) res" where
  "ref_counter_inc r =
     (case rc_counter r of
        None \<Rightarrow> Fault Dangling
      | Some prev \<Rightarrow> assert_that (0 < prev) (r\<lparr>rc_counter := Some (wrap_int (prev + 1))\<rparr>))"

definition ref_counter_dec :: "ref_counter \<Rightarrow> (unit, ref_counter) res" where
  "ref_counter_dec r =
     (case rc_counter r of
        None \<Rightarrow> Fault Dangling
      | Some prev \<Rightarrow>
          rbind (assert_that (0 < prev) (r\<lparr>rc_counter := Some (wrap_int (prev - 1))\<rparr>)) (\<lambda>_ r.
            if prev = 1 then Ok () (r\<lparr>rc_counter := None, rc_finalized := rc_finalized r + 1\<rparr>)
            else Ok () r))"

datatype ref_op = Inc | Dec

fun ref_do :: "ref_op \<Rightarrow> ref_counter \<Rightarrow> (unit, ref_counter) res" where
  "ref_do Inc r = ref_counter_inc r"
| "ref_do Dec r = ref_counter_dec r"

fun ref_run :: "ref_op list \<Rightarrow> ref_counter \<Rightarrow> (unit, ref_counter) res" where
  "ref_run [] r = Ok () r"
| "ref_run (p # ps) r = rbind (ref_do p r) (\<lambda>_ r. ref_run ps r)"

subsection \<open>Owners\<close>

text \<open>The owners after a sequence of calls, the first one being who made the counter.\<close>

fun owners :: "ref_op list \<Rightarrow> int \<Rightarrow> int" where
  "owners [] n = n"
| "owners (Inc # ps) n = owners ps (n + 1)"
| "owners (Dec # ps) n = owners ps (n - 1)"

text \<open>Each call is made by an owner.\<close>

fun owned :: "ref_op list \<Rightarrow> int \<Rightarrow> bool" where
  "owned [] n \<longleftrightarrow> True"
| "owned (Inc # ps) n \<longleftrightarrow> 0 < n \<and> owned ps (n + 1)"
| "owned (Dec # ps) n \<longleftrightarrow> 0 < n \<and> owned ps (n - 1)"

definition ref_of :: "int \<Rightarrow> ref_counter" where
  "ref_of n = (if n = 0 then \<lparr>rc_counter = None, rc_finalized = 1\<rparr>
               else \<lparr>rc_counter = Some n, rc_finalized = 0\<rparr>)"

lemma wrap_small: "0 \<le> n \<Longrightarrow> n \<le> INT_MAX \<Longrightarrow> wrap_int n = n"
  unfolding wrap_int_def INT_MAX_def
  by (simp only: sint_sbintrunc') (rule signed_take_bit_int_eq_self, simp_all)

lemma ref_steps:
  assumes "0 < n" and "n < INT_MAX"
  shows "ref_counter_inc (ref_of n) = Ok () (ref_of (n + 1))"
    and "ref_counter_dec (ref_of n) = Ok () (ref_of (n - 1))"
  using assms
  by (simp_all add: ref_counter_inc_def ref_counter_dec_def ref_of_def wrap_small)

lemma ref_freed: "ref_do p (ref_of 0) = Fault Dangling"
  by (cases p) (simp_all add: ref_counter_inc_def ref_counter_dec_def ref_of_def)

lemma ref_run_owned:
  assumes "0 \<le> n" and "n + int (length ps) \<le> INT_MAX"
  shows "ref_run ps (ref_of n) = (if owned ps n then Ok () (ref_of (owners ps n)) else Fault Dangling)"
  using assms
proof (induction ps arbitrary: n)
  case (Cons p ps)
  show ?case
  proof (cases "n = 0")
    case True
    then show ?thesis by (cases p) (simp_all add: ref_freed del: ref_do.simps)
  next
    case False
    then show ?thesis using Cons.prems Cons.IH[of "n + 1"] Cons.IH[of "n - 1"]
      by (cases p) (simp_all add: ref_steps)
  qed
qed simp

text \<open>
  C34. A counter lives exactly as long as it has owners: a sequence of calls by any number of
  threads, fewer than \<open>INT_MAX\<close> of them, runs to its end exactly when each is made while there is
  an owner; the finalizer has then run once if no owner is left and not at all otherwise. A call
  without an owner reaches the freed counter.
\<close>

theorem ref_counter_life:
  assumes "int (length ps) < INT_MAX"
  shows "ref_run ps ref_counter_new =
     (if owned ps 1 then Ok () (if owners ps 1 = 0 then \<lparr>rc_counter = None, rc_finalized = 1\<rparr>
                                else \<lparr>rc_counter = Some (owners ps 1), rc_finalized = 0\<rparr>)
      else Fault Dangling)"
  using ref_run_owned[of 1 ps] assms
  by (simp add: ref_of_def ref_counter_new_def)

theorem ref_counter_life_witness:
  "ref_run [Inc, Dec, Dec] ref_counter_new = Ok () \<lparr>rc_counter = None, rc_finalized = 1\<rparr> \<and>
   ref_run [Dec, Inc] ref_counter_new = Fault Dangling"
  using ref_counter_life[of "[Inc, Dec, Dec]"] ref_counter_life[of "[Dec, Inc]"]
  by (simp add: INT_MAX_def)

end
