(* ===== verification/Threads.thy ===== *)
theory Threads
  imports Machine RefCounter
begin

text \<open>
  The threads of a machine, from \<open>fluffyvm.c\<close>: \<open>initThread\<close> and \<open>cleanThread\<close>, the handshake between
  \<open>fluffyvm_start_thread\<close> and \<open>threadStub\<close> under every interleaving, and the end of a machine. A step
  is what one thread does between two points where others can tell; \<open>pthread_cond_wait\<close> may return
  without a signal. The arguments of a new thread are freed by that thread, and by its starter when
  \<open>lateInit\<close> failed; the condition variable lives in the starter's frame. Using either later is the
  step \<open>Crash\<close>.
\<close>

subsection \<open>Threads and their data\<close>

text \<open>
  Where a thread is: made but not yet in \<open>initThread\<close>; before \<open>lateInit\<close>; before its signal, with the
  result of \<open>lateInit\<close>; between the signal and the read of \<open>args->status\<close>; running; between
  \<open>pthread_create\<close> and the wait for thread \<open>c\<close>, in that wait, or after it; before its cleanup; ended; or
  in undefined behaviour. \<open>Spurious t\<close> wakes the thread \<open>t\<close> from its wait without a signal.
\<close>

datatype place =
    Unborn | Born | Initialised | Signals bool | Checks | Running
  | Creates nat | Waits nat | Woken nat | Cleans | Ended | Crashed

datatype thread_event =
    Start_refused | Started nat | Waiting | Inited | Late bool | Signalled | Unheard | Checked | Spurious nat
  | Returned bool | Finished | Cleaned | Crash

text \<open>
  \<open>args\<close> holds the member \<open>status\<close> of the arguments of a thread until they are freed, \<open>threadIDs\<close> what the
  thread's \<open>currentThreadID\<close> points to until that is freed; \<open>currentThreadRootKey\<close> says that the key is
  set, which \<open>cleanThread\<close> does not undo.
\<close>

record tsys =
  places :: "nat \<Rightarrow> place"
  numberOfManagedThreads :: int
  currentAvailableThreadID :: int
  threadIDs :: "nat \<Rightarrow> int option"
  currentThreadRootKey :: "nat \<Rightarrow> bool"
  args :: "nat \<Rightarrow> bool option"

definition initThread :: "nat \<Rightarrow> tsys \<Rightarrow> tsys" where
  "initThread t s = s\<lparr>numberOfManagedThreads := wrap_int (numberOfManagedThreads s + 1),
     currentThreadRootKey := (currentThreadRootKey s)(t := True),
     threadIDs := (threadIDs s)(t \<mapsto> currentAvailableThreadID s),
     currentAvailableThreadID := wrap_int (currentAvailableThreadID s + 1)\<rparr>"

definition cleanThread :: "nat \<Rightarrow> tsys \<Rightarrow> tsys" where
  "cleanThread t s = s\<lparr>threadIDs := (threadIDs s)(t := None),
     numberOfManagedThreads := wrap_int (numberOfManagedThreads s - 1)\<rparr>"

definition validateThisThread :: "nat \<Rightarrow> tsys \<Rightarrow> (unit, tsys) res" where
  "validateThisThread t s = (if \<not> currentThreadRootKey s t then Fault Aborted else Ok () s)"


definition goto :: "nat \<Rightarrow> place \<Rightarrow> tsys \<Rightarrow> tsys" where
  "goto t p s = s\<lparr>places := (places s)(t := p)\<rparr>"

text \<open>The machine right after the thread 0 has made it.\<close>

definition threads_start :: tsys where
  "threads_start = initThread 0 \<lparr>places = (\<lambda>_. Unborn)(0 := Running), numberOfManagedThreads = 0,
     currentAvailableThreadID = 0, threadIDs = Map.empty,
     currentThreadRootKey = (\<lambda>_. False), args = Map.empty\<rparr>"

subsection \<open>Steps\<close>

text \<open>The starter of \<open>c\<close> is still in its call, so the condition variable exists.\<close>

definition starting :: "nat \<Rightarrow> place \<Rightarrow> bool" where
  "starting c p \<longleftrightarrow> p = Creates c \<or> p = Waits c \<or> p = Woken c"

definition after_signal :: "bool \<Rightarrow> place" where
  "after_signal status = (if status then Running else Cleans)"

inductive thread_step :: "tsys \<Rightarrow> nat \<Rightarrow> thread_event \<Rightarrow> tsys \<Rightarrow> bool" where
  refused: "places s t = Running \<Longrightarrow> thread_step s t Start_refused s"
| started: "places s t = Running \<Longrightarrow> places s c = Unborn \<Longrightarrow>
     thread_step s t (Started c) (goto t (Creates c) (goto c Born (s\<lparr>args := (args s)(c \<mapsto> True)\<rparr>)))"
| waiting: "places s t = Creates c \<Longrightarrow> thread_step s t Waiting (goto t (Waits c) s)"
| inited: "places s c = Born \<Longrightarrow> thread_step s c Inited (goto c Initialised (initThread c s))"
| late: "places s c = Initialised \<Longrightarrow> thread_step s c (Late status)
     (goto c (Signals status) (s\<lparr>args := (args s)(c \<mapsto> status)\<rparr>))"
| signalled: "places s c = Signals status \<Longrightarrow> places s t = Waits c \<Longrightarrow>
     thread_step s c Signalled (goto t (Woken c) (goto c Checks s))"
| unheard: "places s c = Signals status \<Longrightarrow> \<forall>t. places s t \<noteq> Waits c \<Longrightarrow> starting c (places s u) \<Longrightarrow>
     thread_step s c Unheard (goto c Checks s)"
| no_condition: "places s c = Signals status \<Longrightarrow> \<forall>t. \<not> starting c (places s t) \<Longrightarrow>
     thread_step s c Crash (goto c Crashed s)"
| checked: "places s c = Checks \<Longrightarrow> args s c = Some status \<Longrightarrow>
     thread_step s c Checked (goto c (after_signal status) s)"
| check_freed: "places s c = Checks \<Longrightarrow> args s c = None \<Longrightarrow> thread_step s c Crash (goto c Crashed s)"
| spurious: "places s t = Waits c \<Longrightarrow> thread_step s t (Spurious t) (goto t (Woken c) s)"
| returned: "places s t = Woken c \<Longrightarrow> args s c = Some True \<Longrightarrow>
     thread_step s t (Returned True) (goto t Running s)"
| init_failed: "places s t = Woken c \<Longrightarrow> args s c = Some False \<Longrightarrow>
     thread_step s t (Returned False) (goto t Running (s\<lparr>args := (args s)(c := None)\<rparr>))"
| dangling: "places s t = Woken c \<Longrightarrow> args s c = None \<Longrightarrow> thread_step s t Crash (goto t Crashed s)"
| finished: "places s c = Running \<Longrightarrow> c \<noteq> 0 \<Longrightarrow> thread_step s c Finished (goto c Cleans s)"
| cleaned: "places s c = Cleans \<Longrightarrow> args s c \<noteq> None \<Longrightarrow>
     thread_step s c Cleaned (goto c Ended (cleanThread c (s\<lparr>args := (args s)(c := None)\<rparr>)))"
| double_free: "places s c = Cleans \<Longrightarrow> args s c = None \<Longrightarrow> thread_step s c Crash (goto c Crashed s)"

inductive thread_run :: "tsys \<Rightarrow> thread_event list \<Rightarrow> tsys \<Rightarrow> bool" where
  run_start: "thread_run s [] s"
| run_step: "thread_run s es t \<Longrightarrow> thread_step t i e u \<Longrightarrow> thread_run s (es @ [e]) u"

lemma goto_simps [simp]:
  "places (goto t p s) = (places s)(t := p)" "args (goto t p s) = args s" "threadIDs (goto t p s) = threadIDs s"
  "numberOfManagedThreads (goto t p s) = numberOfManagedThreads s"
  "currentAvailableThreadID (goto t p s) = currentAvailableThreadID s"
  "currentThreadRootKey (goto t p s) = currentThreadRootKey s"
  by (simp_all add: goto_def)

lemma init_clean_simps [simp]:
  "places (initThread t s) = places s" "args (initThread t s) = args s"
  "threadIDs (initThread t s) = (threadIDs s)(t \<mapsto> currentAvailableThreadID s)"
  "places (cleanThread t s) = places s" "args (cleanThread t s) = args s"
  "threadIDs (cleanThread t s) = (threadIDs s)(t := None)"
  "currentAvailableThreadID (cleanThread t s) = currentAvailableThreadID s"
  "currentThreadRootKey (initThread t s) = (currentThreadRootKey s)(t := True)"
  "currentThreadRootKey (cleanThread t s) = currentThreadRootKey s"
  by (simp_all add: initThread_def cleanThread_def)

subsection \<open>Thread numbers\<close>

definition managed :: "place \<Rightarrow> bool" where
  "managed p \<longleftrightarrow> p \<noteq> Unborn \<and> p \<noteq> Born \<and> p \<noteq> Ended"

lemma after_signal_ended [simp]: "after_signal b \<noteq> Ended"
  by (simp add: after_signal_def)

lemma managed_simps [simp]:
  "\<not> managed Unborn" "\<not> managed Born" "managed Initialised" "managed (Signals b)" "managed Checks" "managed Running"
  "managed (Creates c)" "managed (Waits c)" "managed (Woken c)" "managed Cleans" "\<not> managed Ended"
  "managed Crashed" "managed (after_signal b)"
  by (simp_all add: managed_def after_signal_def)

text \<open>Threads whose root key is set.\<close>

definition rooted :: "place \<Rightarrow> bool" where
  "rooted p \<longleftrightarrow> managed p \<or> p = Ended"

text \<open>After \<open>k\<close> steps, fewer than an \<open>int\<close> can count.\<close>

definition ids_inv :: "nat \<Rightarrow> tsys \<Rightarrow> bool" where
  "ids_inv k s \<longleftrightarrow> finite (dom (threadIDs s)) \<and> card (dom (threadIDs s)) \<le> Suc k \<and>
     numberOfManagedThreads s = int (card (dom (threadIDs s))) \<and>
     0 \<le> currentAvailableThreadID s \<and> currentAvailableThreadID s \<le> int (Suc k) \<and>
     (\<forall>t. threadIDs s t \<noteq> None \<longleftrightarrow> managed (places s t)) \<and>
     (\<forall>t. currentThreadRootKey s t \<longleftrightarrow> rooted (places s t)) \<and>
     (\<forall>t i. threadIDs s t = Some i \<longrightarrow> 0 \<le> i \<and> i < currentAvailableThreadID s) \<and>
     inj_on (threadIDs s) (dom (threadIDs s))"

lemma wrap_int_same: "int_ok i \<Longrightarrow> wrap_int i = i"
  unfolding wrap_int_def int_ok_def INT_MIN_def INT_MAX_def
  by (simp only: sint_sbintrunc') (rule signed_take_bit_int_eq_self, simp_all)

lemma ids_inv_more: "ids_inv k s \<Longrightarrow> ids_inv (Suc k) s"
  by (auto simp: ids_inv_def)

lemma ids_inv_args [simp]: "ids_inv k (s\<lparr>args := a\<rparr>) = ids_inv k s"
  by (simp add: ids_inv_def)

lemma ids_inv_goto:
  "ids_inv k s \<Longrightarrow> managed p = managed (places s t) \<Longrightarrow> p \<noteq> Ended \<Longrightarrow> places s t \<noteq> Ended \<Longrightarrow>
     ids_inv k (goto t p (s\<lparr>args := a\<rparr>))"
  "ids_inv k s \<Longrightarrow> managed p = managed (places s t) \<Longrightarrow> p \<noteq> Ended \<Longrightarrow> places s t \<noteq> Ended \<Longrightarrow>
     ids_inv k (goto t p s)"
  by (simp_all add: ids_inv_def rooted_def)

lemma ids_inv_init:
  assumes "ids_inv k s" and "places s c = Born" and "Suc (Suc k) < 2 ^ 31"
  shows "ids_inv (Suc k) (goto c Initialised (initThread c s))"
proof -
  let ?D = "dom (threadIDs s)"
  have c: "c \<notin> ?D" using assms(1,2) by (auto simp: ids_inv_def managed_def dom_def)
  have i: "finite ?D" "card ?D \<le> Suc k" "numberOfManagedThreads s = int (card ?D)"
      "0 \<le> currentAvailableThreadID s" "currentAvailableThreadID s \<le> int (Suc k)"
      "inj_on (threadIDs s) ?D"
    using assms(1) by (simp_all add: ids_inv_def)
  have w: "wrap_int (numberOfManagedThreads s + 1) = int (card (insert c ?D))"
    "wrap_int (currentAvailableThreadID s + 1) = currentAvailableThreadID s + 1"
    using i c assms(3) by (subst wrap_int_same; simp add: int_ok_def INT_MIN_def INT_MAX_def)+
  have "threadIDs s y \<noteq> Some (currentAvailableThreadID s)" for y
    using assms(1) unfolding ids_inv_def by (meson less_irrefl)
  then have "inj_on ((threadIDs s)(c \<mapsto> currentAvailableThreadID s)) (insert c ?D)"
    using i(6) by (auto simp: inj_on_def)
  moreover have "0 \<le> j \<and> j < currentAvailableThreadID s + 1" if "threadIDs s t = Some j" for t j
    using assms(1) that unfolding ids_inv_def by force
  ultimately show ?thesis
    using assms(1) i c w by (simp add: ids_inv_def initThread_def rooted_def)
qed

lemma ids_inv_clean:
  assumes "ids_inv k s" and "places s c = Cleans" and "Suc (Suc k) < 2 ^ 31"
  shows "ids_inv (Suc k) (goto c Ended (cleanThread c (s\<lparr>args := a\<rparr>)))"
proof -
  let ?D = "dom (threadIDs s)"
  have i: "finite ?D" "card ?D \<le> Suc k" "numberOfManagedThreads s = int (card ?D)" "inj_on (threadIDs s) ?D"
    using assms(1) by (simp_all add: ids_inv_def)
  have c: "c \<in> ?D" using assms(1,2) by (auto simp: ids_inv_def managed_def dom_def)
  then have d: "Suc (card (?D - {c})) = card ?D" by (rule card_Suc_Diff1[OF i(1)])
  then have w: "wrap_int (numberOfManagedThreads s - 1) = int (card (?D - {c}))"
    using i(2,3) assms(3) by (subst wrap_int_same) (simp_all add: int_ok_def INT_MIN_def INT_MAX_def)
  have "inj_on ((threadIDs s)(c := None)) (?D - {c})" using i(4) by (auto simp: inj_on_def)
  moreover have "inj_on ((threadIDs s)(c := None)) (dom ((threadIDs s)(c := None)))"
    using i(4) by (auto simp: inj_on_def)
  ultimately show ?thesis
    using assms(1,2) i(1,2) d w by (simp add: ids_inv_def cleanThread_def rooted_def)
qed

lemma ids_inv_step:
  assumes "ids_inv k s" and "thread_step s t e u" and "Suc (Suc k) < 2 ^ 31"
  shows "ids_inv (Suc k) u"
  using assms(2)
proof (cases rule: thread_step.cases)
  case refused
  then show ?thesis using ids_inv_more[OF assms(1)] by simp
next
  case (started c)
  then have "t \<noteq> c" by auto
  then show ?thesis
    using started by (simp add: ids_inv_goto ids_inv_more[OF assms(1)])
next
  case (signalled status v)
  then have "v \<noteq> t" by auto
  then show ?thesis
    using signalled by (simp add: ids_inv_goto ids_inv_more[OF assms(1)])
next
  case inited
  then show ?thesis using ids_inv_init[OF assms(1) _ assms(3)] by simp
next
  case cleaned
  then show ?thesis using ids_inv_clean[OF assms(1) _ assms(3)] by simp
qed (auto intro!: ids_inv_goto ids_inv_more[OF assms(1)])

lemma ids_inv_run:
  assumes "thread_run threads_start es s" and "length es < 2 ^ 31 - 1"
  shows "ids_inv (length es) s"
  using assms
proof (induction threads_start es s rule: thread_run.induct)
  case run_start
  show ?case
    by (auto simp: ids_inv_def rooted_def threads_start_def initThread_def wrap_int_same int_ok_def INT_MIN_def INT_MAX_def)
next
  case (run_step es t i e u)
  then show ?case using ids_inv_step[of "length es" t i e u] by simp
qed



subsection \<open>The handshake of a start\<close>

text \<open>Before the thread has signalled.\<close>

fun early :: "place \<Rightarrow> bool" where
  "early Born = True" | "early Initialised = True" | "early (Signals b) = True" | "early p = False"

text \<open>
  Without spurious wakeups a thread that has not signalled has a starter that does not return, and a
  starter is woken only after the signal.
\<close>

definition starts :: "nat \<Rightarrow> place \<Rightarrow> bool" where
  "starts c p \<longleftrightarrow> p = Creates c \<or> p = Waits c"

lemma starts_simps [simp]:
  "starts c (Creates d) \<longleftrightarrow> c = d" "starts c (Waits d) \<longleftrightarrow> c = d" "\<not> starts c Running" "\<not> starts c Unborn"
  "\<not> starts c (Signals b)" "\<not> starts c Born" "\<not> starts c Cleans" "\<not> starts c (Woken d)"
  "\<not> starts c Checks"
  by (auto simp: starts_def)

lemma early_starts: "early p \<Longrightarrow> \<not> starts c p"
  by (cases p) (simp_all add: starts_def)

definition handshake :: "(nat \<Rightarrow> place) \<Rightarrow> bool" where
  "handshake P \<longleftrightarrow> (\<forall>c. early (P c) \<longrightarrow> (\<exists>t. starts c (P t))) \<and>
     (\<forall>t c. P t = Woken c \<longrightarrow> P c \<noteq> Unborn \<and> \<not> early (P c))"

lemma after_signal_simps [simp]:
  "\<not> early (after_signal b)" "after_signal b \<noteq> Unborn" "after_signal b \<noteq> Woken c"
  by (simp_all add: after_signal_def)

lemma handshakeD:
  assumes "handshake P"
  shows "early (P c) \<Longrightarrow> \<exists>t. starts c (P t)" "P t = Woken c \<Longrightarrow> P c \<noteq> Unborn"
    "P t = Woken c \<Longrightarrow> \<not> early (P c)"
  using assms by (auto simp: handshake_def)

lemma handshake_move:
  assumes "handshake P" and "\<not> early p" "p \<noteq> Unborn" "\<And>c. p \<noteq> Woken c"
    and "\<And>c. starts c (P t) \<Longrightarrow> starts c p"
  shows "handshake (P(t := p))"
proof -
  have "\<exists>u. starts c ((P(t := p)) u)" if "early (P c)" for c
    using handshakeD(1)[OF assms(1) that] assms(5) by (metis fun_upd_apply)
  then show ?thesis
    using assms(2-4) handshakeD(2,3)[OF assms(1)] by (auto simp: handshake_def)
qed

lemma handshake_grow:
  assumes "handshake P" and "early (P c)" and "early p"
  shows "handshake (P(c := p))"
proof -
  have "\<exists>u. starts d ((P(c := p)) u)" if "early (P d)" for d
    using handshakeD(1)[OF assms(1) that] early_starts[OF assms(2)] by (metis fun_upd_apply)
  then show ?thesis
    using assms handshakeD(2,3)[OF assms(1)] by (auto simp: handshake_def)
qed

lemma handshake_started:
  assumes "handshake P" and "P t = Running" and "P c = Unborn"
  shows "handshake (P(c := Born, t := Creates c))"
proof -
  have "t \<noteq> c" using assms(2,3) by auto
  have "\<exists>u. starts d ((P(c := Born, t := Creates c)) u)" if "early (P d)" for d
    using handshakeD(1)[OF assms(1) that] assms(2,3) by (metis fun_upd_apply starts_simps(3,4))
  moreover have "starts c ((P(c := Born, t := Creates c)) t)" by simp
  ultimately show ?thesis
    using assms(2,3) handshakeD(2,3)[OF assms(1)] \<open>t \<noteq> c\<close> by (auto simp: handshake_def)
qed

lemma handshake_signalled:
  assumes "handshake P" and "P c = Signals b" and "P t = Waits c"
  shows "handshake (P(c := Checks, t := Woken c))"
proof -
  have "t \<noteq> c" using assms(2,3) by auto
  have "\<exists>u. starts d ((P(c := Checks, t := Woken c)) u)" if "early (P d)" "d \<noteq> c" for d
    using handshakeD(1)[OF assms(1) that(1)] assms(2,3) that(2) by (metis fun_upd_apply starts_simps(2,5))
  then show ?thesis
    using assms(2,3) handshakeD(2,3)[OF assms(1)] \<open>t \<noteq> c\<close> by (auto simp: handshake_def)
qed

lemma handshake_step:
  assumes "handshake (places s)" and "thread_step s i e u" and "\<forall>v. e \<noteq> Spurious v"
  shows "handshake (places u)"
  using assms(2)
proof (cases rule: thread_step.cases)
  case (started c)
  then show ?thesis using handshake_started[OF assms(1)] by simp
next
  case inited
  then show ?thesis using handshake_grow[OF assms(1)] by simp
next
  case late
  then show ?thesis using handshake_grow[OF assms(1)] by simp
next
  case signalled
  then show ?thesis using handshake_signalled[OF assms(1)] by simp
qed (use assms in \<open>auto intro!: handshake_move\<close>)

lemma handshake_run:
  assumes "thread_run threads_start es s" and "\<forall>v. Spurious v \<notin> set es"
  shows "handshake (places s)"
  using assms
proof (induction threads_start es s rule: thread_run.induct)
  case run_start
  show ?case by (simp add: handshake_def threads_start_def)
next
  case (run_step es t i e u)
  then show ?case by (intro handshake_step[OF _ run_step(3)]) auto
qed

text \<open>
  C38. A start can miss its signal: its wait has no predicate and the new thread signals without the
  mutex, so once the new thread has gone past its signal, a starter that waits for it goes on
  waiting in every run in which it is not itself woken spuriously, whatever the other threads do:
  only a spurious wakeup can end its wait.
\<close>

theorem start_misses_signal:
  assumes "places s t = Waits c" and "places s c \<noteq> Unborn" and "\<not> early (places s c)"
    and "thread_run s es u" and "Spurious t \<notin> set es"
  shows "places u t = Waits c"
proof -
  have "places u t = Waits c \<and> places u c \<noteq> Unborn \<and> \<not> early (places u c)"
    using assms(4,1-3,5)
  proof (induction s es u rule: thread_run.induct)
    case (run_step s es v i e u)
    then have v: "places v t = Waits c" "places v c \<noteq> Unborn" "\<not> early (places v c)" "e \<noteq> Spurious t" by auto
    show ?case using run_step(2) v by (cases rule: thread_step.cases) auto
  qed simp
  then show ?thesis ..
qed

definition start_args :: "nat \<Rightarrow> tsys \<Rightarrow> tsys" where
  "start_args c s = s\<lparr>args := (args s)(c \<mapsto> True)\<rparr>"

lemma start_args_simps [simp]:
  "places (start_args c s) = places s" "args (start_args c s) = (args s)(c \<mapsto> True)"
  "threadIDs (start_args c s) = threadIDs s" "currentThreadRootKey (start_args c s) = currentThreadRootKey s"
  "numberOfManagedThreads (start_args c s) = numberOfManagedThreads s"
  by (simp_all add: start_args_def)

lemma threads_start_simps [simp]:
  "places threads_start = (\<lambda>_. Unborn)(0 := Running)" "args threads_start = Map.empty"
  "threadIDs threads_start = [0 \<mapsto> 0]" "currentThreadRootKey threads_start = (\<lambda>_. False)(0 := True)"
  "numberOfManagedThreads threads_start = 1"
  by (simp_all add: threads_start_def initThread_def wrap_int_same int_ok_def INT_MIN_def INT_MAX_def)

text \<open>A start by thread 0, up to the point where the new thread is about to run \<open>lateInit\<close>.\<close>

lemma run_started: "places s t = Running \<Longrightarrow> places s c = Unborn \<Longrightarrow>
    thread_step s t (Started c) (goto t (Creates c) (goto c Born (start_args c s)))"
  unfolding start_args_def by (rule started)

lemma run_late: "places s c = Initialised \<Longrightarrow>
    thread_step s c (Late b) (goto c (Signals b) (s\<lparr>args := (args s)(c \<mapsto> b)\<rparr>))"
  by (rule late)

theorem start_misses_signal_witness:
  "\<exists>s. thread_run threads_start [Started 1, Inited, Late True, Unheard, Waiting] s \<and>
     (\<forall>u. thread_run s [Checked, Finished, Cleaned] u \<longrightarrow> places u 0 = Waits 1)"
proof -
  define s1 where "s1 = goto 0 (Creates 1) (goto 1 Born (start_args 1 threads_start))"
  define s2 where "s2 = goto 1 Initialised (initThread 1 s1)"
  define s3 where "s3 = goto 1 (Signals True) (s2\<lparr>args := (args s2)(1 \<mapsto> True)\<rparr>)"
  define s4 where "s4 = goto 1 Checks s3"
  define s5 where "s5 = goto 0 (Waits 1) s4"
  note defs = s1_def s2_def s3_def s4_def s5_def
  have "thread_step threads_start 0 (Started 1) s1" unfolding s1_def by (rule run_started) simp_all
  moreover have "thread_step s1 1 Inited s2" unfolding s2_def by (rule inited) (simp add: defs)
  moreover have "thread_step s2 1 (Late True) s3" unfolding s3_def by (rule run_late) (simp add: defs)
  moreover have "thread_step s3 1 Unheard s4"
    unfolding s4_def by (rule unheard[where u = 0]) (simp_all add: defs starting_def)
  moreover have "thread_step s4 0 Waiting s5" unfolding s5_def by (rule waiting) (simp add: defs)
  ultimately have "thread_run threads_start [Started 1, Inited, Late True, Unheard, Waiting] s5"
    using run_step[OF run_step[OF run_step[OF run_step[OF run_step[OF run_start]]]]] by fastforce
  moreover have "places u 0 = Waits 1" if "thread_run s5 [Checked, Finished, Cleaned] u" for u
    by (rule start_misses_signal[OF _ _ _ that]) (simp_all add: defs)
  ultimately show ?thesis by blast
qed

text \<open>
  C39. A start whose \<open>lateInit\<close> fails never ends well: when the starter has been woken and the new
  thread is past its signal, both are going to free the same arguments, so in any run without
  undefined behaviour the starter does not return or the new thread stays before its cleanup.
\<close>

theorem failed_start_frees_twice:
  assumes "places s t = Woken c" and "places s c = Checks \<or> places s c = Cleans"
    and "args s c = Some False" and "thread_run s es u" and "Crash \<notin> set es"
  shows "places u t = Woken c \<or> places u c = Cleans \<or> places s c = Checks \<and> places u c = Checks"
proof -
  define Q where "Q p \<longleftrightarrow> p = Cleans \<or> places s c = Checks \<and> p = Checks" for p
  have Q: "Q Cleans" "Q Checks \<longleftrightarrow> places s c = Checks" "\<not> Q Running" "\<not> Q Unborn" "\<not> Q Born" "\<not> Q Initialised"
      "\<not> Q (Signals b)" "\<not> Q (Creates d)" "\<not> Q (Waits d)" "\<not> Q (Woken d)" "\<not> Q Ended" for b d
    by (auto simp: Q_def)
  have start: "Q (places s c)" using assms(2) by (auto simp: Q_def)
  have "(Q (places u c) \<and> (args u c = Some False \<and> places u t = Woken c \<or> args u c = None)) \<or>
      (places u c = Ended \<and> args u c = None \<and> places u t = Woken c)"
    using assms(4,1,3,5) start Q
  proof (induction s es u rule: thread_run.induct)
    case (run_step s es v i e u)
    then have v: "(Q (places v c) \<and> (args v c = Some False \<and> places v t = Woken c \<or> args v c = None)) \<or>
        (places v c = Ended \<and> args v c = None \<and> places v t = Woken c)" "e \<noteq> Crash" by auto
    show ?case
      using run_step(2) v run_step.prems(5-15) by (cases rule: thread_step.cases) (auto simp: after_signal_def)
  qed simp
  then show ?thesis unfolding Q_def by blast
qed

theorem failed_start_frees_twice_witness:
  "\<exists>s. thread_run threads_start [Started 1, Waiting, Inited, Late False, Signalled] s \<and>
     (\<forall>u. thread_run s [Checked, Returned False] u \<longrightarrow>
       places u 0 = Woken 1 \<or> places u 1 = Cleans \<or> places u 1 = Checks)"
proof -
  define s1 where "s1 = goto 0 (Creates 1) (goto 1 Born (start_args 1 threads_start))"
  define s2 where "s2 = goto 0 (Waits 1) s1"
  define s3 where "s3 = goto 1 Initialised (initThread 1 s2)"
  define s4 where "s4 = goto 1 (Signals False) (s3\<lparr>args := (args s3)(1 \<mapsto> False)\<rparr>)"
  define s5 where "s5 = goto 0 (Woken 1) (goto 1 Checks s4)"
  note defs = s1_def s2_def s3_def s4_def s5_def
  have "thread_step threads_start 0 (Started 1) s1" unfolding s1_def by (rule run_started) simp_all
  moreover have "thread_step s1 0 Waiting s2" unfolding s2_def by (rule waiting) (simp add: defs)
  moreover have "thread_step s2 1 Inited s3" unfolding s3_def by (rule inited) (simp add: defs)
  moreover have "thread_step s3 1 (Late False) s4" unfolding s4_def by (rule run_late) (simp add: defs)
  moreover have "thread_step s4 1 Signalled s5" unfolding s5_def by (rule signalled[where status = False]) (simp_all add: defs)
  ultimately have "thread_run threads_start [Started 1, Waiting, Inited, Late False, Signalled] s5"
    using run_step[OF run_step[OF run_step[OF run_step[OF run_step[OF run_start]]]]] by fastforce
  moreover have "places u 0 = Woken 1 \<or> places u 1 = Cleans \<or> places u 1 = Checks"
    if "thread_run s5 [Checked, Returned False] u" for u
    using failed_start_frees_twice[OF _ _ _ that, of 0 1] by (auto simp: defs)
  ultimately show ?thesis by blast
qed

subsection \<open>The end of a machine\<close>

definition component_names :: "string list" where
  "component_names = [''stack'', ''value'', ''statics'', ''hashtable'', ''global_table'', ''string_cache'',
     ''caches'', ''bytecode'', ''bytecode_loader_json'', ''closure'', ''coroutine'',
     ''fluffyvm_compat_layer_lua54'', ''cache_poller'']"

text \<open>
  \<open>commonCleanup\<close> calls the cleanup functions backwards from the last component whose initialisation
  was begun, all of them for a negative number. \<open>init_counted\<close> is the loop of \<open>fluffyvm_new\<close> with its
  counter.
\<close>

definition commonCleanup :: "int \<Rightarrow> string list" where
  "commonCleanup initCounts =
     rev (take (if initCounts < 0 then length component_names else nat initCounts) component_names)"

fun init_counted :: "nat \<Rightarrow> (vm \<Rightarrow> (bool, vm) res) list \<Rightarrow> vm \<Rightarrow> (nat \<times> bool, vm) res" where
  "init_counted initCounts [] s = Ok (initCounts, True) s"
| "init_counted initCounts (f # fs) s =
     rbind (f s) (\<lambda>ok s. if \<not> ok then Ok (Suc initCounts, False) s else init_counted (Suc initCounts) fs s)"

lemma init_counted_components:
  "init_components fs s = rbind (init_counted n fs s) (\<lambda>(_, ok) s. Ok ok s)"
proof (induction fs arbitrary: n s)
  case (Cons f fs)
  show ?case by (cases "f s") (simp_all add: Cons.IH[of _ "Suc n"])
qed simp

lemma init_counted_failed:
  "init_counted k fs s = Ok (n, False) t \<Longrightarrow> \<exists>u j. n = k + Suc j \<and> j < length fs \<and>
     init_components (take j fs) s = Ok True u \<and> (fs ! j) u = Ok False t"
proof (induction fs arbitrary: k s)
  case (Cons f fs)
  then obtain ok u where f: "f s = Ok ok u" by (auto simp: res_simps)
  show ?case
  proof (cases ok)
    case True
    then obtain v j where "n = Suc k + Suc j" "j < length fs" "init_components (take j fs) u = Ok True v"
        "(fs ! j) v = Ok False t"
      using Cons.IH[of "Suc k" u] Cons.prems f by auto
    then show ?thesis using f True by (intro exI[of _ v] exI[of _ "Suc j"]) simp
  next
    case False
    then show ?thesis using Cons.prems f by (intro exI[of _ s] exI[of _ 0]) auto
  qed
qed simp

text \<open>
  A thread that is managed frees the machine unless more than two threads are; the state of the
  machine is gone then, so only the cleanup calls and the bookkeeping are left.
\<close>

definition fluffyvm_free :: "nat \<Rightarrow> tsys \<Rightarrow> (string list, tsys) res" where
  "fluffyvm_free t s =
     rbind (validateThisThread t s) (\<lambda>_ s.
       if 2 < numberOfManagedThreads s then Fault Aborted
       else Ok (commonCleanup (-1)) (cleanThread t s))"

text \<open>
  When \<open>fluffyvm_new\<close> fails in the \<open>n\<close>th component, the cleanup functions that run are those of the
  components before it, and its own, in reverse order.
\<close>

theorem cleanup_mirrors_boot:
  assumes "init_counted 0 (component_inits ex desc created tramp modules) s = Ok (n, False) t"
  shows "init_components (component_inits ex desc created tramp modules) s = Ok False t \<and>
    (\<exists>u. init_components (take (n - 1) (component_inits ex desc created tramp modules)) s = Ok True u \<and>
       (component_inits ex desc created tramp modules ! (n - 1)) u = Ok False t) \<and>
    length (commonCleanup (int n)) = n \<and>
    commonCleanup (int n) = (component_names ! (n - 1)) # rev (take (n - 1) component_names)"
proof -
  let ?fs = "component_inits ex desc created tramp modules"
  obtain u j where j: "n = Suc j" "j < length ?fs" "init_components (take j ?fs) s = Ok True u"
      "(?fs ! j) u = Ok False t"
    using init_counted_failed[OF assms] by auto
  have "j < length component_names" using j(2) by (simp add: component_inits_def component_names_def)
  moreover have "nat (1 + int j) = Suc j" by simp
  ultimately show ?thesis
    using j assms init_counted_components[of ?fs s 0]
    by (auto simp: commonCleanup_def take_Suc_conv_app_nth)
qed

theorem cleanup_mirrors_boot_witness:
  "commonCleanup 3 = [''statics'', ''value'', ''stack''] \<and>
   init_components (component_inits sample_ext (\<lambda>_. True) True 7 0) (blank_vm\<lparr>mem := \<lambda>_. False\<rparr>) =
     Ok False (outOfMemory_errmsg (blank_vm\<lparr>mem := \<lambda>_. False, brk := 1, staticStrings := \<lambda>_. VNotPresent\<rparr>))"
proof -
  let ?s = "blank_vm\<lparr>mem := \<lambda>_. False\<rparr>"
  have s: "statics_init ?s =
      Ok False (outOfMemory_errmsg (?s\<lparr>brk := 1, staticStrings := \<lambda>_. VNotPresent\<rparr>))"
    by (simp add: statics_init_def all_static_strings_def value_new_string_constant_def
        value_new_string2_constant_def value_string_allocator_def string_cache_create_string_def
        gc_alloc_def blank_vm_def)
  have "init_counted 0 (component_inits sample_ext (\<lambda>_. True) True 7 0) ?s =
      Ok (3, False) (outOfMemory_errmsg (?s\<lparr>brk := 1, staticStrings := \<lambda>_. VNotPresent\<rparr>))"
    by (simp add: component_inits_def s)
  from cleanup_mirrors_boot[OF this] show ?thesis by (simp add: component_names_def numeral_3_eq_3)
qed

text \<open>
  C40. The check of \<open>fluffyvm_free\<close> is sound without spurious wakeups: when a running thread frees the
  machine while one other thread runs, as the cache poller does, no third thread is left, not even
  one that is only being started.
\<close>

theorem free_is_alone:
  assumes "thread_run threads_start es s" and "\<forall>v. Spurious v \<notin> set es" and "length es < 2 ^ 31 - 1"
    and "places s t = Running" and "places s q = Running" and "t \<noteq> q" and "fluffyvm_free t s = Ok calls u"
  shows "calls = rev component_names \<and> (\<forall>v. v \<noteq> t \<longrightarrow> v \<noteq> q \<longrightarrow> places s v = Unborn \<or> places s v = Ended)"
proof -
  let ?M = "{v. managed (places s v)}"
  have i: "ids_inv (length es) s" by (rule ids_inv_run[OF assms(1,3)])
  then have M: "dom (threadIDs s) = ?M" by (auto simp: ids_inv_def dom_def)
  have c: "calls = rev component_names" "card ?M \<le> 2" "finite ?M"
    using assms(7) i M
    by (auto simp: fluffyvm_free_def validateThisThread_def commonCleanup_def ids_inv_def split: if_splits)
  have "{t, q} \<subseteq> ?M" using assms(4,5) by simp
  moreover have "card {t, q} = 2" using assms(6) by simp
  ultimately have e: "?M = {t, q}" using c(2,3) card_seteq[of ?M "{t, q}"] by simp
  have "places s v = Unborn \<or> places s v = Ended" if "v \<noteq> t" "v \<noteq> q" for v
  proof (rule ccontr)
    assume "\<not> (places s v = Unborn \<or> places s v = Ended)"
    moreover have "\<not> managed (places s v)" using e that by auto
    ultimately have "places s v = Born" by (auto simp: managed_def)
    then obtain w where w: "starts v (places s w)"
      using handshakeD(1)[OF handshake_run[OF assms(1,2)], of v] by auto
    then have "w \<in> ?M" by (auto simp: starts_def)
    then show False using e w assms(4,5) by auto
  qed
  then show ?thesis using c(1) by simp
qed

text \<open>The thread that has the machine, and its cache poller, which has been started.\<close>

theorem free_is_alone_witness:
  "\<exists>s u. thread_run threads_start [Started 1, Waiting, Inited, Late True, Signalled, Checked, Returned True] s \<and>
     fluffyvm_free 0 s = Ok (rev component_names) u \<and> (\<forall>v. v \<noteq> 0 \<longrightarrow> v \<noteq> 1 \<longrightarrow> places s v = Unborn)"
proof -
  define s1 where "s1 = goto 0 (Creates 1) (goto 1 Born (start_args 1 threads_start))"
  define s2 where "s2 = goto 0 (Waits 1) s1"
  define s3 where "s3 = goto 1 Initialised (initThread 1 s2)"
  define s4 where "s4 = goto 1 (Signals True) (s3\<lparr>args := (args s3)(1 \<mapsto> True)\<rparr>)"
  define s5 where "s5 = goto 0 (Woken 1) (goto 1 Checks s4)"
  define s6 where "s6 = goto 0 Running (goto 1 (after_signal True) s5)"
  note defs = s1_def s2_def s3_def s4_def s5_def s6_def
  have "thread_step threads_start 0 (Started 1) s1" unfolding s1_def by (rule run_started) simp_all
  moreover have "thread_step s1 0 Waiting s2" unfolding s2_def by (rule waiting) (simp add: defs)
  moreover have "thread_step s2 1 Inited s3" unfolding s3_def by (rule inited) (simp add: defs)
  moreover have "thread_step s3 1 (Late True) s4" unfolding s4_def by (rule run_late) (simp add: defs)
  moreover have "thread_step s4 1 Signalled s5" unfolding s5_def by (rule signalled[where status = True]) (simp_all add: defs)
  moreover have "thread_step s5 1 Checked (goto 1 (after_signal True) s5)" by (rule checked) (simp_all add: defs)
  moreover have "thread_step (goto 1 (after_signal True) s5) 0 (Returned True) s6"
    unfolding s6_def by (rule returned[where c = 1]) (simp_all add: defs)
  ultimately have r: "thread_run threads_start [Started 1, Waiting, Inited, Late True, Signalled, Checked, Returned True] s6"
    using run_step[OF run_step[OF run_step[OF run_step[OF run_step[OF run_step[OF run_step[OF run_start]]]]]]]
    by fastforce
  have "numberOfManagedThreads s6 = 2"
    by (simp add: defs initThread_def wrap_int_same int_ok_def INT_MIN_def INT_MAX_def)
  moreover have "currentThreadRootKey s6 0" by (simp add: defs)
  ultimately obtain u where u: "fluffyvm_free 0 s6 = Ok (commonCleanup (-1)) u"
    by (simp add: fluffyvm_free_def validateThisThread_def)
  have f: "commonCleanup (-1) = rev component_names \<and>
      (\<forall>v. v \<noteq> 0 \<longrightarrow> v \<noteq> 1 \<longrightarrow> places s6 v = Unborn \<or> places s6 v = Ended)"
    by (rule free_is_alone[OF r _ _ _ _ _ u]) (simp_all add: defs after_signal_def)
  moreover have "places s6 v \<noteq> Ended" for v by (simp add: defs after_signal_def)
  ultimately show ?thesis using r u by (intro exI[of _ s6] exI[of _ u]) auto
qed

end
