(* ===== verification/Spec2Isabelle.thy ===== *)
theory Spec2Isabelle
  imports Hashing Values Hashtable Stack Bytecode Fiber Coroutine Interpreter Calls Util Lua54
    LuaContracts DoubleFacts JsonLoader Machine Host WellFormed ControlInvariant HeapProperty
    HeapInvariant ThreadContracts MachineRefinement Natives CoroutineErrors ProgramRuns Iso8601 HexCodec Binary Queue Foreach RefCounter Threads
begin

text \<open>
  FluffyVM is a virtual machine for a Lua-like language: a register machine with coroutines,
  whose values live in the heap of the FoxGC collector and which is driven through its own C
  interface or through a layer that imitates the C API of Lua 5.4. This development models its C
  code under \<open>src/src\<close>.

  \<^bold>\<open>Parts and theories.\<close>
  \<^item> \<open>Prelude\<close>: the result \<open>('a, 's) res\<close> of a C function (return, \<open>longjmp\<close>, fault), how calls are
    sequenced (\<open>rbind\<close>), and what the theories share on lists and the range of \<open>int\<close>.
  \<^item> \<open>Doubles\<close>, \<open>DoubleFacts\<close>: \<open>double\<close> as its IEEE 754 pattern; integers of 53 bits are exact.
  \<^item> \<open>Model\<close>: the structs of the headers (\<open>value.h\<close>, \<open>hashtable.h\<close>, \<open>stack.h\<close>, \<open>bytecode.h\<close>, \<open>closure.h\<close>,
    \<open>coroutine.h\<close>, \<open>fiber.h\<close>, \<open>fluffyvm.h\<close>) and the state \<open>vm\<close>: one store per kind of collected object,
    indexed by addresses, and the fields of \<open>struct fluffyvm\<close> with those of the running thread.
  \<^item> \<open>Hashing\<close> (\<open>hashing.c\<close>), \<open>Values\<close> (\<open>value.c\<close>): strings, userdata, hash codes and their cache,
    equality, conversions, arithmetic and comparison.
  \<^item> \<open>Hashtable\<close> (\<open>hashtable.c\<close>, tables of \<open>value.c\<close>), \<open>Stack\<close> (\<open>stack.c\<close>).
  \<^item> \<open>Bytecode\<close> (\<open>bytecode.c\<close>, \<open>closure.c\<close>) and \<open>JsonLoader\<close> (\<open>loader/bytecode/json.c\<close>): from bytes or JSON
    to prototypes and constants.
  \<^item> \<open>Fiber\<close> (\<open>fiber.c\<close>), \<open>Coroutine\<close> (\<open>coroutine.c\<close>, the nesting in \<open>fluffyvm.c\<close>): frames, resume, yield.
  \<^item> \<open>Interpreter\<close> (\<open>interpreter.c\<close>, \<open>opcodes.h\<close>): one handler per opcode, the loop, native calls,
    errors; \<open>Calls\<close>: the contracts of its calls. \<open>RegisterMachine\<close>: an abstract machine for bytecode
    and what one instruction does; \<open>MachineRefinement\<close>: the interpreter implements that machine;
    \<open>Natives\<close>: the functions \<open>main.c\<close> registers conform to what that machine takes them to do;
    \<open>CoroutineErrors\<close>: errors of programs that leave their coroutine;
    \<open>ProgramRuns\<close>: bytecode from the routine of \<open>main.c\<close> to its end.
  \<^item> \<open>Lua54\<close> (\<open>api_layer/lua54.c\<close>) and \<open>LuaContracts\<close>: the C API and what it does to its stack.
  \<^item> \<open>Machine\<close> (\<open>fluffyvm.c\<close>): static strings, global table, boot, starting threads.
  \<^item> \<open>Host\<close> (\<open>main.c\<close>): the functions for programs and the routine of a thread; \<open>ThreadContracts\<close>: what
    \<open>lua_newthread\<close>, \<open>lua_xmove\<close>, \<open>lua_resume\<close>, the trampoline and that routine do together.
  \<^item> \<open>WellFormed\<close>, \<open>ControlInvariant\<close>: the invariant of frames, call stacks and nesting, for the
    interpreter, coroutines, the C API and the boot, and the states a machine in use can reach.
  \<^item> \<open>HeapProperty\<close>, \<open>HeapInvariant\<close>: what holds of the heap of such a machine.
  \<^item> \<open>Threads\<close> (\<open>fluffyvm.c\<close>): thread numbers, starting a thread step by step, the end of a machine.
  \<^item> \<open>Util\<close>, \<open>Iso8601\<close>, \<open>HexCodec\<close> (\<open>util/util.c\<close>), \<open>Binary\<close> (\<open>util/binary.h\<close>), \<open>Queue\<close>
    (\<open>collections/queue.c\<close>), \<open>RefCounter\<close> (\<open>ref_counter.c\<close>), \<open>Foreach\<close> (\<open>util/functional\<close>, \<open>block_release_pool.c\<close>, \<open>stream.c\<close>).

  A native call goes from \<open>lua_call\<close> through \<open>interpreter_call\<close> to the frame that
  \<open>coroutine_function_prolog\<close> pushes, runs the host function or \<open>interpreter_exec\<close>, and returns through
  \<open>coroutine_function_epilog\<close>; an error leaves by \<open>Throw\<close> to \<open>interpreter_xpcall\<close> or to the task of the
  coroutine, which stores it for \<open>coroutine_resume\<close>.

  \<^bold>\<open>What the lemmas show.\<close>
  \<^item> Data: a table refines an association map up to key equality through growth and removal, is
    walked entry by entry, and faults exactly when a colliding key is added; equality through
    cached hash codes is equality of values; stacks and the general stack of a frame refine bounded
    lists (locale \<open>bounded_stack\<close>); keyed storage is the locale \<open>key_store\<close>, rotation the locale
    \<open>array_access\<close>. Each is interpreted on the functions of the code.
  \<^item> Loading: a valid message is mirrored by the loaded object, an invalid one refused; a message
    written as JSON reaches the loader unchanged up to zero bytes in strings.
  \<^item> Control: prolog and epilog are symmetric; calls pass arguments and results; the program
    counter stays in its function; a protected call restores the call stack; an error that a program
    raises in a coroutine and does not catch ends it (\<open>coroutine_error_ends_it\<close>); fibers follow their life cycle under any order of events (rule induction on
    \<open>fiber_run\<close>); decoding inverts encoding.
  \<^item> Every reachable state: booting establishes the control invariant \<open>vm_wf\<close>, every call into the machine
    preserves it, on return and on a throw (rule induction on \<open>machine_reaches\<close>). A property of the
    heap that survives growth, new strings and cached hash codes survives every call (locale
    \<open>heap_property\<close>): so no object disappears, strings never change, and equality is right everywhere.
  \<^item> Meaning of bytecode: on code without table access, closure creation and conditions the
    interpreter refines the register machine \<open>run\<close>, nested calls, native functions, errors and call
    stack overflow included (\<open>interpreter_implements_machine\<close>). A native function is specified by what
    it makes of its arguments, which the host has to conform to (\<open>conforms\<close>); \<open>print\<close> of strings, \<open>error\<close>
    and \<open>getCPUTime\<close> do (\<open>main_natives_conform\<close>). A protected call returns what the machine says, catches
    its errors at any depth, and deadlocks on overflow (\<open>protected_call_runs\<close>).
  \<^item> Programs: a loaded function runs through thread, resume, trampoline and call to its end
    (\<open>bytecode_program_runs\<close>, over the register machine), and
    whatever it does the routine of a thread cleans up.
  \<^item> C API: indices, pushes, rotation, calls, moving values between threads.
  \<^item> Machine: booting gives a consistent machine; starting a thread leaves the starter alone but
    replaces the main thread.
  \<^item> Threads: under every interleaving (\<open>queue_run\<close>) the queue is first in, first out and loses no
    wakeup, but its bounds fail after stolen wakeups; a parallel loop ends and gives each element to one
    thread; thread numbers are distinct and counted, a start that misses the signal ends only by a
    spurious wakeup, one that fails frees twice, and freeing the machine is guarded soundly (rule inductions on
    \<open>foreach_run\<close> and \<open>thread_run\<close>); a reference counter lives as long as it is owned.

  \<^bold>\<open>Bounds and fuel.\<close> C integers are integers whose overflow is a fault, or words where the code
  relies on the pattern (longs, instructions, hash codes). \<open>interpreter_exec\<close> takes fuel, one unit per
  call and per instruction, since programs may run forever; a run that ends does so in the same way
  with any larger amount (\<open>exec_more_fuel\<close>), so results do not depend on the fuel chosen. For the
  register machine \<open>(d + 1) * (M + 2)\<close> is enough, where \<open>d\<close> is the room on the call stack and no function
  has more than \<open>M\<close> instructions: each frame executes each of its instructions at most once. The other
  loops of the code are structural recursions.

  \<^bold>\<open>Parameters.\<close> The record \<open>ext\<close> holds XXH64, \<open>pow\<close>, \<open>strtod\<close> and what \<open>printf\<close> prints for a \<open>double\<close>; the
  protobuf decoder and packer, the JSON parser, host functions, the continuations of context
  switches and the linked list are arguments. The collector may refuse any allocation (\<open>mem\<close>); it
  never moves or frees what is reachable, so root references have no part, and it gives zeroed memory
  for objects: members the code does not store, as the \<open>pc\<close> of a frame, start as zero. The call of
  \<open>fluffyvm_start_thread\<close> in \<open>Machine\<close> is the one whose handshake succeeds; \<open>Threads\<close> has every course
  of it. Equal keys of a table are equal values with equal hash codes, which tells 0.0 from -0.0 as
  the code does. Of a stack trace only the walk over the frames is modelled, not its text.

  \<^bold>\<open>Not modelled.\<close> Registration of descriptors with the collector and the bodies of the cleanup
  functions, which only free; failures of \<open>malloc\<close> and \<open>calloc\<close>; \<open>util_is_matched\<close> and the
  \<open>printf\<close> helpers (C library calls); \<open>auto_cleanups.c\<close>; of \<open>main.c\<close> the collector's statistics and set-up; \<open>main2.c\<close> (inside \<open>#if 0\<close>);
  \<open>lua_callk\<close> and the lookup of the string cache, which are commented out.
\<close>

end
